(* ===== verification/Prelude.thy ===== *)
theory Prelude
  imports Main "HOL-Library.Word" "HOL-Library.Multiset"
begin

text \<open>
  Shared vocabulary of the development: machine integers, byte strings, the three-valued
  result of a Rust call (a value, an error returned with \<^verbatim>\<open>Err\<close>, or a panic), the
  little-endian and big-endian encodings of fixed-width integers, decimal printing and
  parsing, and the generic lemmas on lists that the components rely on.
\<close>

section \<open>Collections of facts\<close>

named_theorems res_simps \<open>rewriting of results and readers\<close>
named_theorems codec_defs \<open>definitions of the writers and readers of the wire format\<close>
named_theorems wf_defs \<open>well-formedness predicates of wire structures\<close>

section \<open>Machine integers and byte strings\<close>

type_synonym u8 = "8 word"
type_synonym u16 = "16 word"
type_synonym u32 = "32 word"
type_synonym u64 = "64 word"
type_synonym bytes = "u8 list"

section \<open>Results of calls\<close>

text \<open>
  A Rust function that returns \<^verbatim>\<open>Result<T, E>\<close> either yields \<^verbatim>\<open>Ok\<close>, yields
  \<^verbatim>\<open>Err\<close>, or panics (an \<^verbatim>\<open>unwrap\<close> or \<^verbatim>\<open>expect\<close> that fails, an index out of
  range, an arithmetic overflow of a checked build).
\<close>

datatype ('e, 'a) res = Ok 'a | Err 'e | Panic

definition rbind :: "('e, 'a) res \<Rightarrow> ('a \<Rightarrow> ('e, 'b) res) \<Rightarrow> ('e, 'b) res" where
  "rbind r f = (case r of Ok x \<Rightarrow> f x | Err e \<Rightarrow> Err e | Panic \<Rightarrow> Panic)"

definition rmap_err :: "('e \<Rightarrow> 'f) \<Rightarrow> ('e, 'a) res \<Rightarrow> ('f, 'a) res" where
  "rmap_err g r = (case r of Ok x \<Rightarrow> Ok x | Err e \<Rightarrow> Err (g e) | Panic \<Rightarrow> Panic)"

text \<open>\<^verbatim>\<open>unwrap\<close> and \<^verbatim>\<open>expect\<close>: an error becomes a panic.\<close>

definition unwrap :: "('e, 'a) res \<Rightarrow> ('f, 'a) res" where
  "unwrap r = (case r of Ok x \<Rightarrow> Ok x | Err e \<Rightarrow> Panic | Panic \<Rightarrow> Panic)"

lemma rbind_simps [simp, res_simps]:
  "rbind (Ok x) f = f x"
  "rbind (Err e) f = Err e"
  "rbind Panic f = Panic"
  by (simp_all add: rbind_def)

lemma rmap_err_simps [simp, res_simps]:
  "rmap_err g (Ok x) = Ok x"
  "rmap_err g (Err e) = Err (g e)"
  "rmap_err g Panic = Panic"
  by (simp_all add: rmap_err_def)

lemma unwrap_simps [simp, res_simps]:
  "unwrap (Ok x) = Ok x"
  "unwrap (Err e) = Panic"
  "unwrap Panic = Panic"
  by (simp_all add: unwrap_def)

lemma rbind_eq_Ok [simp]: "rbind r f = Ok y \<longleftrightarrow> (\<exists>x. r = Ok x \<and> f x = Ok y)"
  by (cases r) auto

lemma rbind_eq_Err: "rbind r f = Err e \<longleftrightarrow> r = Err e \<or> (\<exists>x. r = Ok x \<and> f x = Err e)"
  by (cases r) auto

lemma rbind_eq_Panic: "rbind r f = Panic \<longleftrightarrow> r = Panic \<or> (\<exists>x. r = Ok x \<and> f x = Panic)"
  by (cases r) auto

lemma rmap_err_eq_Ok [simp]: "rmap_err g r = Ok x \<longleftrightarrow> r = Ok x"
  by (cases r) auto

lemma unwrap_eq_Ok [simp]: "unwrap r = Ok x \<longleftrightarrow> r = Ok x"
  by (cases r) auto

lemma rbind_assoc: "rbind (rbind r f) g = rbind r (\<lambda>x. rbind (f x) g)"
  by (cases r) auto

text \<open>An option of a library whose \<open>None\<close> the code turns into a panic.\<close>

definition of_opt :: "'a option \<Rightarrow> ('e, 'a) res" where
  "of_opt x = (case x of None \<Rightarrow> Panic | Some y \<Rightarrow> Ok y)"

lemma of_opt_Ok [simp]: "of_opt x = Ok y \<longleftrightarrow> x = Some y"
  by (simp add: of_opt_def split: option.splits)

section \<open>Calls that change state\<close>

text \<open>
  A call that takes and leaves a state, whatever its result: the state is kept also when the
  call fails, since the code has changed it by then.
\<close>

type_synonym ('s, 'e, 'a) call = "'s \<Rightarrow> ('e, 'a) res \<times> 's"

definition sbind :: "('s, 'e, 'a) call \<Rightarrow> ('a \<Rightarrow> ('s, 'e, 'b) call) \<Rightarrow> ('s, 'e, 'b) call" where
  "sbind p f = (\<lambda>s. case p s of
     (Ok x, s') \<Rightarrow> f x s' | (Err e, s') \<Rightarrow> (Err e, s') | (Panic, s') \<Rightarrow> (Panic, s'))"

definition slift :: "('e, 'a) res \<Rightarrow> ('s, 'e, 'a) call" where
  "slift r = (\<lambda>s. (r, s))"

definition sget :: "('s \<Rightarrow> ('e, 'a) res) \<Rightarrow> ('s, 'e, 'a) call" where
  "sget f = (\<lambda>s. (f s, s))"

definition smod :: "('s \<Rightarrow> 's) \<Rightarrow> ('s, 'e, unit) call" where
  "smod f = (\<lambda>s. (Ok (), f s))"

text \<open>\<^verbatim>\<open>map_err\<close> on a call.\<close>

definition smap_err :: "('e \<Rightarrow> 'f) \<Rightarrow> ('s, 'e, 'a) call \<Rightarrow> ('s, 'f, 'a) call" where
  "smap_err g c = (\<lambda>s. case c s of (r, s') \<Rightarrow> (rmap_err g r, s'))"

text \<open>\<^verbatim>\<open>unwrap\<close> and \<^verbatim>\<open>expect\<close> of a call.\<close>

definition sunwrap :: "('s, 'e, 'a) call \<Rightarrow> ('s, 'f, 'a) call" where
  "sunwrap c = (\<lambda>s. case c s of (r, s') \<Rightarrow> (unwrap r, s'))"

lemma sbind_simps [simp]:
  "p s = (Ok x, s') \<Longrightarrow> sbind p f s = f x s'"
  "p s = (Err e, s') \<Longrightarrow> sbind p f s = (Err e, s')"
  "p s = (Panic, s') \<Longrightarrow> sbind p f s = (Panic, s')"
  by (simp_all add: sbind_def)

lemma slift_apply [simp]: "slift r s = (r, s)"
  by (simp add: slift_def)

lemma sget_apply [simp]: "sget f s = (f s, s)"
  by (simp add: sget_def)

lemma smod_apply [simp]: "smod f s = (Ok (), f s)"
  by (simp add: smod_def)

lemma sbind_eq_Ok:
  "sbind p f s = (Ok y, s') \<longleftrightarrow> (\<exists>x s1. p s = (Ok x, s1) \<and> f x s1 = (Ok y, s'))"
  by (auto simp: sbind_def split: prod.splits res.splits)

lemma smap_err_eq_Ok [simp]: "smap_err g c s = (Ok x, s') \<longleftrightarrow> c s = (Ok x, s')"
  by (auto simp: smap_err_def split: prod.splits)

lemma sunwrap_eq_Ok [simp]: "sunwrap c s = (Ok x, s') \<longleftrightarrow> c s = (Ok x, s')"
  by (auto simp: sunwrap_def split: prod.splits)

section \<open>Fixed-width integers as bytes\<close>

fun le_bytes :: "nat \<Rightarrow> nat \<Rightarrow> bytes" where
  "le_bytes 0 v = []"
| "le_bytes (Suc n) v = of_nat (v mod 256) # le_bytes n (v div 256)"

fun le_val :: "bytes \<Rightarrow> nat" where
  "le_val [] = 0"
| "le_val (b # bs) = unat b + 256 * le_val bs"

definition be_bytes :: "nat \<Rightarrow> nat \<Rightarrow> bytes" where
  "be_bytes n v = rev (le_bytes n v)"

definition be_val :: "bytes \<Rightarrow> nat" where
  "be_val bs = le_val (rev bs)"

lemma length_le_bytes [simp]: "length (le_bytes n v) = n"
  by (induction n arbitrary: v) auto

lemma length_be_bytes [simp]: "length (be_bytes n v) = n"
  by (simp add: be_bytes_def)

lemma unat_byte_of_mod [simp]: "unat (of_nat (v mod 256) :: u8) = v mod 256"
  by (simp add: unat_of_nat)

lemma unat_u8_less: "unat (b :: u8) < 256"
  by (rule unsigned_less [where 'a = nat, of b, simplified])

lemma le_val_le_bytes [simp]: "le_val (le_bytes n v) = v mod 256 ^ n"
proof (induction n arbitrary: v)
  case (Suc n)
  have "le_val (le_bytes (Suc n) v) = v mod 256 + 256 * (v div 256 mod 256 ^ n)"
    using Suc by simp
  also have "\<dots> = v mod (256 * 256 ^ n)"
    by (simp add: mod_mult2_eq)
  finally show ?case by simp
qed simp

lemma le_val_less: "le_val bs < 256 ^ length bs"
proof (induction bs)
  case (Cons b bs)
  have "unat b + 256 * le_val bs < 256 + 256 * le_val bs"
    using unat_u8_less by simp
  also have "\<dots> = 256 * Suc (le_val bs)" by simp
  also have "\<dots> \<le> 256 * 256 ^ length bs"
    using Cons by (intro mult_le_mono2 Suc_leI)
  finally show ?case by simp
qed simp

lemma le_bytes_le_val [simp]: "le_bytes (length bs) (le_val bs) = bs"
proof (induction bs)
  case (Cons b bs)
  have "(unat b + 256 * le_val bs) mod 256 = unat b"
    using unat_u8_less [of b] by simp
  moreover have "(unat b + 256 * le_val bs) div 256 = le_val bs"
    using unat_u8_less [of b] by simp
  ultimately show ?case using Cons by simp
qed simp

lemma le_val_inject: "length xs = length ys \<Longrightarrow> le_val xs = le_val ys \<longleftrightarrow> xs = ys"
  by (metis le_bytes_le_val)

lemma le_val_append: "le_val (xs @ ys) = le_val xs + 256 ^ length xs * le_val ys"
  by (induction xs) (auto simp: algebra_simps)

lemma be_val_be_bytes [simp]: "be_val (be_bytes n v) = v mod 256 ^ n"
  by (simp add: be_val_def be_bytes_def)

lemma le_bytes_unat_word:
  "of_nat (le_val (le_bytes n (unat (w :: 'a::len word)))) = w"
  if "256 ^ n = (2 :: nat) ^ LENGTH('a)"
proof -
  have "unat w < 256 ^ n" using that by simp
  then show ?thesis by simp
qed

section \<open>Decimal numerals\<close>

text \<open>\<^verbatim>\<open>{}\<close> of an unsigned integer, and \<^verbatim>\<open>str::parse::<u64>\<close>.\<close>

definition digit_char :: "nat \<Rightarrow> char" where
  "digit_char d = char_of (48 + d)"

fun show_nat :: "nat \<Rightarrow> string" where
  "show_nat n = (if n < 10 then [digit_char n] else show_nat (n div 10) @ [digit_char (n mod 10)])"

declare show_nat.simps [simp del]

definition show_int :: "int \<Rightarrow> string" where
  "show_int i = (if i < 0 then ''-'' @ show_nat (nat (- i)) else show_nat (nat i))"

fun join :: "string \<Rightarrow> string list \<Rightarrow> string" where
  "join sep [] = []"
| "join sep [s] = s"
| "join sep (s # t # ts) = s @ sep @ join sep (t # ts)"

text \<open>\<^verbatim>\<open>{:?}\<close> of a byte array.\<close>

definition show_bytes :: "bytes \<Rightarrow> string" where
  "show_bytes bs = ''['' @ join '', '' (map (\<lambda>b. show_nat (unat b)) bs) @ '']''"

definition digit_val :: "char \<Rightarrow> nat option" where
  "digit_val c = (let n = of_char c :: nat in if 48 \<le> n \<and> n \<le> 57 then Some (n - 48) else None)"

fun parse_digits :: "nat \<Rightarrow> string \<Rightarrow> nat option" where
  "parse_digits acc [] = Some acc"
| "parse_digits acc (c # cs) =
     (case digit_val c of
        None \<Rightarrow> None
      | Some d \<Rightarrow> (if 10 * acc + d < 2 ^ 64 then parse_digits (10 * acc + d) cs else None))"

definition parse_u64 :: "string \<Rightarrow> u64 option" where
  "parse_u64 s =
     (let ds = (case s of [] \<Rightarrow> [] | c # cs \<Rightarrow> if c = CHR ''+'' then cs else s)
      in if ds = [] then None else map_option of_nat (parse_digits 0 ds))"

lemma digit_val_digit_char [simp]: "d < 10 \<Longrightarrow> digit_val (digit_char d) = Some d"
  by (simp add: digit_val_def digit_char_def)

lemma digit_char_neq: "d < 10 \<Longrightarrow> digit_val c = None \<Longrightarrow> digit_char d \<noteq> c"
  using digit_val_digit_char by fastforce

lemma digit_char_not_plus: "d < 10 \<Longrightarrow> digit_char d \<noteq> CHR ''+''"
  by (rule digit_char_neq) (simp_all add: digit_val_def)

lemma digit_char_not_underscore: "d < 10 \<Longrightarrow> digit_char d \<noteq> CHR ''_''"
  by (rule digit_char_neq) (simp_all add: digit_val_def)

lemma show_nat_nonempty [simp]: "show_nat n \<noteq> []"
  by (subst show_nat.simps) simp

lemma set_show_nat: "c \<in> set (show_nat n) \<Longrightarrow> \<exists>d < 10. c = digit_char d"
proof (induction n rule: show_nat.induct)
  case (1 n)
  show ?case
  proof (cases "n < 10")
    case True
    with 1 show ?thesis by (auto simp: show_nat.simps [of n])
  next
    case False
    with 1 show ?thesis
      by (cases "c \<in> set (show_nat (n div 10))") (auto simp: show_nat.simps [of n] intro: exI [of _ "n mod 10"])
  qed
qed

lemma parse_digits_append:
  "parse_digits acc (xs @ ys) = Option.bind (parse_digits acc xs) (\<lambda>a. parse_digits a ys)"
  by (induction xs arbitrary: acc) (auto split: option.splits)

lemma parse_digits_show_nat: "n < 2 ^ 64 \<Longrightarrow> parse_digits 0 (show_nat n) = Some n"
proof (induction n rule: show_nat.induct)
  case (1 n)
  show ?case
  proof (cases "n < 10")
    case True
    then show ?thesis by (subst show_nat.simps) simp
  next
    case False
    then have "parse_digits 0 (show_nat (n div 10)) = Some (n div 10)"
      using 1 by simp
    then show ?thesis
      using False "1.prems" by (subst show_nat.simps) (simp add: parse_digits_append)
  qed
qed

lemma parse_u64_show_nat: "parse_u64 (show_nat (unat w)) = Some w"
proof -
  obtain c cs where c: "show_nat (unat w) = c # cs"
    using show_nat_nonempty by (meson neq_Nil_conv)
  then have "c \<noteq> CHR ''+''"
    using set_show_nat [of c "unat w"] digit_char_not_plus by auto
  moreover have "parse_digits 0 (show_nat (unat w)) = Some (unat w)"
    using unsigned_less [of w, where 'a = nat] by (intro parse_digits_show_nat) simp
  ultimately show ?thesis using c by (simp add: parse_u64_def)
qed

section \<open>UTF-8\<close>

definition utf8_cont :: "u8 \<Rightarrow> bool" where
  "utf8_cont b \<longleftrightarrow> 0x80 \<le> b \<and> b \<le> 0xBF"

text \<open>The continuation bytes a first byte asks for: bounds on the second byte, and how many follow it.\<close>

definition utf8_lead :: "u8 \<Rightarrow> (u8 \<times> u8 \<times> nat) option" where
  "utf8_lead b =
     (if 0xC2 \<le> b \<and> b \<le> 0xDF then Some (0x80, 0xBF, 0)
      else if b = 0xE0 then Some (0xA0, 0xBF, 1)
      else if b = 0xED then Some (0x80, 0x9F, 1)
      else if 0xE1 \<le> b \<and> b \<le> 0xEF then Some (0x80, 0xBF, 1)
      else if b = 0xF0 then Some (0x90, 0xBF, 2)
      else if 0xF1 \<le> b \<and> b \<le> 0xF3 then Some (0x80, 0xBF, 2)
      else if b = 0xF4 then Some (0x80, 0x8F, 2)
      else None)"

function utf8_valid :: "bytes \<Rightarrow> bool" where
  "utf8_valid [] = True"
| "utf8_valid (b # bs) =
     (if b < 0x80 then utf8_valid bs
      else case utf8_lead b of
        None \<Rightarrow> False
      | Some (lo, hi, n) \<Rightarrow>
          n < length bs \<and> lo \<le> hd bs \<and> hd bs \<le> hi \<and> list_all utf8_cont (take n (tl bs))
          \<and> utf8_valid (drop (Suc n) bs))"
  by pat_completeness auto
termination by (relation "measure length") auto

section \<open>Lists\<close>

lemma sum_list_map_const_eq: "(\<And>x. x \<in> set xs \<Longrightarrow> f x = c) \<Longrightarrow> sum_list (map f xs) = length xs * (c::nat)"
  by (induction xs) auto

lemma length_concat_map: "length (concat (map f xs)) = sum_list (map (\<lambda>x. length (f x)) xs)"
  by (induction xs) auto

end
