(* ===== verification/Node_Error.thy ===== *)
theory Node_Error
  imports Prelude
begin

text \<open>
  The node's error type (\<^verbatim>\<open>node/src/util/result.rs\<close>) and the numeric codes under which
  errors leave the component. The payloads that come from other crates (hex, base58, UTF-8,
  socket and stream errors) are carried as their printed text.
\<close>

text \<open>Errors of the key-value component, as its interface exports them.\<close>

datatype GuestError =
    GE_OpenFileError
  | GE_StreamError
  | GE_FileNotFound u64
  | GE_InvalidData
  | GE_ParseError
  | GE_EntryNotFound

text \<open>The kinds of \<^verbatim>\<open>std::io::Error\<close> the program distinguishes.\<close>

datatype io_error =
    UnexpectedEof
  | TimedOut
  | WouldBlock
  | InvalidDataIO string
  | OtherIO string

datatype Error =
    DBError GuestError
  | SerializationError string
  | FetchCompactFilter u32
  | FetchCompactFilterHeader u32
  | FetchBlock u32
  | FilterMatchEror
  | NetworkError
  | FetchHeader u32
  | BadArgument string
  | BadData string
  | FromBase58Error string
  | FromHexError string
  | FromUtf8Error string
  | IllegalState string
  | InvalidOperation string
  | IOError io_error
  | ParseIntError string
  | ScriptError string
  | Secp256k1Error string
  | Timeout
  | UnspecifiedRingError
  | Unsupported string
  | StreamingError string
  | WrongP2PMessage
  | TCPError string
  | SliceError string
  | PeerNotFound
  | WalletError u32

fun to_error_code :: "Error \<Rightarrow> u32" where
  "to_error_code (BadArgument _) = 1"
| "to_error_code (BadData _) = 2"
| "to_error_code (FromBase58Error _) = 3"
| "to_error_code (FromHexError _) = 4"
| "to_error_code (FromUtf8Error _) = 5"
| "to_error_code (IllegalState _) = 6"
| "to_error_code (InvalidOperation _) = 7"
| "to_error_code (IOError _) = 8"
| "to_error_code (ParseIntError _) = 9"
| "to_error_code (ScriptError _) = 10"
| "to_error_code (Secp256k1Error _) = 11"
| "to_error_code Timeout = 12"
| "to_error_code UnspecifiedRingError = 13"
| "to_error_code (Unsupported _) = 14"
| "to_error_code (StreamingError _) = 15"
| "to_error_code WrongP2PMessage = 16"
| "to_error_code (TCPError _) = 17"
| "to_error_code (SliceError _) = 18"
| "to_error_code PeerNotFound = 19"
| "to_error_code (DBError _) = 20"
| "to_error_code (SerializationError _) = 21"
| "to_error_code (FetchCompactFilter _) = 22"
| "to_error_code (FetchCompactFilterHeader _) = 23"
| "to_error_code (FetchBlock _) = 24"
| "to_error_code FilterMatchEror = 25"
| "to_error_code NetworkError = 26"
| "to_error_code (FetchHeader _) = 27"
| "to_error_code (WalletError _) = 28"

text \<open>The codes are contiguous, so a code never collides with the success value 0.\<close>

lemma to_error_code_bounds: "1 \<le> to_error_code e \<and> to_error_code e \<le> 28"
  by (cases e) simp_all

lemma to_error_code_timeout: "to_error_code e = 12 \<longleftrightarrow> e = Timeout"
  by (cases e) simp_all

end
