(* ===== verification/Wire.thy ===== *)
theory Wire
  imports Node_Error
begin

text \<open>
  Byte readers and writers of the wire format. A reader takes the bytes that are left in a
  \<^verbatim>\<open>Cursor\<close> or slice and returns a value together with the bytes after it; a writer is the
  list of bytes it appends. The section on variable-length integers is
  \<^verbatim>\<open>node/src/util/var_int.rs\<close>. The two locales are the contracts of the traits
  \<^verbatim>\<open>Serializable\<close> (\<^verbatim>\<open>node/src/util/serdes.rs\<close>) and \<^verbatim>\<open>Payload\<close>
  (\<^verbatim>\<open>node/src/messages/message.rs\<close>): what a structure's \<^verbatim>\<open>read\<close>, \<^verbatim>\<open>write\<close> and
  \<^verbatim>\<open>size\<close> owe each other. Sequences of structures are handled once, inside the locales.
\<close>

section \<open>Readers\<close>

type_synonym 'a reader = "bytes \<Rightarrow> (Error, 'a \<times> bytes) res"

definition pret :: "'a \<Rightarrow> 'a reader" where
  "pret x = (\<lambda>bs. Ok (x, bs))"

definition pfail :: "Error \<Rightarrow> 'a reader" where
  "pfail e = (\<lambda>bs. Err e)"

definition pbind :: "'a reader \<Rightarrow> ('a \<Rightarrow> 'b reader) \<Rightarrow> 'b reader" where
  "pbind p f = (\<lambda>bs. rbind (p bs) (\<lambda>(x, rest). f x rest))"

definition pmap :: "('a \<Rightarrow> 'b) \<Rightarrow> 'a reader \<Rightarrow> 'b reader" where
  "pmap g p = pbind p (\<lambda>x. pret (g x))"

lemma pret_apply [simp, res_simps]: "pret x bs = Ok (x, bs)"
  by (simp add: pret_def)

lemma pfail_apply [simp, res_simps]: "pfail e bs = Err e"
  by (simp add: pfail_def)

lemma pbind_apply [res_simps]: "pbind p f bs = rbind (p bs) (\<lambda>(x, rest). f x rest)"
  by (simp add: pbind_def)

lemma pmap_apply [res_simps]: "pmap g p bs = rbind (p bs) (\<lambda>(x, rest). Ok (g x, rest))"
  by (simp add: pmap_def pbind_def)

text \<open>
  \<^verbatim>\<open>Read::read_exact\<close> fails at the end of the input; \<^verbatim>\<open>Read::read\<close> into a zeroed
  buffer of \<open>n\<close> bytes takes what there is and leaves the rest of the buffer as it was.
\<close>

definition read_exact :: "nat \<Rightarrow> bytes reader" where
  "read_exact n = (\<lambda>bs. if length bs < n then Err (IOError UnexpectedEof) else Ok (take n bs, drop n bs))"

definition read_into_zeros :: "nat \<Rightarrow> bytes reader" where
  "read_into_zeros n = (\<lambda>bs. Ok (take n bs @ replicate (n - length bs) 0, drop n bs))"

fun read_n :: "nat \<Rightarrow> 'a reader \<Rightarrow> 'a list reader" where
  "read_n 0 p = pret []"
| "read_n (Suc n) p = pbind p (\<lambda>x. pmap (\<lambda>xs. x # xs) (read_n n p))"

definition read_u8 :: "u8 reader" where
  "read_u8 = pmap (\<lambda>bs. of_nat (le_val bs)) (read_exact 1)"

definition read_u16 :: "u16 reader" where
  "read_u16 = pmap (\<lambda>bs. of_nat (le_val bs)) (read_exact 2)"

definition read_u16_be :: "u16 reader" where
  "read_u16_be = pmap (\<lambda>bs. of_nat (be_val bs)) (read_exact 2)"

definition read_u32 :: "u32 reader" where
  "read_u32 = pmap (\<lambda>bs. of_nat (le_val bs)) (read_exact 4)"

definition read_u64 :: "u64 reader" where
  "read_u64 = pmap (\<lambda>bs. of_nat (le_val bs)) (read_exact 8)"

definition write_u8 :: "u8 \<Rightarrow> bytes" where
  "write_u8 w = le_bytes 1 (unat w)"

definition write_u16 :: "u16 \<Rightarrow> bytes" where
  "write_u16 w = le_bytes 2 (unat w)"

definition write_u16_be :: "u16 \<Rightarrow> bytes" where
  "write_u16_be w = be_bytes 2 (unat w)"

definition write_u32 :: "u32 \<Rightarrow> bytes" where
  "write_u32 w = le_bytes 4 (unat w)"

definition write_u64 :: "u64 \<Rightarrow> bytes" where
  "write_u64 w = le_bytes 8 (unat w)"

lemma read_exact_append [simp, res_simps]:
  "length xs = n \<Longrightarrow> read_exact n (xs @ rest) = Ok (xs, rest)"
  by (simp add: read_exact_def)

lemma read_exact_Ok: "read_exact n bs = Ok (x, rest) \<longleftrightarrow> bs = x @ rest \<and> length x = n"
  by (auto simp: read_exact_def)

lemma read_into_zeros_append [simp, res_simps]:
  "length xs = n \<Longrightarrow> read_into_zeros n (xs @ rest) = Ok (xs, rest)"
  by (simp add: read_into_zeros_def)

lemma byte_of_nat_mod [simp]: "(of_nat (unat b mod 256) :: u8) = b"
  using unat_u8_less [of b] by simp

lemma write_u8_eq [simp]: "write_u8 b = [b]"
  by (simp add: write_u8_def)

lemma read_u8_Cons [simp, res_simps]: "read_u8 (b # rest) = Ok (b, rest)"
  by (simp add: read_u8_def pmap_apply read_exact_def)

lemma read_u8_Nil [simp]: "read_u8 [] = Err (IOError UnexpectedEof)"
  by (simp add: read_u8_def pmap_apply read_exact_def)

lemma read_int_write_int [simp, res_simps]:
  "read_u16 (write_u16 h @ rest) = Ok (h, rest)"
  "read_u16_be (write_u16_be h @ rest) = Ok (h, rest)"
  "read_u32 (write_u32 w @ rest) = Ok (w, rest)"
  "read_u64 (write_u64 d @ rest) = Ok (d, rest)"
  by (simp_all add: read_u16_def write_u16_def read_u16_be_def be_val_def be_bytes_def
      write_u16_be_def read_u32_def write_u32_def read_u64_def write_u64_def pmap_apply
      le_bytes_unat_word del: le_val_le_bytes)

lemma length_write_int [simp]:
  "length (write_u16 h) = 2"
  "length (write_u16_be h) = 2"
  "length (write_u32 w) = 4"
  "length (write_u64 d) = 8"
  by (simp_all add: write_u16_def write_u16_be_def write_u32_def write_u64_def)

lemma read_n_bytes [simp, res_simps]:
  "length xs = n \<Longrightarrow> read_n n read_u8 (xs @ rest) = Ok (xs, rest)"
  by (induction xs arbitrary: n) (auto simp: pbind_apply pmap_apply)

lemma read_n_length: "read_n n p bs = Ok (xs, rest) \<Longrightarrow> length xs = n"
  by (induction n arbitrary: bs xs rest) (auto simp: pbind_apply pmap_apply)

section \<open>Variable-length integers\<close>

definition var_int_size :: "u64 \<Rightarrow> nat" where
  "var_int_size n =
     (if n \<le> 252 then 1 else if n \<le> 0xffff then 3 else if n \<le> 0xffffffff then 5 else 9)"

definition var_int_write :: "u64 \<Rightarrow> bytes" where
  "var_int_write n =
     (if n \<le> 252 then write_u8 (ucast n)
      else if n \<le> 0xffff then write_u8 0xfd @ write_u16 (ucast n)
      else if n \<le> 0xffffffff then write_u8 0xfe @ write_u32 (ucast n)
      else write_u8 0xff @ write_u64 n)"

definition var_int_read :: "u64 reader" where
  "var_int_read =
     pbind read_u8 (\<lambda>n0.
       if n0 = 0xff then read_u64
       else if n0 = 0xfe then pmap ucast read_u32
       else if n0 = 0xfd then pmap ucast read_u16
       else pret (ucast n0))"

lemma ucast_ucast_small:
  fixes n :: u64
  assumes "unat n < 2 ^ LENGTH('a)"
  shows "(ucast (ucast n :: 'a::len word) :: u64) = n"
proof -
  have "unat (ucast (ucast n :: 'a word) :: u64) = take_bit LENGTH('a) (unat n)"
    by (simp add: unsigned_ucast_eq unsigned_take_bit_eq)
  also have "\<dots> = unat n"
    using assms by (simp add: take_bit_nat_eq_self)
  finally show ?thesis by (simp only: word_unat_eq_iff)
qed

lemma length_var_int_write [simp]: "length (var_int_write n) = var_int_size n"
  by (simp add: var_int_write_def var_int_size_def)

lemma var_int_size_bounds: "1 \<le> var_int_size n \<and> var_int_size n \<le> 9"
  by (simp add: var_int_size_def)

lemma var_int_read_write [simp, res_simps]:
  "var_int_read (var_int_write n @ rest) = Ok (n, rest)"
proof -
  consider (byte) "n \<le> 252" | (short) "\<not> n \<le> 252" "n \<le> 0xffff"
    | (word) "\<not> n \<le> 252" "\<not> n \<le> 0xffff" "n \<le> 0xffffffff"
    | (long) "\<not> n \<le> 252" "\<not> n \<le> 0xffff" "\<not> n \<le> 0xffffffff"
    by blast
  then show ?thesis
  proof cases
    case byte
    then have small: "unat n \<le> 252" by (simp add: word_le_nat_alt)
    then have "unat (ucast n :: u8) = unat n"
      by (simp add: unsigned_ucast_eq take_bit_nat_eq_self)
    with small have "(ucast n :: u8) \<noteq> 0xff" "(ucast n :: u8) \<noteq> 0xfe" "(ucast n :: u8) \<noteq> 0xfd"
      by (auto simp: word_unat_eq_iff)
    moreover have "(ucast (ucast n :: u8) :: u64) = n"
      using small by (intro ucast_ucast_small) simp
    ultimately show ?thesis
      using byte by (simp add: var_int_read_def var_int_write_def pbind_apply)
  next
    case short
    then have "(ucast (ucast n :: u16) :: u64) = n"
      by (intro ucast_ucast_small) (simp add: word_le_nat_alt)
    then show ?thesis
      using short by (simp add: var_int_read_def var_int_write_def pbind_apply pmap_apply)
  next
    case word
    then have "(ucast (ucast n :: u32) :: u64) = n"
      by (intro ucast_ucast_small) (simp add: word_le_nat_alt)
    then show ?thesis
      using word by (simp add: var_int_read_def var_int_write_def pbind_apply pmap_apply)
  next
    case long
    then show ?thesis
      by (simp add: var_int_read_def var_int_write_def pbind_apply pmap_apply)
  qed
qed

text \<open>
  A vector's length as the \<^verbatim>\<open>u64\<close> that is written before it. Vectors of the 32-bit
  target are shorter than \<open>2 ^ 32\<close>, so the conversion is exact.
\<close>

definition len_u64 :: "'a list \<Rightarrow> u64" where
  "len_u64 xs = of_nat (length xs)"

definition fits :: "'a list \<Rightarrow> bool" where
  "fits xs \<longleftrightarrow> length xs < 2 ^ 32"

lemma unat_len_u64 [simp]: "fits xs \<Longrightarrow> unat (len_u64 xs) = length xs"
  by (simp add: len_u64_def fits_def unat_of_nat)

text \<open>\<^verbatim>\<open>as usize\<close> on the 32-bit target.\<close>

definition as_usize :: "u64 \<Rightarrow> nat" where
  "as_usize n = unat (ucast n :: u32)"

lemma as_usize_len_u64 [simp]: "fits xs \<Longrightarrow> as_usize (len_u64 xs) = length xs"
proof -
  assume "fits xs"
  then have "unat (len_u64 xs) < 2 ^ 32" by (simp add: fits_def)
  then have "take_bit 32 (unat (len_u64 xs)) = unat (len_u64 xs)"
    by (simp add: take_bit_nat_eq_self)
  with \<open>fits xs\<close> show ?thesis
    by (simp add: as_usize_def unsigned_ucast_eq del: unat_len_u64) simp
qed

lemma as_usize_less: "as_usize n < 2 ^ 32"
  unfolding as_usize_def by (rule order_less_le_trans [OF unsigned_less]) simp

text \<open>Byte vectors behind their length, as the scripts and filters are written.\<close>

definition write_var_bytes :: "bytes \<Rightarrow> bytes" where
  "write_var_bytes bs = var_int_write (len_u64 bs) @ bs"

definition read_var_bytes :: "bytes reader" where
  "read_var_bytes = pbind var_int_read (\<lambda>n. read_n (unat n) read_u8)"

lemma read_var_bytes_write [simp, res_simps]:
  "fits bs \<Longrightarrow> read_var_bytes (write_var_bytes bs @ rest) = Ok (bs, rest)"
  by (simp add: read_var_bytes_def write_var_bytes_def pbind_apply)

section \<open>The contracts of Serializable and Payload\<close>

locale serializable =
  fixes rd :: "'a reader" and wr :: "'a \<Rightarrow> bytes" and ok :: "'a \<Rightarrow> bool"
  assumes rd_wr: "ok x \<Longrightarrow> rd (wr x @ rest) = Ok (x, rest)"
begin

lemma rd_wr_whole: "ok x \<Longrightarrow> rd (wr x) = Ok (x, [])"
  using rd_wr [of x "[]"] by simp

lemma read_n_wr:
  "list_all ok xs \<Longrightarrow> read_n (length xs) rd (concat (map wr xs) @ rest) = Ok (xs, rest)"
proof (induction xs)
  case (Cons x xs)
  then have "rd (wr x @ concat (map wr xs) @ rest) = Ok (x, concat (map wr xs) @ rest)"
    by (simp add: rd_wr)
  with Cons show ?case by (simp add: pbind_apply pmap_apply)
qed simp

lemma read_n_wr_len:
  assumes "list_all ok xs" and "fits xs"
  shows "read_n (unat (len_u64 xs)) rd (concat (map wr xs) @ rest) = Ok (xs, rest)"
  using assms by (simp add: read_n_wr)

lemma wr_prefix_free:
  assumes "ok x" and "ok y" and "wr x @ r = wr y @ s"
  shows "x = y \<and> r = s"
proof -
  have "Ok (x, r) = rd (wr y @ s)"
    using rd_wr [OF assms(1), of r] by (simp only: assms(3))
  also have "\<dots> = Ok (y, s)" using assms(2) by (rule rd_wr)
  finally show ?thesis by simp
qed

end

locale payload = serializable +
  fixes sz :: "'a \<Rightarrow> nat"
  assumes wr_size: "ok x \<Longrightarrow> length (wr x) = sz x"
begin

lemma length_concat_wr:
  "list_all ok xs \<Longrightarrow> length (concat (map wr xs)) = sum_list (map sz xs)"
  by (induction xs) (auto simp: wr_size)

end

interpretation u8_codec: payload read_u8 write_u8 "\<lambda>_. True" "\<lambda>_. 1"
  by unfold_locales simp_all

interpretation u32_codec: payload read_u32 write_u32 "\<lambda>_. True" "\<lambda>_. 4"
  by unfold_locales simp_all

interpretation u64_codec: payload read_u64 write_u64 "\<lambda>_. True" "\<lambda>_. 8"
  by unfold_locales simp_all

interpretation var_int_codec: payload var_int_read var_int_write "\<lambda>_. True" var_int_size
  by unfold_locales simp_all

interpretation var_bytes_codec: payload read_var_bytes write_var_bytes fits
  "\<lambda>bs. var_int_size (len_u64 bs) + length bs"
  by unfold_locales (simp, simp add: write_var_bytes_def)

section \<open>Properties\<close>

text \<open>
  Every 64-bit number is written in exactly the number of bytes that its size function
  announces (1, 3, 5 or 9), and reading those bytes gives the number back and leaves what
  follows untouched.
\<close>

lemma var_int_round_trip:
  "var_int_read (var_int_write n @ rest) = Ok (n, rest)
   \<and> length (var_int_write n) = var_int_size n \<and> var_int_size n \<in> {1, 3, 5, 9}"
  by (simp add: var_int_size_def)

end
