(* ===== verification/Hashes.thy ===== *)
theory Hashes
  imports Wire
begin

text \<open>
  \<^verbatim>\<open>node/src/util/hash256.rs\<close> and \<^verbatim>\<open>node/src/util/network_const.rs\<close>: 256-bit hashes,
  their order, their hexadecimal form, and the constants of the networks. SHA-256 (crate
  \<^verbatim>\<open>ring\<close>) and the hexadecimal codec (crate \<^verbatim>\<open>hex\<close>) are arguments.
\<close>

datatype Hash256 = Hash256 (hash_bytes: bytes)

definition wf_hash :: "Hash256 \<Rightarrow> bool" where
  [wf_defs]: "wf_hash h \<longleftrightarrow> length (hash_bytes h) = 32"

definition hash_read :: "Hash256 reader" where
  "hash_read = pmap Hash256 (read_into_zeros 32)"

definition hash_write :: "Hash256 \<Rightarrow> bytes" where
  "hash_write h = hash_bytes h"

definition hash_encode :: "(bytes \<Rightarrow> string) \<Rightarrow> Hash256 \<Rightarrow> string" where
  "hash_encode hex_encode h = hex_encode (rev (hash_bytes h))"

definition hash_decode :: "(string \<Rightarrow> (string, bytes) res) \<Rightarrow> string \<Rightarrow> (Error, Hash256) res" where
  "hash_decode hex_decode s =
     rbind (rmap_err FromHexError (hex_decode s)) (\<lambda>decoded_bytes.
       if length decoded_bytes \<noteq> 32
       then Err (BadArgument (''Length '' @ show_nat (length decoded_bytes) @ '' of ''
              @ show_bytes decoded_bytes))
       else Ok (Hash256 (rev decoded_bytes)))"

definition sha256d :: "(bytes \<Rightarrow> bytes) \<Rightarrow> bytes \<Rightarrow> Hash256" where
  "sha256d sha256 data = Hash256 (sha256 (sha256 data))"

section \<open>The order on hashes\<close>

datatype ordering = Less | Equal | Greater

text \<open>The loop over the indices 31 down to 0; \<open>cmp_below i\<close> has the indices below \<open>i\<close> left.\<close>

fun cmp_below :: "nat \<Rightarrow> bytes \<Rightarrow> bytes \<Rightarrow> ordering" where
  "cmp_below 0 xs ys = Equal"
| "cmp_below (Suc i) xs ys =
     (if xs ! i < ys ! i then Less else if xs ! i > ys ! i then Greater else cmp_below i xs ys)"

definition hash_cmp :: "Hash256 \<Rightarrow> Hash256 \<Rightarrow> ordering" where
  "hash_cmp h k = cmp_below 32 (hash_bytes h) (hash_bytes k)"

definition nat_cmp :: "nat \<Rightarrow> nat \<Rightarrow> ordering" where
  "nat_cmp m n = (if m < n then Less else if m > n then Greater else Equal)"

lemma le_val_take_Suc:
  "i < length xs \<Longrightarrow> le_val (take (Suc i) xs) = le_val (take i xs) + 256 ^ i * unat (xs ! i)"
  by (simp add: take_Suc_conv_app_nth le_val_append)

lemma le_val_take_less: "i \<le> length xs \<Longrightarrow> le_val (take i xs) < 256 ^ i"
  using le_val_less [of "take i xs"] by simp

lemma leading_digit_less:
  fixes a b c d m :: nat
  assumes "a < m" and "c < d"
  shows "a + m * c < b + m * d"
proof -
  have "a + m * c < m + m * c" using assms by simp
  also have "\<dots> = m * Suc c" by simp
  also have "\<dots> \<le> m * d" using assms by (intro mult_le_mono2) simp
  finally show ?thesis by simp
qed

lemma cmp_below_le_val:
  assumes "i \<le> length xs" and "i \<le> length ys"
  shows "cmp_below i xs ys = nat_cmp (le_val (take i xs)) (le_val (take i ys))"
  using assms
proof (induction i)
  case 0
  then show ?case by (simp add: nat_cmp_def)
next
  case (Suc i)
  let ?x = "le_val (take i xs)" and ?y = "le_val (take i ys)"
  have val: "le_val (take (Suc i) xs) = ?x + 256 ^ i * unat (xs ! i)"
    "le_val (take (Suc i) ys) = ?y + 256 ^ i * unat (ys ! i)"
    using Suc.prems by (simp_all add: le_val_take_Suc)
  have lt: "?x < 256 ^ i" "?y < 256 ^ i"
    using Suc.prems by (simp_all add: le_val_take_less)
  consider "xs ! i < ys ! i" | "ys ! i < xs ! i" | "xs ! i = ys ! i"
    by (meson less_linear)
  then show ?case
  proof cases
    case 1
    then have "?x + 256 ^ i * unat (xs ! i) < ?y + 256 ^ i * unat (ys ! i)"
      using lt by (intro leading_digit_less) (simp_all add: word_less_nat_alt)
    with 1 show ?thesis by (simp add: val nat_cmp_def)
  next
    case 2
    then have "?y + 256 ^ i * unat (ys ! i) < ?x + 256 ^ i * unat (xs ! i)"
      using lt by (intro leading_digit_less) (simp_all add: word_less_nat_alt)
    with 2 show ?thesis by (auto simp: val nat_cmp_def)
  next
    case 3
    with Suc show ?thesis by (simp add: val nat_cmp_def)
  qed
qed

lemma hash_cmp_le_val:
  "wf_hash h \<Longrightarrow> wf_hash k \<Longrightarrow>
     hash_cmp h k = nat_cmp (le_val (hash_bytes h)) (le_val (hash_bytes k))"
  by (simp add: hash_cmp_def wf_hash_def cmp_below_le_val)

section \<open>Reading and writing\<close>

lemma hash_write_length [simp]: "wf_hash h \<Longrightarrow> length (hash_write h) = 32"
  by (simp add: wf_hash_def hash_write_def)

interpretation hash_codec: payload hash_read hash_write wf_hash "\<lambda>_. 32"
  by unfold_locales
    (simp_all add: hash_read_def hash_write_def wf_hash_def pmap_apply)

lemma hash_read_write [simp, res_simps]: "wf_hash h \<Longrightarrow> hash_read (hash_write h @ rest) = Ok (h, rest)"
  by (rule hash_codec.rd_wr)

lemma hash_read_wf: "hash_read bs = Ok (h, rest) \<Longrightarrow> wf_hash h"
  by (auto simp: hash_read_def pmap_apply read_into_zeros_def wf_hash_def)

lemma hash_read_Nil [simp]: "hash_read [] = Ok (Hash256 (replicate 32 0), [])"
  by (simp add: hash_read_def pmap_apply read_into_zeros_def)

lemma sha256d_wf: "(\<And>bs. length (sha256 bs) = 32) \<Longrightarrow> wf_hash (sha256d sha256 data)"
  by (simp add: sha256d_def wf_hash_def)

section \<open>Constants of the networks\<close>

text \<open>\<^verbatim>\<open>bitcoin::Network\<close> is non-exhaustive: \<open>OtherNetwork\<close> is any variant of a later version.\<close>

datatype Network = Bitcoin | Testnet | Testnet4 | Signet | Regtest | OtherNetwork

definition magic_from_network :: "Network \<Rightarrow> bytes" where
  "magic_from_network network =
     (case network of
        Bitcoin \<Rightarrow> [0xf9, 0xbe, 0xb4, 0xd9]
      | Testnet \<Rightarrow> [0x0b, 0x11, 0x09, 0x07]
      | Regtest \<Rightarrow> [0xfa, 0xbf, 0xb5, 0xda]
      | Signet \<Rightarrow> [0x0A, 0x03, 0xcf, 0x40]
      | _ \<Rightarrow> [0xf9, 0xbe, 0xb4, 0xd9])"

definition genesis_block_hash_hex :: "Network \<Rightarrow> string" where
  "genesis_block_hash_hex network =
     (case network of
        Bitcoin \<Rightarrow> ''000000000019d6689c085ae165831e934ff763ae46a2a6c172b3f1b60a8ce26f''
      | Testnet \<Rightarrow> ''000000000933ea01ad0ee984209779baaec3ced90fa3f408719526f8d77f4943''
      | Regtest \<Rightarrow> ''0f9188f13cb7b2c71f2a335e3a4fc328bf5beb436012afca590b1a11466e2206''
      | Signet \<Rightarrow> ''00000008819873e925422c1ff0f99f7cc9bbb232af63a077a480a3633bee1ef6''
      | _ \<Rightarrow> ''000000000019d6689c085ae165831e934ff763ae46a2a6c172b3f1b60a8ce26f'')"

definition genesis_block_hash_from_network ::
    "(string \<Rightarrow> (string, bytes) res) \<Rightarrow> Network \<Rightarrow> (Error, Hash256) res" where
  "genesis_block_hash_from_network hex_decode network =
     unwrap (hash_decode hex_decode (genesis_block_hash_hex network))"

lemma length_magic_from_network [simp]: "length (magic_from_network n) = 4"
  by (simp add: magic_from_network_def split: Network.splits)

section \<open>Properties\<close>

text \<open>
  C13: The comparison of hashes, a loop over the bytes from the last to the first, is the
  comparison of the little-endian numbers the hashes stand for; this is what makes the
  proof-of-work check an arithmetic one.
\<close>

theorem hash_cmp_numeric:
  assumes "wf_hash h" and "wf_hash k"
  shows "hash_cmp h k = nat_cmp (le_val (hash_bytes h)) (le_val (hash_bytes k))
       \<and> (hash_cmp h k = Equal \<longleftrightarrow> h = k)"
  using assms le_val_inject [of "hash_bytes h" "hash_bytes k"]
  by (auto simp: hash_cmp_le_val nat_cmp_def wf_hash_def Hash256.expand)

theorem hash_cmp_numeric_witness:
  "hash_cmp (Hash256 (replicate 31 9 @ [1])) (Hash256 (replicate 31 0 @ [2])) = Less
   \<and> le_val (replicate 31 9 @ [1]) < le_val (replicate 31 0 @ [2 :: u8])"
proof -
  have "hash_cmp (Hash256 (replicate 31 9 @ [1])) (Hash256 (replicate 31 0 @ [2])) = Less"
    by code_simp
  then show ?thesis
    using hash_cmp_numeric [of "Hash256 (replicate 31 9 @ [1])" "Hash256 (replicate 31 0 @ [2])"]
    by (simp add: wf_hash_def nat_cmp_def split: if_splits)
qed

text \<open>
  Reading a hash never fails: from an input that is shorter than 32 bytes the reader
  takes what there is and pads it with zeros, so a truncated hash is accepted as a different
  hash instead of being reported as the end of the input.
\<close>

lemma truncated_hash_accepted:
  "hash_read bs = Ok (Hash256 (take 32 bs @ replicate (32 - length bs) 0), drop 32 bs)"
  by (simp add: hash_read_def pmap_apply read_into_zeros_def)

end
