(* ===== verification/Msg_Tx.thy ===== *)
theory Msg_Tx
  imports Hashes
begin

text \<open>
  Transactions on the wire: \<^verbatim>\<open>out_point.rs\<close>, \<^verbatim>\<open>tx_in.rs\<close>, \<^verbatim>\<open>tx_out.rs\<close>,
  \<^verbatim>\<open>witness.rs\<close> and \<^verbatim>\<open>tx.rs\<close> of \<^verbatim>\<open>node/src/messages\<close>. Each structure has its
  record, its \<^verbatim>\<open>read\<close>, \<^verbatim>\<open>write\<close> and \<^verbatim>\<open>size\<close>, and an interpretation of the
  contract \<open>payload\<close>. Signed 64-bit amounts are kept as their bit pattern.
\<close>

section \<open>Out points\<close>

record OutPoint =
  op_hash :: Hash256
  op_index :: u32

definition COINBASE_OUTPOINT_HASH :: Hash256 where
  "COINBASE_OUTPOINT_HASH = Hash256 (replicate 32 0)"

definition COINBASE_OUTPOINT_INDEX :: u32 where
  "COINBASE_OUTPOINT_INDEX = 0xffffffff"

definition out_point_read :: "OutPoint reader" where
  [codec_defs]: "out_point_read =
     pbind hash_read (\<lambda>hash. pbind read_u32 (\<lambda>index.
       pret \<lparr>op_hash = hash, op_index = index\<rparr>))"

definition out_point_write :: "OutPoint \<Rightarrow> bytes" where
  [codec_defs]: "out_point_write p = hash_write (op_hash p) @ write_u32 (op_index p)"

definition out_point_size :: "OutPoint \<Rightarrow> nat" where
  [codec_defs]: "out_point_size p = 36"

definition wf_out_point :: "OutPoint \<Rightarrow> bool" where
  [wf_defs]: "wf_out_point p \<longleftrightarrow> wf_hash (op_hash p)"

interpretation out_point_codec: payload out_point_read out_point_write wf_out_point out_point_size
  by unfold_locales (simp_all add: codec_defs wf_out_point_def res_simps)

section \<open>Transaction inputs\<close>

record TxIn =
  txin_prev_output :: OutPoint
  txin_unlock_script :: bytes
  txin_sequence :: u32

definition tx_in_read :: "TxIn reader" where
  [codec_defs]: "tx_in_read =
     pbind out_point_read (\<lambda>prev_output. pbind read_var_bytes (\<lambda>unlock_script.
       pbind read_u32 (\<lambda>sequence.
         pret \<lparr>txin_prev_output = prev_output, txin_unlock_script = unlock_script,
               txin_sequence = sequence\<rparr>)))"

definition tx_in_write :: "TxIn \<Rightarrow> bytes" where
  [codec_defs]: "tx_in_write t =
     out_point_write (txin_prev_output t) @ write_var_bytes (txin_unlock_script t)
       @ write_u32 (txin_sequence t)"

definition tx_in_size :: "TxIn \<Rightarrow> nat" where
  [codec_defs]: "tx_in_size t =
     36 + var_int_size (len_u64 (txin_unlock_script t)) + length (txin_unlock_script t) + 4"

definition wf_tx_in :: "TxIn \<Rightarrow> bool" where
  [wf_defs]: "wf_tx_in t \<longleftrightarrow> wf_out_point (txin_prev_output t) \<and> fits (txin_unlock_script t)"

interpretation tx_in_codec: payload tx_in_read tx_in_write wf_tx_in tx_in_size
  by unfold_locales
    (simp_all add: tx_in_read_def tx_in_write_def tx_in_size_def wf_tx_in_def res_simps
      out_point_codec.rd_wr out_point_codec.wr_size var_bytes_codec.wr_size out_point_size_def)

section \<open>Transaction outputs\<close>

record TxOut =
  txout_satoshis :: u64
  txout_lock_script :: bytes

definition tx_out_read :: "TxOut reader" where
  [codec_defs]: "tx_out_read =
     pbind read_u64 (\<lambda>satoshis. pbind read_var_bytes (\<lambda>lock_script.
       pret \<lparr>txout_satoshis = satoshis, txout_lock_script = lock_script\<rparr>))"

definition tx_out_write :: "TxOut \<Rightarrow> bytes" where
  [codec_defs]: "tx_out_write t = write_u64 (txout_satoshis t) @ write_var_bytes (txout_lock_script t)"

definition tx_out_size :: "TxOut \<Rightarrow> nat" where
  [codec_defs]: "tx_out_size t =
     8 + var_int_size (len_u64 (txout_lock_script t)) + length (txout_lock_script t)"

definition wf_tx_out :: "TxOut \<Rightarrow> bool" where
  [wf_defs]: "wf_tx_out t \<longleftrightarrow> fits (txout_lock_script t)"

interpretation tx_out_codec: payload tx_out_read tx_out_write wf_tx_out tx_out_size
  by unfold_locales
    (simp_all add: tx_out_read_def tx_out_write_def tx_out_size_def wf_tx_out_def res_simps
      var_bytes_codec.wr_size)

section \<open>Witnesses\<close>

record TxWitnessData =
  witness_data :: bytes

record TxWitness =
  witness_items :: "TxWitnessData list"

definition witness_data_read :: "TxWitnessData reader" where
  [codec_defs]: "witness_data_read = pmap (\<lambda>d. \<lparr>witness_data = d\<rparr>) read_var_bytes"

definition witness_data_write :: "TxWitnessData \<Rightarrow> bytes" where
  [codec_defs]: "witness_data_write w = write_var_bytes (witness_data w)"

definition witness_data_size :: "TxWitnessData \<Rightarrow> nat" where
  [codec_defs]: "witness_data_size w = var_int_size (len_u64 (witness_data w)) + length (witness_data w)"

definition wf_witness_data :: "TxWitnessData \<Rightarrow> bool" where
  [wf_defs]: "wf_witness_data w \<longleftrightarrow> fits (witness_data w)"

interpretation witness_data_codec:
  payload witness_data_read witness_data_write wf_witness_data witness_data_size
  by unfold_locales
    (simp_all add: witness_data_read_def witness_data_write_def witness_data_size_def
      wf_witness_data_def res_simps var_bytes_codec.wr_size)

definition witness_read :: "TxWitness reader" where
  [codec_defs]: "witness_read =
     pbind var_int_read (\<lambda>n. pmap (\<lambda>ws. \<lparr>witness_items = ws\<rparr>) (read_n (unat n) witness_data_read))"

definition witness_write :: "TxWitness \<Rightarrow> bytes" where
  [codec_defs]: "witness_write w =
     var_int_write (len_u64 (witness_items w)) @ concat (map witness_data_write (witness_items w))"

definition witness_size :: "TxWitness \<Rightarrow> nat" where
  [codec_defs]: "witness_size w =
     var_int_size (len_u64 (witness_items w)) + sum_list (map witness_data_size (witness_items w))"

definition wf_witness :: "TxWitness \<Rightarrow> bool" where
  [wf_defs]: "wf_witness w \<longleftrightarrow> fits (witness_items w) \<and> list_all wf_witness_data (witness_items w)"

interpretation witness_codec: payload witness_read witness_write wf_witness witness_size
  by unfold_locales
    (simp_all add: witness_read_def witness_write_def witness_size_def wf_witness_def res_simps
      witness_data_codec.read_n_wr witness_data_codec.length_concat_wr)

section \<open>Transactions\<close>

record Tx =
  tx_version :: u32
  tx_flag :: "u8 option"
  tx_inputs :: "TxIn list"
  tx_outputs :: "TxOut list"
  tx_witnesses :: "TxWitness list option"
  tx_lock_time :: u32

definition tx_read_segwit :: "u32 \<Rightarrow> u8 \<Rightarrow> Tx reader" where
  "tx_read_segwit version segwit_flag =
     pbind var_int_read (\<lambda>n_inputs. pbind (read_n (unat n_inputs) tx_in_read) (\<lambda>inputs.
       pbind var_int_read (\<lambda>n_outputs. pbind (read_n (unat n_outputs) tx_out_read) (\<lambda>outputs.
         pbind (read_n (unat n_inputs) witness_read) (\<lambda>witnesses.
           pbind read_u32 (\<lambda>lock_time.
             pret \<lparr>tx_version = version, tx_flag = Some segwit_flag, tx_inputs = inputs,
                   tx_outputs = outputs, tx_witnesses = Some witnesses,
                   tx_lock_time = lock_time\<rparr>))))))"

definition tx_read :: "Tx reader" where
  "tx_read =
     pbind read_u32 (\<lambda>version. pbind var_int_read (\<lambda>n_inputs.
       if n_inputs = 0
       then pbind read_u8 (\<lambda>segwit_flag.
              if segwit_flag = 1 then tx_read_segwit version segwit_flag else (\<lambda>bs. Panic))
       else pbind (read_n (unat n_inputs) tx_in_read) (\<lambda>inputs.
              pbind var_int_read (\<lambda>n_outputs.
                pbind (read_n (unat n_outputs) tx_out_read) (\<lambda>outputs.
                  pbind read_u32 (\<lambda>lock_time.
                    pret \<lparr>tx_version = version, tx_flag = None, tx_inputs = inputs,
                          tx_outputs = outputs, tx_witnesses = None,
                          tx_lock_time = lock_time\<rparr>))))))"

definition tx_write :: "Tx \<Rightarrow> bytes" where
  "tx_write t =
     write_u32 (tx_version t) @
     (case tx_witnesses t of
        Some witnesses \<Rightarrow>
          write_u8 0 @ write_u8 1 @
          var_int_write (len_u64 (tx_inputs t)) @ concat (map tx_in_write (tx_inputs t)) @
          var_int_write (len_u64 (tx_outputs t)) @ concat (map tx_out_write (tx_outputs t)) @
          concat (map witness_write witnesses) @
          write_u32 (tx_lock_time t)
      | None \<Rightarrow>
          var_int_write (len_u64 (tx_inputs t)) @ concat (map tx_in_write (tx_inputs t)) @
          var_int_write (len_u64 (tx_outputs t)) @ concat (map tx_out_write (tx_outputs t)) @
          write_u32 (tx_lock_time t))"

definition tx_size :: "Tx \<Rightarrow> nat" where
  "tx_size t =
     8 + (case tx_witnesses t of
            Some witnesses \<Rightarrow> 2 + sum_list (map witness_size witnesses)
          | None \<Rightarrow> 0)
       + var_int_size (len_u64 (tx_inputs t)) + sum_list (map tx_in_size (tx_inputs t))
       + var_int_size (len_u64 (tx_outputs t)) + sum_list (map tx_out_size (tx_outputs t))"

definition tx_hash :: "(bytes \<Rightarrow> bytes) \<Rightarrow> Tx \<Rightarrow> Hash256" where
  "tx_hash sha256 t = sha256d sha256 (tx_write t)"

definition coinbase :: "Tx \<Rightarrow> bool" where
  "coinbase t \<longleftrightarrow>
     (case tx_inputs t of
        [i] \<Rightarrow> op_hash (txin_prev_output i) = COINBASE_OUTPOINT_HASH
                \<and> op_index (txin_prev_output i) = COINBASE_OUTPOINT_INDEX
      | _ \<Rightarrow> False)"

text \<open>
  What the format can carry: a transaction without witnesses has an input (a zero count is
  the segwit marker) and no flag; one with witnesses has flag 1 and a witness per input.
\<close>

definition wf_tx :: "Tx \<Rightarrow> bool" where
  "wf_tx t \<longleftrightarrow>
     fits (tx_inputs t) \<and> list_all wf_tx_in (tx_inputs t) \<and>
     fits (tx_outputs t) \<and> list_all wf_tx_out (tx_outputs t) \<and>
     (case tx_witnesses t of
        None \<Rightarrow> tx_flag t = None \<and> tx_inputs t \<noteq> []
      | Some witnesses \<Rightarrow>
          tx_flag t = Some 1 \<and> length witnesses = length (tx_inputs t)
          \<and> list_all wf_witness witnesses)"

lemmas tx_read_parts = tx_in_codec.read_n_wr tx_out_codec.read_n_wr witness_codec.read_n_wr
lemmas tx_size_parts = tx_in_codec.length_concat_wr tx_out_codec.length_concat_wr
  witness_codec.length_concat_wr

lemma len_u64_eq_0 [simp]: "fits xs \<Longrightarrow> len_u64 xs = 0 \<longleftrightarrow> xs = []"
  by (metis length_0_conv unat_eq_zero unat_len_u64)

lemma var_int_write_0 [simp]: "var_int_write 0 = [0]"
  by (simp add: var_int_write_def)

lemma var_int_read_0 [simp]: "var_int_read (0 # rest) = Ok (0, rest)"
  using var_int_read_write [of 0 rest] by simp

lemma tx_read_write:
  assumes "wf_tx t"
  shows "tx_read (tx_write t @ rest) = Ok (t, rest)"
proof (cases "tx_witnesses t")
  case None
  with assms show ?thesis
    by (cases t) (simp add: tx_read_def tx_write_def wf_tx_def res_simps tx_read_parts)
next
  case (Some ws)
  with assms have "read_n (length (tx_inputs t)) witness_read (concat (map witness_write ws) @ r)
      = Ok (ws, r)" for r
    using witness_codec.read_n_wr [of ws r] by (simp add: wf_tx_def)
  with Some assms show ?thesis
    by (cases t) (simp add: tx_read_def tx_read_segwit_def tx_write_def wf_tx_def res_simps tx_read_parts)
qed

lemma tx_write_size: "wf_tx t \<Longrightarrow> length (tx_write t) = tx_size t"
  by (simp add: tx_write_def tx_size_def wf_tx_def tx_size_parts split: option.splits)

interpretation tx_codec: payload tx_read tx_write wf_tx tx_size
  by unfold_locales (simp_all add: tx_read_write tx_write_size)

section \<open>Properties\<close>

text \<open>
  C8: A well-formed transaction, with or without witnesses, is encoded in exactly the number
  of bytes its size function announces and is decoded from those bytes unchanged, including
  the flag that tells the two encodings apart.
\<close>

theorem tx_round_trip:
  assumes "wf_tx t"
  shows "tx_read (tx_write t @ rest) = Ok (t, rest) \<and> length (tx_write t) = tx_size t"
  using assms by (simp add: tx_read_write tx_write_size)

theorem tx_round_trip_witness:
  "\<exists>t. tx_witnesses t = Some [\<lparr>witness_items = [\<lparr>witness_data = [7]\<rparr>]\<rparr>]
     \<and> tx_read (tx_write t @ [3]) = Ok (t, [3]) \<and> length (tx_write t) = tx_size t"
proof -
  define t where "t = \<lparr>tx_version = 2, tx_flag = Some 1,
    tx_inputs = [\<lparr>txin_prev_output = \<lparr>op_hash = Hash256 (replicate 32 5), op_index = 1\<rparr>,
                  txin_unlock_script = [], txin_sequence = 0\<rparr>],
    tx_outputs = [\<lparr>txout_satoshis = 100, txout_lock_script = [1, 2]\<rparr>],
    tx_witnesses = Some [\<lparr>witness_items = [\<lparr>witness_data = [7]\<rparr>]\<rparr>], tx_lock_time = 0\<rparr>"
  have "wf_tx t"
    by (simp add: t_def wf_tx_def wf_defs fits_def)
  from tx_round_trip [OF this, of "[3]"] show ?thesis
    by (intro exI [of _ t]) (simp add: t_def)
qed

text \<open>
  A transaction with a zero input count whose next byte is not the segwit flag 1 makes
  the reader panic: the bytes come from the peer, so any peer can stop the component with
  such a message.
\<close>

lemma tx_read_bad_flag_panics:
  assumes "flag \<noteq> 1"
  shows "tx_read (write_u32 version @ [0, flag] @ rest) = Panic"
  using assms by (simp add: tx_read_def res_simps)

lemma tx_read_bad_flag_panics_witness: "tx_read (write_u32 2 @ [0, 9] @ [1, 2]) = Panic"
  using tx_read_bad_flag_panics [of 9 2 "[1, 2]"] by simp

end
