(* ===== verification/Msg_Block.thy ===== *)
theory Msg_Block
  imports Msg_Tx
begin

text \<open>
  Block headers and blocks: \<^verbatim>\<open>block_header.rs\<close>, \<^verbatim>\<open>headers.rs\<close> and \<^verbatim>\<open>block.rs\<close> of
  \<^verbatim>\<open>node/src/messages\<close>. Besides the wire format the theory has the two checks of a
  header, its time against the median of the last eleven headers and its hash against the
  target that the field \<^verbatim>\<open>bits\<close> encodes, and what the checks mean arithmetically.
\<close>

unbundle bit_operations_syntax

section \<open>Block headers\<close>

record BlockHeader =
  bh_version :: u32
  bh_prev_hash :: Hash256
  bh_merkle_root :: Hash256
  bh_timestamp :: u32
  bh_bits :: u32
  bh_nonce :: u32

definition block_header_size :: "BlockHeader \<Rightarrow> nat" where
  [codec_defs]: "block_header_size h = 80"

definition block_header_read :: "BlockHeader reader" where
  [codec_defs]: "block_header_read =
     pbind read_u32 (\<lambda>version. pbind hash_read (\<lambda>prev_hash. pbind hash_read (\<lambda>merkle_root.
       pbind read_u32 (\<lambda>ts. pbind read_u32 (\<lambda>bits. pbind read_u32 (\<lambda>nonce.
         pret \<lparr>bh_version = version, bh_prev_hash = prev_hash, bh_merkle_root = merkle_root,
               bh_timestamp = ts, bh_bits = bits, bh_nonce = nonce\<rparr>))))))"

definition block_header_write :: "BlockHeader \<Rightarrow> bytes" where
  [codec_defs]: "block_header_write h =
     write_u32 (bh_version h) @ hash_write (bh_prev_hash h) @ hash_write (bh_merkle_root h)
       @ write_u32 (bh_timestamp h) @ write_u32 (bh_bits h) @ write_u32 (bh_nonce h)"

definition block_header_hash :: "(bytes \<Rightarrow> bytes) \<Rightarrow> BlockHeader \<Rightarrow> Hash256" where
  "block_header_hash sha256 h =
     sha256d sha256
       (write_u32 (bh_version h) @ hash_write (bh_prev_hash h) @ hash_write (bh_merkle_root h)
         @ write_u32 (bh_timestamp h) @ write_u32 (bh_bits h) @ write_u32 (bh_nonce h))"

definition wf_block_header :: "BlockHeader \<Rightarrow> bool" where
  [wf_defs]: "wf_block_header h \<longleftrightarrow> wf_hash (bh_prev_hash h) \<and> wf_hash (bh_merkle_root h)"

interpretation block_header_codec:
  payload block_header_read block_header_write wf_block_header block_header_size
  by unfold_locales (simp_all add: codec_defs wf_block_header_def res_simps)

subsection \<open>Difficulty\<close>

definition difficulty_target :: "BlockHeader \<Rightarrow> (Error, Hash256) res" where
  "difficulty_target h =
     (let exp = unat (drop_bit 24 (bh_bits h)) in
      if \<not> (3 \<le> exp \<and> exp \<le> 32)
      then Err (BadArgument (''Difficulty exponent out of range: '' @ show_nat (unat (bh_bits h))))
      else Ok (Hash256
        ((((replicate 32 0)
            [exp - 1 := ucast (drop_bit 16 (bh_bits h) AND 0xff)])
            [exp - 2 := ucast (drop_bit 8 (bh_bits h) AND 0xff)])
            [exp - 3 := ucast (bh_bits h AND 0xff)])))"

definition last_eleven_median :: "BlockHeader list \<Rightarrow> u32" where
  "last_eleven_median prev_headers =
     (let h = drop (length prev_headers - min (length prev_headers) 11) prev_headers;
          timestamps = sort (map bh_timestamp h)
      in timestamps ! (length timestamps div 2))"

definition validate :: "BlockHeader \<Rightarrow> Hash256 \<Rightarrow> BlockHeader list \<Rightarrow> (Error, unit) res" where
  "validate self hash prev_headers =
     (if prev_headers \<noteq> [] \<and> bh_timestamp self < last_eleven_median prev_headers
      then Err (BadData (''Timestamp is too old: '' @ show_nat (unat (bh_timestamp self))))
      else rbind (difficulty_target self) (\<lambda>target.
        if hash_cmp hash target = Greater then Err (BadData ''Invalid POW'') else Ok ()))"

text \<open>The compact form: a 24-bit mantissa and a base-256 exponent.\<close>

definition bits_mantissa :: "u32 \<Rightarrow> nat" where
  "bits_mantissa bits = unat bits mod 2 ^ 24"

definition bits_exponent :: "u32 \<Rightarrow> nat" where
  "bits_exponent bits = unat bits div 2 ^ 24"

lemma unat_drop_bit_u32: "unat (drop_bit k (b :: u32)) = unat b div 2 ^ k"
proof -
  have "take_bit 32 (unat b) = unat b"
    using unsigned_less [of b, where 'a = nat] by (intro take_bit_nat_eq_self) simp
  then show ?thesis by (simp only: unsigned_drop_bit_eq) (simp add: drop_bit_eq_div)
qed

lemma unat_byte_of_bits:
  "unat (ucast (drop_bit k (b :: u32) AND 0xff) :: u8) = unat b div 2 ^ k mod 256"
proof -
  have "drop_bit k b AND 0xff = take_bit 8 (drop_bit k b)"
    by (simp add: take_bit_eq_mask mask_eq_exp_minus_1)
  then show ?thesis
    by (simp only: unsigned_ucast_eq unsigned_take_bit_eq unat_drop_bit_u32)
      (simp add: take_bit_eq_mod)
qed

lemma le_val_replicate_0 [simp]: "le_val (replicate n 0) = 0"
  by (induction n) auto

lemma mantissa_split: "(v :: nat) mod 2 ^ 24 = v mod 256 + 256 * (v div 256 mod 256) + 65536 * (v div 65536 mod 256)"
proof -
  have "v mod (256 * (256 * 256)) = 256 * (v div 256 mod (256 * 256)) + v mod 256"
    by (rule mod_mult2_eq)
  also have "v div 256 mod (256 * 256) = 256 * (v div 256 div 256 mod 256) + v div 256 mod 256"
    by (rule mod_mult2_eq)
  finally show ?thesis by (simp add: div_mult2_eq [symmetric])
qed

lemma three_updates:
  assumes "3 \<le> e" and "e \<le> 32"
  shows "((replicate 32 (0::u8))[e - 1 := x, e - 2 := y, e - 3 := z])
       = replicate (e - 3) 0 @ [z, y, x] @ replicate (32 - e) 0"
  using assms by (intro nth_equalityI) (auto simp: nth_append nth_list_update nth_Cons split: nat.splits)

lemma difficulty_target_value:
  assumes "difficulty_target h = Ok t"
  shows "wf_hash t \<and> le_val (hash_bytes t) = bits_mantissa (bh_bits h) * 256 ^ (bits_exponent (bh_bits h) - 3)"
proof -
  let ?b = "bh_bits h" let ?e = "unat (drop_bit 24 ?b)"
  have e: "3 \<le> ?e" "?e \<le> 32" and t: "t = Hash256 (replicate (?e - 3) 0 @
      [ucast (?b AND 0xff), ucast (drop_bit 8 ?b AND 0xff), ucast (drop_bit 16 ?b AND 0xff)]
      @ replicate (32 - ?e) 0)"
    using assms three_updates [of ?e] by (auto simp: difficulty_target_def Let_def split: if_splits)
  have "?e = bits_exponent ?b"
    by (simp add: bits_exponent_def unat_drop_bit_u32)
  moreover have "unat (ucast (?b AND 0xff) :: u8) = unat ?b mod 256"
    using unat_byte_of_bits [of 0 ?b] by simp
  ultimately show ?thesis
    using e mantissa_split [of "unat ?b"]
    by (simp add: t wf_hash_def le_val_append unat_byte_of_bits bits_mantissa_def)
qed

lemma difficulty_target_Ok_iff:
  "(\<exists>t. difficulty_target h = Ok t) \<longleftrightarrow> bits_exponent (bh_bits h) \<in> {3..32}"
  by (simp add: difficulty_target_def Let_def bits_exponent_def unat_drop_bit_u32)

lemma validate_Ok_iff:
  assumes "wf_hash hash"
  shows "validate h hash prev = Ok () \<longleftrightarrow>
     (prev = [] \<or> last_eleven_median prev \<le> bh_timestamp h) \<and>
     bits_exponent (bh_bits h) \<in> {3..32} \<and>
     le_val (hash_bytes hash) \<le> bits_mantissa (bh_bits h) * 256 ^ (bits_exponent (bh_bits h) - 3)"
proof (cases "difficulty_target h")
  case (Ok t)
  then have "bits_exponent (bh_bits h) \<in> {3..32}"
    using difficulty_target_Ok_iff by blast
  moreover have "hash_cmp hash t = Greater \<longleftrightarrow>
      \<not> le_val (hash_bytes hash) \<le> bits_mantissa (bh_bits h) * 256 ^ (bits_exponent (bh_bits h) - 3)"
    using difficulty_target_value [OF Ok] assms
    by (simp add: hash_cmp_le_val nat_cmp_def)
  ultimately show ?thesis
    using Ok by (auto simp: validate_def not_less)
next
  case (Err e)
  then have "bits_exponent (bh_bits h) \<notin> {3..32}"
    using difficulty_target_Ok_iff [of h] by auto
  with Err show ?thesis by (auto simp: validate_def)
next
  case Panic
  then show ?thesis by (auto simp: difficulty_target_def Let_def split: if_splits)
qed

section \<open>Lists of headers\<close>

record Headers =
  headers_inner :: "BlockHeader list"

text \<open>The transaction count after a header is read and its value and failure are dropped.\<close>

definition skip_txn_count :: "unit reader" where
  "skip_txn_count = (\<lambda>bs. case read_u8 bs of Ok (x, rest) \<Rightarrow> Ok ((), rest) | _ \<Rightarrow> Ok ((), bs))"

definition headers_entry_read :: "BlockHeader reader" where
  "headers_entry_read = pbind block_header_read (\<lambda>h. pmap (\<lambda>_. h) skip_txn_count)"

definition headers_read :: "Headers reader" where
  "headers_read =
     pbind var_int_read (\<lambda>n. pmap (\<lambda>hs. \<lparr>headers_inner = hs\<rparr>) (read_n (unat n) headers_entry_read))"

definition headers_entry_write :: "BlockHeader \<Rightarrow> bytes" where
  "headers_entry_write h = block_header_write h @ write_u8 0"

definition headers_write :: "Headers \<Rightarrow> bytes" where
  "headers_write hs =
     var_int_write (len_u64 (headers_inner hs)) @ concat (map headers_entry_write (headers_inner hs))"

definition headers_size :: "Headers \<Rightarrow> nat" where
  "headers_size hs = var_int_size (len_u64 (headers_inner hs)) + (80 + 1) * length (headers_inner hs)"

definition wf_headers :: "Headers \<Rightarrow> bool" where
  [wf_defs]: "wf_headers hs \<longleftrightarrow> fits (headers_inner hs) \<and> list_all wf_block_header (headers_inner hs)"

interpretation headers_entry_codec:
  payload headers_entry_read headers_entry_write wf_block_header "\<lambda>_. 81"
  by unfold_locales
    (simp_all add: headers_entry_read_def headers_entry_write_def skip_txn_count_def res_simps
      block_header_codec.rd_wr block_header_codec.wr_size block_header_size_def)

interpretation headers_codec: payload headers_read headers_write wf_headers headers_size
  by unfold_locales
    (simp_all add: headers_read_def headers_write_def headers_size_def wf_headers_def res_simps
      headers_entry_codec.read_n_wr headers_entry_codec.length_concat_wr sum_list_map_const_eq)

definition header_hash :: "(bytes \<Rightarrow> bytes) \<Rightarrow> nat \<Rightarrow> BlockHeader list \<Rightarrow> (Error, Hash256) res" where
  "header_hash sha256 i headers =
     (if i + 1 < length headers then Ok (bh_prev_hash (headers ! (i + 1)))
      else if i + 1 = length headers then Ok (block_header_hash sha256 (headers ! i))
      else Err (BadArgument ''Index out of range''))"

text \<open>In a chained list of headers the shortcut through \<^verbatim>\<open>prev_hash\<close> gives the hash itself.\<close>

definition chained :: "(bytes \<Rightarrow> bytes) \<Rightarrow> BlockHeader list \<Rightarrow> bool" where
  "chained sha256 headers \<longleftrightarrow>
     (\<forall>i \<in> set [0..<length headers - 1].
        bh_prev_hash (headers ! (i + 1)) = block_header_hash sha256 (headers ! i))"

lemma header_hash_chained:
  assumes "chained sha256 headers" and "i < length headers"
  shows "header_hash sha256 i headers = Ok (block_header_hash sha256 (headers ! i))"
  using assms by (auto simp: header_hash_def chained_def)

section \<open>Blocks\<close>

record Block =
  block_header :: BlockHeader
  block_txns :: "Tx list"

definition block_read :: "Block reader" where
  "block_read =
     pbind block_header_read (\<lambda>header. pbind var_int_read (\<lambda>txn_count.
       pmap (\<lambda>txns. \<lparr>block_header = header, block_txns = txns\<rparr>) (read_n (unat txn_count) tx_read)))"

definition block_write :: "Block \<Rightarrow> bytes" where
  "block_write b =
     block_header_write (block_header b) @ var_int_write (len_u64 (block_txns b))
       @ concat (map tx_write (block_txns b))"

definition block_size :: "Block \<Rightarrow> nat" where
  "block_size b = 80 + var_int_size (len_u64 (block_txns b)) + sum_list (map tx_size (block_txns b))"

definition wf_block :: "Block \<Rightarrow> bool" where
  [wf_defs]: "wf_block b \<longleftrightarrow>
     wf_block_header (block_header b) \<and> fits (block_txns b) \<and> list_all wf_tx (block_txns b)"

interpretation block_codec: payload block_read block_write wf_block block_size
  by unfold_locales
    (simp_all add: block_read_def block_write_def block_size_def wf_block_def res_simps
      block_header_codec.rd_wr block_header_codec.wr_size block_header_size_def
      tx_codec.read_n_wr tx_codec.length_concat_wr)

section \<open>Properties\<close>

text \<open>
  C10: The difficulty target exists exactly when the exponent byte of \<^verbatim>\<open>bits\<close> lies between 3
  and 32, and then it is the number \<open>mantissa * 256 ^ (exponent - 3)\<close> of the compact
  encoding.
\<close>

theorem difficulty_target_compact:
  "case difficulty_target h of
     Ok t \<Rightarrow> bits_exponent (bh_bits h) \<in> {3..32} \<and> wf_hash t
              \<and> le_val (hash_bytes t) = bits_mantissa (bh_bits h) * 256 ^ (bits_exponent (bh_bits h) - 3)
   | Err e \<Rightarrow> bits_exponent (bh_bits h) \<notin> {3..32}
   | Panic \<Rightarrow> False"
  using difficulty_target_value [of h] difficulty_target_Ok_iff [of h]
  by (cases "difficulty_target h") (auto simp: difficulty_target_def Let_def split: if_splits)



text \<open>
  A well-formed block is decoded from its encoding unchanged and its size function gives
  the length of the encoding.
\<close>

lemma block_round_trip:
  assumes "wf_block b"
  shows "block_read (block_write b @ rest) = Ok (b, rest) \<and> length (block_write b) = block_size b"
  using assms block_codec.rd_wr block_codec.wr_size by simp

lemma block_round_trip_witness:
  "\<exists>b. length (block_txns b) = 1 \<and> block_read (block_write b @ [3]) = Ok (b, [3])"
proof -
  define t where "t = \<lparr>tx_version = 1, tx_flag = None,
    tx_inputs = [\<lparr>txin_prev_output = \<lparr>op_hash = Hash256 (replicate 32 5), op_index = 1\<rparr>,
                  txin_unlock_script = [8], txin_sequence = 0\<rparr>],
    tx_outputs = [], tx_witnesses = None, tx_lock_time = 0\<rparr>"
  define b where "b = \<lparr>block_header = \<lparr>bh_version = 1, bh_prev_hash = Hash256 (replicate 32 0),
      bh_merkle_root = Hash256 (replicate 32 0), bh_timestamp = 7, bh_bits = 0x20000001, bh_nonce = 0\<rparr>,
    block_txns = [t]\<rparr>"
  have "wf_block b"
    by (simp add: b_def t_def wf_block_def wf_tx_def wf_defs fits_def)
  from block_round_trip [OF this, of "[3]"] show ?thesis
    by (intro exI [of _ b]) (simp add: b_def)
qed

text \<open>
  In a list of headers that are chained by their previous-block hashes, the hash looked
  up at an index is the hash of that header, for every index of the list; an index past the
  end is an error.
\<close>

lemma header_hash_of_chain:
  assumes "chained sha256 headers"
  shows "header_hash sha256 i headers =
     (if i < length headers then Ok (block_header_hash sha256 (headers ! i))
      else Err (BadArgument ''Index out of range''))"
  using assms header_hash_chained [of sha256 headers i] by (simp add: header_hash_def)

lemma header_hash_of_chain_witness:
  "\<exists>h k. header_hash (\<lambda>_. replicate 32 6) 0 [h, k] = Ok (block_header_hash (\<lambda>_. replicate 32 6) h)"
proof -
  define h where "h = \<lparr>bh_version = 1, bh_prev_hash = Hash256 (replicate 32 6),
    bh_merkle_root = Hash256 (replicate 32 0), bh_timestamp = 7, bh_bits = 0x20000001, bh_nonce = 0\<rparr>"
  have "chained (\<lambda>_. replicate 32 6) [h, h]"
    by (simp add: chained_def h_def block_header_hash_def sha256d_def)
  from header_hash_of_chain [OF this, of 0] show ?thesis by auto
qed

end
