(* ===== verification/Msg_Net.thy ===== *)
theory Msg_Net
  imports Msg_Block
begin

text \<open>
  The other payloads of \<^verbatim>\<open>node/src/messages\<close>: addresses (\<^verbatim>\<open>node_addr.rs\<close>,
  \<^verbatim>\<open>node_addr_ex.rs\<close>, \<^verbatim>\<open>addr.rs\<close>), the handshake (\<^verbatim>\<open>version.rs\<close>), keep-alive
  (\<^verbatim>\<open>ping.rs\<close>), inventories (\<^verbatim>\<open>inv_vect.rs\<close>, \<^verbatim>\<open>inv.rs\<close>), requests
  (\<^verbatim>\<open>block_locator.rs\<close>, \<^verbatim>\<open>filter_locator.rs\<close>), compact filters
  (\<^verbatim>\<open>compact_filter.rs\<close>, \<^verbatim>\<open>compact_filter_header.rs\<close>), \<^verbatim>\<open>reject.rs\<close> and
  \<^verbatim>\<open>send_cmpct.rs\<close>. A Rust \<^verbatim>\<open>String\<close> is its UTF-8 bytes; signed fields are kept as
  bit patterns and read with \<open>sint\<close>.
\<close>

section \<open>Strings\<close>

definition from_utf8 :: "bytes \<Rightarrow> (Error, bytes) res" where
  "from_utf8 bs = (if utf8_valid bs then Ok bs else Err (FromUtf8Error ''invalid utf-8 sequence''))"

definition str_bytes :: "string \<Rightarrow> bytes" where
  "str_bytes s = map (\<lambda>c. of_nat (of_char c)) s"

definition read_utf8 :: "bytes reader" where
  "read_utf8 =
     pbind var_int_read (\<lambda>n. pbind (read_into_zeros (as_usize n)) (\<lambda>bs inp.
       rbind (from_utf8 bs) (\<lambda>s. Ok (s, inp))))"

lemma read_utf8_write [simp, res_simps]:
  "fits s \<Longrightarrow> utf8_valid s \<Longrightarrow> read_utf8 (write_var_bytes s @ rest) = Ok (s, rest)"
  by (simp add: read_utf8_def write_var_bytes_def pbind_apply from_utf8_def)

lemma length_write_var_bytes [simp]: "length (write_var_bytes bs) = var_int_size (len_u64 bs) + length bs"
  by (simp add: write_var_bytes_def)

section \<open>Addresses\<close>

datatype IpAddr = V4 bytes | V6 bytes

record NodeAddr =
  na_services :: u64
  na_ip :: bytes
  na_port :: u16

definition node_addr_new :: "IpAddr \<Rightarrow> u16 \<Rightarrow> NodeAddr" where
  "node_addr_new ip port =
     \<lparr>na_services = 0,
      na_ip = (case ip of V4 ipv4 \<Rightarrow> replicate 10 0 @ [0xff, 0xff] @ ipv4 | V6 ipv6 \<Rightarrow> ipv6),
      na_port = port\<rparr>"

definition node_addr_size :: "NodeAddr \<Rightarrow> nat" where
  [codec_defs]: "node_addr_size a = 26"

definition node_addr_read :: "NodeAddr reader" where
  [codec_defs]: "node_addr_read =
     pbind read_u64 (\<lambda>services. pbind (read_into_zeros 16) (\<lambda>ip. pbind read_u16_be (\<lambda>port.
       pret \<lparr>na_services = services, na_ip = ip, na_port = port\<rparr>)))"

definition node_addr_write :: "NodeAddr \<Rightarrow> bytes" where
  [codec_defs]: "node_addr_write a = write_u64 (na_services a) @ na_ip a @ write_u16_be (na_port a)"

definition wf_node_addr :: "NodeAddr \<Rightarrow> bool" where
  [wf_defs]: "wf_node_addr a \<longleftrightarrow> length (na_ip a) = 16"

interpretation node_addr_codec: payload node_addr_read node_addr_write wf_node_addr node_addr_size
  by unfold_locales
    (simp_all add: node_addr_read_def node_addr_write_def node_addr_size_def wf_node_addr_def res_simps)

lemma node_addr_new_wf:
  "case ip of V4 v4 \<Rightarrow> length v4 = 4 | V6 v6 \<Rightarrow> length v6 = 16 \<Longrightarrow> wf_node_addr (node_addr_new ip port)"
  by (simp add: node_addr_new_def wf_node_addr_def split: IpAddr.splits)

record NodeAddrEx =
  nax_last_connected_time :: u32
  nax_addr :: NodeAddr

definition node_addr_ex_read :: "NodeAddrEx reader" where
  "node_addr_ex_read =
     pbind read_u32 (\<lambda>t. pbind node_addr_read (\<lambda>a.
       pret \<lparr>nax_last_connected_time = t, nax_addr = a\<rparr>))"

definition node_addr_ex_write :: "NodeAddrEx \<Rightarrow> bytes" where
  "node_addr_ex_write a = write_u32 (nax_last_connected_time a) @ node_addr_write (nax_addr a)"

definition node_addr_ex_size :: "NodeAddrEx \<Rightarrow> nat" where
  "node_addr_ex_size a = 26 + 4"

definition wf_node_addr_ex :: "NodeAddrEx \<Rightarrow> bool" where
  "wf_node_addr_ex a \<longleftrightarrow> wf_node_addr (nax_addr a)"

interpretation node_addr_ex_codec:
  payload node_addr_ex_read node_addr_ex_write wf_node_addr_ex node_addr_ex_size
  by unfold_locales
    (simp_all add: node_addr_ex_read_def node_addr_ex_write_def node_addr_ex_size_def
      wf_node_addr_ex_def res_simps node_addr_codec.rd_wr node_addr_codec.wr_size node_addr_size_def)

record Addr =
  addr_addrs :: "NodeAddrEx list"

definition MAX_ADDR_COUNT :: u64 where
  "MAX_ADDR_COUNT = 1000"

definition addr_read :: "Addr reader" where
  "addr_read =
     pbind var_int_read (\<lambda>count.
       if count > MAX_ADDR_COUNT
       then pfail (BadData (''Too many addrs: '' @ show_nat (unat count)))
       else pmap (\<lambda>as. \<lparr>addr_addrs = as\<rparr>) (read_n (unat count) node_addr_ex_read))"

definition addr_write :: "Addr \<Rightarrow> bytes" where
  "addr_write a =
     var_int_write (len_u64 (addr_addrs a)) @ concat (map node_addr_ex_write (addr_addrs a))"

definition addr_size :: "Addr \<Rightarrow> nat" where
  "addr_size a = var_int_size (len_u64 (addr_addrs a)) + length (addr_addrs a) * 30"

definition wf_addr :: "Addr \<Rightarrow> bool" where
  "wf_addr a \<longleftrightarrow> length (addr_addrs a) \<le> 1000 \<and> list_all wf_node_addr_ex (addr_addrs a)"

lemma fits_small: "length xs \<le> n \<Longrightarrow> n < 2 ^ 32 \<Longrightarrow> fits xs"
  by (simp add: fits_def)

lemma len_u64_le_iff: "fits xs \<Longrightarrow> len_u64 xs > w \<longleftrightarrow> length xs > unat w"
  by (simp add: word_less_nat_alt)

interpretation addr_codec: payload addr_read addr_write wf_addr addr_size
proof
  fix a :: Addr and rest
  assume wf: "wf_addr a"
  then have "fits (addr_addrs a)" by (intro fits_small [of _ 1000]) (simp_all add: wf_addr_def)
  with wf show "addr_read (addr_write a @ rest) = Ok (a, rest)"
    by (simp add: addr_read_def addr_write_def wf_addr_def res_simps len_u64_le_iff MAX_ADDR_COUNT_def
        node_addr_ex_codec.read_n_wr not_less)
next
  fix a :: Addr
  assume "wf_addr a"
  then show "length (addr_write a) = addr_size a"
    by (simp add: addr_write_def addr_size_def wf_addr_def node_addr_ex_codec.length_concat_wr
        sum_list_map_const_eq node_addr_ex_size_def)
qed

section \<open>The handshake\<close>

definition PROTOCOL_VERSION :: u32 where
  "PROTOCOL_VERSION = 70015"

definition MIN_SUPPORTED_PROTOCOL_VERSION :: u32 where
  "MIN_SUPPORTED_PROTOCOL_VERSION = 70001"

record Version =
  ver_version :: u32
  ver_services :: u64
  ver_timestamp :: u64
  ver_recv_addr :: NodeAddr
  ver_tx_addr :: NodeAddr
  ver_nonce :: u64
  ver_user_agent :: bytes
  ver_start_height :: u32
  ver_relay :: bool

text \<open>
  \<^verbatim>\<open>now\<close> is the clock in seconds, a \<^verbatim>\<open>u32\<close> widened to \<^verbatim>\<open>i64\<close>. The difference and its
  absolute value are signed 64-bit arithmetic and panic when they leave the range.
\<close>

definition version_validate :: "u32 \<Rightarrow> Version \<Rightarrow> (Error, unit) res" where
  "version_validate now v =
     (if ver_version v < MIN_SUPPORTED_PROTOCOL_VERSION
      then Err (BadData (''Unsupported protocol version: '' @ show_nat (unat (ver_version v))))
      else let d = sint (ver_timestamp v) - uint now in
        if d \<le> - (2 ^ 63) then Panic
        else if \<bar>d\<bar> > 2 * 60 * 60
        then Err (BadData (''Timestamp too old: '' @ show_int (sint (ver_timestamp v))))
        else Ok ())"

definition version_read :: "Version reader" where
  "version_read =
     pbind read_u32 (\<lambda>version. pbind read_u64 (\<lambda>services. pbind read_u64 (\<lambda>timestamp.
       pbind node_addr_read (\<lambda>recv_addr. pbind node_addr_read (\<lambda>tx_addr. pbind read_u64 (\<lambda>nonce.
         pbind read_utf8 (\<lambda>user_agent. pbind read_u32 (\<lambda>start_height. pbind read_u8 (\<lambda>relay.
           pret \<lparr>ver_version = version, ver_services = services, ver_timestamp = timestamp,
                 ver_recv_addr = recv_addr, ver_tx_addr = tx_addr, ver_nonce = nonce,
                 ver_user_agent = user_agent, ver_start_height = start_height,
                 ver_relay = (relay = 1)\<rparr>)))))))))"

definition version_write :: "Version \<Rightarrow> bytes" where
  "version_write v =
     write_u32 (ver_version v) @ write_u64 (ver_services v) @ write_u64 (ver_timestamp v)
       @ node_addr_write (ver_recv_addr v) @ node_addr_write (ver_tx_addr v)
       @ write_u64 (ver_nonce v) @ write_var_bytes (ver_user_agent v)
       @ write_u32 (ver_start_height v) @ write_u8 (if ver_relay v then 1 else 0)"

definition version_size :: "Version \<Rightarrow> nat" where
  "version_size v =
     33 + node_addr_size (ver_recv_addr v) + node_addr_size (ver_tx_addr v)
       + var_int_size (len_u64 (ver_user_agent v)) + length (ver_user_agent v)"

definition wf_version :: "Version \<Rightarrow> bool" where
  "wf_version v \<longleftrightarrow>
     wf_node_addr (ver_recv_addr v) \<and> wf_node_addr (ver_tx_addr v)
     \<and> fits (ver_user_agent v) \<and> utf8_valid (ver_user_agent v)"

interpretation version_codec: payload version_read version_write wf_version version_size
proof
  fix v :: Version and rest
  assume "wf_version v"
  then show "version_read (version_write v @ rest) = Ok (v, rest)"
    by (cases v) (simp add: version_read_def version_write_def wf_version_def res_simps
        node_addr_codec.rd_wr)
next
  fix v :: Version
  assume "wf_version v"
  then show "length (version_write v) = version_size v"
    by (simp add: version_write_def version_size_def wf_version_def node_addr_codec.wr_size)
qed

lemma version_validate_Ok_iff:
  "version_validate now v = Ok () \<longleftrightarrow>
     70001 \<le> ver_version v \<and> \<bar>sint (ver_timestamp v) - uint now\<bar> \<le> 7200"
  by (auto simp: version_validate_def Let_def MIN_SUPPORTED_PROTOCOL_VERSION_def not_less)

section \<open>Keep-alive\<close>

record Ping =
  ping_nonce :: u64

definition ping_read :: "Ping reader" where
  "ping_read = pmap (\<lambda>nonce. \<lparr>ping_nonce = nonce\<rparr>) read_u64"

definition ping_write :: "Ping \<Rightarrow> bytes" where
  "ping_write p = write_u64 (ping_nonce p)"

definition ping_size :: "Ping \<Rightarrow> nat" where
  "ping_size p = 8"

interpretation ping_codec: payload ping_read ping_write "\<lambda>_. True" ping_size
  by unfold_locales (simp_all add: ping_read_def ping_write_def ping_size_def res_simps)

section \<open>Inventories\<close>

record InvVect =
  iv_obj_type :: u32
  iv_hash :: Hash256

definition INV_VECT_TX :: u32 where "INV_VECT_TX = 1"
definition INV_VECT_BLOCK :: u32 where "INV_VECT_BLOCK = 2"

definition inv_vect_read :: "InvVect reader" where
  "inv_vect_read =
     pbind read_u32 (\<lambda>obj_type. pbind hash_read (\<lambda>hash.
       pret \<lparr>iv_obj_type = obj_type, iv_hash = hash\<rparr>))"

definition inv_vect_write :: "InvVect \<Rightarrow> bytes" where
  "inv_vect_write v = write_u32 (iv_obj_type v) @ hash_write (iv_hash v)"

definition inv_vect_size :: "InvVect \<Rightarrow> nat" where
  "inv_vect_size v = 36"

definition wf_inv_vect :: "InvVect \<Rightarrow> bool" where
  "wf_inv_vect v \<longleftrightarrow> wf_hash (iv_hash v)"

interpretation inv_vect_codec: payload inv_vect_read inv_vect_write wf_inv_vect inv_vect_size
  by unfold_locales
    (simp_all add: inv_vect_read_def inv_vect_write_def inv_vect_size_def wf_inv_vect_def res_simps)

record Inv =
  inv_objects :: "InvVect list"

definition MAX_INV_ENTRIES :: nat where
  "MAX_INV_ENTRIES = 50000"

definition inv_read :: "Inv reader" where
  "inv_read =
     pbind var_int_read (\<lambda>n. let num_objects = as_usize n in
       if num_objects > MAX_INV_ENTRIES
       then pfail (BadData (''Num objects exceeded maximum: '' @ show_nat num_objects))
       else pmap (\<lambda>os. \<lparr>inv_objects = os\<rparr>) (read_n num_objects inv_vect_read))"

definition inv_write :: "Inv \<Rightarrow> bytes" where
  "inv_write i = var_int_write (len_u64 (inv_objects i)) @ concat (map inv_vect_write (inv_objects i))"

definition inv_size :: "Inv \<Rightarrow> nat" where
  "inv_size i = var_int_size (len_u64 (inv_objects i)) + 36 * length (inv_objects i)"

definition wf_inv :: "Inv \<Rightarrow> bool" where
  "wf_inv i \<longleftrightarrow> length (inv_objects i) \<le> 50000 \<and> list_all wf_inv_vect (inv_objects i)"

interpretation inv_codec: payload inv_read inv_write wf_inv inv_size
proof
  fix i :: Inv and rest
  assume wf: "wf_inv i"
  then have "fits (inv_objects i)" by (intro fits_small [of _ 50000]) (simp_all add: wf_inv_def)
  with wf show "inv_read (inv_write i @ rest) = Ok (i, rest)"
    by (simp add: inv_read_def inv_write_def wf_inv_def res_simps Let_def MAX_INV_ENTRIES_def
        inv_vect_codec.read_n_wr not_less)
next
  fix i :: Inv
  assume "wf_inv i"
  then show "length (inv_write i) = inv_size i"
    by (simp add: inv_write_def inv_size_def wf_inv_def inv_vect_codec.length_concat_wr
        sum_list_map_const_eq inv_vect_size_def)
qed

section \<open>Requests\<close>

definition NO_HASH_STOP :: Hash256 where
  "NO_HASH_STOP = Hash256 (replicate 32 0)"

record BlockLocator =
  bl_version :: u32
  bl_block_locator_hashes :: "Hash256 list"
  bl_hash_stop :: Hash256

definition block_locator_validate :: "BlockLocator \<Rightarrow> (Error, unit) res" where
  "block_locator_validate b =
     (if bl_version b < MIN_SUPPORTED_PROTOCOL_VERSION
      then Err (BadData (''Unsupported protocol version: '' @ show_nat (unat (bl_version b))))
      else Ok ())"

definition block_locator_read :: "BlockLocator reader" where
  "block_locator_read =
     pbind read_u32 (\<lambda>version. pbind var_int_read (\<lambda>num_hashes.
       pbind (read_n (unat num_hashes) hash_read) (\<lambda>hashes. pbind hash_read (\<lambda>hash_stop.
         pret \<lparr>bl_version = version, bl_block_locator_hashes = hashes, bl_hash_stop = hash_stop\<rparr>))))"

definition block_locator_write :: "BlockLocator \<Rightarrow> bytes" where
  "block_locator_write b =
     write_u32 (bl_version b) @ var_int_write (len_u64 (bl_block_locator_hashes b))
       @ concat (map hash_write (bl_block_locator_hashes b)) @ hash_write (bl_hash_stop b)"

definition block_locator_size :: "BlockLocator \<Rightarrow> nat" where
  "block_locator_size b =
     4 + var_int_size (len_u64 (bl_block_locator_hashes b)) + length (bl_block_locator_hashes b) * 32 + 32"

definition wf_block_locator :: "BlockLocator \<Rightarrow> bool" where
  "wf_block_locator b \<longleftrightarrow>
     fits (bl_block_locator_hashes b) \<and> list_all wf_hash (bl_block_locator_hashes b)
     \<and> wf_hash (bl_hash_stop b)"

interpretation block_locator_codec:
  payload block_locator_read block_locator_write wf_block_locator block_locator_size
  by unfold_locales
    (simp_all add: block_locator_read_def block_locator_write_def block_locator_size_def
      wf_block_locator_def res_simps hash_codec.read_n_wr hash_codec.length_concat_wr
      sum_list_map_const_eq)

record FilterLocator =
  fl_filter_type :: u8
  fl_start_height :: u32
  fl_hash_stop :: Hash256

definition filter_locator_read :: "FilterLocator reader" where
  "filter_locator_read =
     pbind read_u8 (\<lambda>filter_type. pbind read_u32 (\<lambda>start_height. pbind hash_read (\<lambda>hash_stop.
       pret \<lparr>fl_filter_type = filter_type, fl_start_height = start_height, fl_hash_stop = hash_stop\<rparr>)))"

definition filter_locator_write :: "FilterLocator \<Rightarrow> bytes" where
  "filter_locator_write l =
     write_u8 (fl_filter_type l) @ write_u32 (fl_start_height l) @ hash_write (fl_hash_stop l)"

definition filter_locator_size :: "FilterLocator \<Rightarrow> nat" where
  "filter_locator_size l = 1 + 4 + 32"

definition wf_filter_locator :: "FilterLocator \<Rightarrow> bool" where
  "wf_filter_locator l \<longleftrightarrow> wf_hash (fl_hash_stop l)"

interpretation filter_locator_codec:
  payload filter_locator_read filter_locator_write wf_filter_locator filter_locator_size
  by unfold_locales
    (simp_all add: filter_locator_read_def filter_locator_write_def filter_locator_size_def
      wf_filter_locator_def res_simps)

section \<open>Compact filters\<close>

record CompactFilter =
  cf_filter_type :: u8
  cf_block_hash :: Hash256
  cf_filter_bytes :: bytes

definition compact_filter_read :: "CompactFilter reader" where
  "compact_filter_read =
     pbind read_u8 (\<lambda>filter_type. pbind hash_read (\<lambda>block_hash. pbind read_var_bytes (\<lambda>filter_bytes.
       pret \<lparr>cf_filter_type = filter_type, cf_block_hash = block_hash, cf_filter_bytes = filter_bytes\<rparr>)))"

definition compact_filter_write :: "CompactFilter \<Rightarrow> bytes" where
  "compact_filter_write f =
     write_u8 (cf_filter_type f) @ hash_write (cf_block_hash f) @ write_var_bytes (cf_filter_bytes f)"

definition compact_filter_size :: "CompactFilter \<Rightarrow> nat" where
  "compact_filter_size f =
     1 + 32 + var_int_size (len_u64 (cf_filter_bytes f)) + length (cf_filter_bytes f)"

definition wf_compact_filter :: "CompactFilter \<Rightarrow> bool" where
  "wf_compact_filter f \<longleftrightarrow> wf_hash (cf_block_hash f) \<and> fits (cf_filter_bytes f)"

interpretation compact_filter_codec:
  payload compact_filter_read compact_filter_write wf_compact_filter compact_filter_size
  by unfold_locales
    (simp_all add: compact_filter_read_def compact_filter_write_def compact_filter_size_def
      wf_compact_filter_def res_simps)

record CompactFilterHeader =
  cfh_filter_type :: u8
  cfh_stop_hash :: Hash256
  cfh_previous_filter_header :: Hash256
  cfh_filter_hashes :: "Hash256 list"

definition compact_filter_header_read :: "CompactFilterHeader reader" where
  "compact_filter_header_read =
     pbind read_u8 (\<lambda>filter_type. pbind hash_read (\<lambda>stop_hash. pbind hash_read (\<lambda>previous.
       pbind var_int_read (\<lambda>filter_len. pbind (read_n (unat filter_len) hash_read) (\<lambda>filter_hashes.
         pret \<lparr>cfh_filter_type = filter_type, cfh_stop_hash = stop_hash,
               cfh_previous_filter_header = previous, cfh_filter_hashes = filter_hashes\<rparr>)))))"

definition compact_filter_header_write :: "CompactFilterHeader \<Rightarrow> bytes" where
  "compact_filter_header_write h =
     write_u8 (cfh_filter_type h) @ hash_write (cfh_stop_hash h)
       @ hash_write (cfh_previous_filter_header h)
       @ var_int_write (len_u64 (cfh_filter_hashes h)) @ concat (map hash_write (cfh_filter_hashes h))"

definition compact_filter_header_size :: "CompactFilterHeader \<Rightarrow> nat" where
  "compact_filter_header_size h =
     1 + 32 + 32 + var_int_size (len_u64 (cfh_filter_hashes h)) + length (cfh_filter_hashes h) * 32"

definition wf_compact_filter_header :: "CompactFilterHeader \<Rightarrow> bool" where
  "wf_compact_filter_header h \<longleftrightarrow>
     wf_hash (cfh_stop_hash h) \<and> wf_hash (cfh_previous_filter_header h)
     \<and> fits (cfh_filter_hashes h) \<and> list_all wf_hash (cfh_filter_hashes h)"

interpretation compact_filter_header_codec:
  payload compact_filter_header_read compact_filter_header_write wf_compact_filter_header
    compact_filter_header_size
  by unfold_locales
    (simp_all add: compact_filter_header_read_def compact_filter_header_write_def
      compact_filter_header_size_def wf_compact_filter_header_def res_simps
      hash_codec.read_n_wr hash_codec.length_concat_wr sum_list_map_const_eq)

section \<open>Rejections and compact blocks\<close>

record Reject =
  rej_message :: bytes
  rej_code :: u8
  rej_reason :: bytes
  rej_data :: bytes

definition carries_hash :: "bytes \<Rightarrow> bool" where
  "carries_hash message \<longleftrightarrow> message = str_bytes ''block'' \<or> message = str_bytes ''tx''"

definition reject_txid :: "Reject \<Rightarrow> (Error, Hash256) res" where
  "reject_txid r =
     (if length (rej_data r) \<noteq> 32 then Err (InvalidOperation ''No transaction hash'')
      else Ok (Hash256 (rej_data r)))"

definition reject_read :: "Reject reader" where
  "reject_read =
     pbind read_utf8 (\<lambda>message. pbind read_u8 (\<lambda>code. pbind read_utf8 (\<lambda>reason.
       pbind (if carries_hash message then read_into_zeros 32 else pret []) (\<lambda>data.
         pret \<lparr>rej_message = message, rej_code = code, rej_reason = reason, rej_data = data\<rparr>))))"

definition reject_write :: "Reject \<Rightarrow> bytes" where
  "reject_write r =
     write_var_bytes (rej_message r) @ write_u8 (rej_code r) @ write_var_bytes (rej_reason r)
       @ rej_data r"

definition reject_size :: "Reject \<Rightarrow> nat" where
  "reject_size r =
     var_int_size (len_u64 (rej_message r)) + length (rej_message r) + 1
       + var_int_size (len_u64 (rej_reason r)) + length (rej_reason r) + length (rej_data r)"

definition wf_reject :: "Reject \<Rightarrow> bool" where
  "wf_reject r \<longleftrightarrow>
     fits (rej_message r) \<and> utf8_valid (rej_message r) \<and> fits (rej_reason r) \<and> utf8_valid (rej_reason r)
     \<and> length (rej_data r) = (if carries_hash (rej_message r) then 32 else 0)"

interpretation reject_codec: payload reject_read reject_write wf_reject reject_size
  by unfold_locales
    (auto simp: reject_read_def reject_write_def reject_size_def wf_reject_def res_simps)

record SendCmpct =
  sc_enable :: u8
  sc_version :: u64

definition use_cmpctblock :: "SendCmpct \<Rightarrow> bool" where
  "use_cmpctblock s \<longleftrightarrow> sc_enable s = 1 \<and> sc_version s = 1"

definition send_cmpct_read :: "SendCmpct reader" where
  "send_cmpct_read =
     pbind read_u8 (\<lambda>enable. pbind read_u64 (\<lambda>version. pret \<lparr>sc_enable = enable, sc_version = version\<rparr>))"

definition send_cmpct_write :: "SendCmpct \<Rightarrow> bytes" where
  "send_cmpct_write s = write_u8 (sc_enable s) @ write_u64 (sc_version s)"

definition send_cmpct_size :: "SendCmpct \<Rightarrow> nat" where
  "send_cmpct_size s = 9"

interpretation send_cmpct_codec: payload send_cmpct_read send_cmpct_write "\<lambda>_. True" send_cmpct_size
  by unfold_locales
    (simp_all add: send_cmpct_read_def send_cmpct_write_def send_cmpct_size_def res_simps)

end
