(* ===== verification/Message.thy ===== *)
theory Message
  imports Msg_Net
begin

text \<open>
  \<^verbatim>\<open>node/src/messages/message_header.rs\<close> and \<^verbatim>\<open>message.rs\<close>: the framing of messages and
  their dispatch on the command. A message is read from a stream whose state matters after a
  failure too (the peer goes on reading), so a stream operation returns the bytes left next
  to its result. The stream holds the bytes that are available; asking for more yields the
  error \<open>eof\<close> of the stream (closed, timed out, would block) and loses what was available.
  SHA-256 (crate \<^verbatim>\<open>ring\<close>) and the wall clock are arguments.
\<close>

section \<open>Streams\<close>

type_synonym 'a sread = "bytes \<Rightarrow> (Error, 'a) res \<times> bytes"

definition stream_read_exact :: "io_error \<Rightarrow> nat \<Rightarrow> bytes sread" where
  "stream_read_exact eof n =
     (\<lambda>bs. if length bs < n then (Err (IOError eof), []) else (Ok (take n bs), drop n bs))"

text \<open>A reader run on a \<^verbatim>\<open>Cursor\<close> over a whole buffer; what follows the value is ignored.\<close>

definition parse_all :: "'a reader \<Rightarrow> bytes \<Rightarrow> (Error, 'a) res" where
  "parse_all rd p = rbind (rd p) (\<lambda>(x, _). Ok x)"

section \<open>Message headers\<close>

record MessageHeader =
  mh_magic :: bytes
  mh_command :: bytes
  mh_payload_size :: u32
  mh_checksum :: bytes

definition header_validate :: "MessageHeader \<Rightarrow> bytes \<Rightarrow> u32 \<Rightarrow> (Error, unit) res" where
  "header_validate h magic max_size =
     (if mh_magic h \<noteq> magic then Err (BadData (''Bad magic: '' @ show_bytes (mh_magic h)))
      else if mh_payload_size h > max_size
      then Err (BadData (''Bad size: '' @ show_nat (unat (mh_payload_size h))))
      else Ok ())"

definition header_payload :: "(bytes \<Rightarrow> bytes) \<Rightarrow> io_error \<Rightarrow> MessageHeader \<Rightarrow> bytes sread" where
  "header_payload sha256 eof h =
     sbind (stream_read_exact eof (unat (mh_payload_size h))) (\<lambda>p.
       let hash = sha256 (sha256 p); j = mh_checksum h in
       if hash ! 0 \<noteq> j ! 0 \<or> hash ! 1 \<noteq> j ! 1 \<or> hash ! 2 \<noteq> j ! 2 \<or> hash ! 3 \<noteq> j ! 3
       then slift (Err (BadData (''Bad checksum: '' @ show_bytes (take 4 hash) @ '' != '' @ show_bytes j)))
       else slift (Ok p))"

definition header_fields_read :: "MessageHeader reader" where
  "header_fields_read =
     pbind (read_into_zeros 4) (\<lambda>magic. pbind (read_into_zeros 12) (\<lambda>command.
       pbind read_u32 (\<lambda>payload_size. pbind (read_into_zeros 4) (\<lambda>checksum.
         pret \<lparr>mh_magic = magic, mh_command = command, mh_payload_size = payload_size,
               mh_checksum = checksum\<rparr>))))"

definition message_header_read :: "io_error \<Rightarrow> MessageHeader sread" where
  "message_header_read eof =
     sbind (stream_read_exact eof 24) (\<lambda>p. slift (parse_all header_fields_read p))"

definition message_header_write :: "MessageHeader \<Rightarrow> bytes" where
  "message_header_write h =
     mh_magic h @ mh_command h @ write_u32 (mh_payload_size h) @ mh_checksum h"

definition wf_header :: "MessageHeader \<Rightarrow> bool" where
  "wf_header h \<longleftrightarrow> length (mh_magic h) = 4 \<and> length (mh_command h) = 12 \<and> length (mh_checksum h) = 4"

section \<open>Commands\<close>

definition cmd :: "string \<Rightarrow> bytes" where
  "cmd s = str_bytes s @ replicate (12 - length s) 0"

definition ADDR :: bytes where "ADDR = cmd ''addr''"
definition ALERT :: bytes where "ALERT = cmd ''alert''"
definition BLOCK :: bytes where "BLOCK = cmd ''block''"
definition BLOCKTXN :: bytes where "BLOCKTXN = cmd ''blocktxn''"
definition CMPCTBLOCK :: bytes where "CMPCTBLOCK = cmd ''cmpctblock''"
definition INV :: bytes where "INV = cmd ''inv''"
definition FEEFILTER :: bytes where "FEEFILTER = cmd ''feefilter''"
definition FILTERADD :: bytes where "FILTERADD = cmd ''filteradd''"
definition FILTERCLEAR :: bytes where "FILTERCLEAR = cmd ''filterclear''"
definition FILTERLOAD :: bytes where "FILTERLOAD = cmd ''filterload''"
definition GETADDR :: bytes where "GETADDR = cmd ''getaddr''"
definition GETBLOCKS :: bytes where "GETBLOCKS = cmd ''getblocks''"
definition GETBLOCKTXN :: bytes where "GETBLOCKTXN = cmd ''getblocktxn''"
definition GETDATA :: bytes where "GETDATA = cmd ''getdata''"
definition GETHEADERS :: bytes where "GETHEADERS = cmd ''getheaders''"
definition HEADERS :: bytes where "HEADERS = cmd ''headers''"
definition MEMPOOL :: bytes where "MEMPOOL = cmd ''mempool''"
definition MERKLEBLOCK :: bytes where "MERKLEBLOCK = cmd ''merkleblock''"
definition NOTFOUND :: bytes where "NOTFOUND = cmd ''notfound''"
definition PING :: bytes where "PING = cmd ''ping''"
definition PONG :: bytes where "PONG = cmd ''pong''"
definition REJECT :: bytes where "REJECT = cmd ''reject''"
definition SENDCMPCT :: bytes where "SENDCMPCT = cmd ''sendcmpct''"
definition SENDHEADERS :: bytes where "SENDHEADERS = cmd ''sendheaders''"
definition TX :: bytes where "TX = cmd ''tx''"
definition VERSION :: bytes where "VERSION = cmd ''version''"
definition VERACK :: bytes where "VERACK = cmd ''verack''"
definition GETCFILTERS :: bytes where "GETCFILTERS = cmd ''getcfilters''"
definition GETCFHEADERS :: bytes where "GETCFHEADERS = cmd ''getcfheaders''"
definition CFILTERS :: bytes where "CFILTERS = cmd ''cfilter''"
definition CFHEADERS :: bytes where "CFHEADERS = cmd ''cfheaders''"

lemmas command_defs = BLOCK_def GETADDR_def GETBLOCKS_def GETDATA_def GETHEADERS_def HEADERS_def
  INV_def MEMPOOL_def NOTFOUND_def PING_def PONG_def REJECT_def SENDHEADERS_def TX_def VERSION_def
  VERACK_def GETCFILTERS_def GETCFHEADERS_def CFILTERS_def CFHEADERS_def

definition NO_CHECKSUM :: bytes where
  "NO_CHECKSUM = [0x5d, 0xf6, 0xe0, 0xe2]"

section \<open>Messages\<close>

datatype Message =
    MBlock Block
  | GetAddr
  | GetBlocks BlockLocator
  | GetData Inv
  | GetHeaders BlockLocator
  | MHeaders Headers
  | MInv Inv
  | Mempool
  | NotFound Inv
  | Other bytes
  | Partial MessageHeader
  | MPing Ping
  | Pong Ping
  | GetCFilters FilterLocator
  | GetCFHeaders FilterLocator
  | CFilters CompactFilter
  | CFHeaders CompactFilterHeader
  | MReject Reject
  | SendHeaders
  | MTx Tx
  | Verack
  | MVersion Version

definition with_payload ::
    "(bytes \<Rightarrow> bytes) \<Rightarrow> io_error \<Rightarrow> MessageHeader \<Rightarrow> (bytes \<Rightarrow> (Error, Message) res) \<Rightarrow> Message sread" where
  "with_payload sha256 eof header parse =
     sbind (header_payload sha256 eof header) (\<lambda>payload. slift (parse payload))"

definition without_payload :: "MessageHeader \<Rightarrow> Message \<Rightarrow> Message sread" where
  "without_payload header m =
     slift (if mh_payload_size header \<noteq> 0 then Err (BadData ''Bad payload'') else Ok m)"

definition parse_as :: "'a reader \<Rightarrow> ('a \<Rightarrow> Message) \<Rightarrow> bytes \<Rightarrow> (Error, Message) res" where
  "parse_as rd con p = rbind (parse_all rd p) (\<lambda>x. Ok (con x))"

definition read_partial ::
    "(bytes \<Rightarrow> bytes) \<Rightarrow> u32 \<Rightarrow> io_error \<Rightarrow> MessageHeader \<Rightarrow> Message sread" where
  "read_partial sha256 now eof header =
     (let c = mh_command header; payload = with_payload sha256 eof header in
      if c = BLOCK then payload (parse_as block_read MBlock)
      else if c = GETADDR then without_payload header GetAddr
      else if c = GETDATA then payload (parse_as inv_read GetData)
      else if c = HEADERS then payload (parse_as headers_read MHeaders)
      else if c = CFILTERS then payload (parse_as compact_filter_read CFilters)
      else if c = CFHEADERS then payload (parse_as compact_filter_header_read CFHeaders)
      else if c = INV then payload (parse_as inv_read MInv)
      else if c = MEMPOOL then without_payload header Mempool
      else if c = NOTFOUND then payload (parse_as inv_read NotFound)
      else if c = PING then payload (parse_as ping_read MPing)
      else if c = PONG then payload (parse_as ping_read Pong)
      else if c = REJECT then payload (parse_as reject_read MReject)
      else if c = SENDHEADERS then without_payload header SendHeaders
      else if c = TX then payload (parse_as tx_read MTx)
      else if c = VERSION
      then payload (\<lambda>p. rbind (parse_all version_read p) (\<lambda>version.
             rbind (version_validate now version) (\<lambda>_. Ok (MVersion version))))
      else if c = VERACK then without_payload header Verack
      else
        sbind (if mh_payload_size header > 0 then header_payload sha256 eof header else slift (Ok []))
          (\<lambda>_. slift (Ok (Other (if utf8_valid c then c else str_bytes ''Unknown'')))))"

definition message_read ::
    "(bytes \<Rightarrow> bytes) \<Rightarrow> u32 \<Rightarrow> io_error \<Rightarrow> (Message \<times> MessageHeader) sread" where
  "message_read sha256 now eof =
     sbind (message_header_read eof) (\<lambda>header bs.
       case read_partial sha256 now eof header bs of
         (Ok msg, rest) \<Rightarrow> (Ok (msg, header), rest)
       | (Err e, rest) \<Rightarrow>
           (if e = IOError TimedOut \<or> e = IOError WouldBlock
            then (Ok (Partial header, header), rest) else (Err e, rest))
       | (Panic, rest) \<Rightarrow> (Panic, rest))"

section \<open>Writing\<close>

definition write_without_payload :: "bytes \<Rightarrow> bytes \<Rightarrow> (io_error, bytes) res" where
  "write_without_payload command magic =
     Ok (message_header_write \<lparr>mh_magic = magic, mh_command = command, mh_payload_size = 0,
           mh_checksum = NO_CHECKSUM\<rparr>)"

definition payload_header :: "(bytes \<Rightarrow> bytes) \<Rightarrow> bytes \<Rightarrow> bytes \<Rightarrow> nat \<Rightarrow> bytes \<Rightarrow> MessageHeader" where
  "payload_header sha256 command body sz magic =
     (let h = sha256 (sha256 body) in
      \<lparr>mh_magic = magic, mh_command = command, mh_payload_size = of_nat sz,
       mh_checksum = [h ! 0, h ! 1, h ! 2, h ! 3]\<rparr>)"

definition write_with_payload ::
    "(bytes \<Rightarrow> bytes) \<Rightarrow> bytes \<Rightarrow> bytes \<Rightarrow> nat \<Rightarrow> bytes \<Rightarrow> (io_error, bytes) res" where
  "write_with_payload sha256 command body sz magic =
     Ok (message_header_write (payload_header sha256 command body sz magic) @ body)"

fun message_write :: "(bytes \<Rightarrow> bytes) \<Rightarrow> Message \<Rightarrow> bytes \<Rightarrow> (io_error, bytes) res" where
  "message_write sha (MBlock p) magic = write_with_payload sha BLOCK (block_write p) (block_size p) magic"
| "message_write sha (MTx p) magic = write_with_payload sha TX (tx_write p) (tx_size p) magic"
| "message_write sha GetAddr magic = write_without_payload GETADDR magic"
| "message_write sha (GetBlocks p) magic =
     write_with_payload sha GETBLOCKS (block_locator_write p) (block_locator_size p) magic"
| "message_write sha (GetData p) magic = write_with_payload sha GETDATA (inv_write p) (inv_size p) magic"
| "message_write sha (GetHeaders p) magic =
     write_with_payload sha GETHEADERS (block_locator_write p) (block_locator_size p) magic"
| "message_write sha (GetCFilters p) magic =
     write_with_payload sha GETCFILTERS (filter_locator_write p) (filter_locator_size p) magic"
| "message_write sha (GetCFHeaders p) magic =
     write_with_payload sha GETCFHEADERS (filter_locator_write p) (filter_locator_size p) magic"
| "message_write sha (MHeaders p) magic =
     write_with_payload sha HEADERS (headers_write p) (headers_size p) magic"
| "message_write sha (CFHeaders p) magic =
     write_with_payload sha CFHEADERS (compact_filter_header_write p) (compact_filter_header_size p) magic"
| "message_write sha (CFilters p) magic =
     write_with_payload sha CFILTERS (compact_filter_write p) (compact_filter_size p) magic"
| "message_write sha Mempool magic = write_without_payload MEMPOOL magic"
| "message_write sha (NotFound p) magic = write_with_payload sha NOTFOUND (inv_write p) (inv_size p) magic"
| "message_write sha (MInv p) magic = write_with_payload sha INV (inv_write p) (inv_size p) magic"
| "message_write sha (Other s) magic = Err (InvalidDataIO (map (\<lambda>b. char_of (unat b)) s))"
| "message_write sha (Partial _) magic = Err (InvalidDataIO ''Cannot write partial message'')"
| "message_write sha (MPing p) magic = write_with_payload sha PING (ping_write p) (ping_size p) magic"
| "message_write sha (Pong p) magic = write_with_payload sha PONG (ping_write p) (ping_size p) magic"
| "message_write sha (MReject p) magic = write_with_payload sha REJECT (reject_write p) (reject_size p) magic"
| "message_write sha SendHeaders magic = write_without_payload SENDHEADERS magic"
| "message_write sha Verack magic = write_without_payload VERACK magic"
| "message_write sha (MVersion v) magic = write_with_payload sha VERSION (version_write v) (version_size v) magic"

section \<open>Reading back what was written\<close>

lemma stream_read_exact_append [simp]:
  "length p = n \<Longrightarrow> stream_read_exact eof n (p @ rest) = (Ok p, rest)"
  by (simp add: stream_read_exact_def)

lemma message_header_read_write [simp]:
  assumes "wf_header h"
  shows "message_header_read eof (message_header_write h @ rest) = (Ok h, rest)"
proof -
  have "length (message_header_write h) = 24"
    using assms by (simp add: wf_header_def message_header_write_def)
  moreover have "header_fields_read (message_header_write h) = Ok (h, [])"
    using assms read_into_zeros_append [of "mh_checksum h" 4 "[]"]
    by (simp add: wf_header_def message_header_write_def header_fields_read_def res_simps)
  ultimately show ?thesis
    by (simp add: message_header_read_def sbind_def parse_all_def)
qed

text \<open>What a hash function owes: 32 bytes.\<close>

definition digest32 :: "(bytes \<Rightarrow> bytes) \<Rightarrow> bool" where
  "digest32 sha256 \<longleftrightarrow> (\<forall>bs. length (sha256 bs) = 32)"

lemma header_payload_write:
  assumes "fits p" and "length p = sz"
  shows "header_payload sha256 eof (payload_header sha256 command p sz magic) (p @ rest) = (Ok p, rest)"
proof -
  have "unat (of_nat sz :: u32) = length p"
    using assms by (simp add: fits_def unat_of_nat)
  then show ?thesis
    by (simp add: header_payload_def payload_header_def Let_def)
qed

lemma length_cmd [simp]: "length s \<le> 12 \<Longrightarrow> length (cmd s) = 12"
  by (simp add: cmd_def str_bytes_def)

lemma wf_payload_header:
  "length magic = 4 \<Longrightarrow> length command = 12 \<Longrightarrow>
     wf_header (payload_header sha256 command p sz magic)"
  by (simp add: wf_header_def payload_header_def Let_def)

text \<open>The commands the dispatch compares with are pairwise different.\<close>

definition dispatched :: "bytes list" where
  "dispatched = [BLOCK, GETADDR, GETDATA, HEADERS, CFILTERS, CFHEADERS, INV, MEMPOOL, NOTFOUND,
     PING, PONG, REJECT, SENDHEADERS, TX, VERSION, VERACK, GETBLOCKS, GETHEADERS, GETCFILTERS,
     GETCFHEADERS]"

lemma distinct_dispatched: "distinct dispatched"
  by code_simp

lemma distinct_rev_dispatched: "distinct (rev dispatched)"
  by (simp only: distinct_rev distinct_dispatched)

lemmas commands_neq =
  distinct_dispatched [unfolded dispatched_def, simplified]
  distinct_rev_dispatched [unfolded dispatched_def, simplified]

lemma length_commands [simp]:
  "length BLOCK = 12" "length GETADDR = 12" "length GETDATA = 12" "length HEADERS = 12"
  "length CFILTERS = 12" "length CFHEADERS = 12" "length INV = 12" "length MEMPOOL = 12"
  "length NOTFOUND = 12" "length PING = 12" "length PONG = 12" "length REJECT = 12"
  "length SENDHEADERS = 12" "length TX = 12" "length VERSION = 12" "length VERACK = 12"
  "length GETBLOCKS = 12" "length GETHEADERS = 12" "length GETCFILTERS = 12" "length GETCFHEADERS = 12"
  by (simp_all add: command_defs)

text \<open>The command and the encoded body of a message that has one.\<close>

fun message_command :: "Message \<Rightarrow> bytes" where
  "message_command (MBlock _) = BLOCK"
| "message_command (MTx _) = TX"
| "message_command GetAddr = GETADDR"
| "message_command (GetBlocks _) = GETBLOCKS"
| "message_command (GetData _) = GETDATA"
| "message_command (GetHeaders _) = GETHEADERS"
| "message_command (GetCFilters _) = GETCFILTERS"
| "message_command (GetCFHeaders _) = GETCFHEADERS"
| "message_command (MHeaders _) = HEADERS"
| "message_command (CFHeaders _) = CFHEADERS"
| "message_command (CFilters _) = CFILTERS"
| "message_command Mempool = MEMPOOL"
| "message_command (NotFound _) = NOTFOUND"
| "message_command (MInv _) = INV"
| "message_command (Other s) = s"
| "message_command (Partial h) = mh_command h"
| "message_command (MPing _) = PING"
| "message_command (Pong _) = PONG"
| "message_command (MReject _) = REJECT"
| "message_command SendHeaders = SENDHEADERS"
| "message_command Verack = VERACK"
| "message_command (MVersion _) = VERSION"

text \<open>
  Messages that are read back as they were sent: every kind the reader knows, with a body the
  wire can carry (shorter than \<open>2 ^ 32\<close> bytes). A version must pass its own validation.
\<close>

fun transferable :: "u32 \<Rightarrow> Message \<Rightarrow> bool" where
  "transferable now (MBlock p) \<longleftrightarrow> wf_block p \<and> fits (block_write p)"
| "transferable now (MTx p) \<longleftrightarrow> wf_tx p \<and> fits (tx_write p)"
| "transferable now (GetData p) \<longleftrightarrow> wf_inv p \<and> fits (inv_write p)"
| "transferable now (MHeaders p) \<longleftrightarrow> wf_headers p \<and> fits (headers_write p)"
| "transferable now (CFHeaders p) \<longleftrightarrow>
     wf_compact_filter_header p \<and> fits (compact_filter_header_write p)"
| "transferable now (CFilters p) \<longleftrightarrow> wf_compact_filter p \<and> fits (compact_filter_write p)"
| "transferable now (NotFound p) \<longleftrightarrow> wf_inv p \<and> fits (inv_write p)"
| "transferable now (MInv p) \<longleftrightarrow> wf_inv p \<and> fits (inv_write p)"
| "transferable now (MPing p) \<longleftrightarrow> True"
| "transferable now (Pong p) \<longleftrightarrow> True"
| "transferable now (MReject p) \<longleftrightarrow> wf_reject p \<and> fits (reject_write p)"
| "transferable now (MVersion p) \<longleftrightarrow>
     wf_version p \<and> fits (version_write p) \<and> version_validate now p = Ok ()"
| "transferable now GetAddr \<longleftrightarrow> True"
| "transferable now Mempool \<longleftrightarrow> True"
| "transferable now SendHeaders \<longleftrightarrow> True"
| "transferable now Verack \<longleftrightarrow> True"
| "transferable now _ \<longleftrightarrow> False"

lemma read_with_payload:
  assumes "\<And>h. mh_command h = c \<Longrightarrow> read_partial sha256 now eof h = with_payload sha256 eof h parse"
    and "parse p = Ok m" and "fits p" and "length p = sz"
    and "length magic = 4" and "length c = 12"
  shows "\<exists>bs h. write_with_payload sha256 c p sz magic = Ok bs
           \<and> message_read sha256 now eof (bs @ rest) = (Ok (m, h), rest)
           \<and> mh_magic h = magic \<and> mh_command h = c"
proof -
  let ?h = "payload_header sha256 c p sz magic"
  have cmd: "mh_command ?h = c" "mh_magic ?h = magic" by (simp_all add: payload_header_def Let_def)
  then have "read_partial sha256 now eof ?h (p @ rest) = (Ok m, rest)"
    using assms(2) header_payload_write [OF assms(3,4)] by (simp add: assms(1) with_payload_def)
  moreover have "message_header_read eof (message_header_write ?h @ p @ rest) = (Ok ?h, p @ rest)"
    using assms by (intro message_header_read_write wf_payload_header)
  ultimately have "message_read sha256 now eof (message_header_write ?h @ p @ rest) = (Ok (m, ?h), rest)"
    by (simp add: message_read_def)
  with cmd show ?thesis by (simp add: write_with_payload_def)
qed

lemma read_without_payload:
  assumes "\<And>h. mh_command h = c \<Longrightarrow> read_partial sha256 now eof h = without_payload h m"
    and "length magic = 4" and "length c = 12"
  shows "\<exists>bs h. write_without_payload c magic = Ok bs
           \<and> message_read sha256 now eof (bs @ rest) = (Ok (m, h), rest)
           \<and> mh_magic h = magic \<and> mh_command h = c"
proof -
  let ?h = "\<lparr>mh_magic = magic, mh_command = c, mh_payload_size = 0, mh_checksum = NO_CHECKSUM\<rparr>"
  have "message_header_read eof (message_header_write ?h @ rest) = (Ok ?h, rest)"
    using assms by (intro message_header_read_write) (simp add: wf_header_def NO_CHECKSUM_def)
  then have "message_read sha256 now eof (message_header_write ?h @ rest) = (Ok (m, ?h), rest)"
    using assms by (simp add: message_read_def without_payload_def)
  then show ?thesis by (simp add: write_without_payload_def)
qed

lemma read_partial_payload:
  fixes h :: MessageHeader
  shows
  "mh_command h = BLOCK \<Longrightarrow> read_partial sha256 now eof h = with_payload sha256 eof h (parse_as block_read MBlock)"
  "mh_command h = GETDATA \<Longrightarrow> read_partial sha256 now eof h = with_payload sha256 eof h (parse_as inv_read GetData)"
  "mh_command h = HEADERS \<Longrightarrow> read_partial sha256 now eof h = with_payload sha256 eof h (parse_as headers_read MHeaders)"
  "mh_command h = CFILTERS \<Longrightarrow> read_partial sha256 now eof h = with_payload sha256 eof h (parse_as compact_filter_read CFilters)"
  "mh_command h = CFHEADERS \<Longrightarrow> read_partial sha256 now eof h = with_payload sha256 eof h (parse_as compact_filter_header_read CFHeaders)"
  "mh_command h = INV \<Longrightarrow> read_partial sha256 now eof h = with_payload sha256 eof h (parse_as inv_read MInv)"
  "mh_command h = NOTFOUND \<Longrightarrow> read_partial sha256 now eof h = with_payload sha256 eof h (parse_as inv_read NotFound)"
  "mh_command h = PING \<Longrightarrow> read_partial sha256 now eof h = with_payload sha256 eof h (parse_as ping_read MPing)"
  "mh_command h = PONG \<Longrightarrow> read_partial sha256 now eof h = with_payload sha256 eof h (parse_as ping_read Pong)"
  "mh_command h = REJECT \<Longrightarrow> read_partial sha256 now eof h = with_payload sha256 eof h (parse_as reject_read MReject)"
  "mh_command h = TX \<Longrightarrow> read_partial sha256 now eof h = with_payload sha256 eof h (parse_as tx_read MTx)"
  by (simp_all add: read_partial_def Let_def commands_neq)

lemma read_partial_no_payload:
  fixes h :: MessageHeader
  shows
  "mh_command h = GETADDR \<Longrightarrow> read_partial sha256 now eof h = without_payload h GetAddr"
  "mh_command h = MEMPOOL \<Longrightarrow> read_partial sha256 now eof h = without_payload h Mempool"
  "mh_command h = SENDHEADERS \<Longrightarrow> read_partial sha256 now eof h = without_payload h SendHeaders"
  "mh_command h = VERACK \<Longrightarrow> read_partial sha256 now eof h = without_payload h Verack"
  by (simp_all add: read_partial_def Let_def commands_neq)

lemma read_partial_version:
  "mh_command h = VERSION \<Longrightarrow> read_partial sha256 now eof h = with_payload sha256 eof h
     (\<lambda>p. rbind (parse_all version_read p) (\<lambda>version.
        rbind (version_validate now version) (\<lambda>_. Ok (MVersion version))))"
  by (simp add: read_partial_def Let_def commands_neq)

context serializable
begin

lemma parse_as_wr: "ok x \<Longrightarrow> parse_as rd con (wr x) = Ok (con x)"
  by (simp add: parse_as_def parse_all_def rd_wr_whole)

end

lemmas parse_written = block_codec.parse_as_wr tx_codec.parse_as_wr inv_codec.parse_as_wr
  headers_codec.parse_as_wr compact_filter_codec.parse_as_wr compact_filter_header_codec.parse_as_wr
  ping_codec.parse_as_wr reject_codec.parse_as_wr

lemmas written_size = block_codec.wr_size tx_codec.wr_size inv_codec.wr_size headers_codec.wr_size
  compact_filter_codec.wr_size compact_filter_header_codec.wr_size ping_codec.wr_size
  reject_codec.wr_size version_codec.wr_size

lemma fits_ping [simp]: "fits (ping_write p)"
  using ping_codec.wr_size by (simp add: fits_def ping_size_def)

lemma message_round_trip_aux:
  assumes "transferable now m" and "length magic = 4"
  shows "\<exists>bs h. message_write sha256 m magic = Ok bs
           \<and> message_read sha256 now eof (bs @ rest) = (Ok (m, h), rest)
           \<and> mh_magic h = magic \<and> mh_command h = message_command m"
proof (cases m)
  case (MBlock p)
  show ?thesis unfolding MBlock message_write.simps message_command.simps
    by (rule read_with_payload [OF read_partial_payload(1)])
      (use assms MBlock in \<open>simp_all add: parse_written written_size\<close>)
next
  case (GetData p)
  show ?thesis unfolding GetData message_write.simps message_command.simps
    by (rule read_with_payload [OF read_partial_payload(2)])
      (use assms GetData in \<open>simp_all add: parse_written written_size\<close>)
next
  case (MHeaders p)
  show ?thesis unfolding MHeaders message_write.simps message_command.simps
    by (rule read_with_payload [OF read_partial_payload(3)])
      (use assms MHeaders in \<open>simp_all add: parse_written written_size\<close>)
next
  case (CFilters p)
  show ?thesis unfolding CFilters message_write.simps message_command.simps
    by (rule read_with_payload [OF read_partial_payload(4)])
      (use assms CFilters in \<open>simp_all add: parse_written written_size\<close>)
next
  case (CFHeaders p)
  show ?thesis unfolding CFHeaders message_write.simps message_command.simps
    by (rule read_with_payload [OF read_partial_payload(5)])
      (use assms CFHeaders in \<open>simp_all add: parse_written written_size\<close>)
next
  case (MInv p)
  show ?thesis unfolding MInv message_write.simps message_command.simps
    by (rule read_with_payload [OF read_partial_payload(6)])
      (use assms MInv in \<open>simp_all add: parse_written written_size\<close>)
next
  case (NotFound p)
  show ?thesis unfolding NotFound message_write.simps message_command.simps
    by (rule read_with_payload [OF read_partial_payload(7)])
      (use assms NotFound in \<open>simp_all add: parse_written written_size\<close>)
next
  case (MPing p)
  show ?thesis unfolding MPing message_write.simps message_command.simps
    by (rule read_with_payload [OF read_partial_payload(8)])
      (use assms MPing in \<open>simp_all add: parse_written written_size\<close>)
next
  case (Pong p)
  show ?thesis unfolding Pong message_write.simps message_command.simps
    by (rule read_with_payload [OF read_partial_payload(9)])
      (use assms Pong in \<open>simp_all add: parse_written written_size\<close>)
next
  case (MReject p)
  show ?thesis unfolding MReject message_write.simps message_command.simps
    by (rule read_with_payload [OF read_partial_payload(10)])
      (use assms MReject in \<open>simp_all add: parse_written written_size\<close>)
next
  case (MTx p)
  show ?thesis unfolding MTx message_write.simps message_command.simps
    by (rule read_with_payload [OF read_partial_payload(11)])
      (use assms MTx in \<open>simp_all add: parse_written written_size\<close>)
next
  case GetAddr
  show ?thesis unfolding GetAddr message_write.simps message_command.simps
    by (rule read_without_payload [OF read_partial_no_payload(1)]) (simp_all add: assms)
next
  case Mempool
  show ?thesis unfolding Mempool message_write.simps message_command.simps
    by (rule read_without_payload [OF read_partial_no_payload(2)]) (simp_all add: assms)
next
  case SendHeaders
  show ?thesis unfolding SendHeaders message_write.simps message_command.simps
    by (rule read_without_payload [OF read_partial_no_payload(3)]) (simp_all add: assms)
next
  case Verack
  show ?thesis unfolding Verack message_write.simps message_command.simps
    by (rule read_without_payload [OF read_partial_no_payload(4)]) (simp_all add: assms)
next
  case (MVersion v)
  show ?thesis unfolding MVersion message_write.simps message_command.simps
    by (rule read_with_payload [OF read_partial_version])
      (use assms MVersion version_codec.rd_wr_whole [of v] in \<open>simp_all add: parse_all_def written_size\<close>)
qed (use assms in simp_all)

text \<open>Commands outside the dispatch: the payload is checked and dropped.\<close>

definition understood :: "bytes list" where
  "understood = [BLOCK, GETADDR, GETDATA, HEADERS, CFILTERS, CFHEADERS, INV, MEMPOOL, NOTFOUND,
     PING, PONG, REJECT, SENDHEADERS, TX, VERSION, VERACK]"

fun sendable_request :: "Message \<Rightarrow> bool" where
  "sendable_request (GetBlocks l) \<longleftrightarrow> wf_block_locator l \<and> fits (block_locator_write l)"
| "sendable_request (GetHeaders l) \<longleftrightarrow> wf_block_locator l \<and> fits (block_locator_write l)"
| "sendable_request (GetCFilters l) \<longleftrightarrow> wf_filter_locator l"
| "sendable_request (GetCFHeaders l) \<longleftrightarrow> wf_filter_locator l"
| "sendable_request _ \<longleftrightarrow> False"

lemma request_commands:
  "list_all (\<lambda>c. c \<notin> set understood \<and> utf8_valid c) [GETBLOCKS, GETHEADERS, GETCFILTERS, GETCFHEADERS]"
  by code_simp

lemma fits_filter_locator: "wf_filter_locator l \<Longrightarrow> fits (filter_locator_write l)"
  by (simp add: fits_def filter_locator_codec.wr_size filter_locator_size_def)

lemma read_unknown:
  assumes "c \<notin> set understood" and "utf8_valid c" and "fits p" and "length p = sz"
    and "length magic = 4" and "length c = 12"
  shows "\<exists>bs h. write_with_payload sha256 c p sz magic = Ok bs
           \<and> message_read sha256 now eof (bs @ rest) = (Ok (Other c, h), rest)
           \<and> mh_magic h = magic \<and> mh_command h = c"
proof -
  let ?h = "payload_header sha256 c p sz magic"
  have h: "mh_command ?h = c" "mh_magic ?h = magic" by (simp_all add: payload_header_def Let_def)
  have pay: "(if mh_payload_size ?h > 0 then header_payload sha256 eof ?h else slift (Ok [])) (p @ rest)
      = (Ok p, rest)"
  proof (cases "mh_payload_size ?h > 0")
    case False
    then have "unat (of_nat sz :: u32) = 0"
      by (simp only: payload_header_def Let_def MessageHeader.simps word_gt_0) simp
    then have "p = []"
      using assms(3,4) by (simp add: fits_def unat_of_nat)
    with False show ?thesis by simp
  qed (use header_payload_write [OF assms(3,4)] in simp)
  have "read_partial sha256 now eof ?h (p @ rest) = (Ok (Other c), rest)"
    using assms(1,2) pay by (simp add: read_partial_def Let_def h understood_def)
  moreover have "message_header_read eof (message_header_write ?h @ p @ rest) = (Ok ?h, p @ rest)"
    using assms by (intro message_header_read_write wf_payload_header)
  ultimately have "message_read sha256 now eof (message_header_write ?h @ p @ rest) = (Ok (Other c, ?h), rest)"
    by (simp add: message_read_def)
  with h show ?thesis by (simp add: write_with_payload_def)
qed

section \<open>Properties\<close>

text \<open>
  C3: A message of a kind the reader knows, whose body is well formed and fits the wire, is
  written without error, and reading the bytes back yields the same message under a header
  with the network's magic and the message's command, leaving exactly the bytes that
  followed it, whatever the stream's end-of-input error is.
\<close>

theorem message_round_trip:
  assumes "transferable now m" and "length magic = 4"
  shows "\<exists>bs h. message_write sha256 m magic = Ok bs
           \<and> message_read sha256 now eof (bs @ rest) = (Ok (m, h), rest)
           \<and> mh_magic h = magic \<and> mh_command h = message_command m"
  using assms by (rule message_round_trip_aux)

theorem message_round_trip_witness:
  "\<exists>bs h. message_write (\<lambda>_. replicate 32 7) (MPing \<lparr>ping_nonce = 5\<rparr>) [1, 2, 3, 4] = Ok bs
     \<and> message_read (\<lambda>_. replicate 32 7) 0 WouldBlock (bs @ [9]) = (Ok (MPing \<lparr>ping_nonce = 5\<rparr>, h), [9])
     \<and> mh_magic h = [1, 2, 3, 4] \<and> mh_command h = PING"
  using message_round_trip [of 0 "MPing \<lparr>ping_nonce = 5\<rparr>" "[1, 2, 3, 4]" "\<lambda>_. replicate 32 7" WouldBlock "[9]"]
  by simp

text \<open>
  C9: The payload handed to a parser is exactly the announced number of bytes of the stream,
  and its double SHA-256 begins with the four bytes of the header's checksum: bytes that fail
  the check never reach a parser.
\<close>

theorem header_payload_checked:
  assumes "header_payload sha256 eof h bs = (Ok p, rest)" and "wf_header h" and "digest32 sha256"
  shows "bs = p @ rest \<and> length p = unat (mh_payload_size h)
       \<and> take 4 (hash_bytes (sha256d sha256 p)) = mh_checksum h"
proof -
  have p: "bs = p @ rest" "length p = unat (mh_payload_size h)"
    and c: "\<forall>i \<in> {0, 1, 2, 3}. sha256 (sha256 p) ! i = mh_checksum h ! i"
    using assms(1)
    by (auto simp: header_payload_def sbind_def stream_read_exact_def Let_def split: if_splits)
  have "take 4 (sha256 (sha256 p)) = mh_checksum h"
  proof (rule nth_equalityI)
    show "length (take 4 (sha256 (sha256 p))) = length (mh_checksum h)"
      using assms by (simp add: digest32_def wf_header_def)
    fix i assume "i < length (take 4 (sha256 (sha256 p)))"
    then have "i \<in> {0, 1, 2, 3}" "i < 4" by auto
    then show "take 4 (sha256 (sha256 p)) ! i = mh_checksum h ! i" using c by auto
  qed
  with p show ?thesis by (simp add: sha256d_def)
qed

theorem header_payload_checked_witness:
  "header_payload (\<lambda>_. replicate 32 7) TimedOut
     \<lparr>mh_magic = [1, 2, 3, 4], mh_command = PING, mh_payload_size = 2, mh_checksum = [7, 7, 7, 7]\<rparr> [5, 6, 8]
     = (Ok [5, 6], [8])
   \<and> take 4 (hash_bytes (sha256d (\<lambda>_. replicate 32 7) [5, 6])) = ([7, 7, 7, 7] :: bytes)"
proof -
  let ?h = "\<lparr>mh_magic = [1, 2, 3, 4], mh_command = PING, mh_payload_size = 2, mh_checksum = [7, 7, 7, 7]\<rparr>"
  have "header_payload (\<lambda>_. replicate 32 7) TimedOut ?h [5, 6, 8] = (Ok [5, 6], [8])"
    by (simp add: header_payload_def sbind_def stream_read_exact_def nth_Cons')
  moreover have "wf_header ?h" "digest32 (\<lambda>_. replicate 32 7)"
    by (simp_all add: wf_header_def digest32_def)
  ultimately show ?thesis
    using header_payload_checked [of "\<lambda>_. replicate 32 7" TimedOut ?h "[5, 6, 8]" "[5, 6]" "[8]"] by simp
qed

text \<open>
  The requests the client sends are not understood by its own reader: a written
  getblocks, getheaders, getcfilters or getcfheaders message is read back as an unknown
  command, its payload checked and skipped.
\<close>

lemma requests_read_as_other:
  assumes "sendable_request m" and "length magic = 4"
  shows "\<exists>bs h. message_write sha256 m magic = Ok bs
           \<and> message_read sha256 now eof (bs @ rest) = (Ok (Other (message_command m), h), rest)
           \<and> mh_magic h = magic \<and> mh_command h = message_command m"
proof (cases m)
  case (GetBlocks l)
  show ?thesis unfolding GetBlocks message_write.simps message_command.simps
    by (rule read_unknown) (use assms GetBlocks request_commands in \<open>simp_all add: block_locator_codec.wr_size\<close>)
next
  case (GetHeaders l)
  show ?thesis unfolding GetHeaders message_write.simps message_command.simps
    by (rule read_unknown) (use assms GetHeaders request_commands in \<open>simp_all add: block_locator_codec.wr_size\<close>)
next
  case (GetCFilters l)
  show ?thesis unfolding GetCFilters message_write.simps message_command.simps
    by (rule read_unknown) (use assms GetCFilters request_commands in \<open>simp_all add: filter_locator_codec.wr_size fits_filter_locator\<close>)
next
  case (GetCFHeaders l)
  show ?thesis unfolding GetCFHeaders message_write.simps message_command.simps
    by (rule read_unknown) (use assms GetCFHeaders request_commands in \<open>simp_all add: filter_locator_codec.wr_size fits_filter_locator\<close>)
qed (use assms in simp_all)

lemma requests_read_as_other_witness:
  "\<exists>bs h. message_write (\<lambda>_. replicate 32 7)
       (GetCFilters \<lparr>fl_filter_type = 0, fl_start_height = 8, fl_hash_stop = NO_HASH_STOP\<rparr>) [1, 2, 3, 4] = Ok bs
     \<and> message_read (\<lambda>_. replicate 32 7) 0 WouldBlock (bs @ [9]) = (Ok (Other GETCFILTERS, h), [9])"
proof -
  have "sendable_request (GetCFilters \<lparr>fl_filter_type = 0, fl_start_height = 8, fl_hash_stop = NO_HASH_STOP\<rparr>)"
    by (simp add: wf_filter_locator_def wf_hash_def NO_HASH_STOP_def)
  from requests_read_as_other [OF this, of "[1, 2, 3, 4]" "\<lambda>_. replicate 32 7" 0 WouldBlock "[9]"]
  show ?thesis by fastforce
qed

end
