(* ===== verification/P2P.thy ===== *)
theory P2P
  imports Message
begin

text \<open>
  \<^verbatim>\<open>node/src/p2p.rs\<close> with \<^verbatim>\<open>tcpsocket.rs\<close>: the connection to one peer. The state of an
  operation is the peer with the host services it uses. What the peer will send is a list of
  segments: bytes that are available, and the error the stream reports when they do not
  suffice; after the last segment the stream is closed. (A read that runs short uses up its
  segment and reports the error; the next read reports it once more and goes on to the next
  segment.) All bytes written are kept.

  The host's clocks and its random source are lists of readings, taken one by one. The
  monotonic readings bound every loop of this file: when they are used up the flag
  \<open>ho_exhausted\<close> is raised and the call in progress ends as if its time were over. A run that
  ends with the flag down is a run of the program; longer runs need longer lists.
\<close>

section \<open>The host\<close>

datatype send_outcome = Sent | WriteFails io_error | FlushFails string

record host =
  ho_monotonic :: "u64 list"
  ho_wall :: "u64 list"
  ho_random :: "u64 list"
  ho_sends :: "send_outcome list"
  ho_exhausted :: bool

text \<open>A reading of the wall clock and of the random source; zero when the list is used up.\<close>

definition take_wall :: "host \<Rightarrow> u64 \<times> host" where
  "take_wall h = (case ho_wall h of [] \<Rightarrow> (0, h) | t # ts \<Rightarrow> (t, h\<lparr>ho_wall := ts\<rparr>))"

definition take_random :: "host \<Rightarrow> u64 \<times> host" where
  "take_random h = (case ho_random h of [] \<Rightarrow> (0, h) | r # rs \<Rightarrow> (r, h\<lparr>ho_random := rs\<rparr>))"

definition take_send :: "host \<Rightarrow> send_outcome \<times> host" where
  "take_send h = (case ho_sends h of [] \<Rightarrow> (Sent, h) | r # rs \<Rightarrow> (r, h\<lparr>ho_sends := rs\<rparr>))"

section \<open>The peer\<close>

definition MAX_PROTOCOL_VERSION :: u32 where
  "MAX_PROTOCOL_VERSION = 70015"

definition USER_AGENT :: bytes where
  "USER_AGENT = str_bytes ''/BITSPEND_CLIENT:0.1.0/''"

record BitcoinP2PConfig =
  pc_network :: Network
  pc_nonce :: u64
  pc_height :: u32
  pc_user_agent :: bytes
  pc_max_protocol_version :: u32

record Peer =
  pe_input :: "(bytes \<times> io_error) list"
  pe_output :: bytes
  pe_remote_address :: NodeAddr
  pe_config :: BitcoinP2PConfig
  pe_magic :: bytes

type_synonym sha = "bytes \<Rightarrow> bytes"
type_synonym 'a peer_call = "(Peer \<times> host, Error, 'a) call"

definition on_host :: "(host \<Rightarrow> 'a \<times> host) \<Rightarrow> 'a peer_call" where
  "on_host f = (\<lambda>(p, h). case f h of (x, h') \<Rightarrow> (Ok x, (p, h')))"

definition peer_send :: "sha \<Rightarrow> Message \<Rightarrow> unit peer_call" where
  "peer_send sha256 message = (\<lambda>(p, h).
     case message_write sha256 message (pe_magic p) of
       Err e \<Rightarrow> (Err (IOError e), (p, h))
     | Panic \<Rightarrow> (Panic, (p, h))
     | Ok bs \<Rightarrow>
         (case take_send h of
            (Sent, h') \<Rightarrow> (Ok (), (p\<lparr>pe_output := pe_output p @ bs\<rparr>, h'))
          | (WriteFails e, h') \<Rightarrow> (Err (IOError e), (p, h'))
          | (FlushFails e, h') \<Rightarrow> (Err (StreamingError e), (p\<lparr>pe_output := pe_output p @ bs\<rparr>, h'))))"

text \<open>
  \<^verbatim>\<open>Message::read\<close> on the input stream; only a version message looks at the wall clock.
\<close>

definition read_message :: "sha \<Rightarrow> (Message \<times> MessageHeader) peer_call" where
  "read_message sha256 = (\<lambda>(p, h).
     case take_wall h of (now, h') \<Rightarrow>
       (case pe_input p of
          [] \<Rightarrow> (Err (IOError UnexpectedEof), (p, h'))
        | (bs, eof) # segments \<Rightarrow>
            if bs = [] then (Err (IOError eof), (p\<lparr>pe_input := segments\<rparr>, h'))
            else (case message_read sha256 (ucast now) eof bs of
                    (r, rest) \<Rightarrow> (r, (p\<lparr>pe_input := (rest, eof) # segments\<rparr>, h')))))"

lemma take_wall_monotonic: "take_wall h = (t, h') \<Longrightarrow> ho_monotonic h' = ho_monotonic h"
  by (auto simp: take_wall_def split: list.splits)

lemma read_message_monotonic:
  "read_message sha256 (p, h) = (r, (p', h')) \<Longrightarrow> ho_monotonic h' = ho_monotonic h"
  by (auto simp: read_message_def split: prod.splits list.splits if_splits dest: take_wall_monotonic)

lemma read_message_exhausted:
  "read_message sha256 (p, h) = (r, (p', h')) \<Longrightarrow> ho_exhausted h' = ho_exhausted h"
  by (auto simp: read_message_def take_wall_def split: prod.splits list.splits if_splits)

function receive_loop :: "sha \<Rightarrow> u64 \<Rightarrow> bytes \<Rightarrow> Message peer_call" where
  "receive_loop sha256 duration message_type (p, h) =
     (case ho_monotonic h of
        [] \<Rightarrow> (Err Timeout, (p, h\<lparr>ho_exhausted := True\<rparr>))
      | now # readings \<Rightarrow>
          if now < duration then
            (case read_message sha256 (p, h\<lparr>ho_monotonic := readings\<rparr>) of
               (r, (p', h')) \<Rightarrow>
                 (case r of
                    Ok (message, header) \<Rightarrow>
                      if mh_command header = NOTFOUND then (Ok message, (p', h'))
                      else if mh_command header = message_type then (Ok message, (p', h'))
                      else receive_loop sha256 duration message_type (p', h')
                  | Err e \<Rightarrow>
                      (case e of
                         IOError _ \<Rightarrow> receive_loop sha256 duration message_type (p', h')
                       | _ \<Rightarrow> (Err e, (p', h')))
                  | Panic \<Rightarrow> (Panic, (p', h'))))
          else (Err Timeout, (p, h\<lparr>ho_monotonic := readings\<rparr>)))"
  by pat_completeness auto
termination
  by (relation "measure (\<lambda>(_, _, _, (_, h)). length (ho_monotonic h))")
    (auto dest!: read_message_monotonic [OF sym])

declare receive_loop.simps [simp del]

definition receive :: "sha \<Rightarrow> bytes \<Rightarrow> Message peer_call" where
  "receive sha256 message_type = (\<lambda>(p, h).
     case ho_monotonic h of
       [] \<Rightarrow> (Err Timeout, (p, h\<lparr>ho_exhausted := True\<rparr>))
     | now # readings \<Rightarrow>
         if unat now + 1000000000 < 2 ^ 64
         then receive_loop sha256 (now + 1000000000) message_type (p, h\<lparr>ho_monotonic := readings\<rparr>)
         else (Panic, (p, h\<lparr>ho_monotonic := readings\<rparr>)))"

definition peer_version :: "Message peer_call" where
  "peer_version =
     sbind (on_host take_wall) (\<lambda>timestamp. sget (\<lambda>(p, _). Ok (MVersion
       \<lparr>ver_version = pc_max_protocol_version (pe_config p), ver_services = 0, ver_timestamp = timestamp,
        ver_recv_addr = pe_remote_address p, ver_tx_addr = pe_remote_address p,
        ver_nonce = pc_nonce (pe_config p), ver_user_agent = pc_user_agent (pe_config p),
        ver_start_height = pc_height (pe_config p), ver_relay = False\<rparr>)))"

definition handshake :: "sha \<Rightarrow> unit peer_call" where
  "handshake sha256 =
     sbind peer_version (\<lambda>version_message.
     sbind (peer_send sha256 version_message) (\<lambda>_.
     sbind (receive sha256 VERSION) (\<lambda>res.
       case res of
         MVersion _ \<Rightarrow>
           sbind (receive sha256 VERACK) (\<lambda>res.
             case res of
               Verack \<Rightarrow>
                 sbind (peer_send sha256 Verack) (\<lambda>_.
                 sbind (on_host take_random) (\<lambda>nonce.
                 sbind (peer_send sha256 (MPing \<lparr>ping_nonce = nonce\<rparr>)) (\<lambda>_.
                 sbind (receive sha256 PONG) (\<lambda>_. slift (Ok ())))))
             | _ \<Rightarrow> slift (Err WrongP2PMessage))
       | _ \<Rightarrow> slift (Err WrongP2PMessage))))"

text \<open>\<^verbatim>\<open>Peer::new\<close>: the handshake must succeed.\<close>

definition peer_new :: "sha \<Rightarrow> Network \<Rightarrow> (bytes \<times> io_error) list \<Rightarrow> NodeAddr \<Rightarrow> (host, Error, Peer) call" where
  "peer_new sha256 network input remote_address h =
     (case take_random h of (nonce, h1) \<Rightarrow>
       (let config = \<lparr>pc_network = network, pc_nonce = nonce, pc_height = 0, pc_user_agent = USER_AGENT,
              pc_max_protocol_version = MAX_PROTOCOL_VERSION\<rparr>;
            peer = \<lparr>pe_input = input, pe_output = [], pe_remote_address = remote_address, pe_config = config,
              pe_magic = magic_from_network network\<rparr> in
        case handshake sha256 (peer, h1) of
          (Ok _, (p, h2)) \<Rightarrow> (Ok p, h2)
        | (_, (_, h2)) \<Rightarrow> (Panic, h2)))"

definition peer_fetch_headers :: "sha \<Rightarrow> Hash256 \<Rightarrow> BlockHeader list peer_call" where
  "peer_fetch_headers sha256 last_known_blockhash =
     (let block_locator = \<lparr>bl_version = PROTOCOL_VERSION, bl_block_locator_hashes = [last_known_blockhash],
            bl_hash_stop = NO_HASH_STOP\<rparr> in
      sbind (peer_send sha256 (GetHeaders block_locator)) (\<lambda>_.
      sbind (receive sha256 HEADERS) (\<lambda>m.
        slift (case m of MHeaders headers \<Rightarrow> Ok (headers_inner headers) | _ \<Rightarrow> Err WrongP2PMessage))))"

definition clock_left :: "'s \<times> host \<Rightarrow> nat" where
  "clock_left st = length (ho_monotonic (snd st))"

lemma receive_loop_clock: "receive_loop sha256 duration c st = (r, st') \<Longrightarrow> clock_left st' \<le> clock_left st"
proof (induction sha256 duration c st arbitrary: r rule: receive_loop.induct)
  case (1 sha256 duration c p h)
  show ?case
  proof (cases "ho_monotonic h")
    case Nil
    with "1.prems" show ?thesis by (auto simp: receive_loop.simps [of _ _ _ p h] clock_left_def)
  next
    case (Cons now readings)
    obtain q p1 h1 where q: "read_message sha256 (p, h\<lparr>ho_monotonic := readings\<rparr>) = (q, (p1, h1))"
      by (cases "read_message sha256 (p, h\<lparr>ho_monotonic := readings\<rparr>)") auto
    have h1: "ho_monotonic h1 = readings" using read_message_monotonic [OF q] by simp
    show ?thesis
    proof (cases "now < duration")
      case True
      note ih = "1.IH" [OF Cons True q [symmetric] refl]
      from "1.prems" show ?thesis
        using Cons True q h1 ih
        by (auto simp: receive_loop.simps [of _ _ _ p h] clock_left_def
            split: res.splits prod.splits if_splits Error.splits; fastforce intro: le_SucI)
    next
      case False
      with "1.prems" Cons show ?thesis by (auto simp: receive_loop.simps [of _ _ _ p h] clock_left_def)
    qed
  qed
qed

text \<open>Calls that never give readings back, and calls that use one up when they succeed.\<close>

definition keeps_clock :: "('s \<times> host, 'e, 'a) call \<Rightarrow> bool" where
  "keeps_clock c \<longleftrightarrow> (\<forall>st r st'. c st = (r, st') \<longrightarrow> clock_left st' \<le> clock_left st)"

definition uses_clock :: "('s \<times> host, 'e, 'a) call \<Rightarrow> bool" where
  "uses_clock c \<longleftrightarrow> keeps_clock c \<and> (\<forall>st x st'. c st = (Ok x, st') \<longrightarrow> clock_left st' < clock_left st)"

lemma uses_clockD: "uses_clock c \<Longrightarrow> c st = (Ok x, st') \<Longrightarrow> clock_left st' < clock_left st"
  unfolding uses_clock_def by blast

named_theorems clock_rules \<open>calls and the monotonic clock\<close>

lemma keeps_clock_sbind [clock_rules]:
  "keeps_clock c \<Longrightarrow> (\<And>x. keeps_clock (f x)) \<Longrightarrow> keeps_clock (sbind c f)"
  by (fastforce simp: keeps_clock_def sbind_def split: prod.splits res.splits intro: order_trans)

lemma uses_clock_first:
  "uses_clock c \<Longrightarrow> (\<And>x. keeps_clock (f x)) \<Longrightarrow> uses_clock (sbind c f)"
  by (auto simp: uses_clock_def keeps_clock_sbind sbind_eq_Ok)
    (metis keeps_clock_def order.strict_trans1)

lemma uses_clock_second:
  "keeps_clock c \<Longrightarrow> (\<And>x. uses_clock (f x)) \<Longrightarrow> uses_clock (sbind c f)"
  by (auto simp: uses_clock_def keeps_clock_sbind sbind_eq_Ok)
    (metis keeps_clock_def order.strict_trans2)

lemma keeps_clock_slift [clock_rules]: "keeps_clock (slift r)"
  by (simp add: keeps_clock_def)

lemma keeps_clock_sget [clock_rules]: "keeps_clock (sget f)"
  by (simp add: keeps_clock_def)

lemma keeps_clock_host [clock_rules]:
  "(\<And>h x h'. f h = (x, h') \<Longrightarrow> ho_monotonic h' = ho_monotonic h) \<Longrightarrow> keeps_clock (on_host f)"
  by (auto simp: keeps_clock_def on_host_def clock_left_def split: prod.splits)

lemma take_random_monotonic: "take_random h = (t, h') \<Longrightarrow> ho_monotonic h' = ho_monotonic h"
  by (auto simp: take_random_def split: list.splits)

lemma take_send_monotonic: "take_send h = (t, h') \<Longrightarrow> ho_monotonic h' = ho_monotonic h"
  by (auto simp: take_send_def split: list.splits)

lemma keeps_clock_peer_send [clock_rules]: "keeps_clock (peer_send sha256 m)"
  by (auto simp: keeps_clock_def peer_send_def clock_left_def
      split: prod.splits res.splits send_outcome.splits dest: take_send_monotonic)

lemma uses_clock_receive: "uses_clock (receive sha256 c)"
proof -
  have "clock_left st' \<le> clock_left st \<and> ((\<exists>m. r = Ok m) \<longrightarrow> clock_left st' < clock_left st)"
    if "receive sha256 c st = (r, st')" for st r st'
  proof -
    obtain p h where st: "st = (p, h)" by (cases st)
    show ?thesis
      using that receive_loop_clock
      by (cases "ho_monotonic h") (fastforce simp: st receive_def clock_left_def split: if_splits)+
  qed
  then show ?thesis unfolding uses_clock_def keeps_clock_def by blast
qed

lemma keeps_clock_receive [clock_rules]: "keeps_clock (receive sha256 c)"
  using uses_clock_receive by (auto simp: uses_clock_def)

section \<open>Requests\<close>

function filters_loop :: "sha \<Rightarrow> Hash256 \<Rightarrow> CompactFilter list \<Rightarrow> CompactFilter list peer_call" where
  "filters_loop sha256 hash_stop block_filters st =
     (case receive sha256 CFILTERS st of
        (Ok m, st') \<Rightarrow>
          (case m of
             CFilters filters \<Rightarrow>
               (let block_filters = block_filters @ [filters] in
                if cf_block_hash filters = hash_stop then (Ok block_filters, st')
                else filters_loop sha256 hash_stop block_filters st')
           | _ \<Rightarrow> (Err WrongP2PMessage, st'))
      | (Err e, st') \<Rightarrow> (Err e, st')
      | (Panic, st') \<Rightarrow> (Panic, st'))"
  by pat_completeness auto
termination
  by (relation "measure (\<lambda>(_, _, _, st). clock_left st)")
    (use uses_clock_receive in \<open>auto simp: uses_clock_def dest: sym\<close>)

declare filters_loop.simps [simp del]

definition fetch_compact_filters :: "sha \<Rightarrow> u32 \<Rightarrow> Hash256 \<Rightarrow> CompactFilter list peer_call" where
  "fetch_compact_filters sha256 start_height hash_stop =
     (let compact_locator = \<lparr>fl_filter_type = 0, fl_start_height = start_height, fl_hash_stop = hash_stop\<rparr> in
      sbind (peer_send sha256 (GetCFilters compact_locator)) (\<lambda>_. filters_loop sha256 hash_stop []))"

definition fetch_compact_filter_headers :: "sha \<Rightarrow> u32 \<Rightarrow> Hash256 \<Rightarrow> CompactFilterHeader peer_call" where
  "fetch_compact_filter_headers sha256 start_height hash_stop =
     (let compact_locator = \<lparr>fl_filter_type = 0, fl_start_height = start_height, fl_hash_stop = hash_stop\<rparr> in
      sbind (peer_send sha256 (GetCFHeaders compact_locator)) (\<lambda>_.
      sbind (receive sha256 CFHEADERS) (\<lambda>m.
        slift (case m of CFHeaders cfheaders \<Rightarrow> Ok cfheaders | _ \<Rightarrow> Err WrongP2PMessage))))"

definition keep_alive :: "sha \<Rightarrow> unit peer_call" where
  "keep_alive sha256 =
     sbind (on_host take_random) (\<lambda>nonce.
     sbind (peer_send sha256 (MPing \<lparr>ping_nonce = nonce\<rparr>)) (\<lambda>_ st.
       case receive sha256 PONG st of
         (Ok _, st') \<Rightarrow> (Ok (), st')
       | (Err _, st') \<Rightarrow> handshake sha256 st'
       | (Panic, st') \<Rightarrow> (Panic, st')))"

function blocks_loop :: "sha \<Rightarrow> nat \<Rightarrow> Block list \<Rightarrow> Block list peer_call" where
  "blocks_loop sha256 data_len blocks st =
     (case receive sha256 BLOCK st of
        (Ok m, st') \<Rightarrow>
          (case m of
             MBlock block \<Rightarrow>
               (let blocks = blocks @ [block] in
                if length blocks = data_len then (Ok blocks, st')
                else blocks_loop sha256 data_len blocks st')
           | _ \<Rightarrow> (Err WrongP2PMessage, st'))
      | (Err e, st') \<Rightarrow> (Err e, st')
      | (Panic, st') \<Rightarrow> (Panic, st'))"
  by pat_completeness auto
termination
  by (relation "measure (\<lambda>(_, _, _, st). clock_left st)")
    (use uses_clock_receive in \<open>auto simp: uses_clock_def dest: sym\<close>)

declare blocks_loop.simps [simp del]

definition fetch_blocks :: "sha \<Rightarrow> Inv \<Rightarrow> Block list peer_call" where
  "fetch_blocks sha256 request =
     sbind (peer_send sha256 (GetData request)) (\<lambda>_. blocks_loop sha256 (length (inv_objects request)) [])"

definition peer_send_transaction :: "sha \<Rightarrow> Tx \<Rightarrow> unit peer_call" where
  "peer_send_transaction sha256 transaction =
     (let txn_hash = tx_hash sha256 transaction;
          request = \<lparr>inv_objects = [\<lparr>iv_obj_type = 1, iv_hash = txn_hash\<rparr>]\<rparr> in
      sbind (peer_send sha256 (MInv request)) (\<lambda>_.
      sbind (receive sha256 GETDATA) (\<lambda>m.
        case m of
          GetData request \<Rightarrow>
            (case inv_objects request of
               [] \<Rightarrow> slift Panic
             | inv_object # _ \<Rightarrow>
                 if iv_hash inv_object = txn_hash then peer_send sha256 (MTx transaction)
                 else slift (Err WrongP2PMessage))
        | _ \<Rightarrow> slift (Err WrongP2PMessage))))"

section \<open>The connection\<close>

text \<open>
  The socket is the host's. Connecting starts with an error or not, and is then finished in
  attempts, each of which would block (\<open>None\<close>), fails, or gives the streams: for the input
  stream, the segments the peer is going to send.
\<close>

type_synonym connect_res = "string + (bytes \<times> io_error) list"

record WasiTcpSocket =
  sk_start_connect :: "string option"
  sk_finish_connect :: "connect_res option list"

fun finish_connect_loop :: "connect_res option list \<Rightarrow> connect_res option" where
  "finish_connect_loop [] = None"
| "finish_connect_loop (None # attempts) = finish_connect_loop attempts"
| "finish_connect_loop (Some result # attempts) = Some result"

definition blocking_connect :: "WasiTcpSocket \<Rightarrow> connect_res option" where
  "blocking_connect sock =
     (case sk_start_connect sock of
        Some e \<Rightarrow> Some (Inl e)
      | None \<Rightarrow> finish_connect_loop (sk_finish_connect sock))"

record P2P =
  pp_peer :: "Peer option"
  pp_socket :: WasiTcpSocket

definition p2p_new :: "WasiTcpSocket option \<Rightarrow> ('e, P2P) res" where
  "p2p_new raw_socket =
     (case raw_socket of None \<Rightarrow> Panic | Some sock \<Rightarrow> Ok \<lparr>pp_peer = None, pp_socket = sock\<rparr>)"

record CustomIPV4SocketAddress =
  sa_ip :: "u8 \<times> u8 \<times> u8 \<times> u8"
  sa_port :: u16

definition connect_peer ::
    "sha \<Rightarrow> CustomIPV4SocketAddress \<Rightarrow> Network \<Rightarrow> (P2P \<times> host, Error, unit) call" where
  "connect_peer sha256 address network = (\<lambda>(p2p, h).
     case blocking_connect (pp_socket p2p) of
       Some (Inr input) \<Rightarrow>
         (case sa_ip address of (a, b, c, d) \<Rightarrow>
           (let remote_address = node_addr_new (V4 [a, b, c, d]) (sa_port address) in
            case peer_new sha256 network input remote_address h of
              (Ok peer, h') \<Rightarrow> (Ok (), (p2p\<lparr>pp_peer := Some peer\<rparr>, h'))
            | (Err e, h') \<Rightarrow> (Err e, (p2p, h'))
            | (Panic, h') \<Rightarrow> (Panic, (p2p, h'))))
     | Some (Inl e) \<Rightarrow> (Err (TCPError e), (p2p, h))
     | None \<Rightarrow> (Err Timeout, (p2p, h\<lparr>ho_exhausted := True\<rparr>)))"

type_synonym 'a p2p_call = "(P2P \<times> host, Error, 'a) call"

definition with_peer :: "'a peer_call \<Rightarrow> 'a p2p_call" where
  "with_peer c = (\<lambda>(p2p, h).
     case pp_peer p2p of
       None \<Rightarrow> (Err PeerNotFound, (p2p, h))
     | Some peer \<Rightarrow> (case c (peer, h) of (r, (peer', h')) \<Rightarrow> (r, (p2p\<lparr>pp_peer := Some peer'\<rparr>, h'))))"

definition fetch_headers :: "sha \<Rightarrow> Hash256 \<Rightarrow> BlockHeader list p2p_call" where
  "fetch_headers sha256 last_known_blockhash = with_peer (peer_fetch_headers sha256 last_known_blockhash)"

definition get_compact_filters :: "sha \<Rightarrow> u32 \<Rightarrow> Hash256 \<Rightarrow> CompactFilter list p2p_call" where
  "get_compact_filters sha256 start_height hash_stop =
     with_peer (fetch_compact_filters sha256 start_height hash_stop)"

definition get_compact_filter_headers :: "sha \<Rightarrow> u32 \<Rightarrow> Hash256 \<Rightarrow> CompactFilterHeader p2p_call" where
  "get_compact_filter_headers sha256 start_height hash_stop =
     with_peer (fetch_compact_filter_headers sha256 start_height hash_stop)"

definition get_block :: "sha \<Rightarrow> Inv \<Rightarrow> Block list p2p_call" where
  "get_block sha256 request = with_peer (fetch_blocks sha256 request)"

definition p2p_send_transaction :: "sha \<Rightarrow> Tx \<Rightarrow> unit p2p_call" where
  "p2p_send_transaction sha256 transaction = with_peer (peer_send_transaction sha256 transaction)"

definition p2p_keep_alive :: "sha \<Rightarrow> unit p2p_call" where
  "p2p_keep_alive sha256 = with_peer (keep_alive sha256)"

section \<open>Requests and the clock\<close>

lemma keeps_clock_with_peer [clock_rules]: "keeps_clock c \<Longrightarrow> keeps_clock (with_peer c)"
  by (fastforce simp: keeps_clock_def with_peer_def clock_left_def split: option.splits prod.splits)

lemma uses_clock_with_peer: "uses_clock c \<Longrightarrow> uses_clock (with_peer c)"
  by (auto simp: uses_clock_def keeps_clock_with_peer)
    (fastforce simp: with_peer_def clock_left_def split: option.splits prod.splits)

lemma filters_loop_clock: "filters_loop sha256 hash_stop acc st = (r, st') \<Longrightarrow> clock_left st' \<le> clock_left st"
proof (induction sha256 hash_stop acc st arbitrary: r rule: filters_loop.induct)
  case (1 sha256 hash_stop acc st)
  obtain q st1 where q: "receive sha256 CFILTERS st = (q, st1)" by (cases "receive sha256 CFILTERS st")
  have le: "clock_left st1 \<le> clock_left st" using keeps_clock_receive q unfolding keeps_clock_def by blast
  show ?case
    using "1.prems" "1.IH" [OF q [symmetric]] q le
    by (auto simp: filters_loop.simps [of _ _ _ st] Let_def split: res.splits Message.splits if_splits)
      (metis order_trans)
qed

lemma blocks_loop_clock: "blocks_loop sha256 n acc st = (r, st') \<Longrightarrow> clock_left st' \<le> clock_left st"
proof (induction sha256 n acc st arbitrary: r rule: blocks_loop.induct)
  case (1 sha256 n acc st)
  obtain q st1 where q: "receive sha256 BLOCK st = (q, st1)" by (cases "receive sha256 BLOCK st")
  have le: "clock_left st1 \<le> clock_left st" using keeps_clock_receive q unfolding keeps_clock_def by blast
  show ?case
    using "1.prems" "1.IH" [OF q [symmetric]] q le
    by (auto simp: blocks_loop.simps [of _ _ _ st] Let_def split: res.splits Message.splits if_splits)
      (metis order_trans)
qed

lemma keeps_clock_get_compact_filters [clock_rules]: "keeps_clock (get_compact_filters sha256 n hash)"
  unfolding get_compact_filters_def fetch_compact_filters_def Let_def
  by (intro clock_rules) (auto simp: keeps_clock_def dest: filters_loop_clock)

lemma keeps_clock_get_block [clock_rules]: "keeps_clock (get_block sha256 request)"
  unfolding get_block_def fetch_blocks_def
  by (intro clock_rules) (auto simp: keeps_clock_def dest: blocks_loop_clock)

lemma keeps_clock_get_compact_filter_headers [clock_rules]:
  "keeps_clock (get_compact_filter_headers sha256 n hash)"
  unfolding get_compact_filter_headers_def fetch_compact_filter_headers_def Let_def by (intro clock_rules)

lemma uses_clock_fetch_headers: "uses_clock (fetch_headers sha256 hash)"
  unfolding fetch_headers_def peer_fetch_headers_def Let_def
  by (intro uses_clock_with_peer uses_clock_second uses_clock_first uses_clock_receive clock_rules)

end
