(* ===== verification/Block_Filter.thy ===== *)
theory Block_Filter
  imports Hashes
begin

text \<open>
  \<^verbatim>\<open>node/src/util/block_filter.rs\<close>: BIP 158 block filters, which the client matches its
  scripts against. The theory models the bitwise reader, the Golomb-Rice decoder and the two
  matching passes, and relates them to the set a filter encodes: the reader to a list of
  bits, the decoder to the Golomb-Rice code of a number, the passes to membership. SipHash
  (crate \<^verbatim>\<open>bitcoin\<close>) is an argument. Arithmetic is that of a checked build.
\<close>

unbundle bit_operations_syntax

section \<open>Checked arithmetic\<close>

definition add_u64 :: "u64 \<Rightarrow> u64 \<Rightarrow> ('e, u64) res" where
  "add_u64 a b = (if unat a + unat b < 2 ^ 64 then Ok (a + b) else Panic)"

definition mul_u64 :: "u64 \<Rightarrow> u64 \<Rightarrow> ('e, u64) res" where
  "mul_u64 a b = (if unat a * unat b < 2 ^ 64 then Ok (a * b) else Panic)"

lemma unat_of_nat_u64: "n < 2 ^ 64 \<Longrightarrow> unat (of_nat n :: u64) = n"
  by (simp add: unat_of_nat)

section \<open>The bitwise reader\<close>

record BitStreamReader =
  bs_buffer :: u8
  bs_offset :: nat
  bs_reader :: bytes

definition bit_stream_new :: "bytes \<Rightarrow> BitStreamReader" where
  "bit_stream_new reader = \<lparr>bs_buffer = 0, bs_offset = 8, bs_reader = reader\<rparr>"

definition bit_stream_refill :: "BitStreamReader \<Rightarrow> (io_error, BitStreamReader) res" where
  "bit_stream_refill r =
     (if bs_offset r = 8
      then (case bs_reader r of
              [] \<Rightarrow> Panic
            | b # rest \<Rightarrow> Ok (r\<lparr>bs_buffer := b, bs_offset := 0, bs_reader := rest\<rparr>))
      else Ok r)"

function bit_stream_loop :: "nat \<Rightarrow> u64 \<Rightarrow> BitStreamReader \<Rightarrow> (io_error, u64 \<times> BitStreamReader) res" where
  "bit_stream_loop nbits data r =
     (if nbits = 0 then Ok (data, r)
      else rbind (bit_stream_refill r) (\<lambda>r.
        if bs_offset r < 8
        then let bits = min (8 - bs_offset r) nbits in
          bit_stream_loop (nbits - bits)
            (push_bit bits data OR ucast (drop_bit (8 - bits) (push_bit (bs_offset r) (bs_buffer r))))
            (r\<lparr>bs_offset := bs_offset r + bits\<rparr>)
        else Panic))"
  by pat_completeness auto
termination by (relation "measure (\<lambda>(n, _, _). n)") auto

declare bit_stream_loop.simps [simp del]

definition bit_stream_read :: "nat \<Rightarrow> BitStreamReader \<Rightarrow> (io_error, u64 \<times> BitStreamReader) res" where
  "bit_stream_read nbits r =
     (if nbits > 64 then Err (OtherIO ''can not read more than 64 bits at once'')
      else bit_stream_loop nbits 0 r)"

subsection \<open>The reader as a list of bits\<close>

primrec nat_bits :: "nat \<Rightarrow> nat \<Rightarrow> bool list" where
  "nat_bits 0 v = []"
| "nat_bits (Suc w) v = odd (v div 2 ^ w) # nat_bits w v"

primrec bits_val :: "bool list \<Rightarrow> nat" where
  "bits_val [] = 0"
| "bits_val (b # bs) = of_bool b * 2 ^ length bs + bits_val bs"

definition byte_bits :: "bytes \<Rightarrow> bool list" where
  "byte_bits bs = concat (map (\<lambda>b. nat_bits 8 (unat b)) bs)"

definition bits_left :: "BitStreamReader \<Rightarrow> bool list" where
  "bits_left r = drop (bs_offset r) (nat_bits 8 (unat (bs_buffer r))) @ byte_bits (bs_reader r)"

lemma length_nat_bits [simp]: "length (nat_bits w v) = w"
  by (induction w) auto

lemma nat_bits_numeral:
  "nat_bits (numeral k) v = odd (v div 2 ^ pred_numeral k) # nat_bits (pred_numeral k) v"
  by (simp add: numeral_eq_Suc)

lemma nat_bits_eq_Nil [simp]: "nat_bits w v = [] \<longleftrightarrow> w = 0"
  by (cases w) simp_all

lemma bits_val_nat_bits [simp]: "bits_val (nat_bits w v) = v mod 2 ^ w"
proof (induction w)
  case (Suc w)
  have "v mod (2 ^ w * 2) = 2 ^ w * (v div 2 ^ w mod 2) + v mod 2 ^ w"
    by (rule mod_mult2_eq)
  then show ?case using Suc by (simp add: mult.commute odd_iff_mod_2_eq_one)
qed simp

lemma bits_val_append: "bits_val (xs @ ys) = bits_val xs * 2 ^ length ys + bits_val ys"
  by (induction xs) (auto simp: power_add algebra_simps)

lemma take_nat_bits: "k \<le> w \<Longrightarrow> take k (nat_bits w v) = nat_bits k (v div 2 ^ (w - k))"
proof (induction w arbitrary: k)
  case (Suc w)
  show ?case
  proof (cases k)
    case (Suc j)
    with Suc.prems Suc.IH [of j] show ?thesis
      by (simp add: div_mult2_eq [symmetric] power_add [symmetric])
  qed simp
qed simp

lemma drop_nat_bits: "k \<le> w \<Longrightarrow> drop k (nat_bits w v) = nat_bits (w - k) v"
proof (induction w arbitrary: k)
  case (Suc w)
  then show ?case by (cases k) auto
qed simp

lemma bits_left_new [simp]: "bits_left (bit_stream_new reader) = byte_bits reader"
  by (simp add: bits_left_def bit_stream_new_def)

lemma bs_offset_new [simp]: "bs_offset (bit_stream_new reader) = 8"
  by (simp add: bit_stream_new_def)

lemma bit_stream_refill_bits:
  assumes "bs_offset r \<le> 8" and "bits_left r \<noteq> []"
  shows "\<exists>r'. bit_stream_refill r = Ok r' \<and> bits_left r' = bits_left r \<and> bs_offset r' < 8"
  using assms
  by (cases "bs_reader r") (auto simp: bit_stream_refill_def bits_left_def byte_bits_def)

lemma unat_chunk:
  fixes b :: u8
  assumes "0 < k" and "off + k \<le> 8"
  shows "unat (drop_bit (8 - k) (push_bit off b)) = bits_val (take k (drop off (nat_bits 8 (unat b))))"
proof -
  have "unat (push_bit off b) = unat b * 2 ^ off mod 2 ^ 8"
    by (simp only: unsigned_push_bit_eq) (simp add: push_bit_eq_mult take_bit_eq_mod)
  then have "unat (drop_bit (8 - k) (push_bit off b)) = unat b * 2 ^ off mod 2 ^ 8 div 2 ^ (8 - k)"
    by (simp only: unsigned_drop_bit_eq) (simp add: drop_bit_eq_div take_bit_eq_mod)
  also have "\<dots> = unat b * 2 ^ off div 2 ^ (8 - k) mod 2 ^ k"
    using assms by (simp add: div_exp_mod_exp_eq)
  also have "unat b * 2 ^ off div 2 ^ (8 - k) = unat b div 2 ^ (8 - off - k)"
  proof -
    have "(2 :: nat) ^ (8 - k) = 2 ^ (8 - off - k) * 2 ^ off"
      using assms by (simp flip: power_add)
    then show ?thesis by simp
  qed
  finally show ?thesis
    using assms by (simp add: drop_nat_bits take_nat_bits)
qed

lemma or_eq_plus_word:
  fixes a b :: "'a::len word"
  assumes "\<And>i. bit a i \<Longrightarrow> k \<le> i" and "\<And>i. bit b i \<Longrightarrow> i < k"
  shows "a OR b = a + b"
  using assms by (subst disjunctive_add) (auto dest: leD)

lemma bit_small_word: "unat (x :: u8) < 2 ^ k \<Longrightarrow> bit (ucast x :: u64) i \<Longrightarrow> i < k"
proof (rule ccontr)
  assume x: "unat x < 2 ^ k" and "bit (ucast x :: u64) i" and "\<not> i < k"
  then have "bit (unat x) i" and "k \<le> i" by (auto simp: bit_simps)
  then have "(2 :: nat) ^ k \<le> unat x"
    by (metis bit_iff_odd div_less even_zero linorder_not_less order_less_le_trans power_increasing one_le_numeral)
  with x show False by simp
qed

lemma ucast_u8_of_nat: "(ucast (x :: u8) :: u64) = of_nat (unat x)"
  by (simp add: word_unat_eq_iff unsigned_ucast_eq unat_of_nat take_bit_eq_mod)

lemma chunk_step:
  fixes data :: u64 and b :: u8
  assumes "0 < k" and "off + k \<le> 8"
  shows "push_bit k data OR ucast (drop_bit (8 - k) (push_bit off b))
       = data * 2 ^ k + of_nat (bits_val (take k (drop off (nat_bits 8 (unat b)))))"
proof -
  let ?c = "drop_bit (8 - k) (push_bit off b)"
  have v: "unat ?c = bits_val (take k (drop off (nat_bits 8 (unat b))))"
    using assms by (rule unat_chunk)
  also have "\<dots> < 2 ^ k"
    using assms by (simp add: drop_nat_bits take_nat_bits)
  finally have small: "unat ?c < 2 ^ k" .
  have "push_bit k data OR ucast ?c = push_bit k data + ucast ?c"
    using small
    by (intro or_eq_plus_word [where k = k]) (auto simp: bit_simps dest: bit_small_word)
  then show ?thesis
    unfolding ucast_u8_of_nat v by (simp only: push_bit_eq_mult)
qed

lemma bit_stream_loop_bits:
  assumes "bs_offset r \<le> 8" and "n \<le> length (bits_left r)"
  shows "\<exists>r'. bit_stream_loop n data r = Ok (data * 2 ^ n + of_nat (bits_val (take n (bits_left r))), r')
           \<and> bits_left r' = drop n (bits_left r) \<and> bs_offset r' \<le> 8"
  using assms
proof (induction n data r rule: bit_stream_loop.induct)
  case (1 n data r)
  show ?case
  proof (cases "n = 0")
    case True
    with 1 show ?thesis by (simp add: bit_stream_loop.simps [of 0])
  next
    case False
    then have "bits_left r \<noteq> []" using "1.prems" by auto
    then obtain q where q: "bit_stream_refill r = Ok q" "bits_left q = bits_left r" "bs_offset q < 8"
      using bit_stream_refill_bits [of r] "1.prems" by auto
    define k where "k = min (8 - bs_offset q) n"
    define r2 where "r2 = q\<lparr>bs_offset := bs_offset q + k\<rparr>"
    define c where "c = take k (drop (bs_offset q) (nat_bits 8 (unat (bs_buffer q))))"
    have k: "0 < k" "bs_offset q + k \<le> 8" "k \<le> n" using q False by (auto simp: k_def)
    have "bits_left r2 = drop k (bits_left q)" "take k (bits_left q) = c"
      using k by (simp_all add: r2_def c_def bits_left_def add.commute)
    then have r2: "bs_offset r2 \<le> 8" "bits_left r2 = drop k (bits_left r)"
      and c: "take k (bits_left r) = c"
      using k q by (simp_all add: r2_def)
    have step: "bit_stream_loop n data r = bit_stream_loop (n - k) (data * 2 ^ k + of_nat (bits_val c)) r2"
      using False q k
      by (subst bit_stream_loop.simps) (simp add: chunk_step Let_def flip: k_def c_def r2_def)
    have "n - k \<le> length (bits_left r2)" using r2 1 by simp
    from "1.IH" [OF False q(3), OF k_def, unfolded chunk_step [OF k(1,2)], folded c_def r2_def, OF r2(1) this]
    obtain r' where r': "bit_stream_loop (n - k) (data * 2 ^ k + of_nat (bits_val c)) r2
        = Ok ((data * 2 ^ k + of_nat (bits_val c)) * 2 ^ (n - k) + of_nat (bits_val (take (n - k) (bits_left r2))), r')"
      "bits_left r' = drop (n - k) (bits_left r2)" "bs_offset r' \<le> 8"
      by blast
    have "take n (bits_left r) = c @ take (n - k) (bits_left r2)"
      using k r2 c by (metis append_take_drop_id le_add_diff_inverse take_add)
    moreover have "length (take (n - k) (bits_left r2)) = n - k"
      using \<open>n - k \<le> length (bits_left r2)\<close> by simp
    moreover have "(2 :: u64) ^ n = 2 ^ k * 2 ^ (n - k)" using k by (simp flip: power_add)
    ultimately show ?thesis
      using r' r2 k by (simp add: step bits_val_append algebra_simps)
  qed
qed

lemma bit_stream_read_bits:
  assumes "bs_offset r \<le> 8" and "n \<le> length (bits_left r)" and "n \<le> 64"
  shows "\<exists>r'. bit_stream_read n r = Ok (of_nat (bits_val (take n (bits_left r))), r')
           \<and> bits_left r' = drop n (bits_left r) \<and> bs_offset r' \<le> 8"
  using bit_stream_loop_bits [OF assms(1,2), of 0] assms(3) by (auto simp: bit_stream_read_def)

lemma bit_stream_read_1_Ok:
  assumes "bit_stream_read 1 r = Ok (v, r')"
  shows "length (bits_left r') < length (bits_left r)"
proof -
  have "bs_offset r \<le> 8 \<and> bits_left r \<noteq> []"
    using assms
    by (auto simp: bit_stream_read_def bit_stream_loop.simps [of "Suc 0"] bit_stream_refill_def bits_left_def
        byte_bits_def split: if_splits list.splits)
  then show ?thesis
    using bit_stream_read_bits [of r 1] assms by (auto simp: Suc_le_eq)
qed

section \<open>Golomb-Rice decoding\<close>

function golomb_unary :: "u64 \<Rightarrow> BitStreamReader \<Rightarrow> (io_error, u64 \<times> BitStreamReader) res" where
  "golomb_unary q r =
     (case bit_stream_read 1 r of
        Ok (v, r') \<Rightarrow> if v = 1 then rbind (add_u64 q 1) (\<lambda>q'. golomb_unary q' r') else Ok (q, r')
      | Err _ \<Rightarrow> Panic
      | Panic \<Rightarrow> Panic)"
  by pat_completeness auto
termination
  by (relation "measure (\<lambda>(_, r). length (bits_left r))") (auto dest: bit_stream_read_1_Ok [simplified])

declare golomb_unary.simps [simp del]

definition golomb_rice_decode :: "nat \<Rightarrow> BitStreamReader \<Rightarrow> (io_error, u64 \<times> BitStreamReader) res" where
  "golomb_rice_decode p r =
     rbind (golomb_unary 0 r) (\<lambda>(q, r).
       rbind (unwrap (bit_stream_read p r)) (\<lambda>(x, r).
         if p < 64 then rbind (add_u64 (push_bit p q) x) (\<lambda>v. Ok (v, r)) else Panic))"

text \<open>The code of a number: its quotient by \<open>2 ^ p\<close> in unary, a zero, its remainder in \<open>p\<close> bits.\<close>

definition golomb_code :: "nat \<Rightarrow> nat \<Rightarrow> bool list" where
  "golomb_code p v = replicate (v div 2 ^ p) True @ False # nat_bits p v"

lemma bit_stream_read_1:
  assumes "bs_offset r \<le> 8" and "bits_left r = b # bs"
  shows "\<exists>r'. bit_stream_read 1 r = Ok (of_bool b, r') \<and> bits_left r' = bs \<and> bs_offset r' \<le> 8"
  using bit_stream_read_bits [of r 1] assms by auto

lemma golomb_unary_bits:
  assumes "bs_offset r \<le> 8" and "bits_left r = replicate n True @ False # bs" and "unat q + n < 2 ^ 64"
  shows "\<exists>r'. golomb_unary q r = Ok (q + of_nat n, r') \<and> bits_left r' = bs \<and> bs_offset r' \<le> 8"
  using assms
proof (induction n arbitrary: q r)
  case 0
  then obtain r' where "bit_stream_read 1 r = Ok (0, r')" "bits_left r' = bs" "bs_offset r' \<le> 8"
    using bit_stream_read_1 [of r False bs] by auto
  then show ?case by (simp add: golomb_unary.simps)
next
  case (Suc n)
  then obtain r1 where r1: "bit_stream_read 1 r = Ok (1, r1)"
      "bits_left r1 = replicate n True @ False # bs" "bs_offset r1 \<le> 8"
    using bit_stream_read_1 [of r True "replicate n True @ False # bs"] by auto
  have q: "add_u64 q 1 = Ok (q + 1)" using Suc.prems by (simp add: add_u64_def)
  have "unat (q + 1) + n < 2 ^ 64"
    using Suc.prems by (simp add: unat_word_ariths)
  from Suc.IH [OF r1(3,2) this] obtain r' where
    "golomb_unary (q + 1) r1 = Ok (q + 1 + of_nat n, r')" "bits_left r' = bs" "bs_offset r' \<le> 8"
    by blast
  then show ?case
    using r1 q by (intro exI [of _ r']) (auto simp: golomb_unary.simps [of q r] add.assoc)
qed

lemma golomb_rice_decode_code:
  assumes "bs_offset r \<le> 8" and "bits_left r = golomb_code p v @ bs" and "v < 2 ^ 64" and "p < 64"
  shows "\<exists>r'. golomb_rice_decode p r = Ok (of_nat v, r') \<and> bits_left r' = bs \<and> bs_offset r' \<le> 8"
proof -
  have "v div 2 ^ p < 2 ^ 64"
    using assms(3) div_le_dividend le_less_trans by blast
  then obtain r1 where r1: "golomb_unary 0 r = Ok (of_nat (v div 2 ^ p), r1)"
      "bits_left r1 = nat_bits p v @ bs" "bs_offset r1 \<le> 8"
    using golomb_unary_bits [of r "v div 2 ^ p" "nat_bits p v @ bs" 0] assms
    by (auto simp: golomb_code_def)
  obtain r' where r': "bit_stream_read p r1 = Ok (of_nat (v mod 2 ^ p), r')" "bits_left r' = bs" "bs_offset r' \<le> 8"
    using bit_stream_read_bits [of r1 p] r1 assms(4) by auto
  have v: "v div 2 ^ p * 2 ^ p + v mod 2 ^ p = v" by (rule div_mult_mod_eq)
  have push: "push_bit p (of_nat (v div 2 ^ p)) = (of_nat (v div 2 ^ p * 2 ^ p) :: u64)"
    by (simp add: push_bit_eq_mult)
  have "v div 2 ^ p * 2 ^ p < 2 ^ 64" "v mod 2 ^ p < 2 ^ 64" using assms(3) v by linarith+
  then have "unat (of_nat (v div 2 ^ p * 2 ^ p) :: u64) + unat (of_nat (v mod 2 ^ p) :: u64) = v"
    using v by (simp only: unat_of_nat_u64)
  moreover have "of_nat (v div 2 ^ p * 2 ^ p) + of_nat (v mod 2 ^ p) = (of_nat v :: u64)"
    using v by (metis of_nat_add)
  ultimately have "add_u64 (push_bit p (of_nat (v div 2 ^ p))) (of_nat (v mod 2 ^ p)) = Ok (of_nat v)"
    unfolding push add_u64_def using assms(3) by simp
  then show ?thesis
    using r1 r' assms(4) by (simp add: golomb_rice_decode_def)
qed

section \<open>Matching\<close>

record GcsFilter =
  gcs_k0 :: u64
  gcs_k1 :: u64
  gcs_p :: nat

record GcsFilterReader =
  gfr_filter :: GcsFilter
  gfr_m :: u64

definition P :: nat where "P = 19"
definition M :: u64 where "M = 784931"

definition gcs_hash :: "(u64 \<Rightarrow> u64 \<Rightarrow> bytes \<Rightarrow> u64) \<Rightarrow> GcsFilter \<Rightarrow> bytes \<Rightarrow> u64" where
  "gcs_hash siphash f element = siphash (gcs_k0 f) (gcs_k1 f) element"

definition map_to_range :: "u64 \<Rightarrow> u64 \<Rightarrow> u64" where
  "map_to_range hash nm = of_nat (unat hash * unat nm div 2 ^ 64)"

text \<open>
  The two passes over the decoded values. The arguments are the mapped queries that are left,
  the current value, how many values are still to be decoded, and the reader.
\<close>

function any_loop :: "GcsFilter \<Rightarrow> u64 list \<Rightarrow> u64 \<Rightarrow> nat \<Rightarrow> BitStreamReader \<Rightarrow> (io_error, bool) res" where
  "any_loop f [] data remaining r = Ok False"
| "any_loop f (p # ps) data remaining r =
     (if data = p then Ok True
      else if data < p
      then (if remaining > 0
            then rbind (unwrap (golomb_rice_decode (gcs_p f) r)) (\<lambda>(d, r').
                   rbind (add_u64 data d) (\<lambda>data'. any_loop f (p # ps) data' (remaining - 1) r'))
            else Ok False)
      else any_loop f ps data remaining r)"
  by pat_completeness auto
termination by (relation "measure (\<lambda>(_, ps, _, n, _). n + length ps)") auto

function all_loop :: "GcsFilter \<Rightarrow> u64 list \<Rightarrow> u64 \<Rightarrow> nat \<Rightarrow> BitStreamReader \<Rightarrow> (io_error, bool) res" where
  "all_loop f [] data remaining r = Ok True"
| "all_loop f (p # ps) data remaining r =
     (if data = p then all_loop f ps data remaining r
      else if data < p
      then (if remaining > 0
            then rbind (unwrap (golomb_rice_decode (gcs_p f) r)) (\<lambda>(d, r').
                   rbind (add_u64 data d) (\<lambda>data'. all_loop f (p # ps) data' (remaining - 1) r'))
            else Ok False)
      else Ok False)"
  by pat_completeness auto
termination by (relation "measure (\<lambda>(_, ps, _, n, _). n + length ps)") auto

declare any_loop.simps(2) [simp del] all_loop.simps(2) [simp del]

text \<open>\<^verbatim>\<open>var_int::read(reader).unwrap_or(0)\<close>; after a failure nothing more is read.\<close>

definition read_count :: "bytes \<Rightarrow> u64 \<times> bytes" where
  "read_count content = (case var_int_read content of Ok (n, rest) \<Rightarrow> (n, rest) | _ \<Rightarrow> (0, content))"

definition gcs_match_any ::
    "(u64 \<Rightarrow> u64 \<Rightarrow> bytes \<Rightarrow> u64) \<Rightarrow> GcsFilterReader \<Rightarrow> bytes \<Rightarrow> bytes list \<Rightarrow> (io_error, bool) res" where
  "gcs_match_any siphash g reader query =
     (let (n_elements, rest) = read_count reader in
      rbind (mul_u64 n_elements (gfr_m g)) (\<lambda>nm.
        let mapped = sort (map (\<lambda>e. map_to_range (gcs_hash siphash (gfr_filter g) e) nm) query) in
        if mapped = [] then Ok True
        else if n_elements = 0 then Ok False
        else rbind (unwrap (golomb_rice_decode (gcs_p (gfr_filter g)) (bit_stream_new rest))) (\<lambda>(data, r).
          any_loop (gfr_filter g) mapped data (unat n_elements - 1) r)))"

definition gcs_match_all ::
    "(u64 \<Rightarrow> u64 \<Rightarrow> bytes \<Rightarrow> u64) \<Rightarrow> GcsFilterReader \<Rightarrow> bytes \<Rightarrow> bytes list \<Rightarrow> (io_error, bool) res" where
  "gcs_match_all siphash g reader query =
     (let (n_elements, rest) = read_count reader in
      rbind (mul_u64 n_elements (gfr_m g)) (\<lambda>nm.
        let mapped = remdups_adj
              (sort (map (\<lambda>e. map_to_range (gcs_hash siphash (gfr_filter g) e) nm) query)) in
        if mapped = [] then Ok True
        else if n_elements = 0 then Ok False
        else rbind (unwrap (golomb_rice_decode (gcs_p (gfr_filter g)) (bit_stream_new rest))) (\<lambda>(data, r).
          all_loop (gfr_filter g) mapped data (unat n_elements - 1) r)))"

definition block_filter_reader_new :: "Hash256 \<Rightarrow> GcsFilterReader" where
  "block_filter_reader_new block_hash =
     \<lparr>gfr_filter = \<lparr>gcs_k0 = of_nat (le_val (take 8 (hash_bytes block_hash))),
                    gcs_k1 = of_nat (le_val (take 8 (drop 8 (hash_bytes block_hash)))),
                    gcs_p = P\<rparr>,
      gfr_m = M\<rparr>"

record BlockFilter =
  bf_content :: bytes

definition match_any ::
    "(u64 \<Rightarrow> u64 \<Rightarrow> bytes \<Rightarrow> u64) \<Rightarrow> BlockFilter \<Rightarrow> Hash256 \<Rightarrow> bytes list \<Rightarrow> (io_error, bool) res" where
  "match_any siphash f block_hash query =
     gcs_match_any siphash (block_filter_reader_new block_hash) (bf_content f) query"

definition match_all ::
    "(u64 \<Rightarrow> u64 \<Rightarrow> bytes \<Rightarrow> u64) \<Rightarrow> BlockFilter \<Rightarrow> Hash256 \<Rightarrow> bytes list \<Rightarrow> (io_error, bool) res" where
  "match_all siphash f block_hash query =
     gcs_match_all siphash (block_filter_reader_new block_hash) (bf_content f) query"

subsection \<open>What a filter encodes\<close>

text \<open>
  The set of a filter is written as the Golomb-Rice codes of the differences of its values in
  ascending order. \<open>coded\<close> says that a bit stream holds the values \<open>vs\<close> after \<open>prev\<close>.
\<close>

fun gcs_bits :: "nat \<Rightarrow> nat \<Rightarrow> nat list \<Rightarrow> bool list" where
  "gcs_bits p prev [] = []"
| "gcs_bits p prev (v # vs) = golomb_code p (v - prev) @ gcs_bits p v vs"

lemma add_u64_of_nat:
  "prev \<le> v \<Longrightarrow> v < 2 ^ 64 \<Longrightarrow> add_u64 (of_nat prev) (of_nat (v - prev)) = Ok (of_nat v)"
proof -
  assume "prev \<le> v" and "v < 2 ^ 64"
  then have "unat (of_nat prev :: u64) + unat (of_nat (v - prev) :: u64) = v"
    by (simp only: unat_of_nat_u64)
  moreover have "of_nat prev + of_nat (v - prev) = (of_nat v :: u64)"
    using \<open>prev \<le> v\<close> by (metis le_add_diff_inverse of_nat_add)
  ultimately show ?thesis using \<open>v < 2 ^ 64\<close> by (simp only: add_u64_def if_True)
qed

lemma next_value:
  assumes "bs_offset r \<le> 8" and "bits_left r = gcs_bits p prev (v # vs) @ pad"
    and "prev \<le> v" and "v < 2 ^ 64" and "p < 64"
  shows "\<exists>r'. golomb_rice_decode p r = Ok (of_nat (v - prev), r')
           \<and> bits_left r' = gcs_bits p v vs @ pad \<and> bs_offset r' \<le> 8"
  using golomb_rice_decode_code [of r p "v - prev" "gcs_bits p v vs @ pad"] assms by simp

definition word_list :: "nat list \<Rightarrow> u64 list" where
  "word_list vs = map of_nat vs"

lemma of_nat_less_u64: "a < 2 ^ 64 \<Longrightarrow> b < 2 ^ 64 \<Longrightarrow> (of_nat a :: u64) < of_nat b \<longleftrightarrow> a < b"
  by (simp add: word_less_nat_alt unat_of_nat)

lemma of_nat_le_u64: "a < 2 ^ 64 \<Longrightarrow> b < 2 ^ 64 \<Longrightarrow> (of_nat a :: u64) \<le> of_nat b \<longleftrightarrow> a \<le> b"
  by (simp add: word_le_nat_alt unat_of_nat)

lemma below_all_values:
  assumes "sorted (v # vs)" and "\<forall>x \<in> set (v # vs). x < 2 ^ 64" and "w < of_nat v"
  shows "w \<notin> set (word_list (v # vs))"
proof
  assume "w \<in> set (word_list (v # vs))"
  then obtain x where x: "x \<in> set (v # vs)" "w = of_nat x" by (auto simp: word_list_def)
  then have "v \<le> x" using assms(1) by auto
  then have "(of_nat v :: u64) \<le> of_nat x" using x assms(2) by (subst of_nat_le_u64) auto
  with assms(3) x show False by simp
qed

lemma any_loop_members:
  assumes "sorted ps" and "sorted (v # vs)" and "\<forall>x \<in> set (v # vs). x < 2 ^ 64"
    and "bits_left r = gcs_bits (gcs_p f) v vs @ pad" and "bs_offset r \<le> 8" and "gcs_p f < 64"
  shows "any_loop f ps (of_nat v) (length vs) r = Ok (set ps \<inter> set (word_list (v # vs)) \<noteq> {})"
  using assms
proof (induction "length vs + length ps" arbitrary: ps v vs r)
  case 0
  then show ?case by simp
next
  case (Suc n)
  show ?case
  proof (cases ps)
    case (Cons p qs)
    consider "of_nat v = p" | "of_nat v < p" | "p < of_nat v" by (meson less_linear)
    then show ?thesis
    proof cases
      case 1
      then show ?thesis by (simp add: Cons word_list_def any_loop.simps(2))
    next
      case 2
      then have out: "of_nat v \<notin> set ps" using Suc.prems(1) Cons by auto
      show ?thesis
      proof (cases vs)
        case Nil
        with 2 Cons out show ?thesis by (simp add: word_list_def any_loop.simps(2))
      next
        case vs: (Cons u us)
        then have u: "v \<le> u" "u < 2 ^ 64" using Suc.prems by auto
        obtain r' where r': "golomb_rice_decode (gcs_p f) r = Ok (of_nat (u - v), r')"
            "bits_left r' = gcs_bits (gcs_p f) u us @ pad" "bs_offset r' \<le> 8"
          using next_value [of r "gcs_p f" v u us pad] Suc.prems u vs by auto
        have "any_loop f ps (of_nat u) (length us) r' = Ok (set ps \<inter> set (word_list (u # us)) \<noteq> {})"
          using Suc.hyps(2) Suc.prems r' vs by (intro Suc.hyps(1)) auto
        moreover have "set ps \<inter> set (word_list (v # vs)) = set ps \<inter> set (word_list (u # us))"
          using out vs by (auto simp: word_list_def)
        moreover have "of_nat v \<noteq> p" using 2 by auto
        ultimately show ?thesis
          using 2 r'(1) Cons vs
          by (simp add: any_loop.simps(2) [of f p qs "of_nat v"] add_u64_of_nat [OF u])
      qed
    next
      case 3
      then have "p \<notin> set (word_list (v # vs))" using Suc.prems below_all_values by blast
      moreover have "any_loop f qs (of_nat v) (length vs) r = Ok (set qs \<inter> set (word_list (v # vs)) \<noteq> {})"
        using Suc.hyps(2) Suc.prems Cons by (intro Suc.hyps(1)) auto
      moreover have "of_nat v \<noteq> p" "\<not> of_nat v < p" using 3 by auto
      ultimately show ?thesis by (simp add: Cons any_loop.simps(2) [of f p qs "of_nat v"])
    qed
  qed simp
qed

lemma all_loop_members:
  assumes "sorted ps" and "sorted (v # vs)" and "\<forall>x \<in> set (v # vs). x < 2 ^ 64"
    and "bits_left r = gcs_bits (gcs_p f) v vs @ pad" and "bs_offset r \<le> 8" and "gcs_p f < 64"
  shows "all_loop f ps (of_nat v) (length vs) r = Ok (set ps \<subseteq> set (word_list (v # vs)))"
  using assms
proof (induction "length vs + length ps" arbitrary: ps v vs r)
  case 0
  then show ?case by simp
next
  case (Suc n)
  show ?case
  proof (cases ps)
    case (Cons p qs)
    consider "of_nat v = p" | "of_nat v < p" | "p < of_nat v" by (meson less_linear)
    then show ?thesis
    proof cases
      case 1
      then have "all_loop f qs (of_nat v) (length vs) r = Ok (set qs \<subseteq> set (word_list (v # vs)))"
        using Suc.hyps(2) Suc.prems Cons by (intro Suc.hyps(1)) auto
      with 1 show ?thesis by (simp add: Cons word_list_def all_loop.simps(2))
    next
      case 2
      then have out: "of_nat v \<notin> set ps" using Suc.prems(1) Cons by auto
      show ?thesis
      proof (cases vs)
        case Nil
        with 2 Cons out show ?thesis by (auto simp: word_list_def all_loop.simps(2))
      next
        case vs: (Cons u us)
        then have u: "v \<le> u" "u < 2 ^ 64" using Suc.prems by auto
        obtain r' where r': "golomb_rice_decode (gcs_p f) r = Ok (of_nat (u - v), r')"
            "bits_left r' = gcs_bits (gcs_p f) u us @ pad" "bs_offset r' \<le> 8"
          using next_value [of r "gcs_p f" v u us pad] Suc.prems u vs by auto
        have "all_loop f ps (of_nat u) (length us) r' = Ok (set ps \<subseteq> set (word_list (u # us)))"
          using Suc.hyps(2) Suc.prems r' vs by (intro Suc.hyps(1)) auto
        moreover have "set ps \<subseteq> set (word_list (v # vs)) \<longleftrightarrow> set ps \<subseteq> set (word_list (u # us))"
          using out vs by (auto simp: word_list_def)
        moreover have "of_nat v \<noteq> p" using 2 by auto
        ultimately show ?thesis
          using 2 r'(1) Cons vs
          by (simp add: all_loop.simps(2) [of f p qs "of_nat v"] add_u64_of_nat [OF u])
      qed
    next
      case 3
      then have "p \<notin> set (word_list (v # vs))" using Suc.prems below_all_values by blast
      moreover have "of_nat v \<noteq> p" "\<not> of_nat v < p" using 3 by auto
      ultimately show ?thesis by (simp add: Cons all_loop.simps(2) [of f p qs "of_nat v"])
    qed
  qed simp
qed

text \<open>
  A filter content that holds the ascending values \<open>vs\<close>: their number, their coded
  differences, and the padding of the last byte.
\<close>

definition encodes :: "bytes \<Rightarrow> nat list \<Rightarrow> bool" where
  "encodes content vs \<longleftrightarrow>
     sorted vs \<and> length vs * unat M < 2 ^ 64 \<and> list_all (\<lambda>v. v < 2 ^ 64) vs
     \<and> (\<exists>body pad. content = var_int_write (len_u64 vs) @ body \<and> byte_bits body = gcs_bits P 0 vs @ pad)"

definition query_values ::
    "(u64 \<Rightarrow> u64 \<Rightarrow> bytes \<Rightarrow> u64) \<Rightarrow> Hash256 \<Rightarrow> nat \<Rightarrow> bytes list \<Rightarrow> u64 set" where
  "query_values siphash block_hash n query =
     set (map (\<lambda>e. map_to_range (gcs_hash siphash (gfr_filter (block_filter_reader_new block_hash)) e)
                      (of_nat n * M)) query)"

lemma encodes_start:
  assumes "encodes content (v # vs)"
  shows "\<exists>rest r. read_count content = (of_nat (length (v # vs)), rest)
      \<and> golomb_rice_decode P (bit_stream_new rest) = Ok (of_nat v, r)
      \<and> bits_left r = gcs_bits P v vs @ drop (length (gcs_bits P 0 (v # vs))) (byte_bits rest)
      \<and> bs_offset r \<le> 8"
proof -
  obtain body pad where b: "content = var_int_write (len_u64 (v # vs)) @ body"
      "byte_bits body = gcs_bits P 0 (v # vs) @ pad" and v: "v < 2 ^ 64"
    using assms by (auto simp: encodes_def)
  have "read_count content = (of_nat (length (v # vs)), body)"
    by (simp add: b(1) read_count_def len_u64_def)
  moreover obtain r where "golomb_rice_decode P (bit_stream_new body) = Ok (of_nat v, r)"
      "bits_left r = gcs_bits P v vs @ pad" "bs_offset r \<le> 8"
    using next_value [of "bit_stream_new body" P 0 v vs pad] b(2) v by (auto simp: P_def)
  ultimately show ?thesis using b(2) by auto
qed

lemma encodes_count:
  assumes "encodes content vs"
  shows "mul_u64 (of_nat (length vs)) M = Ok (of_nat (length vs) * M)"
    and "unat (of_nat (length vs) :: u64) = length vs"
proof -
  have "length vs \<le> length vs * unat M" by (simp add: M_def)
  also have "\<dots> < 2 ^ 64" using assms by (simp add: encodes_def)
  finally show n: "unat (of_nat (length vs) :: u64) = length vs" by (rule unat_of_nat_u64)
  show "mul_u64 (of_nat (length vs)) M = Ok (of_nat (length vs) * M)"
    unfolding mul_u64_def n using assms by (simp add: encodes_def)
qed

lemma encodes_Cons:
  assumes "encodes content (v # vs)"
  shows "sorted (v # vs)" and "\<forall>x \<in> set (v # vs). x < 2 ^ 64"
  using assms by (auto simp: encodes_def list_all_iff)

lemma block_filter_reader_new_simps [simp]:
  "gfr_m (block_filter_reader_new h) = M"
  "gcs_p (gfr_filter (block_filter_reader_new h)) = P"
  by (simp_all add: block_filter_reader_new_def)

lemma match_any_members:
  assumes "encodes content vs" and "vs \<noteq> []" and "query \<noteq> []"
  shows "match_any siphash \<lparr>bf_content = content\<rparr> block_hash query
       = Ok (query_values siphash block_hash (length vs) query \<inter> set (word_list vs) \<noteq> {})"
proof -
  obtain v us where vs: "vs = v # us" using assms(2) by (cases vs) auto
  from encodes_start [OF assms(1) [unfolded vs]] obtain rest r where r:
    "read_count content = (of_nat (length vs), rest)"
    "golomb_rice_decode P (bit_stream_new rest) = Ok (of_nat v, r)"
    "bits_left r = gcs_bits P v us @ drop (length (gcs_bits P 0 vs)) (byte_bits rest)"
    "bs_offset r \<le> 8"
    unfolding vs by blast
  have n: "(of_nat (length vs) :: u64) \<noteq> 0" "unat (of_nat (length vs) :: u64) - 1 = length us"
    using encodes_count(2) [OF assms(1)] vs by (auto simp del: of_nat_Suc)
  let ?f = "gfr_filter (block_filter_reader_new block_hash)"
  let ?ps = "sort (map (\<lambda>e. map_to_range (gcs_hash siphash ?f e) (of_nat (length vs) * M)) query)"
  have "any_loop ?f ?ps (of_nat v) (length us) r = Ok (set ?ps \<inter> set (word_list (v # us)) \<noteq> {})"
    using encodes_Cons [OF assms(1) [unfolded vs]] r
    by (intro any_loop_members) (auto simp: P_def)
  moreover have "?ps \<noteq> []" using assms(3) by (simp add: set_empty [symmetric] del: set_empty)
  ultimately show ?thesis
    unfolding match_any_def gcs_match_any_def query_values_def Let_def BlockFilter.simps
      r(1) prod.case block_filter_reader_new_simps
    using r(2) n unfolding vs [symmetric]
    by (simp add: encodes_count(1) [OF assms(1)])
qed

lemma match_all_members:
  assumes "encodes content vs" and "vs \<noteq> []" and "query \<noteq> []"
  shows "match_all siphash \<lparr>bf_content = content\<rparr> block_hash query
       = Ok (query_values siphash block_hash (length vs) query \<subseteq> set (word_list vs))"
proof -
  obtain v us where vs: "vs = v # us" using assms(2) by (cases vs) auto
  from encodes_start [OF assms(1) [unfolded vs]] obtain rest r where r:
    "read_count content = (of_nat (length vs), rest)"
    "golomb_rice_decode P (bit_stream_new rest) = Ok (of_nat v, r)"
    "bits_left r = gcs_bits P v us @ drop (length (gcs_bits P 0 vs)) (byte_bits rest)"
    "bs_offset r \<le> 8"
    unfolding vs by blast
  have n: "(of_nat (length vs) :: u64) \<noteq> 0" "unat (of_nat (length vs) :: u64) - 1 = length us"
    using encodes_count(2) [OF assms(1)] vs by (auto simp del: of_nat_Suc)
  let ?f = "gfr_filter (block_filter_reader_new block_hash)"
  let ?ps = "remdups_adj (sort (map (\<lambda>e. map_to_range (gcs_hash siphash ?f e) (of_nat (length vs) * M)) query))"
  have "all_loop ?f ?ps (of_nat v) (length us) r = Ok (set ?ps \<subseteq> set (word_list (v # us)))"
    using encodes_Cons [OF assms(1) [unfolded vs]] r
    by (intro all_loop_members) (auto simp: P_def sorted_remdups_adj)
  moreover have "?ps \<noteq> []" using assms(3) by (simp add: set_empty [symmetric] del: set_empty)
  ultimately show ?thesis
    unfolding match_all_def gcs_match_all_def query_values_def Let_def BlockFilter.simps
      r(1) prod.case block_filter_reader_new_simps
    using r(2) n unfolding vs [symmetric]
    by (simp add: encodes_count(1) [OF assms(1)])
qed

lemma match_any_overflow:
  assumes "2 ^ 64 \<le> unat n * unat M"
  shows "match_any siphash \<lparr>bf_content = var_int_write n @ body\<rparr> block_hash query = Panic"
  using assms
  by (simp add: match_any_def gcs_match_any_def read_count_def mul_u64_def)

lemma bit_stream_read_new_Nil: "0 < n \<Longrightarrow> n \<le> 64 \<Longrightarrow> bit_stream_read n (bit_stream_new []) = Panic"
  by (simp add: bit_stream_read_def bit_stream_loop.simps [of n] bit_stream_refill_def bit_stream_new_def)

text \<open>A concrete filter: the single value 5, so the bits are 0, then 5 in 19 bits, then padding.\<close>

definition sample_filter :: bytes where
  "sample_filter = [1, 0, 0, 0x50]"

definition sample_siphash :: "u64 \<Rightarrow> u64 \<Rightarrow> bytes \<Rightarrow> u64" where
  "sample_siphash k0 k1 e = (if e = [1] then 117505513692985 else 0)"

lemma sample_filter_encodes: "encodes sample_filter [5]"
proof -
  have "byte_bits [0, 0, 0x50] = gcs_bits P 0 [5] @ [False, False, False, False]"
    by (simp add: byte_bits_def golomb_code_def P_def nat_bits_numeral)
  moreover have "sample_filter = var_int_write (len_u64 [5 :: nat]) @ [0, 0, 0x50]"
    by (simp add: sample_filter_def len_u64_def var_int_write_def)
  ultimately show ?thesis
    unfolding encodes_def by (auto simp: M_def)
qed

lemma sample_query_values:
  "query_values sample_siphash h (Suc 0) [[1], [2]] = {5, 0}"
  "query_values sample_siphash h (Suc 0) [[2]] = {0}"
  by (simp_all add: query_values_def gcs_hash_def sample_siphash_def map_to_range_def M_def)

section \<open>Properties\<close>

text \<open>
  C21: For a filter that encodes a non-empty set of values, matching a non-empty list of
  scripts against it succeeds exactly when the mapped hash of one of the scripts is in the
  set. In particular a script the block touches is never missed.
\<close>

theorem match_any_correct:
  assumes "encodes content vs" and "vs \<noteq> []" and "query \<noteq> []"
  shows "match_any siphash \<lparr>bf_content = content\<rparr> block_hash query
       = Ok (query_values siphash block_hash (length vs) query \<inter> set (word_list vs) \<noteq> {})"
  using assms by (rule match_any_members)

theorem match_any_correct_witness:
  "match_any sample_siphash \<lparr>bf_content = sample_filter\<rparr> (Hash256 (replicate 32 0)) [[1], [2]] = Ok True
   \<and> match_any sample_siphash \<lparr>bf_content = sample_filter\<rparr> (Hash256 (replicate 32 0)) [[2]] = Ok False"
  using match_any_correct [OF sample_filter_encodes, of "[[1], [2]]" sample_siphash "Hash256 (replicate 32 0)"]
    match_any_correct [OF sample_filter_encodes, of "[[2]]" sample_siphash "Hash256 (replicate 32 0)"]
  by (simp add: sample_query_values word_list_def)

text \<open>
  Matching all scripts succeeds exactly when the mapped hash of every script is in the
  set the filter encodes.
\<close>

lemma match_all_correct:
  assumes "encodes content vs" and "vs \<noteq> []" and "query \<noteq> []"
  shows "match_all siphash \<lparr>bf_content = content\<rparr> block_hash query
       = Ok (query_values siphash block_hash (length vs) query \<subseteq> set (word_list vs))"
  using assms by (rule match_all_members)

lemma match_all_correct_witness:
  "match_all sample_siphash \<lparr>bf_content = sample_filter\<rparr> (Hash256 (replicate 32 0)) [[1], [2]] = Ok False"
  using match_all_correct [OF sample_filter_encodes, of "[[1], [2]]" sample_siphash "Hash256 (replicate 32 0)"]
  by (simp add: sample_query_values word_list_def)

text \<open>
  The decoder inverts the Golomb-Rice code: on a bit stream that starts with the code of
  a number below \<open>2 ^ 64\<close>, at any bit position, it returns the number and leaves the reader
  at the bits after the code.
\<close>

lemma golomb_rice_decode_inverts:
  assumes "bs_offset r \<le> 8" and "bits_left r = golomb_code p v @ bs" and "v < 2 ^ 64" and "p < 64"
  shows "\<exists>r'. golomb_rice_decode p r = Ok (of_nat v, r') \<and> bits_left r' = bs \<and> bs_offset r' \<le> 8"
  using assms by (rule golomb_rice_decode_code)

lemma golomb_rice_decode_inverts_witness:
  "\<exists>r'. golomb_rice_decode 3 (bit_stream_new [0xca]) = Ok (18, r') \<and> bits_left r' = [True, False]"
proof -
  have "bits_left (bit_stream_new [0xca]) = golomb_code 3 18 @ [True, False]"
    by code_simp
  from golomb_rice_decode_inverts [OF _ this] show ?thesis by auto
qed

text \<open>
  A filter whose announced number of elements times 784931 does not fit in 64 bits makes
  matching panic before anything else is looked at (the multiplication is unchecked); the
  number comes from the peer.
\<close>

lemma match_any_count_overflow:
  assumes "2 ^ 64 \<le> unat n * unat M"
  shows "match_any siphash \<lparr>bf_content = var_int_write n @ body\<rparr> block_hash query = Panic"
  using assms by (rule match_any_overflow)

lemma match_any_count_overflow_witness:
  "match_any sample_siphash \<lparr>bf_content = var_int_write 0xffffffffffffffff @ []\<rparr> (Hash256 (replicate 32 0)) [] = Panic"
  by (rule match_any_count_overflow) (simp add: M_def)

end
