(* ===== verification/Coin_Selection.thy ===== *)
theory Coin_Selection
  imports Prelude
begin

text \<open>
  \<^verbatim>\<open>crates/wallet/src/coin_selection.rs\<close> with the parts of \<^verbatim>\<open>types.rs\<close> and
  \<^verbatim>\<open>utils.rs\<close> it uses: how the wallet chooses the outputs it spends. The trait
  \<^verbatim>\<open>CoinSelectionAlgorithm\<close> is the locale \<open>coin_selection_algorithm\<close>; single random
  draw satisfies it, and branch and bound satisfies it whenever its fallback does.

  Amounts are unsigned or signed 64-bit satoshis whose operators panic when they leave the
  range. What the crate \<^verbatim>\<open>bitcoin\<close> computes is an argument: the fee of a weight
  (\<^verbatim>\<open>FeeRate * Weight\<close>), the weight of a size, the weight of an empty input, the
  serialised length of a script and its dust limit. \<open>None\<close> stands for an overflow inside
  the crate, which panics at the call.
\<close>

section \<open>Amounts\<close>

definition amt_add :: "nat \<Rightarrow> nat \<Rightarrow> ('e, nat) res" where
  "amt_add a b = (if a + b < 2 ^ 64 then Ok (a + b) else Panic)"

definition amt_sub :: "nat \<Rightarrow> nat \<Rightarrow> ('e, nat) res" where
  "amt_sub a b = (if b \<le> a then Ok (a - b) else Panic)"

definition signed_range :: "int \<Rightarrow> bool" where
  "signed_range x \<longleftrightarrow> - (2 ^ 63) \<le> x \<and> x < 2 ^ 63"

definition checked :: "int \<Rightarrow> ('e, int) res" where
  "checked x = (if signed_range x then Ok x else Panic)"

text \<open>\<^verbatim>\<open>to_signed().expect(..)\<close> and \<^verbatim>\<open>to_unsigned().expect(..)\<close>.\<close>

definition to_signed :: "nat \<Rightarrow> ('e, int) res" where
  "to_signed a = (if a < 2 ^ 63 then Ok (int a) else Panic)"

definition to_unsigned :: "int \<Rightarrow> ('e, nat) res" where
  "to_unsigned x = (if 0 \<le> x then Ok (nat x) else Panic)"

fun mapR :: "('a \<Rightarrow> ('e, 'b) res) \<Rightarrow> 'a list \<Rightarrow> ('e, 'b list) res" where
  "mapR f [] = Ok []"
| "mapR f (x # xs) = rbind (f x) (\<lambda>y. rbind (mapR f xs) (\<lambda>ys. Ok (y # ys)))"

fun foldR :: "('s \<Rightarrow> 'a \<Rightarrow> ('e, 's) res) \<Rightarrow> 's \<Rightarrow> 'a list \<Rightarrow> ('e, 's) res" where
  "foldR f s [] = Ok s"
| "foldR f s (x # xs) = rbind (f s x) (\<lambda>s'. foldR f s' xs)"

lemma amt_add_Ok [simp]: "amt_add a b = Ok c \<longleftrightarrow> c = a + b \<and> a + b < 2 ^ 64"
  by (auto simp: amt_add_def)

lemma amt_sub_Ok [simp]: "amt_sub a b = Ok c \<longleftrightarrow> b \<le> a \<and> c = a - b"
  by (auto simp: amt_sub_def)

lemma checked_Ok [simp]: "checked x = Ok y \<longleftrightarrow> y = x \<and> signed_range x"
  by (auto simp: checked_def)

lemma to_signed_Ok [simp]: "to_signed a = Ok x \<longleftrightarrow> x = int a \<and> a < 2 ^ 63"
  by (auto simp: to_signed_def)

lemma to_unsigned_Ok [simp]: "to_unsigned x = Ok a \<longleftrightarrow> 0 \<le> x \<and> a = nat x"
  by (auto simp: to_unsigned_def)

lemma mapR_Ok: "mapR f xs = Ok ys \<longleftrightarrow> list_all2 (\<lambda>x y. f x = Ok y) xs ys"
  by (induction xs arbitrary: ys) (auto simp: list_all2_Cons1)

lemma foldR_amt_add:
  "foldR (\<lambda>acc x. amt_add acc (f x)) a xs = Ok s \<Longrightarrow> s = a + sum_list (map f xs)"
  by (induction xs arbitrary: a) (auto, metis add.assoc)

lemma foldR_checked:
  "foldR (\<lambda>acc x. checked (acc + f x)) a xs = Ok s \<Longrightarrow> s = a + sum_list (map f xs)"
  by (induction xs arbitrary: a) (auto, metis add.assoc)

lemma foldR_no_Err: "(\<And>s x. f s x \<noteq> Err e) \<Longrightarrow> foldR f s xs \<noteq> Err e"
  by (induction xs arbitrary: s) (auto simp: rbind_eq_Err)

lemma mapR_no_Err: "(\<And>x. f x \<noteq> Err e) \<Longrightarrow> mapR f xs \<noteq> Err e"
  by (induction xs) (auto simp: rbind_eq_Err)

lemma sum_list_map_mset: "sum_list (map f xs) = sum_mset (image_mset f (mset xs))"
  by (simp flip: sum_mset_sum_list)

section \<open>Outputs the wallet can spend\<close>

datatype KeychainKind = External | Internal

record 'op Utxo =
  utxo_outpoint :: 'op
  utxo_value :: nat
  utxo_script_pubkey :: bytes
  utxo_keychain :: KeychainKind
  utxo_is_spent :: bool
  utxo_derivation_index :: u32
  utxo_chain_position :: "u32 option"

record 'op WeightedUtxo =
  wu_satisfaction_weight :: nat
  wu_utxo :: "'op Utxo"

text \<open>The crate's functions at the fee rate of a call, and its functions on the drain script.\<close>

record fee_env =
  fe_mul :: "nat \<Rightarrow> nat option"
  fe_from_vb :: "nat \<Rightarrow> nat option"
  fe_txin_weight :: nat

record drain_script =
  ds_serialized_len :: nat
  ds_minimal_non_dust :: nat

record InsufficientFunds =
  needed :: nat
  available :: nat

datatype Excess =
    NoChange (dust_threshold: nat) (remaining_amount: nat) (change_fee: nat)
  | Change (change_amount: nat) (change_out_fee: nat)

record 'op CoinSelectionResult =
  cs_selected :: "'op Utxo list"
  cs_fee_amount :: nat
  cs_excess :: Excess

definition selected_amount :: "'op CoinSelectionResult \<Rightarrow> (InsufficientFunds, nat) res" where
  "selected_amount r = foldR (\<lambda>acc u. amt_add acc (utxo_value u)) 0 (cs_selected r)"

definition is_dust :: "nat \<Rightarrow> drain_script \<Rightarrow> bool" where
  "is_dust amount ds \<longleftrightarrow> amount < ds_minimal_non_dust ds"

definition decide_change :: "nat \<Rightarrow> fee_env \<Rightarrow> drain_script \<Rightarrow> ('e, Excess) res" where
  "decide_change remaining fe ds =
     rbind (of_opt (fe_from_vb fe (ds_serialized_len ds + 8))) (\<lambda>w.
       rbind (of_opt (fe_mul fe w)) (\<lambda>change_fee.
         let drain_val = (if change_fee \<le> remaining then remaining - change_fee else 0) in
         if is_dust drain_val ds
         then Ok (NoChange (ds_minimal_non_dust ds) remaining change_fee)
         else Ok (Change drain_val change_fee)))"

text \<open>\<^verbatim>\<open>fee_rate * TxIn::default().segwit_weight().checked_add(satisfaction_weight).expect(..)\<close>.\<close>

definition input_fee :: "fee_env \<Rightarrow> 'op WeightedUtxo \<Rightarrow> ('e, nat) res" where
  "input_fee fe w = rbind (amt_add (fe_txin_weight fe) (wu_satisfaction_weight w)) (\<lambda>weight.
     of_opt (fe_mul fe weight))"

section \<open>Taking outputs in order\<close>

fun scan_utxos ::
    "fee_env \<Rightarrow> nat \<Rightarrow> (bool \<times> 'op WeightedUtxo) list \<Rightarrow> nat \<Rightarrow> nat
     \<Rightarrow> (InsufficientFunds, 'op Utxo list \<times> nat \<times> nat) res" where
  "scan_utxos fe target [] sel fee = Ok ([], sel, fee)"
| "scan_utxos fe target ((must_use, w) # us) sel fee =
     rbind (if must_use then Ok True else rbind (amt_add target fee) (\<lambda>n. Ok (sel < n))) (\<lambda>take_it.
       if take_it
       then rbind (input_fee fe w) (\<lambda>f. rbind (amt_add fee f) (\<lambda>fee'.
              rbind (amt_add sel (utxo_value (wu_utxo w))) (\<lambda>sel'.
                rbind (scan_utxos fe target us sel' fee') (\<lambda>(rest, sel'', fee'').
                  Ok (wu_utxo w # rest, sel'', fee'')))))
       else Ok ([], sel, fee))"

definition select_sorted_utxos ::
    "(bool \<times> 'op WeightedUtxo) list \<Rightarrow> fee_env \<Rightarrow> nat \<Rightarrow> drain_script
     \<Rightarrow> (InsufficientFunds, 'op CoinSelectionResult) res" where
  "select_sorted_utxos utxos fe target ds =
     rbind (scan_utxos fe target utxos 0 0) (\<lambda>(selected, sel_amount, fee_amount).
       rbind (amt_add target fee_amount) (\<lambda>needed_with_fees.
         if sel_amount < needed_with_fees
         then Err \<lparr>needed = needed_with_fees, available = sel_amount\<rparr>
         else rbind (amt_sub sel_amount needed_with_fees) (\<lambda>remaining.
           rbind (decide_change remaining fe ds) (\<lambda>excess.
             Ok \<lparr>cs_selected = selected, cs_fee_amount = fee_amount, cs_excess = excess\<rparr>))))"

section \<open>Shuffling and single random draw\<close>

definition swap :: "'a list \<Rightarrow> nat \<Rightarrow> nat \<Rightarrow> 'a list" where
  "swap xs i j = xs[i := xs ! j, j := xs ! i]"

text \<open>\<open>rnd k\<close> is the \<open>k\<close>-th number the generator yields.\<close>

fun shuffle_from :: "(nat \<Rightarrow> u32) \<Rightarrow> nat \<Rightarrow> nat \<Rightarrow> 'a list \<Rightarrow> 'a list" where
  "shuffle_from rnd k 0 xs = xs"
| "shuffle_from rnd k (Suc i) xs =
     shuffle_from rnd (Suc k) i (swap xs (Suc i) (unat (rnd k) mod (Suc i + 1)))"

definition shuffle_slice :: "(nat \<Rightarrow> u32) \<Rightarrow> 'a list \<Rightarrow> 'a list" where
  "shuffle_slice rnd xs = (if xs = [] then xs else shuffle_from rnd 0 (length xs - 1) xs)"

type_synonym 'op cs_algorithm =
  "'op WeightedUtxo list \<Rightarrow> 'op WeightedUtxo list \<Rightarrow> fee_env \<Rightarrow> nat \<Rightarrow> drain_script \<Rightarrow> (nat \<Rightarrow> u32)
   \<Rightarrow> (InsufficientFunds, 'op CoinSelectionResult) res"

definition single_random_draw :: "'op cs_algorithm" where
  "single_random_draw required optional fe target ds rnd =
     select_sorted_utxos
       (map (\<lambda>u. (True, u)) required @ map (\<lambda>u. (False, u)) (shuffle_slice rnd optional)) fe target ds"

section \<open>Branch and bound\<close>

record 'op OutputGroup =
  og_weighted_utxo :: "'op WeightedUtxo"
  og_fee :: nat
  og_effective_value :: int

definition output_group_new :: "fee_env \<Rightarrow> 'op WeightedUtxo \<Rightarrow> ('e, 'op OutputGroup) res" where
  "output_group_new fe w =
     rbind (input_fee fe w) (\<lambda>fee.
       rbind (to_signed (utxo_value (wu_utxo w))) (\<lambda>value.
         rbind (to_signed fee) (\<lambda>signed_fee.
           rbind (checked (value - signed_fee)) (\<lambda>effective_value.
             Ok \<lparr>og_weighted_utxo = w, og_fee = fee, og_effective_value = effective_value\<rparr>))))"

definition calculate_cs_result ::
    "'op OutputGroup list \<Rightarrow> 'op OutputGroup list \<Rightarrow> Excess \<Rightarrow> ('e, 'op CoinSelectionResult) res" where
  "calculate_cs_result selected_utxos required_utxos excess =
     (let all = selected_utxos @ required_utxos in
      rbind (foldR (\<lambda>acc u. amt_add acc (og_fee u)) 0 all) (\<lambda>fee_amount.
        Ok \<lparr>cs_selected = map (\<lambda>u. wu_utxo (og_weighted_utxo u)) all, cs_fee_amount = fee_amount,
            cs_excess = excess\<rparr>))"

datatype BnbError = NoExactMatch | TotalTriesExceeded

record bnb_state =
  bnb_current :: "bool list"
  bnb_best :: "bool list"
  bnb_best_value :: "int option"
  bnb_value :: int
  bnb_available :: int

datatype bnb_flow = Continue | Break

definition og_at :: "'op OutputGroup list \<Rightarrow> nat \<Rightarrow> ('e, int) res" where
  "og_at pool i = (if i < length pool then Ok (og_effective_value (pool ! i)) else Panic)"

function walk_back :: "'op OutputGroup list \<Rightarrow> bool list \<Rightarrow> int \<Rightarrow> (BnbError, bool list \<times> int) res" where
  "walk_back pool sel avail =
     (if sel \<noteq> [] \<and> \<not> last sel
      then rbind (og_at pool (length sel - 1)) (\<lambda>v. rbind (checked (avail + v)) (\<lambda>avail'.
             walk_back pool (butlast sel) avail'))
      else Ok (sel, avail))"
  by pat_completeness auto
termination by (relation "measure (\<lambda>(_, sel, _). length sel)") auto

declare walk_back.simps [simp del]

definition bnb_backtrack ::
    "'op OutputGroup list \<Rightarrow> bnb_state \<Rightarrow> (BnbError, bnb_flow \<times> bnb_state) res" where
  "bnb_backtrack pool st =
     rbind (walk_back pool (bnb_current st) (bnb_available st)) (\<lambda>(sel, avail).
       if sel = []
       then (if bnb_best st = [] then Err NoExactMatch
             else Ok (Break, st\<lparr>bnb_current := sel, bnb_available := avail\<rparr>))
       else rbind (og_at pool (length sel - 1)) (\<lambda>v. rbind (checked (bnb_value st - v)) (\<lambda>value.
              Ok (Continue, st\<lparr>bnb_current := butlast sel @ [False], bnb_available := avail,
                               bnb_value := value\<rparr>))))"

definition bnb_forward ::
    "'op OutputGroup list \<Rightarrow> bnb_state \<Rightarrow> (BnbError, bnb_flow \<times> bnb_state) res" where
  "bnb_forward pool st =
     rbind (og_at pool (length (bnb_current st))) (\<lambda>v.
       rbind (checked (bnb_available st - v)) (\<lambda>avail. rbind (checked (bnb_value st + v)) (\<lambda>value.
         Ok (Continue, st\<lparr>bnb_current := bnb_current st @ [True], bnb_available := avail,
                          bnb_value := value\<rparr>))))"

definition bnb_record_best :: "bnb_state \<Rightarrow> bnb_state" where
  "bnb_record_best st =
     (if bnb_best_value st = None \<or> bnb_value st < the (bnb_best_value st)
      then st\<lparr>bnb_best := bnb_current st, bnb_best_value := Some (bnb_value st)\<rparr>
      else st)"

definition bnb_step ::
    "'op OutputGroup list \<Rightarrow> int \<Rightarrow> int \<Rightarrow> bnb_state \<Rightarrow> (BnbError, bnb_flow \<times> bnb_state) res" where
  "bnb_step pool target cost st =
     rbind (checked (bnb_value st + bnb_available st)) (\<lambda>reachable.
       rbind (if reachable < target then Ok True
              else rbind (checked (target + cost)) (\<lambda>upper. Ok (bnb_value st > upper))) (\<lambda>out_of_range.
         if out_of_range then bnb_backtrack pool st
         else if bnb_value st \<ge> target
         then (let st' = bnb_record_best st in
               if bnb_value st = target then Ok (Break, st') else bnb_backtrack pool st')
         else bnb_forward pool st))"

fun bnb_loop ::
    "nat \<Rightarrow> 'op OutputGroup list \<Rightarrow> int \<Rightarrow> int \<Rightarrow> bnb_state \<Rightarrow> (BnbError, bnb_state) res" where
  "bnb_loop n pool target cost st =
     (if n = 0 then Ok st
      else rbind (bnb_step pool target cost st) (\<lambda>(flow, st').
        case flow of Break \<Rightarrow> Ok st' | Continue \<Rightarrow> bnb_loop (n - 1) pool target cost st'))"

declare bnb_loop.simps [simp del]

definition BNB_TOTAL_TRIES :: nat where
  "BNB_TOTAL_TRIES = 100000"

text \<open>\<open>usort\<close> is \<^verbatim>\<open>sort_unstable_by_key\<close>: some sorted rearrangement by effective value.\<close>

definition bnb ::
    "('op OutputGroup list \<Rightarrow> 'op OutputGroup list) \<Rightarrow> 'op OutputGroup list \<Rightarrow> 'op OutputGroup list
     \<Rightarrow> int \<Rightarrow> int \<Rightarrow> int \<Rightarrow> int \<Rightarrow> drain_script \<Rightarrow> fee_env \<Rightarrow> (BnbError, 'op CoinSelectionResult) res" where
  "bnb usort required optional value avail target cost ds fe =
     (let pool = rev (usort optional) in
      rbind (bnb_loop BNB_TOTAL_TRIES pool target cost
               \<lparr>bnb_current = [], bnb_best = [], bnb_best_value = None,
                bnb_value = value, bnb_available = avail\<rparr>) (\<lambda>st.
        if bnb_best st = [] then Err TotalTriesExceeded
        else rbind (of_opt (bnb_best_value st)) (\<lambda>selected_value.
          rbind (checked (selected_value - target)) (\<lambda>d. rbind (to_unsigned d) (\<lambda>remaining.
            rbind (decide_change remaining fe ds) (\<lambda>excess.
              calculate_cs_result (map fst (filter snd (zip pool (bnb_best st)))) required excess))))))"

definition insufficient ::
    "'op OutputGroup list \<Rightarrow> nat \<Rightarrow> (InsufficientFunds, 'op CoinSelectionResult) res" where
  "insufficient ogs target =
     rbind (foldR (\<lambda>acc u. amt_add acc (og_fee u)) 0 ogs) (\<lambda>utxo_fees.
       rbind (foldR (\<lambda>acc u. amt_add acc (utxo_value (wu_utxo (og_weighted_utxo u)))) 0 ogs) (\<lambda>utxo_value.
         rbind (amt_add target utxo_fees) (\<lambda>n. Err \<lparr>needed = n, available = utxo_value\<rparr>)))"

definition bnb_coin_select ::
    "('op OutputGroup list \<Rightarrow> 'op OutputGroup list) \<Rightarrow> nat \<Rightarrow> 'op cs_algorithm \<Rightarrow> 'op cs_algorithm" where
  "bnb_coin_select usort size_of_change fallback required optional fe target ds rnd =
     rbind (mapR (output_group_new fe) required) (\<lambda>required_ogs.
       rbind (mapR (output_group_new fe) optional) (\<lambda>ogs.
         let optional_ogs = filter (\<lambda>u. og_effective_value u > 0) ogs in
         rbind (foldR (\<lambda>acc x. checked (acc + og_effective_value x)) 0 required_ogs) (\<lambda>curr_value.
           rbind (foldR (\<lambda>acc x. checked (acc + og_effective_value x)) 0 optional_ogs) (\<lambda>curr_available.
             rbind (of_opt (fe_from_vb fe size_of_change)) (\<lambda>w. rbind (of_opt (fe_mul fe w)) (\<lambda>c.
               rbind (to_signed c) (\<lambda>cost_of_change.
                 rbind (checked (curr_available + curr_value)) (\<lambda>total.
                   if \<not> (0 \<le> total \<and> int target \<le> total)
                   then insufficient (required_ogs @ optional_ogs) target
                   else rbind (to_signed target) (\<lambda>signed_target.
                     if curr_value > signed_target
                     then rbind (checked (curr_value - signed_target)) (\<lambda>d. rbind (to_unsigned d) (\<lambda>remaining.
                            rbind (decide_change remaining fe ds) (\<lambda>excess.
                              calculate_cs_result [] required_ogs excess)))
                     else (case bnb usort required_ogs optional_ogs curr_value curr_available
                                  signed_target cost_of_change ds fe of
                             Ok r \<Rightarrow> Ok r
                           | Err _ \<Rightarrow> fallback required optional fe target ds rnd
                           | Panic \<Rightarrow> Panic))))))))))"

text \<open>\<^verbatim>\<open>DefaultCoinSelectionAlgorithm\<close>: a change output of 31 bytes, single random draw as fallback.\<close>

definition default_coin_select ::
    "('op OutputGroup list \<Rightarrow> 'op OutputGroup list) \<Rightarrow> 'op cs_algorithm" where
  "default_coin_select usort = bnb_coin_select usort (8 + 1 + 22) single_random_draw"

section \<open>Duplicates\<close>

text \<open>\<^verbatim>\<open>visited.insert(outpoint)\<close> is true when the outpoint is new.\<close>

fun filter_visited :: "'op list \<Rightarrow> 'op WeightedUtxo list \<Rightarrow> 'op WeightedUtxo list \<times> 'op list" where
  "filter_visited visited [] = ([], visited)"
| "filter_visited visited (u # us) =
     (let op = utxo_outpoint (wu_utxo u) in
      if op \<in> set visited then filter_visited visited us
      else (let (kept, visited') = filter_visited (op # visited) us in (u # kept, visited')))"

definition filter_duplicates ::
    "'op WeightedUtxo list \<Rightarrow> 'op WeightedUtxo list \<Rightarrow> 'op WeightedUtxo list \<times> 'op WeightedUtxo list" where
  "filter_duplicates required optional =
     (let (required', visited) = filter_visited [] required;
          (optional', _) = filter_visited visited optional
      in (required', optional'))"

section \<open>The contract of a coin selection algorithm\<close>

definition total_value :: "'op WeightedUtxo list \<Rightarrow> nat" where
  "total_value ws = sum_list (map (\<lambda>w. utxo_value (wu_utxo w)) ws)"

text \<open>The fee of an input when the crate can compute it.\<close>

definition fee_of :: "fee_env \<Rightarrow> 'op WeightedUtxo \<Rightarrow> nat" where
  "fee_of fe w = the (fe_mul fe (fe_txin_weight fe + wu_satisfaction_weight w))"

definition total_fee :: "fee_env \<Rightarrow> 'op WeightedUtxo list \<Rightarrow> nat" where
  "total_fee fe ws = sum_list (map (fee_of fe) ws)"

text \<open>
  A selection is sound when it consists of all required outputs and some of the optional
  ones, its fee is the sum of the fees of its inputs, its value covers the target and that
  fee, and the excess is decided on exactly what is left.
\<close>

definition sound_selection ::
    "'op WeightedUtxo list \<Rightarrow> 'op WeightedUtxo list \<Rightarrow> fee_env \<Rightarrow> nat \<Rightarrow> drain_script
     \<Rightarrow> 'op CoinSelectionResult \<Rightarrow> bool" where
  "sound_selection required optional fe target ds r \<longleftrightarrow>
     (\<exists>chosen. mset chosen \<subseteq># mset optional
        \<and> mset (cs_selected r) = mset (map wu_utxo (required @ chosen))
        \<and> cs_fee_amount r = total_fee fe (required @ chosen)
        \<and> target + cs_fee_amount r \<le> total_value (required @ chosen)
        \<and> decide_change (total_value (required @ chosen) - (target + cs_fee_amount r)) fe ds
            = (Ok (cs_excess r) :: (InsufficientFunds, Excess) res))"

definition excess_total :: "Excess \<Rightarrow> nat" where
  "excess_total e = (case e of NoChange _ rest _ \<Rightarrow> rest | Change amount fee \<Rightarrow> amount + fee)"

lemma decide_change_total:
  assumes "decide_change remaining fe ds = (Ok e :: ('e, Excess) res)" and "0 < ds_minimal_non_dust ds"
  shows "excess_total e = remaining"
  using assms by (auto simp: decide_change_def Let_def is_dust_def excess_total_def split: if_splits)

lemma selected_total:
  assumes "mset us = mset (map wu_utxo ws)"
  shows "sum_list (map utxo_value us) = total_value ws"
  using assms by (simp add: total_value_def sum_list_map_mset comp_def multiset.map_comp)

locale coin_selection_algorithm =
  fixes select :: "'op cs_algorithm"
  assumes select_sound: "select required optional fe target ds rnd = Ok r
            \<Longrightarrow> sound_selection required optional fe target ds r"
    and select_refuses: "select required optional fe target ds rnd = Err e \<Longrightarrow> available e < needed e"
begin

lemma selected_value:
  assumes "select required optional fe target ds rnd = Ok r"
  shows "target + cs_fee_amount r \<le> sum_list (map utxo_value (cs_selected r))"
proof -
  obtain chosen where "mset (cs_selected r) = mset (map wu_utxo (required @ chosen))"
      "target + cs_fee_amount r \<le> total_value (required @ chosen)"
    using select_sound [OF assms] by (auto simp: sound_selection_def)
  then show ?thesis using selected_total [of "cs_selected r" "required @ chosen"] by simp
qed

lemma selected_from:
  assumes "select required optional fe target ds rnd = Ok r" and "u \<in> set (cs_selected r)"
  shows "u \<in> wu_utxo ` (set required \<union> set optional)"
proof -
  obtain chosen where c: "mset chosen \<subseteq># mset optional"
      "mset (cs_selected r) = mset (map wu_utxo (required @ chosen))"
    using select_sound [OF assms(1)] by (auto simp: sound_selection_def)
  from c(1) have "set chosen \<subseteq> set optional" by (metis set_mset_mono set_mset_mset)
  moreover from c(2) have "set (cs_selected r) = set (map wu_utxo (required @ chosen))"
    by (metis set_mset_mset)
  ultimately show ?thesis using assms(2) by auto
qed

text \<open>Outputs, fee and change add up to the inputs: nothing is created or lost.\<close>

lemma selection_balances:
  assumes "select required optional fe target ds rnd = Ok r" and "0 < ds_minimal_non_dust ds"
  shows "sum_list (map utxo_value (cs_selected r)) = target + cs_fee_amount r + excess_total (cs_excess r)"
proof -
  obtain chosen where c: "mset (cs_selected r) = mset (map wu_utxo (required @ chosen))"
      "target + cs_fee_amount r \<le> total_value (required @ chosen)"
      "decide_change (total_value (required @ chosen) - (target + cs_fee_amount r)) fe ds
         = (Ok (cs_excess r) :: (InsufficientFunds, Excess) res)"
    using select_sound [OF assms(1)] by (auto simp: sound_selection_def)
  have "sum_list (map utxo_value (cs_selected r)) = total_value (required @ chosen)"
    using c(1) by (rule selected_total)
  with c(2) decide_change_total [OF c(3) assms(2)] show ?thesis by simp
qed

end

section \<open>Single random draw meets the contract\<close>

lemma mset_swap_at: "i < length xs \<Longrightarrow> j < length xs \<Longrightarrow> mset (swap xs i j) = mset xs"
  unfolding swap_def by (rule mset_swap)

lemma mset_shuffle_from: "i < length xs \<Longrightarrow> mset (shuffle_from rnd k i xs) = mset xs"
proof (induction i arbitrary: k xs)
  case (Suc i)
  let ?ys = "swap xs (Suc i) (unat (rnd k) mod (Suc i + 1))"
  have "unat (rnd k) mod (Suc i + 1) < Suc i + 1" by (rule mod_less_divisor) simp
  also have "\<dots> \<le> length xs" using Suc.prems by simp
  finally have "unat (rnd k) mod (Suc i + 1) < length xs" .
  then have "mset ?ys = mset xs" using Suc.prems by (intro mset_swap_at)
  moreover have "i < length ?ys" using Suc.prems by (simp add: swap_def)
  ultimately show ?case using Suc.IH by simp
qed simp

lemma mset_shuffle_slice [simp]: "mset (shuffle_slice rnd xs) = mset xs"
  by (simp add: shuffle_slice_def mset_shuffle_from)

lemma input_fee_Ok: "input_fee fe w = Ok f \<Longrightarrow> f = fee_of fe w"
  by (auto simp: input_fee_def fee_of_def)

lemma total_Cons [simp]:
  "total_value (w # ws) = utxo_value (wu_utxo w) + total_value ws"
  "total_fee fe (w # ws) = fee_of fe w + total_fee fe ws"
  "total_value [] = 0" "total_fee fe [] = 0"
  by (simp_all add: total_value_def total_fee_def)

lemma total_append [simp]:
  "total_value (xs @ ys) = total_value xs + total_value ys"
  "total_fee fe (xs @ ys) = total_fee fe xs + total_fee fe ys"
  by (simp_all add: total_value_def total_fee_def)

lemma total_mset:
  assumes "mset xs = mset ys"
  shows "total_value xs = total_value ys" and "total_fee fe xs = total_fee fe ys"
  using assms by (simp_all add: total_value_def total_fee_def sum_list_map_mset)

text \<open>The scan takes a prefix, and stops only before an output that need not be used.\<close>

lemma scan_utxos_prefix:
  "scan_utxos fe target us sel fee = Ok (l, s, f) \<Longrightarrow>
     \<exists>xs ys. us = xs @ ys \<and> l = map (\<lambda>x. wu_utxo (snd x)) xs \<and> s = sel + total_value (map snd xs)
       \<and> f = fee + total_fee fe (map snd xs) \<and> (ys = [] \<or> \<not> fst (hd ys))"
proof (induction us arbitrary: sel fee l s f)
  case (Cons u us)
  obtain m w where u: "u = (m, w)" by (cases u)
  show ?case
  proof (cases "(if m then Ok True else rbind (amt_add target fee) (\<lambda>n. Ok (sel < n)))
      = (Ok True :: (InsufficientFunds, bool) res)")
    case True
    then obtain f1 l' where "input_fee fe w = (Ok f1 :: (InsufficientFunds, nat) res)"
        and rest: "scan_utxos fe target us (sel + utxo_value (wu_utxo w)) (fee + f1) = Ok (l', s, f)"
        and l: "l = wu_utxo w # l'"
      using Cons.prems u by (auto split: if_splits)
    then have f1: "f1 = fee_of fe w" by (simp add: input_fee_Ok)
    from Cons.IH [OF rest] obtain xs ys where "us = xs @ ys" "l' = map (\<lambda>x. wu_utxo (snd x)) xs"
        "s = sel + utxo_value (wu_utxo w) + total_value (map snd xs)"
        "f = fee + f1 + total_fee fe (map snd xs)" "ys = [] \<or> \<not> fst (hd ys)"
      by blast
    then show ?thesis
      using u l f1 by (intro exI [of _ "u # xs"] exI [of _ ys]) simp
  next
    case False
    then have "\<not> m \<and> l = [] \<and> s = sel \<and> f = fee"
      using Cons.prems u by (auto split: if_splits)
    then show ?thesis using u by (intro exI [of _ "[]"] exI [of _ "u # us"]) simp
  qed
qed simp

lemma prefix_includes_required:
  assumes "map (\<lambda>u. (True, u)) req @ map (\<lambda>u. (False, u)) opt = xs @ ys"
    and "ys = [] \<or> \<not> fst (hd ys)"
  shows "\<exists>chosen rest. opt = chosen @ rest \<and> map snd xs = req @ chosen"
proof -
  have len: "length req \<le> length xs"
  proof (rule ccontr)
    assume "\<not> length req \<le> length xs"
    then have lt: "length xs < length req" by simp
    then have "ys \<noteq> []" using arg_cong [OF assms(1), of length] by auto
    then have "hd ys = (xs @ ys) ! length xs" by (simp add: nth_append hd_conv_nth)
    also have "\<dots> = (True, req ! length xs)"
      using lt by (simp add: nth_append flip: assms(1))
    finally show False using assms(2) \<open>ys \<noteq> []\<close> by simp
  qed
  define zs where "zs = drop (length req) xs"
  have "take (length req) xs = take (length req) (xs @ ys)" using len by simp
  also have "\<dots> = map (\<lambda>u. (True, u)) req" by (simp flip: assms(1))
  finally have "xs = map (\<lambda>u. (True, u)) req @ zs"
    unfolding zs_def by (metis append_take_drop_id)
  moreover from this have "zs @ ys = map (\<lambda>u. (False, u)) opt" using assms(1) by simp
  ultimately show ?thesis
    by (intro exI [of _ "map snd zs"] exI [of _ "map snd ys"])
      (auto simp: comp_def dest: arg_cong [where f = "map snd"])
qed

lemma select_sorted_utxos_Ok:
  assumes "select_sorted_utxos us fe target ds = Ok r"
  shows "\<exists>xs ys. us = xs @ ys \<and> (ys = [] \<or> \<not> fst (hd ys))
    \<and> cs_selected r = map wu_utxo (map snd xs) \<and> cs_fee_amount r = total_fee fe (map snd xs)
    \<and> target + cs_fee_amount r \<le> total_value (map snd xs)
    \<and> decide_change (total_value (map snd xs) - (target + cs_fee_amount r)) fe ds
        = (Ok (cs_excess r) :: (InsufficientFunds, Excess) res)"
proof -
  obtain sel s f where scan: "scan_utxos fe target us 0 0 = Ok (sel, s, f)"
    and "cs_selected r = sel" "cs_fee_amount r = f" "target + f \<le> s"
      "decide_change (s - (target + f)) fe ds = (Ok (cs_excess r) :: (InsufficientFunds, Excess) res)"
    using assms by (auto simp: select_sorted_utxos_def split: if_splits)
  moreover obtain xs ys where "us = xs @ ys" "sel = map (\<lambda>x. wu_utxo (snd x)) xs"
      "s = total_value (map snd xs)" "f = total_fee fe (map snd xs)" "ys = [] \<or> \<not> fst (hd ys)"
    using scan_utxos_prefix [OF scan] by auto
  ultimately show ?thesis by (intro exI [of _ xs] exI [of _ ys]) (simp add: comp_def)
qed

lemma single_random_draw_sound:
  assumes "single_random_draw required optional fe target ds rnd = Ok r"
  shows "sound_selection required optional fe target ds r"
proof -
  obtain xs ys where *: "map (\<lambda>u. (True, u)) required @ map (\<lambda>u. (False, u)) (shuffle_slice rnd optional) = xs @ ys"
      "ys = [] \<or> \<not> fst (hd ys)"
      "cs_selected r = map wu_utxo (map snd xs)" "cs_fee_amount r = total_fee fe (map snd xs)"
      "target + cs_fee_amount r \<le> total_value (map snd xs)"
      "decide_change (total_value (map snd xs) - (target + cs_fee_amount r)) fe ds
         = (Ok (cs_excess r) :: (InsufficientFunds, Excess) res)"
    using select_sorted_utxos_Ok assms unfolding single_random_draw_def by blast
  obtain chosen rest where c: "shuffle_slice rnd optional = chosen @ rest" "map snd xs = required @ chosen"
    using prefix_includes_required [OF *(1,2)] by blast
  then have "mset chosen \<subseteq># mset optional"
    by (metis mset_append mset_shuffle_slice mset_subset_eq_add_left)
  with * c show ?thesis
    unfolding sound_selection_def by (intro exI [of _ chosen]) simp
qed

lemma amount_no_Err [simp]:
  "amt_add a b \<noteq> Err e" "amt_sub a b \<noteq> Err e" "of_opt x \<noteq> Err e" "checked i \<noteq> Err e"
  "to_signed a \<noteq> Err e" "to_unsigned i \<noteq> Err e"
  by (simp_all add: amt_add_def amt_sub_def of_opt_def checked_def to_signed_def to_unsigned_def
      split: option.splits)

lemma fee_no_Err [simp]: "input_fee fe w \<noteq> Err e" "decide_change a fe ds \<noteq> Err e"
  "output_group_new fe w \<noteq> Err e"
  by (auto simp: input_fee_def decide_change_def output_group_new_def rbind_eq_Err Let_def)

lemma scan_utxos_no_Err [simp]: "scan_utxos fe target us sel fee \<noteq> Err e"
  by (induction us arbitrary: sel fee) (auto simp: rbind_eq_Err split: if_splits)

lemma select_sorted_utxos_Err:
  "select_sorted_utxos us fe target ds = Err e \<Longrightarrow> available e < needed e"
  by (auto simp: select_sorted_utxos_def rbind_eq_Err split: if_splits)

interpretation srd: coin_selection_algorithm single_random_draw
proof
  fix required optional :: "'a WeightedUtxo list" and fe target ds rnd r
  assume "single_random_draw required optional fe target ds rnd = Ok r"
  then show "sound_selection required optional fe target ds r" by (rule single_random_draw_sound)
next
  fix required optional :: "'a WeightedUtxo list" and fe target ds rnd e
  assume "single_random_draw required optional fe target ds rnd = Err e"
  then show "available e < needed e"
    unfolding single_random_draw_def by (rule select_sorted_utxos_Err)
qed

section \<open>Branch and bound searches what it says\<close>

definition chosen_groups :: "'op OutputGroup list \<Rightarrow> bool list \<Rightarrow> 'op OutputGroup list" where
  "chosen_groups pool sel = map fst (filter snd (zip pool sel))"

definition effective_sum :: "'op OutputGroup list \<Rightarrow> int" where
  "effective_sum us = sum_list (map og_effective_value us)"

lemma effective_sum_simps [simp]:
  "effective_sum [] = 0"
  "effective_sum (u # us) = og_effective_value u + effective_sum us"
  "effective_sum (us @ vs) = effective_sum us + effective_sum vs"
  by (simp_all add: effective_sum_def)

lemma chosen_groups_snoc:
  assumes "length sel < length pool"
  shows "chosen_groups pool (sel @ [b]) = chosen_groups pool sel @ (if b then [pool ! length sel] else [])"
proof -
  have "drop (length sel) pool = pool ! length sel # drop (Suc (length sel)) pool"
    using assms by (simp add: Cons_nth_drop_Suc)
  moreover have "zip (take (length sel) pool) sel = zip pool sel"
    using zip_append2 [of pool sel "[]"] by simp
  ultimately show ?thesis by (simp add: chosen_groups_def zip_append2)
qed

lemma effective_drop:
  "k < length pool \<Longrightarrow> effective_sum (drop k pool) = og_effective_value (pool ! k) + effective_sum (drop (Suc k) pool)"
  by (simp flip: Cons_nth_drop_Suc)

lemma og_at_Ok [simp]: "og_at pool i = Ok v \<longleftrightarrow> i < length pool \<and> v = og_effective_value (pool ! i)"
  by (auto simp: og_at_def)

definition bnb_best_ok ::
    "'op OutputGroup list \<Rightarrow> int \<Rightarrow> int \<Rightarrow> int \<Rightarrow> bool list \<Rightarrow> int option \<Rightarrow> bool" where
  "bnb_best_ok pool v0 target cost best value \<longleftrightarrow>
     (case value of
        None \<Rightarrow> best = []
      | Some v \<Rightarrow> length best \<le> length pool \<and> v = v0 + effective_sum (chosen_groups pool best)
          \<and> target \<le> v \<and> v \<le> target + cost)"

definition bnb_inv :: "'op OutputGroup list \<Rightarrow> int \<Rightarrow> int \<Rightarrow> int \<Rightarrow> bnb_state \<Rightarrow> bool" where
  "bnb_inv pool v0 target cost st \<longleftrightarrow>
     length (bnb_current st) \<le> length pool
     \<and> bnb_value st = v0 + effective_sum (chosen_groups pool (bnb_current st))
     \<and> bnb_available st = effective_sum (drop (length (bnb_current st)) pool)
     \<and> bnb_best_ok pool v0 target cost (bnb_best st) (bnb_best_value st)"

lemma walk_back_snoc:
  "walk_back pool (sel @ [True]) avail = Ok (sel @ [True], avail)"
  "walk_back pool (sel @ [False]) avail =
     rbind (og_at pool (length sel)) (\<lambda>v. rbind (checked (avail + v)) (walk_back pool sel))"
  by (simp_all add: walk_back.simps [of pool "sel @ _"])

lemma walk_back_Nil: "walk_back pool [] avail = Ok ([], avail)"
  by (simp add: walk_back.simps [of pool "[]"])

lemma walk_back_Ok:
  assumes "walk_back pool sel avail = Ok (sel', avail')" and "length sel \<le> length pool"
    and "avail = effective_sum (drop (length sel) pool)"
  shows "length sel' \<le> length sel \<and> chosen_groups pool sel' = chosen_groups pool sel
       \<and> avail' = effective_sum (drop (length sel') pool) \<and> (sel' = [] \<or> last sel')"
  using assms
proof (induction sel arbitrary: avail rule: rev_induct)
  case Nil
  then show ?case by (simp add: walk_back_Nil)
next
  case (snoc b ys)
  show ?case
  proof (cases b)
    case True
    with snoc.prems have "sel' = ys @ [True] \<and> avail' = avail" by (auto simp: walk_back_snoc)
    with snoc.prems True show ?thesis by auto
  next
    case False
    have len: "length ys < length pool" using snoc.prems by simp
    then have a: "avail + og_effective_value (pool ! length ys) = effective_sum (drop (length ys) pool)"
      using snoc.prems by (simp add: effective_drop)
    have "walk_back pool ys (avail + og_effective_value (pool ! length ys)) = Ok (sel', avail')"
      using snoc.prems(1) False by (auto simp: walk_back_snoc)
    from snoc.IH [OF this _ a] len False show ?thesis by (simp add: chosen_groups_snoc)
  qed
qed

lemma bnb_backtrack_inv:
  assumes "bnb_inv pool v0 target cost st" and "bnb_backtrack pool st = Ok (flow, st')"
  shows "bnb_inv pool v0 target cost st'"
proof -
  obtain sel avail where wb: "walk_back pool (bnb_current st) (bnb_available st) = Ok (sel, avail)"
    and step: "(if sel = []
       then (if bnb_best st = [] then Err NoExactMatch
             else Ok (Break, st\<lparr>bnb_current := sel, bnb_available := avail\<rparr>))
       else rbind (og_at pool (length sel - 1)) (\<lambda>v. rbind (checked (bnb_value st - v)) (\<lambda>value.
              Ok (Continue, st\<lparr>bnb_current := butlast sel @ [False], bnb_available := avail,
                               bnb_value := value\<rparr>)))) = Ok (flow, st')"
    using assms(2) by (auto simp: bnb_backtrack_def)
  have w: "length sel \<le> length pool" "chosen_groups pool sel = chosen_groups pool (bnb_current st)"
    "avail = effective_sum (drop (length sel) pool)" "sel = [] \<or> last sel"
    using walk_back_Ok [OF wb] assms(1) by (auto simp: bnb_inv_def)
  show ?thesis
  proof (cases "sel = []")
    case True
    with step w assms(1) show ?thesis by (auto simp: bnb_inv_def split: if_splits)
  next
    case False
    then obtain ys where sel: "sel = ys @ [True]" using w(4) by (metis append_butlast_last_id)
    then have "effective_sum (chosen_groups pool (bnb_current st))
        = effective_sum (chosen_groups pool ys) + og_effective_value (pool ! length ys)"
      using w(1,2) by (simp add: chosen_groups_snoc flip: w(2))
    with sel step w assms(1) show ?thesis by (auto simp: bnb_inv_def chosen_groups_snoc)
  qed
qed

lemma bnb_forward_inv:
  assumes "bnb_inv pool v0 target cost st" and "bnb_forward pool st = Ok (flow, st')"
  shows "bnb_inv pool v0 target cost st'"
  using assms by (auto simp: bnb_inv_def bnb_forward_def chosen_groups_snoc effective_drop)

lemma bnb_record_best_inv:
  assumes "bnb_inv pool v0 target cost st" and "target \<le> bnb_value st" and "bnb_value st \<le> target + cost"
  shows "bnb_inv pool v0 target cost (bnb_record_best st)"
  using assms by (auto simp: bnb_inv_def bnb_record_best_def bnb_best_ok_def)

lemma bnb_step_inv:
  assumes "bnb_inv pool v0 target cost st" and "bnb_step pool target cost st = Ok (flow, st')"
  shows "bnb_inv pool v0 target cost st'"
proof -
  consider (retreat) "bnb_backtrack pool st = Ok (flow, st')"
    | (best) "target \<le> bnb_value st" "bnb_value st \<le> target + cost"
        "st' = bnb_record_best st \<or> bnb_backtrack pool (bnb_record_best st) = Ok (flow, st')"
    | (advance) "bnb_forward pool st = Ok (flow, st')"
    using assms(2) by (auto simp: bnb_step_def Let_def not_less split: if_splits)
  then show ?thesis
  proof cases
    case retreat
    with assms(1) show ?thesis by (rule bnb_backtrack_inv)
  next
    case best
    then show ?thesis using bnb_record_best_inv [OF assms(1)] bnb_backtrack_inv by blast
  next
    case advance
    with assms(1) show ?thesis by (rule bnb_forward_inv)
  qed
qed

lemma bnb_loop_inv:
  "bnb_inv pool v0 target cost st \<Longrightarrow> bnb_loop n pool target cost st = Ok st' \<Longrightarrow>
     bnb_inv pool v0 target cost st'"
proof (induction n arbitrary: st)
  case (Suc n)
  then obtain flow st1 where step: "bnb_step pool target cost st = Ok (flow, st1)"
    and rest: "(case flow of Break \<Rightarrow> Ok st1 | Continue \<Rightarrow> bnb_loop n pool target cost st1) = Ok st'"
    by (auto simp: bnb_loop.simps [of "Suc n"] cong: bnb_flow.case_cong)
  have "bnb_inv pool v0 target cost st1" using Suc.prems(1) step by (rule bnb_step_inv)
  with rest Suc.IH show ?case by (cases flow) auto
qed (simp add: bnb_loop.simps)

lemma bnb_init_inv:
  "avail = effective_sum pool \<Longrightarrow>
     bnb_inv pool v0 target cost
       \<lparr>bnb_current = [], bnb_best = [], bnb_best_value = None, bnb_value = v0, bnb_available = avail\<rparr>"
  by (simp add: bnb_inv_def bnb_best_ok_def chosen_groups_def)

lemma chosen_groups_subset: "mset (chosen_groups pool sel) \<subseteq># mset pool"
proof -
  have "mset (chosen_groups pool sel) \<subseteq># mset (map fst (zip pool sel))"
    unfolding chosen_groups_def mset_map mset_filter by (rule image_mset_subseteq_mono) simp
  also have "\<dots> \<subseteq># mset pool"
    unfolding map_fst_zip_take by (metis append_take_drop_id mset_append mset_subset_eq_add_left)
  finally show ?thesis .
qed

text \<open>What a successful search returns: some of the optional groups, worth at least the target and at most the cost of a change output more.\<close>

lemma bnb_Ok:
  assumes "bnb usort required optional v0 avail target cost ds fe = Ok r"
    and "\<And>xs. mset (usort xs) = mset xs" and "avail = effective_sum optional"
  shows "\<exists>chosen v. mset chosen \<subseteq># mset optional \<and> v = v0 + effective_sum chosen
    \<and> target \<le> v \<and> v \<le> target + cost
    \<and> (\<exists>excess. decide_change (nat (v - target)) fe ds = (Ok excess :: (BnbError, Excess) res)
         \<and> calculate_cs_result chosen required excess = (Ok r :: (BnbError, _) res))"
proof -
  let ?pool = "rev (usort optional)"
  have pool: "mset ?pool = mset optional" by (simp add: assms(2))
  then have "effective_sum ?pool = avail"
    unfolding assms(3) effective_sum_def by (simp only: sum_list_map_mset)
  moreover obtain st v excess where st: "bnb_loop BNB_TOTAL_TRIES ?pool target cost
      \<lparr>bnb_current = [], bnb_best = [], bnb_best_value = None, bnb_value = v0, bnb_available = avail\<rparr> = Ok st"
      "bnb_best_value st = Some v" "decide_change (nat (v - target)) fe ds = (Ok excess :: (BnbError, Excess) res)"
      "calculate_cs_result (chosen_groups ?pool (bnb_best st)) required excess = (Ok r :: (BnbError, _) res)"
    using assms(1) by (auto simp: bnb_def Let_def chosen_groups_def split: if_splits)
  ultimately have "bnb_inv ?pool v0 target cost st"
    using bnb_loop_inv bnb_init_inv by metis
  with st(2) have "v = v0 + effective_sum (chosen_groups ?pool (bnb_best st))" "target \<le> v" "v \<le> target + cost"
    by (simp_all add: bnb_inv_def bnb_best_ok_def)
  moreover have "mset (chosen_groups ?pool (bnb_best st)) \<subseteq># mset optional"
    using chosen_groups_subset pool by metis
  ultimately show ?thesis using st by blast
qed

section \<open>Branch and bound meets the contract\<close>

definition group_ok :: "fee_env \<Rightarrow> 'op OutputGroup \<Rightarrow> bool" where
  "group_ok fe u \<longleftrightarrow> og_fee u = fee_of fe (og_weighted_utxo u)
     \<and> og_effective_value u = int (utxo_value (wu_utxo (og_weighted_utxo u))) - int (og_fee u)"

lemma output_group_new_Ok:
  "output_group_new fe w = Ok u \<Longrightarrow> og_weighted_utxo u = w \<and> group_ok fe u"
  by (auto simp: output_group_new_def group_ok_def dest: input_fee_Ok)

lemma output_groups_Ok:
  "mapR (output_group_new fe) ws = Ok us \<Longrightarrow> map og_weighted_utxo us = ws \<and> list_all (group_ok fe) us"
  unfolding mapR_Ok by (induction rule: list_all2_induct) (auto dest: output_group_new_Ok)

lemma groups_total:
  assumes "list_all (group_ok fe) us"
  shows "effective_sum us = int (total_value (map og_weighted_utxo us)) - int (total_fee fe (map og_weighted_utxo us))"
    and "sum_list (map og_fee us) = total_fee fe (map og_weighted_utxo us)"
  using assms by (induction us) (auto simp: group_ok_def)

lemma calculate_cs_result_Ok:
  assumes "calculate_cs_result chosen required excess = Ok r" and "list_all (group_ok fe) (chosen @ required)"
  shows "cs_selected r = map wu_utxo (map og_weighted_utxo (chosen @ required))
       \<and> cs_fee_amount r = total_fee fe (map og_weighted_utxo (chosen @ required))
       \<and> cs_excess r = excess"
  using assms groups_total(2) [OF assms(2)]
  by (auto simp: calculate_cs_result_def Let_def comp_def dest!: foldR_amt_add)

text \<open>
  The two ways in which branch and bound itself succeeds: the chosen groups are worth the
  target by their effective values, and the excess is decided on the difference.
\<close>

lemma selection_from_groups:
  assumes "mset chosen \<subseteq># mset opt" and "list_all (group_ok fe) opt" and "list_all (group_ok fe) req"
    and "int target \<le> effective_sum (chosen @ req)"
    and "decide_change (nat (effective_sum (chosen @ req) - int target)) fe ds = (Ok excess :: ('e, Excess) res)"
    and "calculate_cs_result chosen req excess = (Ok r :: ('f, 'op CoinSelectionResult) res)"
    and "mset (map og_weighted_utxo opt) \<subseteq># mset optional" and "map og_weighted_utxo req = required"
  shows "sound_selection required optional fe target ds r"
proof -
  let ?ws = "map og_weighted_utxo chosen"
  have "set chosen \<subseteq> set opt" using assms(1) by (metis set_mset_mono set_mset_mset)
  then have ok: "list_all (group_ok fe) (chosen @ req)"
    using assms(2,3) by (auto simp: list_all_iff)
  note r = calculate_cs_result_Ok [OF assms(6) ok]
  let ?v = "total_value (required @ ?ws)" and ?f = "total_fee fe (required @ ?ws)"
  have eff: "effective_sum (chosen @ req) = int ?v - int ?f"
    using groups_total(1) [OF ok] assms(8) by simp
  then have le: "target + ?f \<le> ?v" using assms(4) by linarith
  have "nat (effective_sum (chosen @ req) - int target) = ?v - (target + ?f)"
    using eff le by linarith
  then have "decide_change (?v - (target + ?f)) fe ds = (Ok (cs_excess r) :: (InsufficientFunds, Excess) res)"
    using assms(5) r by (auto simp: decide_change_def Let_def split: if_splits)
  moreover have "mset ?ws \<subseteq># mset optional"
    using subset_mset.order_trans [OF image_mset_subseteq_mono [OF assms(1)] assms(7) [unfolded mset_map]]
    by simp
  moreover have "cs_fee_amount r = ?f" using r assms(8) by simp
  moreover have "mset (cs_selected r) = mset (map wu_utxo (required @ ?ws))"
    using r assms(8) by (simp add: comp_def)
  ultimately show ?thesis
    unfolding sound_selection_def using le by (intro exI [of _ ?ws]) simp
qed

lemma insufficient_no_Ok: "insufficient us target \<noteq> Ok r"
  by (simp add: insufficient_def)

lemma insufficient_Err:
  fixes us :: "'op OutputGroup list"
  assumes "insufficient us target = Err e" and "list_all (group_ok fe) us"
    and "\<not> (0 \<le> effective_sum us \<and> int target \<le> effective_sum us)"
  shows "available e < needed e"
proof -
  have no_err: "foldR (\<lambda>acc u. amt_add acc (f u)) 0 us \<noteq> Err e" for f :: "'op OutputGroup \<Rightarrow> nat" and e :: InsufficientFunds
    by (rule foldR_no_Err) simp
  obtain n v where n: "foldR (\<lambda>acc u. amt_add acc (og_fee u)) 0 us = (Ok n :: (InsufficientFunds, nat) res)"
      and v: "foldR (\<lambda>acc u. amt_add acc (utxo_value (wu_utxo (og_weighted_utxo u)))) 0 us
        = (Ok v :: (InsufficientFunds, nat) res)"
      and e: "e = \<lparr>needed = target + n, available = v\<rparr>"
    using assms(1) by (auto simp: insufficient_def rbind_eq_Err no_err)
  have "n = total_fee fe (map og_weighted_utxo us)"
    using foldR_amt_add [OF n] groups_total(2) [OF assms(2)] by simp
  moreover have "v = total_value (map og_weighted_utxo us)"
    using foldR_amt_add [OF v] by (simp add: total_value_def comp_def)
  ultimately show ?thesis using groups_total(1) [OF assms(2)] assms(3) e by simp linarith
qed

locale bnb_fallback = coin_selection_algorithm fallback
  for fallback :: "'op cs_algorithm" +
  fixes usort :: "'op OutputGroup list \<Rightarrow> 'op OutputGroup list"
  assumes usort_perm: "mset (usort xs) = mset xs"
begin

lemma groups_of_inputs:
  assumes "mapR (output_group_new fe) required = (Ok req :: ('e, _) res)"
    and "mapR (output_group_new fe) optional = (Ok ogs :: ('e, _) res)"
  shows "list_all (group_ok fe) req" and "map og_weighted_utxo req = required"
    and "list_all (group_ok fe) (filter (\<lambda>u. 0 < og_effective_value u) ogs)"
    and "mset (map og_weighted_utxo (filter (\<lambda>u. 0 < og_effective_value u) ogs)) \<subseteq># mset optional"
proof -
  show "list_all (group_ok fe) req" "map og_weighted_utxo req = required"
    using output_groups_Ok [OF assms(1)] by auto
  have ogs: "map og_weighted_utxo ogs = optional" "list_all (group_ok fe) ogs"
    using output_groups_Ok [OF assms(2)] by auto
  then show "list_all (group_ok fe) (filter (\<lambda>u. 0 < og_effective_value u) ogs)"
    by (auto simp: list_all_iff)
  show "mset (map og_weighted_utxo (filter (\<lambda>u. 0 < og_effective_value u) ogs)) \<subseteq># mset optional"
    unfolding ogs(1) [symmetric] mset_map mset_filter by (rule image_mset_subseteq_mono) simp
qed

lemma bnb_coin_select_sound:
  assumes "bnb_coin_select usort n fallback required optional fe target ds rnd = Ok r"
  shows "sound_selection required optional fe target ds r"
proof -
  let ?sum = "\<lambda>us. foldR (\<lambda>acc x. checked (acc + og_effective_value x)) 0 us :: (InsufficientFunds, int) res"
  let ?opt = "\<lambda>ogs. filter (\<lambda>u. 0 < og_effective_value u) ogs"
  obtain req ogs v avail where
    groups: "mapR (output_group_new fe) required = (Ok req :: (InsufficientFunds, _) res)"
      "mapR (output_group_new fe) optional = (Ok ogs :: (InsufficientFunds, _) res)"
    and sums: "?sum req = Ok v" "?sum (?opt ogs) = Ok avail"
    and branch: "(int target < v \<and> (\<exists>excess. decide_change (nat (v - int target)) fe ds = (Ok excess :: (InsufficientFunds, _) res)
           \<and> calculate_cs_result [] req excess = (Ok r :: (InsufficientFunds, _) res)))
       \<or> (\<exists>cost. bnb usort req (?opt ogs) v avail (int target) cost ds fe = Ok r)
       \<or> fallback required optional fe target ds rnd = Ok r"
    using assms
    by (fastforce simp: bnb_coin_select_def Let_def insufficient_no_Ok split: if_splits res.splits)
  have v: "v = effective_sum req" and avail: "avail = effective_sum (?opt ogs)"
    using foldR_checked [OF sums(1)] foldR_checked [OF sums(2)] by (simp_all add: effective_sum_def)
  note g = groups_of_inputs [OF groups]
  from branch consider (req_only) excess where "int target < v"
      "decide_change (nat (v - int target)) fe ds = (Ok excess :: (InsufficientFunds, _) res)"
      "calculate_cs_result [] req excess = (Ok r :: (InsufficientFunds, _) res)"
    | (searched) cost where "bnb usort req (?opt ogs) v avail (int target) cost ds fe = Ok r"
    | (fell_back) "fallback required optional fe target ds rnd = Ok r"
    by blast
  then show ?thesis
  proof cases
    case req_only
    then show ?thesis
      using g v by (intro selection_from_groups [where chosen = "[]" and opt = "?opt ogs" and req = req]) auto
  next
    case searched
    from bnb_Ok [OF this usort_perm avail] obtain chosen excess where
      "mset chosen \<subseteq># mset (?opt ogs)" "int target \<le> v + effective_sum chosen"
      "decide_change (nat (v + effective_sum chosen - int target)) fe ds = (Ok excess :: (BnbError, _) res)"
      "calculate_cs_result chosen req excess = (Ok r :: (BnbError, _) res)"
      by blast
    then show ?thesis
      using g v by (intro selection_from_groups [where chosen = chosen and opt = "?opt ogs" and req = req])
        (auto simp: add.commute)
  next
    case fell_back
    then show ?thesis by (rule select_sound)
  qed
qed

lemma bnb_coin_select_refuses:
  assumes "bnb_coin_select usort n fallback required optional fe target ds rnd = Err e"
  shows "available e < needed e"
proof -
  let ?sum = "\<lambda>us. foldR (\<lambda>acc x. checked (acc + og_effective_value x)) 0 us :: (InsufficientFunds, int) res"
  let ?opt = "\<lambda>ogs. filter (\<lambda>u. 0 < og_effective_value u) ogs"
  have no_err: "?sum us \<noteq> Err e" "mapR (output_group_new fe) ws \<noteq> (Err e :: (InsufficientFunds, _) res)"
      "calculate_cs_result xs ys ex \<noteq> (Err e :: (InsufficientFunds, _) res)"
    for us ws xs ys ex
    by (rule foldR_no_Err, simp) (rule mapR_no_Err, simp,
        simp add: calculate_cs_result_def Let_def rbind_eq_Err foldR_no_Err)
  obtain req ogs v avail where
    groups: "mapR (output_group_new fe) required = (Ok req :: (InsufficientFunds, _) res)"
      "mapR (output_group_new fe) optional = (Ok ogs :: (InsufficientFunds, _) res)"
    and sums: "?sum req = Ok v" "?sum (?opt ogs) = Ok avail"
    and branch: "(\<not> (0 \<le> avail + v \<and> int target \<le> avail + v) \<and> insufficient (req @ ?opt ogs) target = Err e)
       \<or> fallback required optional fe target ds rnd = Err e"
    using assms
    by (fastforce simp: bnb_coin_select_def Let_def rbind_eq_Err no_err split: if_splits res.splits)
  have "avail + v = effective_sum (req @ ?opt ogs)"
    using foldR_checked [OF sums(1)] foldR_checked [OF sums(2)] by (simp add: effective_sum_def)
  moreover have "list_all (group_ok fe) (req @ ?opt ogs)"
    using groups_of_inputs [OF groups] by simp
  ultimately have "insufficient (req @ ?opt ogs) target = Err e \<Longrightarrow>
      \<not> (0 \<le> avail + v \<and> int target \<le> avail + v) \<Longrightarrow> ?thesis"
    using insufficient_Err [of "req @ ?opt ogs" target e fe] by simp
  with branch select_refuses show ?thesis by blast
qed

end

sublocale bnb_fallback \<subseteq> searched: coin_selection_algorithm "bnb_coin_select usort n fallback" for n
  by unfold_locales (rule bnb_coin_select_sound bnb_coin_select_refuses, assumption)+

section \<open>The search neither overflows nor leaves the pool\<close>

definition bnb_bounds :: "'op OutputGroup list \<Rightarrow> int \<Rightarrow> int \<Rightarrow> int \<Rightarrow> bool" where
  "bnb_bounds pool v0 target cost \<longleftrightarrow>
     list_all (\<lambda>u. 0 \<le> og_effective_value u) pool
     \<and> - (2 ^ 62) \<le> v0 \<and> v0 < 2 ^ 62 \<and> effective_sum pool < 2 ^ 62
     \<and> 0 \<le> target \<and> 0 \<le> cost \<and> target + cost < 2 ^ 63"

lemma effective_sum_nonneg: "list_all (\<lambda>u. 0 \<le> og_effective_value u) us \<Longrightarrow> 0 \<le> effective_sum us"
  by (induction us) auto

lemma chosen_groups_bound:
  "list_all (\<lambda>u. 0 \<le> og_effective_value u) pool \<Longrightarrow>
     0 \<le> effective_sum (chosen_groups pool sel)
     \<and> effective_sum (chosen_groups pool sel) + effective_sum (drop (length sel) pool) \<le> effective_sum pool"
proof (induction pool arbitrary: sel)
  case (Cons p pool)
  show ?case
  proof (cases sel)
    case Nil
    with Cons.prems show ?thesis
      using effective_sum_nonneg [of "p # pool"] by (simp add: chosen_groups_def)
  next
    case (Cons b bs)
    with Cons.IH [of bs] Cons.prems show ?thesis by (auto simp: chosen_groups_def)
  qed
qed (simp add: chosen_groups_def)

lemma list_all_drop: "list_all P xs \<Longrightarrow> list_all P (drop n xs)"
  by (auto simp: list_all_iff dest: in_set_dropD)

lemma walk_back_total:
  assumes "list_all (\<lambda>u. 0 \<le> og_effective_value u) pool" and "effective_sum pool < 2 ^ 62"
    and "length sel \<le> length pool"
  shows "\<exists>sel' avail'. walk_back pool sel (effective_sum (drop (length sel) pool)) = Ok (sel', avail')"
  using assms(3)
proof (induction sel rule: rev_induct)
  case Nil
  then show ?case by (simp add: walk_back_Nil)
next
  case (snoc b ys)
  then have len: "length ys < length pool" by simp
  have "0 \<le> effective_sum (drop (length ys) pool)"
    using assms(1) by (intro effective_sum_nonneg list_all_drop)
  moreover have "effective_sum (drop (length ys) pool) \<le> effective_sum pool"
    using chosen_groups_bound [OF assms(1), of ys] by simp
  ultimately have "signed_range (effective_sum (drop (length ys) pool))"
    using assms(2) by (simp add: signed_range_def)
  moreover have "effective_sum (drop (length (ys @ [b])) pool) + og_effective_value (pool ! length ys)
      = effective_sum (drop (length ys) pool)"
    using len by (simp add: effective_drop)
  ultimately show ?case
    using snoc.IH len by (cases b) (simp_all add: walk_back_snoc og_at_def checked_def)
qed

lemma bnb_backtrack_total:
  assumes "bnb_inv pool v0 target cost st" and "bnb_bounds pool v0 target cost"
  shows "bnb_backtrack pool st \<noteq> Panic"
proof -
  have nonneg: "list_all (\<lambda>u. 0 \<le> og_effective_value u) pool" and small: "effective_sum pool < 2 ^ 62"
    using assms(2) by (simp_all add: bnb_bounds_def)
  have inv: "length (bnb_current st) \<le> length pool"
      "bnb_available st = effective_sum (drop (length (bnb_current st)) pool)"
      "bnb_value st = v0 + effective_sum (chosen_groups pool (bnb_current st))"
    using assms(1) by (simp_all add: bnb_inv_def)
  obtain sel avail where wb: "walk_back pool (bnb_current st) (bnb_available st) = Ok (sel, avail)"
    using walk_back_total [OF nonneg small inv(1)] inv(2) by auto
  note w = walk_back_Ok [OF wb inv(1,2)]
  show ?thesis
  proof (cases "sel = []")
    case True
    with wb show ?thesis by (simp add: bnb_backtrack_def)
  next
    case False
    then obtain ys where sel: "sel = ys @ [True]" using w by (metis append_butlast_last_id)
    then have len: "length ys < length pool" using w inv(1) by simp
    then have "effective_sum (chosen_groups pool (bnb_current st))
        = effective_sum (chosen_groups pool ys) + og_effective_value (pool ! length ys)"
      using w sel by (simp add: chosen_groups_snoc flip: conjunct1 [OF conjunct2 [OF w]])
    then have "signed_range (bnb_value st - og_effective_value (pool ! length ys))"
      using chosen_groups_bound [OF nonneg, of ys] effective_sum_nonneg [OF list_all_drop [OF nonneg], of "length ys"]
        inv(3) assms(2) by (simp add: signed_range_def bnb_bounds_def)
    then show ?thesis
      using wb sel len by (simp add: bnb_backtrack_def og_at_def checked_def)
  qed
qed

lemma bnb_forward_total:
  assumes "bnb_inv pool v0 target cost st" and "bnb_bounds pool v0 target cost"
    and "target \<le> bnb_value st + bnb_available st" and "bnb_value st < target"
  shows "bnb_forward pool st \<noteq> Panic"
proof -
  have inv: "length (bnb_current st) \<le> length pool"
      "bnb_available st = effective_sum (drop (length (bnb_current st)) pool)"
      "bnb_value st = v0 + effective_sum (chosen_groups pool (bnb_current st))"
    using assms(1) by (simp_all add: bnb_inv_def)
  let ?k = "length (bnb_current st)"
  have len: "?k < length pool"
  proof (rule ccontr)
    assume "\<not> ?k < length pool"
    then have "bnb_available st = 0" by (simp add: inv(2))
    with assms(3,4) show False by simp
  qed
  have nonneg: "list_all (\<lambda>u. 0 \<le> og_effective_value u) pool"
    using assms(2) by (simp add: bnb_bounds_def)
  have "0 \<le> effective_sum (drop (Suc ?k) pool)" "0 \<le> og_effective_value (pool ! ?k)"
    using nonneg len by (auto intro: effective_sum_nonneg list_all_drop simp: list_all_length)
  then show ?thesis
    using chosen_groups_bound [OF nonneg, of "bnb_current st"] effective_drop [OF len] inv assms(2) len
    by (simp add: bnb_forward_def og_at_def checked_def signed_range_def bnb_bounds_def)
qed

lemma bnb_step_total:
  assumes "bnb_inv pool v0 target cost st" and "bnb_bounds pool v0 target cost"
  shows "bnb_step pool target cost st \<noteq> Panic"
proof -
  have nonneg: "list_all (\<lambda>u. 0 \<le> og_effective_value u) pool"
    using assms(2) by (simp add: bnb_bounds_def)
  have "signed_range (bnb_value st + bnb_available st)" "signed_range (target + cost)"
    using chosen_groups_bound [OF nonneg, of "bnb_current st"] assms
      effective_sum_nonneg [OF list_all_drop [OF nonneg], of "length (bnb_current st)"]
    by (simp_all add: bnb_inv_def bnb_bounds_def signed_range_def)
  moreover have "bnb_backtrack pool (bnb_record_best st) \<noteq> Panic"
    if "target \<le> bnb_value st" "bnb_value st \<le> target + cost"
    using that assms by (intro bnb_backtrack_total bnb_record_best_inv)
  ultimately show ?thesis
    using bnb_backtrack_total [OF assms] bnb_forward_total [OF assms]
    by (auto simp: bnb_step_def Let_def checked_def not_less not_le)
qed

lemma bnb_loop_total:
  "bnb_inv pool v0 target cost st \<Longrightarrow> bnb_bounds pool v0 target cost \<Longrightarrow>
     bnb_loop n pool target cost st \<noteq> Panic"
proof (induction n arbitrary: st)
  case (Suc n)
  show ?case
  proof (cases "bnb_step pool target cost st")
    case (Ok a)
    obtain flow st1 where a: "a = (flow, st1)" by (cases a)
    then have "bnb_inv pool v0 target cost st1" using bnb_step_inv Suc.prems(1) Ok by blast
    with Suc a Ok show ?thesis by (cases flow) (simp_all add: bnb_loop.simps [of "Suc n"])
  next
    case (Err e)
    then show ?thesis by (simp add: bnb_loop.simps [of "Suc n"])
  next
    case Panic
    then show ?thesis using bnb_step_total Suc.prems by blast
  qed
qed (simp add: bnb_loop.simps)

section \<open>Duplicates are removed\<close>

lemma filter_visited_spec:
  "filter_visited visited us = (kept, visited') \<Longrightarrow>
     set visited' = set visited \<union> (\<lambda>u. utxo_outpoint (wu_utxo u)) ` set us
     \<and> distinct (map (\<lambda>u. utxo_outpoint (wu_utxo u)) kept)
     \<and> (\<lambda>u. utxo_outpoint (wu_utxo u)) ` set kept
         = (\<lambda>u. utxo_outpoint (wu_utxo u)) ` set us - set visited
     \<and> set kept \<subseteq> set us"
proof (induction us arbitrary: visited kept visited')
  case (Cons u us)
  let ?op = "utxo_outpoint (wu_utxo u)"
  show ?case
  proof (cases "?op \<in> set visited")
    case True
    with Cons.IH [of visited kept visited'] Cons.prems show ?thesis by (auto simp: Let_def)
  next
    case False
    then obtain ks where "filter_visited (?op # visited) us = (ks, visited')" "kept = u # ks"
      using Cons.prems by (auto simp: Let_def split: prod.splits)
    with Cons.IH [of "?op # visited" ks visited'] False show ?thesis by auto
  qed
qed auto

lemma filter_duplicates_spec:
  assumes "filter_duplicates required optional = (required', optional')"
  shows "distinct (map (\<lambda>u. utxo_outpoint (wu_utxo u)) (required' @ optional'))
    \<and> (\<lambda>u. utxo_outpoint (wu_utxo u)) ` set required' = (\<lambda>u. utxo_outpoint (wu_utxo u)) ` set required
    \<and> (\<lambda>u. utxo_outpoint (wu_utxo u)) ` (set required' \<union> set optional')
        = (\<lambda>u. utxo_outpoint (wu_utxo u)) ` (set required \<union> set optional)
    \<and> set required' \<subseteq> set required \<and> set optional' \<subseteq> set optional"
proof -
  obtain v1 v2 where "filter_visited [] required = (required', v1)" "filter_visited v1 optional = (optional', v2)"
    using assms by (auto simp: filter_duplicates_def Let_def split: prod.splits)
  from filter_visited_spec [OF this(1)] filter_visited_spec [OF this(2)] show ?thesis
    by (auto simp: image_Un)
qed

section \<open>The search of the default algorithm\<close>

interpretation default_bnb: bnb_fallback single_random_draw "sort_key og_effective_value"
  by unfold_locales simp

lemma default_select_contract:
  assumes "\<And>xs. mset (usort xs) = mset xs"
  shows "coin_selection_algorithm (default_coin_select usort)"
proof -
  have "bnb_fallback single_random_draw usort"
    using assms by unfold_locales
  from bnb_fallback.bnb_coin_select_sound [OF this] bnb_fallback.bnb_coin_select_refuses [OF this]
  show ?thesis unfolding default_coin_select_def by unfold_locales
qed

lemma foldR_amt_add_total:
  "a + sum_list (map f xs) < 2 ^ 64 \<Longrightarrow> foldR (\<lambda>acc x. amt_add acc (f x)) a xs = Ok (a + sum_list (map f xs))"
  by (induction xs arbitrary: a) (simp_all add: amt_add_def add.assoc)

lemma sum_list_submset:
  fixes f :: "'a \<Rightarrow> nat"
  assumes "mset xs \<subseteq># mset ys"
  shows "sum_list (map f xs) \<le> sum_list (map f ys)"
proof -
  obtain d where "mset ys = mset xs + d" using assms by (meson mset_subset_eq_exists_conv)
  then show ?thesis by (simp add: sum_list_map_mset)
qed

lemma calculate_cs_result_total:
  assumes "mset chosen \<subseteq># mset optional" and "sum_list (map og_fee (required @ optional)) < 2 ^ 64"
  shows "calculate_cs_result chosen required ex \<noteq> Panic"
proof -
  have "sum_list (map og_fee (chosen @ required)) < 2 ^ 64"
    using sum_list_submset [OF assms(1), of og_fee] assms(2) by simp
  then show ?thesis
    by (simp add: calculate_cs_result_def Let_def foldR_amt_add_total)
qed

lemma bnb_total:
  assumes "\<And>xs. mset (usort xs) = mset xs" and "avail = effective_sum optional"
    and "bnb_bounds optional v0 target cost"
    and "fe_from_vb fe (ds_serialized_len ds + 8) = Some w" and "fe_mul fe w = Some change"
    and "sum_list (map og_fee (required @ optional)) < 2 ^ 64"
  shows "bnb usort required optional v0 avail target cost ds fe \<noteq> Panic"
proof -
  let ?pool = "rev (usort optional)"
  let ?st = "\<lparr>bnb_current = [], bnb_best = [], bnb_best_value = None, bnb_value = v0, bnb_available = avail\<rparr>"
  have pool: "mset ?pool = mset optional" by (simp add: assms(1))
  then have eff: "effective_sum ?pool = effective_sum optional"
    unfolding effective_sum_def by (simp only: sum_list_map_mset)
  have "set ?pool = set optional" using pool by (metis set_mset_mset)
  then have bounds: "bnb_bounds ?pool v0 target cost"
    using assms(3) eff by (simp add: bnb_bounds_def list_all_iff)
  have init: "bnb_inv ?pool v0 target cost ?st"
    using eff assms(2) by (intro bnb_init_inv) simp
  show ?thesis
  proof (cases "bnb_loop BNB_TOTAL_TRIES ?pool target cost ?st")
    case Panic
    then show ?thesis using bnb_loop_total [OF init bounds] by blast
  next
    case (Err e)
    then show ?thesis by (simp add: bnb_def Let_def)
  next
    case (Ok st)
    then have inv: "bnb_inv ?pool v0 target cost st" using bnb_loop_inv [OF init] by blast
    show ?thesis
    proof (cases "bnb_best_value st")
      case None
      with inv have "bnb_best st = []" by (simp add: bnb_inv_def bnb_best_ok_def)
      with Ok show ?thesis by (simp add: bnb_def Let_def)
    next
      case (Some v)
      then have v: "target \<le> v" "v \<le> target + cost" using inv by (simp_all add: bnb_inv_def bnb_best_ok_def)
      have "decide_change a fe ds \<noteq> Panic" for a
        using assms(4,5) by (simp add: decide_change_def of_opt_def Let_def)
      moreover have "signed_range (v - target)" using v assms(3) by (simp add: signed_range_def bnb_bounds_def)
      moreover have "calculate_cs_result (chosen_groups ?pool best) required ex \<noteq> Panic" for best ex
        using calculate_cs_result_total [OF chosen_groups_subset [of ?pool best, unfolded pool] assms(6)] .
      ultimately show ?thesis
        using Ok Some v by (auto simp: bnb_def Let_def rbind_eq_Panic of_opt_def checked_def to_unsigned_def chosen_groups_def)
    qed
  qed
qed

text \<open>A wallet of two outputs, fees of one satoshi per weight unit over an input weight of 160.\<close>

definition sample_fees :: fee_env where
  "sample_fees = \<lparr>fe_mul = Some, fe_from_vb = (\<lambda>v. Some (4 * v)), fe_txin_weight = 160\<rparr>"

definition sample_drain :: drain_script where
  "sample_drain = \<lparr>ds_serialized_len = 23, ds_minimal_non_dust = 294\<rparr>"

definition sample_utxo :: "nat \<Rightarrow> nat \<Rightarrow> nat WeightedUtxo" where
  "sample_utxo op value = \<lparr>wu_satisfaction_weight = 0,
     wu_utxo = \<lparr>utxo_outpoint = op, utxo_value = value, utxo_script_pubkey = [], utxo_keychain = External,
       utxo_is_spent = False, utxo_derivation_index = 0, utxo_chain_position = None\<rparr>\<rparr>"

definition sample_group :: "nat \<Rightarrow> nat \<Rightarrow> nat OutputGroup" where
  "sample_group op value = \<lparr>og_weighted_utxo = sample_utxo op value, og_fee = 160,
     og_effective_value = int value - 160\<rparr>"

lemmas sample_defs = sample_fees_def sample_drain_def sample_utxo_def sample_group_def

lemma sample_bnb:
  "bnb (sort_key og_effective_value) [] [sample_group 7 1160, sample_group 8 300] 0 1140 1000 124
     sample_drain sample_fees
   = Ok \<lparr>cs_selected = [wu_utxo (sample_utxo 7 1160)], cs_fee_amount = 160,
         cs_excess = NoChange 294 0 124\<rparr>"
  unfolding bnb_def Let_def BNB_TOTAL_TRIES_def
  by (subst bnb_loop.simps, subst bnb_loop.simps)
    (simp add: sample_defs bnb_step_def bnb_forward_def og_at_def checked_def signed_range_def
      bnb_record_best_def Let_def to_unsigned_def of_opt_def decide_change_def is_dust_def
      calculate_cs_result_def amt_add_def)

lemma sample_select:
  "default_coin_select (sort_key og_effective_value) [sample_utxo 7 5000] [sample_utxo 8 300]
    sample_fees 1000 sample_drain (\<lambda>_. 0)
   = Ok \<lparr>cs_selected = [wu_utxo (sample_utxo 7 5000)], cs_fee_amount = 160, cs_excess = Change 3716 124\<rparr>"
  by (simp add: default_coin_select_def bnb_coin_select_def sample_defs input_fee_def output_group_new_def
      of_opt_def amt_add_def to_signed_def checked_def signed_range_def to_unsigned_def decide_change_def
      is_dust_def Let_def calculate_cs_result_def)

section \<open>Properties\<close>

text \<open>
  C14: Whatever the default algorithm selects is sound: all required outputs and a
  sub-collection of the optional ones, a fee that is the sum of the fees of exactly these
  inputs, a value that covers the target and that fee. With a change script that has a dust
  limit the books balance: the inputs are worth the target, the fee and the excess (the
  remainder, or the change with its own fee). This holds for every rearrangement the unstable
  sort may produce and every sequence of random numbers.
\<close>

theorem default_selection_sound:
  assumes "\<forall>xs. mset (usort xs) = mset xs"
    and "default_coin_select usort required optional fe target ds rnd = Ok r"
    and "0 < ds_minimal_non_dust ds"
  shows "sound_selection required optional fe target ds r
     \<and> sum_list (map utxo_value (cs_selected r)) = target + cs_fee_amount r + excess_total (cs_excess r)"
proof -
  have "coin_selection_algorithm (default_coin_select usort)"
    using assms(1) by (intro default_select_contract) simp
  from coin_selection_algorithm.select_sound [OF this assms(2)]
    coin_selection_algorithm.selection_balances [OF this assms(2,3)]
  show ?thesis by simp
qed

theorem default_selection_sound_witness:
  "sum_list (map utxo_value [wu_utxo (sample_utxo 7 5000)]) = 1000 + 160 + excess_total (Change 3716 124)"
  using default_selection_sound [of "sort_key og_effective_value", OF _ sample_select]
  by (simp add: sample_drain_def)

text \<open>
  When the default algorithm refuses, the amounts it reports are a real shortfall: what
  is available is less than what is needed.
\<close>

lemma default_selection_refuses:
  assumes "\<forall>xs. mset (usort xs) = mset xs"
    and "default_coin_select usort required optional fe target ds rnd = Err e"
  shows "available e < needed e"
proof -
  have "coin_selection_algorithm (default_coin_select usort)"
    using assms(1) by (intro default_select_contract) simp
  from coin_selection_algorithm.select_refuses [OF this assms(2)] show ?thesis .
qed

lemma default_selection_refuses_witness:
  "default_coin_select (sort_key og_effective_value) [] [sample_utxo 8 300] sample_fees 1000 sample_drain (\<lambda>_. 0)
     = Err \<lparr>needed = 1160, available = 300\<rparr> \<and> (300 :: nat) < 1160"
proof -
  have "default_coin_select (sort_key og_effective_value) [] [sample_utxo 8 300] sample_fees 1000 sample_drain (\<lambda>_. 0)
      = Err \<lparr>needed = 1160, available = 300\<rparr>"
    by (simp add: default_coin_select_def bnb_coin_select_def sample_defs input_fee_def output_group_new_def
        of_opt_def amt_add_def to_signed_def checked_def signed_range_def insufficient_def Let_def)
  from this default_selection_refuses [OF _ this] show ?thesis by simp
qed

text \<open>
  A match of branch and bound lies in the window it searches: its value, the effective
  values of the required and the chosen optional outputs, reaches the target and exceeds it
  by at most the cost of a change output; the excess is decided on that difference.
\<close>

lemma bnb_match_in_window:
  assumes "\<forall>xs. mset (usort xs) = mset xs" and "avail = effective_sum optional"
    and "bnb usort required optional v0 avail target cost ds fe = Ok r"
  shows "\<exists>chosen v. mset chosen \<subseteq># mset optional \<and> v = v0 + effective_sum chosen
    \<and> target \<le> v \<and> v \<le> target + cost
    \<and> (\<exists>excess. decide_change (nat (v - target)) fe ds = (Ok excess :: (BnbError, Excess) res)
         \<and> calculate_cs_result chosen required excess = (Ok r :: (BnbError, _) res))"
  using bnb_Ok [OF assms(3) _ assms(2)] assms(1) by blast

lemma bnb_match_in_window_witness:
  "\<exists>chosen v. mset chosen \<subseteq># mset [sample_group 7 1160, sample_group 8 300] \<and> v = 0 + effective_sum chosen
    \<and> 1000 \<le> v \<and> v \<le> 1000 + 124"
  using bnb_match_in_window [of "sort_key og_effective_value", OF _ _ sample_bnb]
  by (force simp: sample_group_def)

text \<open>
  C16: The search is safe: with positive effective values, amounts of a sane size and a
  defined change fee, none of its index accesses leaves the pool and none of its amounts
  overflows in all of its up to 100000 steps; it ends with a selection or a regular error.
\<close>

theorem bnb_never_panics:
  assumes "\<forall>xs. mset (usort xs) = mset xs" and "avail = effective_sum optional"
    and "bnb_bounds optional v0 target cost"
    and "fe_from_vb fe (ds_serialized_len ds + 8) = Some w" and "fe_mul fe w = Some change"
    and "sum_list (map og_fee (required @ optional)) < 2 ^ 64"
  shows "bnb usort required optional v0 avail target cost ds fe \<noteq> Panic"
  using assms by (intro bnb_total) simp_all

theorem bnb_never_panics_witness:
  "bnb (sort_key og_effective_value) [] [sample_group 7 900, sample_group 8 300] 0 880 500 124
     sample_drain sample_fees \<noteq> Panic"
  by (rule bnb_never_panics [where w = 124 and change = 124])
    (simp_all add: sample_defs bnb_bounds_def)

text \<open>
  Removing duplicates leaves every outpoint exactly once, loses none, invents none, and
  keeps the required occurrence of an outpoint that is both required and optional.
\<close>

lemma filter_duplicates_exact:
  assumes "filter_duplicates required optional = (required', optional')"
  shows "distinct (map (\<lambda>u. utxo_outpoint (wu_utxo u)) (required' @ optional'))
    \<and> (\<lambda>u. utxo_outpoint (wu_utxo u)) ` set required' = (\<lambda>u. utxo_outpoint (wu_utxo u)) ` set required
    \<and> (\<lambda>u. utxo_outpoint (wu_utxo u)) ` (set required' \<union> set optional')
        = (\<lambda>u. utxo_outpoint (wu_utxo u)) ` (set required \<union> set optional)
    \<and> set required' \<subseteq> set required \<and> set optional' \<subseteq> set optional"
  using assms by (rule filter_duplicates_spec)

lemma filter_duplicates_exact_witness:
  "distinct (map (\<lambda>u. utxo_outpoint (wu_utxo u)) ([sample_utxo 7 900] @ [sample_utxo 8 300]))"
proof -
  have "filter_duplicates [sample_utxo 7 900] [sample_utxo 8 300, sample_utxo 7 900]
      = ([sample_utxo 7 900], [sample_utxo 8 300])"
    by (simp add: filter_duplicates_def sample_utxo_def Let_def)
  from filter_duplicates_exact [OF this] show ?thesis by blast
qed

text \<open>
  The shuffle only rearranges: for every sequence of random numbers the result has the
  same elements with the same multiplicities.
\<close>

lemma shuffle_slice_permutes: "mset (shuffle_slice rnd xs) = mset xs"
  by (rule mset_shuffle_slice)

text \<open>
  A change output is created exactly when what is left after its own fee reaches the dust
  limit of the change script; then it receives exactly that rest, and otherwise nothing is
  created and the whole remainder is reported.
\<close>

lemma decide_change_exact:
  assumes "fe_from_vb fe (ds_serialized_len ds + 8) = Some w" and "fe_mul fe w = Some fee"
    and "0 < ds_minimal_non_dust ds"
  shows "decide_change remaining fe ds =
     (if fee + ds_minimal_non_dust ds \<le> remaining then Ok (Change (remaining - fee) fee)
      else Ok (NoChange (ds_minimal_non_dust ds) remaining fee))"
  using assms by (auto simp: decide_change_def of_opt_def Let_def is_dust_def)

lemma decide_change_exact_witness:
  "decide_change 500 sample_fees sample_drain = Ok (Change 376 124)
   \<and> decide_change 400 sample_fees sample_drain = Ok (NoChange 294 400 124)"
  using decide_change_exact [of sample_fees sample_drain 124 124 500]
    decide_change_exact [of sample_fees sample_drain 124 124 400]
  by (simp add: sample_fees_def sample_drain_def)

end
