(* ===== verification/Wallet.thy ===== *)
theory Wallet
  imports Coin_Selection Maps Hashes "HOL-Library.List_Lexorder" "HOL-Library.Product_Lexorder"
begin

text \<open>
  \<^verbatim>\<open>crates/wallet/src/watch_wallet.rs\<close> with \<^verbatim>\<open>types.rs\<close>, \<^verbatim>\<open>errors.rs\<close> and the
  component's exports in \<^verbatim>\<open>lib.rs\<close>: the watch-only wallet. Its state is the record
  \<open>WatchOnly\<close>; an operation returns its result and the state it leaves, since a failing
  operation may have changed the state before it failed. The maps of the wallet are ordered
  maps (theory \<open>Maps\<close>), coin selection is theory \<open>Coin_Selection\<close>.

  Arguments stand for the crate \<^verbatim>\<open>bitcoin\<close>: child key derivation, the address, script and
  witness script of a key, the figures of a script coin selection uses, the conversion of an
  unsigned transaction to a PSBT, its serialisation and the extraction of the final
  transaction. Outpoints are of any linearly ordered type.
\<close>

section \<open>State\<close>

record PubkeyDetails =
  pd_key_type :: KeychainKind
  pd_key_depth :: u32

record 'op PartialUtxo =
  pu_outpoint :: 'op
  pu_amount :: nat
  pu_script :: bytes
  pu_is_spent :: bool

datatype 'op wallet_error =
    CoinSelectionError InsufficientFunds
  | PsbtError string
  | MissingNonWitnessUtxo 'op
  | PubKeyError string
  | NoPubKey

datatype WalletType = P2WPKH

record ('op, 'x) WatchOnly =
  wo_account_xpub :: 'x
  wo_network :: Network
  wo_pubkey_map :: "(bytes \<times> PubkeyDetails) list"
  wo_wallet_type :: WalletType
  wo_receive_depth :: u32
  wo_change_depth :: u32
  wo_utxo_map :: "('op \<times> 'op WeightedUtxo) list"
  wo_account_derivation :: "u32 list"
  wo_master_fingerprint :: bytes

text \<open>Transactions and PSBTs as the wallet fills them in.\<close>

record 'op UnsignedTx =
  ut_version :: nat
  ut_lock_time :: nat
  ut_input :: "'op list"
  ut_output :: "(nat \<times> bytes) list"

record 'x PsbtInput =
  pi_witness_utxo :: "nat \<times> bytes"
  pi_witness_script :: bytes
  pi_sighash_type :: u32
  pi_bip32_derivation :: "('x \<times> bytes \<times> u32 list) list"

record ('op, 'x) wallet_env =
  we_ckd_pub :: "'x \<Rightarrow> u32 \<Rightarrow> string + 'x"
  we_address :: "'x \<Rightarrow> Network \<Rightarrow> string"
  we_script_pubkey :: "'x \<Rightarrow> Network \<Rightarrow> bytes"
  we_redeem_script :: "'x \<Rightarrow> bytes"
  we_drain :: "bytes \<Rightarrow> drain_script"
  we_usort :: "'op OutputGroup list \<Rightarrow> 'op OutputGroup list"
  we_from_unsigned_tx :: "'op UnsignedTx \<Rightarrow> string option"
  we_serialize :: "'op UnsignedTx \<Rightarrow> 'x PsbtInput list \<Rightarrow> bytes"

definition watch_only_new :: "'x \<Rightarrow> Network \<Rightarrow> u32 list \<Rightarrow> bytes \<Rightarrow> ('op, 'x) WatchOnly" where
  "watch_only_new account_xpub network account_derivation master_fingerprint =
     \<lparr>wo_account_xpub = account_xpub, wo_network = network, wo_pubkey_map = [], wo_wallet_type = P2WPKH,
      wo_receive_depth = 0, wo_change_depth = 0, wo_utxo_map = [],
      wo_account_derivation = account_derivation, wo_master_fingerprint = master_fingerprint\<rparr>"

section \<open>Operations\<close>

fun as_u32 :: "KeychainKind \<Rightarrow> u32" where
  "as_u32 External = 0"
| "as_u32 Internal = 1"

definition to_partial :: "'op Utxo \<Rightarrow> 'op PartialUtxo" where
  "to_partial u = \<lparr>pu_outpoint = utxo_outpoint u, pu_amount = utxo_value u,
     pu_script = utxo_script_pubkey u, pu_is_spent = utxo_is_spent u\<rparr>"

definition get_utxos :: "('op, 'x) WatchOnly \<Rightarrow> ('op wallet_error, 'op PartialUtxo list) res" where
  "get_utxos w = Ok (map (\<lambda>u. to_partial (wu_utxo u)) (bt_values (wo_utxo_map w)))"

definition get_pubkeys :: "('op, 'x) WatchOnly \<Rightarrow> ('op wallet_error, bytes list) res" where
  "get_pubkeys w = Ok (bt_keys (wo_pubkey_map w))"

definition insert_utxo ::
    "('op::linorder, 'x) WatchOnly \<Rightarrow> 'op PartialUtxo \<Rightarrow> ('op wallet_error, ('op, 'x) WatchOnly) res" where
  "insert_utxo w p =
     (case bt_get (wo_utxo_map w) (pu_outpoint p) of
        Some u \<Rightarrow>
          (let modified = u\<lparr>wu_utxo := (wu_utxo u)\<lparr>utxo_is_spent := pu_is_spent p\<rparr>\<rparr> in
           Ok (w\<lparr>wo_utxo_map := bt_insert (pu_outpoint p) modified (wo_utxo_map w)\<rparr>))
      | None \<Rightarrow>
          (case bt_get (wo_pubkey_map w) (pu_script p) of
             None \<Rightarrow> Err NoPubKey
           | Some details \<Rightarrow>
               (let utxo = \<lparr>utxo_outpoint = pu_outpoint p, utxo_value = pu_amount p,
                      utxo_script_pubkey = pu_script p, utxo_keychain = pd_key_type details,
                      utxo_is_spent = pu_is_spent p, utxo_derivation_index = pd_key_depth details,
                      utxo_chain_position = None\<rparr>;
                    weighted = \<lparr>wu_satisfaction_weight = 0, wu_utxo = utxo\<rparr> in
                Ok (w\<lparr>wo_utxo_map := bt_insert (pu_outpoint p) weighted (wo_utxo_map w)\<rparr>))))"

fun insert_utxos ::
    "('op::linorder, 'x) WatchOnly \<Rightarrow> 'op PartialUtxo list
     \<Rightarrow> ('op wallet_error, unit) res \<times> ('op, 'x) WatchOnly" where
  "insert_utxos w [] = (Ok (), w)"
| "insert_utxos w (p # ps) =
     (case insert_utxo w p of
        Ok w' \<Rightarrow> insert_utxos w' ps
      | Err e \<Rightarrow> (Err e, w)
      | Panic \<Rightarrow> (Panic, w))"

definition balance :: "('op, 'x) WatchOnly \<Rightarrow> ('op wallet_error, nat) res" where
  "balance w =
     (let utxos = sort_key (\<lambda>u. utxo_is_spent (wu_utxo u)) (bt_values (wo_utxo_map w)) in
      foldR (\<lambda>acc u. if \<not> utxo_is_spent (wu_utxo u) then amt_add acc (utxo_value (wu_utxo u)) else Ok acc)
        0 utxos)"

definition ckd :: "('op, 'x) wallet_env \<Rightarrow> 'x \<Rightarrow> u32 \<Rightarrow> ('op wallet_error, 'x) res" where
  "ckd env x i = (case we_ckd_pub env x i of Inl e \<Rightarrow> Err (PubKeyError e) | Inr y \<Rightarrow> Ok y)"

definition derive_child ::
    "('op, 'x) wallet_env \<Rightarrow> ('op, 'x) WatchOnly \<Rightarrow> u32 \<Rightarrow> u32 \<Rightarrow> ('op wallet_error, 'x) res" where
  "derive_child env w chain index = rbind (ckd env (wo_account_xpub w) chain) (\<lambda>x. ckd env x index)"

definition get_receive_address ::
    "('op, 'x) wallet_env \<Rightarrow> ('op, 'x) WatchOnly \<Rightarrow> ('op wallet_error, string) res \<times> ('op, 'x) WatchOnly" where
  "get_receive_address env w =
     (case derive_child env w 0 (wo_receive_depth w) of
        Ok key \<Rightarrow>
          (Ok (we_address env key (wo_network w)),
           w\<lparr>wo_pubkey_map := bt_insert (we_script_pubkey env key (wo_network w))
               \<lparr>pd_key_type = External, pd_key_depth = wo_receive_depth w\<rparr> (wo_pubkey_map w)\<rparr>)
      | Err e \<Rightarrow> (Err e, w)
      | Panic \<Rightarrow> (Panic, w))"

definition get_change_script ::
    "('op, 'x) wallet_env \<Rightarrow> ('op, 'x) WatchOnly \<Rightarrow> ('op wallet_error, bytes) res \<times> ('op, 'x) WatchOnly" where
  "get_change_script env w =
     (case derive_child env w 1 (wo_change_depth w) of
        Ok key \<Rightarrow>
          (if wo_change_depth w = 0xffffffff then (Panic, w)
           else let script = we_script_pubkey env key (wo_network w) in
             (Ok script,
              w\<lparr>wo_change_depth := wo_change_depth w + 1,
                wo_pubkey_map := bt_insert script
                  \<lparr>pd_key_type = External, pd_key_depth = wo_receive_depth w\<rparr> (wo_pubkey_map w)\<rparr>))
      | Err e \<Rightarrow> (Err e, w)
      | Panic \<Rightarrow> (Panic, w))"

definition derive_pubkey ::
    "('op, 'x) wallet_env \<Rightarrow> ('op, 'x) WatchOnly \<Rightarrow> 'op Utxo \<Rightarrow> ('op wallet_error, 'x) res" where
  "derive_pubkey env w utxo =
     derive_child env w (as_u32 (utxo_keychain utxo)) (utxo_derivation_index utxo)"

definition psbt_input ::
    "('op, 'x) wallet_env \<Rightarrow> ('op, 'x) WatchOnly \<Rightarrow> 'op Utxo \<Rightarrow> ('op wallet_error, 'x PsbtInput) res" where
  "psbt_input env w utxo =
     rbind (derive_pubkey env w utxo) (\<lambda>key.
       Ok \<lparr>pi_witness_utxo = (utxo_value utxo, utxo_script_pubkey utxo),
           pi_witness_script = we_redeem_script env key,
           pi_sighash_type = 1,
           pi_bip32_derivation = [(key, wo_master_fingerprint w,
             wo_account_derivation w @ [as_u32 (utxo_keychain utxo), utxo_derivation_index utxo])]\<rparr>)"

definition recipients :: "bytes \<Rightarrow> nat \<Rightarrow> bytes \<Rightarrow> Excess \<Rightarrow> (nat \<times> bytes) list" where
  "recipients recipient amount change_script excess =
     (amount, recipient) #
       (case excess of Change change _ \<Rightarrow> [(change, change_script)] | NoChange _ _ _ \<Rightarrow> [])"

definition build_tx ::
    "('op, 'x) wallet_env \<Rightarrow> ('op, 'x) WatchOnly \<Rightarrow> bytes \<Rightarrow> bytes \<Rightarrow> fee_env \<Rightarrow> nat \<Rightarrow> (nat \<Rightarrow> u32)
     \<Rightarrow> ('op wallet_error, 'op UnsignedTx \<times> 'x PsbtInput list) res" where
  "build_tx env w change_script recipient fe amount rnd =
     rbind (rmap_err CoinSelectionError (default_coin_select (we_usort env) [] (bt_values (wo_utxo_map w))
              fe amount (we_drain env change_script) rnd)) (\<lambda>selection.
       let tx = \<lparr>ut_version = 2, ut_lock_time = 0, ut_input = map utxo_outpoint (cs_selected selection),
                 ut_output = recipients recipient amount change_script (cs_excess selection)\<rparr> in
       case we_from_unsigned_tx env tx of
         Some e \<Rightarrow> Err (PsbtError e)
       | None \<Rightarrow> rbind (mapR (psbt_input env w) (cs_selected selection)) (\<lambda>inputs. Ok (tx, inputs)))"

definition create_psbt_tx ::
    "('op, 'x) wallet_env \<Rightarrow> ('op, 'x) WatchOnly \<Rightarrow> bytes \<Rightarrow> fee_env \<Rightarrow> nat \<Rightarrow> (nat \<Rightarrow> u32)
     \<Rightarrow> ('op wallet_error, bytes) res \<times> ('op, 'x) WatchOnly" where
  "create_psbt_tx env w recipient fe amount rnd =
     (case get_change_script env w of
        (Ok change_script, w') \<Rightarrow>
          (rbind (build_tx env w' change_script recipient fe amount rnd) (\<lambda>(tx, inputs).
             Ok (we_serialize env tx inputs)), w')
      | (Err e, w') \<Rightarrow> (Err e, w')
      | (Panic, w') \<Rightarrow> (Panic, w'))"

section \<open>Finalising a signed PSBT\<close>

text \<open>The fields of an input the wallet touches; \<open>extract\<close> is \<^verbatim>\<open>extract_tx\<close> with the encoding.\<close>

record SignedInput =
  si_partial_sigs :: "(bytes \<times> bytes) list"
  si_sighash_type :: "u32 option"
  si_redeem_script :: "bytes option"
  si_witness_script :: "bytes option"
  si_bip32_derivation :: "(bytes \<times> bytes) list"
  si_final_script_witness :: "bytes list option"

definition finalise_input :: "SignedInput \<Rightarrow> ('e, SignedInput) res" where
  "finalise_input i =
     (case si_partial_sigs i of
        [] \<Rightarrow> Panic
      | (pubkey, signature) # _ \<Rightarrow> Ok (i\<lparr>si_final_script_witness := Some [signature, pubkey]\<rparr>))"

definition clear_input :: "SignedInput \<Rightarrow> SignedInput" where
  "clear_input i = i\<lparr>si_partial_sigs := [], si_sighash_type := None, si_redeem_script := None,
     si_witness_script := None, si_bip32_derivation := []\<rparr>"

definition finalise_psbt_tx ::
    "(SignedInput list \<Rightarrow> string + bytes) \<Rightarrow> SignedInput list \<Rightarrow> ('op wallet_error, bytes) res" where
  "finalise_psbt_tx extract inputs =
     rbind (mapR finalise_input inputs) (\<lambda>finalised.
       case finalised of
         [] \<Rightarrow> Panic
       | i # is \<Rightarrow> (case extract (clear_input i # is) of Inl _ \<Rightarrow> Panic | Inr tx \<Rightarrow> Ok tx))"

section \<open>The exported interface\<close>

type_synonym outpoint = "bytes \<times> u32"

datatype guest_wallet_error = GCoinSelection | GPsbt | GMissingNonWitnessUtxo | GPubkeyError | GNoPubkey

fun guest_wallet_error_from :: "'op wallet_error \<Rightarrow> guest_wallet_error" where
  "guest_wallet_error_from (CoinSelectionError _) = GCoinSelection"
| "guest_wallet_error_from (PsbtError _) = GPsbt"
| "guest_wallet_error_from (MissingNonWitnessUtxo _) = GMissingNonWitnessUtxo"
| "guest_wallet_error_from (PubKeyError _) = GPubkeyError"
| "guest_wallet_error_from NoPubKey = GNoPubkey"

record GuestUtxo =
  gu_txid :: bytes
  gu_vout :: u32
  gu_amount :: u64
  gu_script :: bytes
  gu_is_spent :: bool

definition guest_utxo_into :: "outpoint PartialUtxo \<Rightarrow> GuestUtxo" where
  "guest_utxo_into p = \<lparr>gu_txid = fst (pu_outpoint p), gu_vout = snd (pu_outpoint p),
     gu_amount = of_nat (pu_amount p), gu_script = pu_script p, gu_is_spent = pu_is_spent p\<rparr>"

definition guest_utxo_from :: "GuestUtxo \<Rightarrow> ('e, outpoint PartialUtxo) res" where
  "guest_utxo_from g =
     (if length (gu_txid g) = 32
      then Ok \<lparr>pu_outpoint = (gu_txid g, gu_vout g), pu_amount = unat (gu_amount g),
               pu_script = gu_script g, pu_is_spent = gu_is_spent g\<rparr>
      else Panic)"

type_synonym 'x wallet = "(outpoint, 'x) WatchOnly"

record WalletConfig =
  wc_xpub :: string
  wc_network :: Network
  wc_account_derivation :: string
  wc_master_fingerprint :: string

datatype Initialization = OldState bytes | Config WalletConfig

text \<open>
  Restoring and saving the state is \<^verbatim>\<open>bincode\<close>; the parsers of an extended key, of a
  derivation path and of a fingerprint belong to the crate \<^verbatim>\<open>bitcoin\<close>. All are arguments,
  with \<open>None\<close> for the error the code unwraps.
\<close>

definition watch_only_from :: "(bytes \<Rightarrow> 'w option) \<Rightarrow> bytes \<Rightarrow> ('e, 'w) res" where
  "watch_only_from deserialize state = of_opt (deserialize state)"

definition get_state :: "('w \<Rightarrow> bytes option) \<Rightarrow> 'w \<Rightarrow> ('e, bytes) res" where
  "get_state serialize w = of_opt (serialize w)"

definition guest_new ::
    "(bytes \<Rightarrow> 'x wallet option) \<Rightarrow> (string \<Rightarrow> 'x option) \<Rightarrow> (string \<Rightarrow> u32 list option) \<Rightarrow> (string \<Rightarrow> bytes option)
     \<Rightarrow> Initialization \<Rightarrow> ('e, 'x wallet) res" where
  "guest_new deserialize parse_xpub parse_path parse_fingerprint init =
     (case init of
        OldState state \<Rightarrow> watch_only_from deserialize state
      | Config config \<Rightarrow>
          rbind (of_opt (parse_xpub (wc_xpub config))) (\<lambda>xpub.
          rbind (of_opt (parse_path (wc_account_derivation config))) (\<lambda>path.
          rbind (of_opt (parse_fingerprint (wc_master_fingerprint config))) (\<lambda>fingerprint.
            Ok (watch_only_new xpub (wc_network config) path fingerprint)))))"

definition guest_new_address ::
    "(outpoint, 'x) wallet_env \<Rightarrow> 'x wallet \<Rightarrow> (guest_wallet_error, string) res \<times> 'x wallet" where
  "guest_new_address env w =
     (case get_receive_address env w of (r, w') \<Rightarrow> (rmap_err guest_wallet_error_from r, w'))"

definition guest_create_transaction ::
    "(outpoint, 'x) wallet_env \<Rightarrow> (u64 \<Rightarrow> fee_env option) \<Rightarrow> 'x wallet \<Rightarrow> bytes \<Rightarrow> u64 \<Rightarrow> u64 \<Rightarrow> (nat \<Rightarrow> u32)
     \<Rightarrow> (guest_wallet_error, bytes) res \<times> 'x wallet" where
  "guest_create_transaction env from_sat_per_vb w recipient amount fee_rate rnd =
     (case from_sat_per_vb fee_rate of
        None \<Rightarrow> (Panic, w)
      | Some fe \<Rightarrow>
          (case create_psbt_tx env w recipient fe (unat amount) rnd of
             (r, w') \<Rightarrow> (rmap_err guest_wallet_error_from r, w')))"

definition guest_get_utxos :: "'x wallet \<Rightarrow> (guest_wallet_error, GuestUtxo list) res" where
  "guest_get_utxos w =
     rbind (rmap_err guest_wallet_error_from (get_utxos w)) (\<lambda>us. Ok (map guest_utxo_into us))"

definition guest_insert_utxos ::
    "'x wallet \<Rightarrow> GuestUtxo list \<Rightarrow> (guest_wallet_error, unit) res \<times> 'x wallet" where
  "guest_insert_utxos w utxos =
     (case mapR guest_utxo_from utxos :: (unit, outpoint PartialUtxo list) res of
        Ok ps \<Rightarrow> (case insert_utxos w ps of (r, w') \<Rightarrow> (rmap_err guest_wallet_error_from r, w'))
      | _ \<Rightarrow> (Panic, w))"

definition guest_get_pubkeys :: "'x wallet \<Rightarrow> (guest_wallet_error, bytes list) res" where
  "guest_get_pubkeys w = rmap_err guest_wallet_error_from (get_pubkeys w)"

definition guest_get_receive_address ::
    "(outpoint, 'x) wallet_env \<Rightarrow> 'x wallet \<Rightarrow> (guest_wallet_error, string) res \<times> 'x wallet" where
  "guest_get_receive_address env w =
     (case get_receive_address env w of (r, w') \<Rightarrow> (rmap_err guest_wallet_error_from r, w'))"

definition guest_finalise_transaction ::
    "(bytes \<Rightarrow> (SignedInput list \<times> (SignedInput list \<Rightarrow> string + bytes)) option)
     \<Rightarrow> 'x wallet \<Rightarrow> bytes \<Rightarrow> (guest_wallet_error, bytes) res \<times> 'x wallet" where
  "guest_finalise_transaction parse_psbt w psbt =
     (case parse_psbt psbt of
        None \<Rightarrow> (Panic, w)
      | Some (inputs, extract) \<Rightarrow>
          (rmap_err guest_wallet_error_from (finalise_psbt_tx extract inputs :: (outpoint wallet_error, bytes) res), w))"

definition guest_balance :: "'x wallet \<Rightarrow> (guest_wallet_error, u64) res" where
  "guest_balance w = rmap_err guest_wallet_error_from (rbind (balance w) (\<lambda>b. Ok (of_nat b)))"

section \<open>Invariant\<close>

definition wf_wallet :: "('op::linorder, 'x) WatchOnly \<Rightarrow> bool" where
  "wf_wallet w \<longleftrightarrow>
     bt_ok (wo_utxo_map w) \<and> bt_ok (wo_pubkey_map w)
     \<and> list_all (\<lambda>(op, u). utxo_outpoint (wu_utxo u) = op \<and> wu_satisfaction_weight u = 0) (wo_utxo_map w)"

definition set_spent :: "bool \<Rightarrow> 'op WeightedUtxo \<Rightarrow> 'op WeightedUtxo" where
  "set_spent b u = u\<lparr>wu_utxo := (wu_utxo u)\<lparr>utxo_is_spent := b\<rparr>\<rparr>"

definition new_utxo :: "PubkeyDetails \<Rightarrow> 'op PartialUtxo \<Rightarrow> 'op WeightedUtxo" where
  "new_utxo details p = \<lparr>wu_satisfaction_weight = 0, wu_utxo =
     \<lparr>utxo_outpoint = pu_outpoint p, utxo_value = pu_amount p, utxo_script_pubkey = pu_script p,
      utxo_keychain = pd_key_type details, utxo_is_spent = pu_is_spent p,
      utxo_derivation_index = pd_key_depth details, utxo_chain_position = None\<rparr>\<rparr>"

lemma insert_utxo_eq:
  "insert_utxo w p =
     (case bt_get (wo_utxo_map w) (pu_outpoint p) of
        Some u \<Rightarrow> Ok (w\<lparr>wo_utxo_map := bt_insert (pu_outpoint p) (set_spent (pu_is_spent p) u) (wo_utxo_map w)\<rparr>)
      | None \<Rightarrow>
          (case bt_get (wo_pubkey_map w) (pu_script p) of
             None \<Rightarrow> Err NoPubKey
           | Some details \<Rightarrow>
               Ok (w\<lparr>wo_utxo_map := bt_insert (pu_outpoint p) (new_utxo details p) (wo_utxo_map w)\<rparr>)))"
  by (simp add: insert_utxo_def set_spent_def new_utxo_def Let_def split: option.splits)

lemma set_bt_insert: "set (bt_insert k v m) \<subseteq> insert (k, v) (set m)"
  by (induction k v m rule: bt_insert.induct) auto

lemma insert_utxo_wf: "wf_wallet w \<Longrightarrow> insert_utxo w p = Ok w' \<Longrightarrow> wf_wallet w'"
  using set_bt_insert
  by (fastforce simp: insert_utxo_eq wf_wallet_def bt_insert_ok list_all_iff set_spent_def new_utxo_def
      bt_get_Some split: option.splits)

lemma insert_utxos_wf: "wf_wallet w \<Longrightarrow> wf_wallet (snd (insert_utxos w ps))"
  by (induction ps arbitrary: w) (auto dest: insert_utxo_wf split: res.splits)

lemma get_receive_address_wf: "wf_wallet w \<Longrightarrow> wf_wallet (snd (get_receive_address env w))"
  by (simp add: get_receive_address_def wf_wallet_def bt_insert_ok split: res.splits)

lemma get_change_script_wf: "wf_wallet w \<Longrightarrow> wf_wallet (snd (get_change_script env w))"
  by (simp add: get_change_script_def wf_wallet_def bt_insert_ok Let_def split: res.splits)

lemma create_psbt_tx_state: "snd (create_psbt_tx env w recipient fe amount rnd) = snd (get_change_script env w)"
  by (simp add: create_psbt_tx_def split: prod.splits res.splits)

text \<open>The states a wallet can be in: created empty, then any sequence of operations, failing ones included.\<close>

inductive reachable_wallet :: "('op::linorder, 'x) wallet_env \<Rightarrow> ('op, 'x) WatchOnly \<Rightarrow> bool" for env where
  created: "reachable_wallet env (watch_only_new xpub network path fingerprint)"
| inserted: "reachable_wallet env w \<Longrightarrow> reachable_wallet env (snd (insert_utxos w ps))"
| addressed: "reachable_wallet env w \<Longrightarrow> reachable_wallet env (snd (get_receive_address env w))"
| spent: "reachable_wallet env w \<Longrightarrow> reachable_wallet env (snd (create_psbt_tx env w recipient fe amount rnd))"

lemma reachable_wf: "reachable_wallet env w \<Longrightarrow> wf_wallet w"
proof (induction rule: reachable_wallet.induct)
  case (created xpub network path fingerprint)
  then show ?case by (simp add: wf_wallet_def watch_only_new_def)
qed (simp_all add: insert_utxos_wf get_receive_address_wf get_change_script_wf create_psbt_tx_state)

section \<open>The keys the wallet records\<close>

definition only_first_key :: "('op, 'x) WatchOnly \<Rightarrow> bool" where
  "only_first_key w \<longleftrightarrow> wo_receive_depth w = 0
     \<and> list_all (\<lambda>(_, d). d = \<lparr>pd_key_type = External, pd_key_depth = 0\<rparr>) (wo_pubkey_map w)
     \<and> list_all (\<lambda>(_, u). utxo_keychain (wu_utxo u) = External \<and> utxo_derivation_index (wu_utxo u) = 0)
         (wo_utxo_map w)"

lemma list_all_bt_insert: "list_all P m \<Longrightarrow> P (k, v) \<Longrightarrow> list_all P (bt_insert k v m)"
  using set_bt_insert [of k v m] by (auto simp: list_all_iff)

lemma list_all_bt_get: "list_all (\<lambda>(_, v). P v) m \<Longrightarrow> bt_get m k = Some v \<Longrightarrow> P v"
  unfolding bt_get_def by (auto simp: list_all_iff dest: map_of_SomeD)

lemma insert_utxo_first_key:
  assumes "only_first_key w" and "insert_utxo w p = Ok w'"
  shows "only_first_key w'"
  using assms
  by (fastforce simp: insert_utxo_eq only_first_key_def set_spent_def new_utxo_def
      dest: list_all_bt_get intro!: list_all_bt_insert split: option.splits)

lemma insert_utxos_first_key: "only_first_key w \<Longrightarrow> only_first_key (snd (insert_utxos w ps))"
  by (induction ps arbitrary: w) (auto dest: insert_utxo_first_key split: res.splits)

lemma reachable_first_key: "reachable_wallet env w \<Longrightarrow> only_first_key w"
proof (induction rule: reachable_wallet.induct)
  case (created xpub network path fingerprint)
  then show ?case by (simp add: only_first_key_def watch_only_new_def)
next
  case (inserted w ps)
  then show ?case by (simp add: insert_utxos_first_key)
next
  case (addressed w)
  then show ?case
    by (simp add: get_receive_address_def only_first_key_def list_all_bt_insert split: res.splits)
next
  case (spent w recipient fe amount rnd)
  then show ?case
    by (simp add: create_psbt_tx_state get_change_script_def only_first_key_def list_all_bt_insert Let_def
        split: res.splits)
qed

section \<open>Inserting outputs\<close>

fun utxo_after ::
    "(bytes \<times> PubkeyDetails) list \<Rightarrow> 'op WeightedUtxo option \<Rightarrow> 'op PartialUtxo list \<Rightarrow> 'op WeightedUtxo option" where
  "utxo_after keys old [] = old"
| "utxo_after keys (Some u) ps = Some (set_spent (pu_is_spent (last ps)) u)"
| "utxo_after keys None (p # ps) =
     map_option (\<lambda>d. set_spent (pu_is_spent (last (p # ps))) (new_utxo d p)) (bt_get keys (pu_script p))"

lemma set_spent_set_spent [simp]: "set_spent b (set_spent c u) = set_spent b u"
  by (simp add: set_spent_def)

lemma set_spent_new_utxo: "set_spent (pu_is_spent p) (new_utxo d p) = new_utxo d p"
  by (simp add: set_spent_def new_utxo_def)

lemma utxo_after_step:
  assumes "wf_wallet w" and "insert_utxo w p = Ok w'"
  shows "bt_get (wo_utxo_map w') op =
     (if op = pu_outpoint p then utxo_after (wo_pubkey_map w) (bt_get (wo_utxo_map w) op) [p]
      else bt_get (wo_utxo_map w) op)"
    and "wo_pubkey_map w' = wo_pubkey_map w"
  using assms
  by (auto simp: insert_utxo_eq wf_wallet_def bt_get_insert set_spent_new_utxo split: option.splits)

lemma utxo_after_Cons:
  assumes "utxo_after keys old [p] \<noteq> None"
  shows "utxo_after keys (utxo_after keys old [p]) ps = utxo_after keys old (p # ps)"
  using assms by (cases old; cases ps) (auto simp: set_spent_new_utxo)

lemma insert_utxos_pointwise:
  assumes "wf_wallet w" and "insert_utxos w ps = (Ok (), w')"
  shows "bt_get (wo_utxo_map w') op
       = utxo_after (wo_pubkey_map w) (bt_get (wo_utxo_map w) op) (filter (\<lambda>p. pu_outpoint p = op) ps)"
  using assms
proof (induction ps arbitrary: w)
  case (Cons p ps)
  then obtain w1 where w1: "insert_utxo w p = Ok w1" "insert_utxos w1 ps = (Ok (), w')"
    by (auto split: res.splits)
  have wf1: "wf_wallet w1" using Cons.prems(1) w1(1) by (rule insert_utxo_wf)
  note step = utxo_after_step [OF Cons.prems(1) w1(1)]
  have "utxo_after (wo_pubkey_map w) (bt_get (wo_utxo_map w) (pu_outpoint p)) [p] \<noteq> None"
    using w1(1) by (auto simp: insert_utxo_eq split: option.splits)
  with Cons.IH [OF wf1 w1(2)] step utxo_after_Cons [of "wo_pubkey_map w" "bt_get (wo_utxo_map w) op" p]
  show ?case by (cases "pu_outpoint p = op") simp_all
qed simp

lemma insert_utxos_outcome:
  "fst (insert_utxos w ps) = Ok () \<or> fst (insert_utxos w ps) = Err NoPubKey"
  by (induction ps arbitrary: w) (auto simp: insert_utxo_eq split: option.splits)

section \<open>Balance\<close>

definition unspent_total :: "('op, 'x) WatchOnly \<Rightarrow> nat" where
  "unspent_total w =
     sum_list (map (\<lambda>u. utxo_value (wu_utxo u)) (filter (\<lambda>u. \<not> utxo_is_spent (wu_utxo u)) (bt_values (wo_utxo_map w))))"

lemma foldR_filter_total:
  "a + sum_list (map f (filter Q xs)) < 2 ^ 64 \<Longrightarrow>
     foldR (\<lambda>acc x. if Q x then amt_add acc (f x) else Ok acc) a xs = Ok (a + sum_list (map f (filter Q xs)))"
  by (induction xs arbitrary: a) (auto simp: amt_add_def add.assoc)

lemma balance_total: "unspent_total w < 2 ^ 64 \<Longrightarrow> balance w = Ok (unspent_total w)"
proof -
  let ?us = "bt_values (wo_utxo_map w)"
  let ?sorted = "sort_key (\<lambda>u. utxo_is_spent (wu_utxo u)) ?us"
  have "mset (filter (\<lambda>u. \<not> utxo_is_spent (wu_utxo u)) ?sorted) = mset (filter (\<lambda>u. \<not> utxo_is_spent (wu_utxo u)) ?us)"
    by (simp add: mset_filter)
  then have "sum_list (map (\<lambda>u. utxo_value (wu_utxo u)) (filter (\<lambda>u. \<not> utxo_is_spent (wu_utxo u)) ?sorted)) = unspent_total w"
    unfolding unspent_total_def sum_list_map_mset by simp
  moreover assume "unspent_total w < 2 ^ 64"
  ultimately show ?thesis
    using foldR_filter_total [of 0 "\<lambda>u. utxo_value (wu_utxo u)" "\<lambda>u. \<not> utxo_is_spent (wu_utxo u)" ?sorted]
    by (simp add: balance_def Let_def)
qed

section \<open>Addresses\<close>

lemma bt_insert_idem: "bt_insert k v (bt_insert k v m) = bt_insert k v m"
  by (induction k v m rule: bt_insert.induct) auto

lemma get_receive_address_again:
  assumes "get_receive_address env w = (Ok a, w')"
  shows "get_receive_address env w' = (Ok a, w')"
  using assms
  by (auto simp: get_receive_address_def derive_child_def bt_insert_idem split: res.splits)

section \<open>Building a transaction\<close>

definition output_total :: "'op UnsignedTx \<Rightarrow> nat" where
  "output_total tx = sum_list (map fst (ut_output tx))"

definition input_total :: "'x PsbtInput list \<Rightarrow> nat" where
  "input_total ins = sum_list (map (\<lambda>i. fst (pi_witness_utxo i)) ins)"

lemma build_tx_Ok:
  assumes "build_tx env w change_script recipient fe amount rnd = Ok (tx, ins)"
  obtains r where "default_coin_select (we_usort env) [] (bt_values (wo_utxo_map w)) fe amount
      (we_drain env change_script) rnd = Ok r"
    "ut_input tx = map utxo_outpoint (cs_selected r)"
    "ut_output tx = recipients recipient amount change_script (cs_excess r)"
    "mapR (psbt_input env w) (cs_selected r) = Ok ins"
  using assms by (auto simp: build_tx_def Let_def split: option.splits)

lemma psbt_inputs_values:
  "mapR (psbt_input env w) us = Ok ins \<Longrightarrow>
     map pi_witness_utxo ins = map (\<lambda>u. (utxo_value u, utxo_script_pubkey u)) us"
  unfolding mapR_Ok by (induction rule: list_all2_induct) (auto simp: psbt_input_def)

lemma input_total_psbt:
  assumes "mapR (psbt_input env w) us = Ok ins"
  shows "input_total ins = sum_list (map utxo_value us)" and "length ins = length us"
proof -
  have "map fst (map pi_witness_utxo ins) = map utxo_value us"
    using psbt_inputs_values [OF assms] by (simp add: comp_def)
  then show "input_total ins = sum_list (map utxo_value us)" by (simp add: input_total_def comp_def)
  show "length ins = length us" using assms by (auto simp: mapR_Ok dest: list_all2_lengthD)
qed

lemma wallet_outpoints:
  assumes "wf_wallet w"
  shows "map (\<lambda>u. utxo_outpoint (wu_utxo u)) (bt_values (wo_utxo_map w)) = bt_keys (wo_utxo_map w)"
  using assms by (auto simp: wf_wallet_def bt_values_def bt_keys_def list_all_iff)

lemma distinct_submset: "mset xs \<subseteq># mset ys \<Longrightarrow> distinct ys \<Longrightarrow> distinct xs"
proof -
  assume "mset xs \<subseteq># mset ys" and "distinct ys"
  then obtain zs where "mset ys = mset (xs @ zs)"
    by (metis ex_mset mset_append mset_subset_eq_exists_conv)
  then have "distinct (xs @ zs)" using \<open>distinct ys\<close> mset_eq_imp_distinct_iff by blast
  then show ?thesis by simp
qed

lemma selected_distinct:
  assumes "wf_wallet w" and "sound_selection [] (bt_values (wo_utxo_map w)) fe amount ds r"
  shows "distinct (map utxo_outpoint (cs_selected r))"
    and "set (map utxo_outpoint (cs_selected r)) \<subseteq> set (bt_keys (wo_utxo_map w))"
proof -
  obtain chosen where c: "mset chosen \<subseteq># mset (bt_values (wo_utxo_map w))"
      "mset (cs_selected r) = mset (map wu_utxo chosen)"
    using assms(2) by (auto simp: sound_selection_def)
  let ?op = "\<lambda>u. utxo_outpoint (wu_utxo u)"
  have "mset (map utxo_outpoint (cs_selected r)) = mset (map ?op chosen)"
    using c(2) by (simp add: multiset.map_comp comp_def)
  also have "\<dots> \<subseteq># mset (map ?op (bt_values (wo_utxo_map w)))"
    unfolding mset_map using c(1) by (rule image_mset_subseteq_mono)
  also have "\<dots> = mset (bt_keys (wo_utxo_map w))" by (simp only: wallet_outpoints [OF assms(1)])
  finally have sub: "mset (map utxo_outpoint (cs_selected r)) \<subseteq># mset (bt_keys (wo_utxo_map w))" .
  moreover have "distinct (bt_keys (wo_utxo_map w))"
    using assms(1) unfolding wf_wallet_def bt_keys_def by (blast intro: bt_ok_distinct)
  ultimately show "distinct (map utxo_outpoint (cs_selected r))" by (rule distinct_submset)
  show "set (map utxo_outpoint (cs_selected r)) \<subseteq> set (bt_keys (wo_utxo_map w))"
    using set_mset_mono [OF sub] by (simp only: set_mset_mset)
qed

lemma recipients_total:
  "sum_list (map fst (recipients recipient amount change_script e)) + (case e of NoChange _ rest _ \<Rightarrow> rest | Change _ f \<Rightarrow> f)
     = amount + excess_total e"
  by (simp add: recipients_def excess_total_def split: Excess.splits)

lemma build_tx_accounting:
  assumes "wf_wallet w" and "\<And>xs. mset (we_usort env xs) = mset xs"
    and "0 < ds_minimal_non_dust (we_drain env change_script)"
    and "build_tx env w change_script recipient fe amount rnd = Ok (tx, ins)"
  shows "hd (ut_output tx) = (amount, recipient)
    \<and> distinct (ut_input tx) \<and> set (ut_input tx) \<subseteq> set (bt_keys (wo_utxo_map w))
    \<and> length ins = length (ut_input tx)
    \<and> output_total tx + length ins * the (fe_mul fe (fe_txin_weight fe)) \<le> input_total ins"
proof -
  from build_tx_Ok [OF assms(4)] obtain r where
    sel: "default_coin_select (we_usort env) [] (bt_values (wo_utxo_map w)) fe amount (we_drain env change_script) rnd = Ok r"
    and tx: "ut_input tx = map utxo_outpoint (cs_selected r)"
      "ut_output tx = recipients recipient amount change_script (cs_excess r)"
    and ins: "mapR (psbt_input env w) (cs_selected r) = Ok ins"
    by blast
  note alg = default_select_contract [of "we_usort env", OF assms(2)]
  note sound = coin_selection_algorithm.select_sound [OF alg sel]
  have bal: "sum_list (map utxo_value (cs_selected r)) = amount + cs_fee_amount r + excess_total (cs_excess r)"
    by (rule coin_selection_algorithm.selection_balances [OF alg sel assms(3)])
  have fee: "cs_fee_amount r = length ins * the (fe_mul fe (fe_txin_weight fe))"
  proof -
    obtain chosen where c: "mset chosen \<subseteq># mset (bt_values (wo_utxo_map w))"
        "mset (cs_selected r) = mset (map wu_utxo chosen)" "cs_fee_amount r = total_fee fe chosen"
      using sound by (auto simp: sound_selection_def)
    have "u \<in> set chosen \<Longrightarrow> wu_satisfaction_weight u = 0" for u
      using set_mset_mono [OF c(1)] assms(1) by (fastforce simp: wf_wallet_def list_all_iff bt_values_def)
    then have "total_fee fe chosen = length chosen * the (fe_mul fe (fe_txin_weight fe))"
      unfolding total_fee_def by (intro sum_list_map_const_eq) (simp add: fee_of_def)
    moreover have "length chosen = length ins"
      using arg_cong [OF c(2), of size] input_total_psbt(2) [OF ins] by simp
    ultimately show ?thesis using c(3) by simp
  qed
  have "output_total tx + cs_fee_amount r \<le> input_total ins"
    using recipients_total [of recipient amount change_script "cs_excess r"] bal input_total_psbt(1) [OF ins] tx(2)
    by (simp add: output_total_def)
  then show ?thesis
    using fee selected_distinct [OF assms(1) sound] tx input_total_psbt(2) [OF ins]
    by (simp add: recipients_def)
qed

section \<open>A small wallet\<close>

text \<open>Keys are derivation paths, so that a key and its script tell where they come from.\<close>

definition path_env :: "(outpoint, u32 list) wallet_env" where
  "path_env = \<lparr>we_ckd_pub = (\<lambda>x i. Inr (x @ [i])), we_address = (\<lambda>x _. ''addr''),
     we_script_pubkey = (\<lambda>x _. map ucast x), we_redeem_script = (\<lambda>x. map ucast x),
     we_drain = (\<lambda>_. sample_drain), we_usort = sort_key og_effective_value,
     we_from_unsigned_tx = (\<lambda>_. None), we_serialize = (\<lambda>tx _. concat (map fst (ut_input tx)))\<rparr>"

definition path_wallet :: "(outpoint, u32 list) WatchOnly" where
  "path_wallet = watch_only_new [] Bitcoin [] []"

definition path_utxo :: "bool \<Rightarrow> outpoint PartialUtxo" where
  "path_utxo spent = \<lparr>pu_outpoint = ([9], 0), pu_amount = 1160, pu_script = [0, 0], pu_is_spent = spent\<rparr>"

definition funded_wallet :: "bool \<Rightarrow> (outpoint, u32 list) WatchOnly" where
  "funded_wallet spent = snd (insert_utxos (snd (get_receive_address path_env path_wallet)) [path_utxo spent])"

lemmas path_defs = path_env_def path_wallet_def path_utxo_def watch_only_new_def

lemma funded_wallet_eq:
  "funded_wallet spent = path_wallet
     \<lparr>wo_pubkey_map := [([0, 0], \<lparr>pd_key_type = External, pd_key_depth = 0\<rparr>)],
      wo_utxo_map := [(([9], 0), new_utxo \<lparr>pd_key_type = External, pd_key_depth = 0\<rparr> (path_utxo spent))]\<rparr>"
  by (simp add: funded_wallet_def path_defs get_receive_address_def derive_child_def ckd_def insert_utxo_def
      bt_get_def new_utxo_def Let_def)

lemma funded_wallet_reachable: "reachable_wallet path_env (funded_wallet spent)"
  unfolding funded_wallet_def path_wallet_def by (intro reachable_wallet.intros)

lemma path_change:
  "get_change_script path_env (funded_wallet spent)
     = (Ok [1, 0], (funded_wallet spent)\<lparr>wo_change_depth := 1,
         wo_pubkey_map := [([0, 0], \<lparr>pd_key_type = External, pd_key_depth = 0\<rparr>),
                           ([1, 0], \<lparr>pd_key_type = External, pd_key_depth = 0\<rparr>)]\<rparr>)"
  by (simp add: funded_wallet_eq path_defs get_change_script_def derive_child_def ckd_def Let_def)

text \<open>The wallet after the change script was drawn, and the transaction it builds from its only output.\<close>

definition spending_wallet :: "bool \<Rightarrow> (outpoint, u32 list) WatchOnly" where
  "spending_wallet spent = snd (get_change_script path_env (funded_wallet spent))"

lemma spending_wallet_eq:
  "spending_wallet spent = path_wallet
     \<lparr>wo_pubkey_map := [([0, 0], \<lparr>pd_key_type = External, pd_key_depth = 0\<rparr>),
                        ([1, 0], \<lparr>pd_key_type = External, pd_key_depth = 0\<rparr>)],
      wo_change_depth := 1,
      wo_utxo_map := [(([9], 0), new_utxo \<lparr>pd_key_type = External, pd_key_depth = 0\<rparr> (path_utxo spent))]\<rparr>"
  unfolding spending_wallet_def path_change by (simp add: funded_wallet_eq)

definition path_tx :: "outpoint UnsignedTx" where
  "path_tx = \<lparr>ut_version = 2, ut_lock_time = 0, ut_input = [([9], 0)], ut_output = [(1000, [4])]\<rparr>"

definition path_psbt_input :: "u32 list PsbtInput" where
  "path_psbt_input = \<lparr>pi_witness_utxo = (1160, [0, 0]), pi_witness_script = [0, 0], pi_sighash_type = 1,
     pi_bip32_derivation = [([0, 0], [], [0, 0])]\<rparr>"

lemma one_coin_bnb:
  "bnb (sort_key og_effective_value) []
     [\<lparr>og_weighted_utxo = u, og_fee = 160, og_effective_value = 1000\<rparr>] 0 1000 1000 124 sample_drain sample_fees
   = Ok \<lparr>cs_selected = [wu_utxo u], cs_fee_amount = 160, cs_excess = NoChange 294 0 124\<rparr>"
  unfolding bnb_def Let_def BNB_TOTAL_TRIES_def
  by (subst bnb_loop.simps, subst bnb_loop.simps)
    (simp add: sample_defs bnb_step_def bnb_forward_def og_at_def checked_def signed_range_def
      bnb_record_best_def Let_def to_unsigned_def of_opt_def decide_change_def is_dust_def
      calculate_cs_result_def amt_add_def)

lemma one_coin_select:
  assumes "utxo_value (wu_utxo u) = 1160" and "wu_satisfaction_weight u = 0"
  shows "default_coin_select (sort_key og_effective_value) [] [u] sample_fees 1000 sample_drain rnd
     = Ok \<lparr>cs_selected = [wu_utxo u], cs_fee_amount = 160, cs_excess = NoChange 294 0 124\<rparr>"
proof -
  have "(output_group_new sample_fees u :: (InsufficientFunds, _) res)
      = Ok \<lparr>og_weighted_utxo = u, og_fee = 160, og_effective_value = 1000\<rparr>"
    using assms by (simp add: output_group_new_def input_fee_def sample_fees_def of_opt_def amt_add_def
        to_signed_def checked_def signed_range_def)
  moreover have "fe_from_vb sample_fees 31 = Some 124" "fe_mul sample_fees 124 = Some 124"
    by (simp_all add: sample_fees_def)
  ultimately show ?thesis
    using one_coin_bnb [of u]
    by (simp add: default_coin_select_def bnb_coin_select_def checked_def signed_range_def to_signed_def
        of_opt_def Let_def)
qed

lemma path_build:
  "build_tx path_env (spending_wallet spent) [1, 0] [4] sample_fees 1000 (\<lambda>_. 0) = Ok (path_tx, [path_psbt_input])"
proof -
  let ?u = "new_utxo \<lparr>pd_key_type = External, pd_key_depth = 0\<rparr> (path_utxo spent)"
  have "default_coin_select (we_usort path_env) [] (bt_values (wo_utxo_map (spending_wallet spent))) sample_fees 1000
      (we_drain path_env [1, 0]) (\<lambda>_. 0)
    = Ok \<lparr>cs_selected = [wu_utxo ?u], cs_fee_amount = 160, cs_excess = NoChange 294 0 124\<rparr>"
    using one_coin_select [of ?u "\<lambda>_. 0"]
    by (simp add: spending_wallet_eq bt_values_def path_env_def new_utxo_def path_utxo_def)
  then show ?thesis
    by (simp add: build_tx_def Let_def recipients_def psbt_input_def derive_pubkey_def derive_child_def ckd_def
        path_tx_def path_psbt_input_def new_utxo_def spending_wallet_eq path_defs)
qed

lemma spending_wallet_wf: "wf_wallet (spending_wallet spent)"
  unfolding spending_wallet_def
  by (intro get_change_script_wf reachable_wf [of path_env] funded_wallet_reachable)

section \<open>Properties\<close>





text \<open>
  In every reachable wallet each recorded script and each stored output is attributed to
  the first key of the external chain, also the scripts handed out for change, which are
  derived from the internal chain: the wallet asks for signatures with the key 0/0 whatever
  output it spends.
\<close>

lemma keys_all_first_external:
  assumes "reachable_wallet env w" and "bt_get (wo_utxo_map w) op = Some u"
  shows "derive_pubkey env w (wu_utxo u) = derive_child env w 0 0"
proof -
  have "list_all (\<lambda>(_, u). utxo_keychain (wu_utxo u) = External \<and> utxo_derivation_index (wu_utxo u) = 0)
      (wo_utxo_map w)"
    using reachable_first_key [OF assms(1)] unfolding only_first_key_def by blast
  from list_all_bt_get [OF this assms(2)]
  have "utxo_keychain (wu_utxo u) = External \<and> utxo_derivation_index (wu_utxo u) = 0" .
  then show ?thesis by (simp add: derive_pubkey_def)
qed

lemma keys_all_first_external_witness:
  "\<exists>u. bt_get (wo_utxo_map (funded_wallet False)) ([9], 0) = Some u
     \<and> derive_pubkey path_env (funded_wallet False) (wu_utxo u) = derive_child path_env (funded_wallet False) 0 0"
proof -
  have "\<exists>u. bt_get (wo_utxo_map (funded_wallet False)) ([9], 0) = Some u"
    by (simp add: funded_wallet_eq bt_get_def)
  with keys_all_first_external [OF funded_wallet_reachable] show ?thesis by blast
qed

text \<open>
  C19: A change script is recorded under a key that does not own it. When scripts of different
  keys differ, the key the wallet derives for an output paid to its own change script has a
  different script, so the signature it will ask for cannot spend the output.
\<close>

theorem change_script_recorded_under_wrong_key:
  assumes "reachable_wallet env w" and "get_change_script env w = (Ok script, w')"
    and "insert_utxo w' p = Ok w''" and "pu_script p = script" and "bt_get (wo_utxo_map w') (pu_outpoint p) = None"
    and "derive_child env w 0 0 = Ok first_key"
    and "\<And>k. derive_child env w 1 (wo_change_depth w) = Ok k \<Longrightarrow>
           we_script_pubkey env first_key (wo_network w) \<noteq> we_script_pubkey env k (wo_network w)"
  shows "\<exists>u. bt_get (wo_utxo_map w'') (pu_outpoint p) = Some u \<and> utxo_script_pubkey (wu_utxo u) = script
     \<and> derive_pubkey env w'' (wu_utxo u) = Ok first_key
     \<and> we_script_pubkey env first_key (wo_network w) \<noteq> script"
proof -
  have first: "only_first_key w" and wf: "wf_wallet w"
    using assms(1) reachable_first_key reachable_wf by blast+
  obtain k where k: "derive_child env w 1 (wo_change_depth w) = Ok k"
      "script = we_script_pubkey env k (wo_network w)"
    and w': "w' = w\<lparr>wo_change_depth := wo_change_depth w + 1,
      wo_pubkey_map := bt_insert script \<lparr>pd_key_type = External, pd_key_depth = 0\<rparr> (wo_pubkey_map w)\<rparr>"
    using assms(2) first
    by (auto simp: get_change_script_def Let_def only_first_key_def split: res.splits if_splits)
  have "bt_get (wo_pubkey_map w') script = Some \<lparr>pd_key_type = External, pd_key_depth = 0\<rparr>"
    using wf by (simp add: w' wf_wallet_def bt_get_insert)
  then have w'': "w'' = w'\<lparr>wo_utxo_map := bt_insert (pu_outpoint p)
      (new_utxo \<lparr>pd_key_type = External, pd_key_depth = 0\<rparr> p) (wo_utxo_map w')\<rparr>"
    using assms(3,4,5) by (simp add: insert_utxo_eq)
  have "bt_get (wo_utxo_map w'') (pu_outpoint p) = Some (new_utxo \<lparr>pd_key_type = External, pd_key_depth = 0\<rparr> p)"
    using wf by (simp add: w'' w' wf_wallet_def bt_get_insert)
  moreover have "derive_child env w'' 0 0 = derive_child env w 0 0"
    by (simp add: w'' w' derive_child_def)
  ultimately show ?thesis
    using assms(4,6,7) k by (simp add: new_utxo_def derive_pubkey_def)
qed

theorem change_script_recorded_under_wrong_key_witness:
  "\<exists>w'' u. bt_get (wo_utxo_map w'') ([8], 0) = Some u
     \<and> utxo_script_pubkey (wu_utxo u) = [1, 0] \<and> derive_pubkey path_env w'' (wu_utxo u) = Ok [0, 0]
     \<and> we_script_pubkey path_env [0, 0] (wo_network (funded_wallet False)) \<noteq> [1, 0]"
proof -
  define p :: "outpoint PartialUtxo" where
    "p = \<lparr>pu_outpoint = ([8], 0), pu_amount = 500, pu_script = [1, 0], pu_is_spent = False\<rparr>"
  have "\<exists>w''. insert_utxo (spending_wallet False) p = Ok w''"
    by (simp add: spending_wallet_eq insert_utxo_eq bt_get_def p_def path_defs)
  then obtain w'' where ins: "insert_utxo (spending_wallet False) p = Ok w''" by blast
  have first: "derive_child path_env (funded_wallet False) 0 0 = Ok [0, 0]"
    by (simp add: funded_wallet_eq path_defs derive_child_def ckd_def)
  have change: "get_change_script path_env (funded_wallet False) = (Ok [1, 0], spending_wallet False)"
    by (simp add: spending_wallet_def path_change)
  have script: "pu_script p = [1, 0]" by (simp add: p_def)
  have fresh: "bt_get (wo_utxo_map (spending_wallet False)) (pu_outpoint p) = None"
    by (simp add: p_def spending_wallet_eq bt_get_def path_utxo_def)
  have differ: "we_script_pubkey path_env [0, 0] (wo_network (funded_wallet False)) \<noteq>
      we_script_pubkey path_env k (wo_network (funded_wallet False))"
    if "derive_child path_env (funded_wallet False) 1 (wo_change_depth (funded_wallet False)) = Ok k" for k
    using that by (simp add: funded_wallet_eq path_defs derive_child_def ckd_def)
      (auto simp: path_defs)
  have op: "pu_outpoint p = ([8], 0)" by (simp add: p_def)
  have "\<exists>u. bt_get (wo_utxo_map w'') (pu_outpoint p) = Some u \<and> utxo_script_pubkey (wu_utxo u) = [1, 0]
     \<and> derive_pubkey path_env w'' (wu_utxo u) = Ok [0, 0]
     \<and> we_script_pubkey path_env [0, 0] (wo_network (funded_wallet False)) \<noteq> [1, 0]"
    by (rule change_script_recorded_under_wrong_key
        [OF funded_wallet_reachable change ins script fresh first differ])
  then show ?thesis unfolding op by blast
qed

text \<open>
  The balance is the sum of the values of the outputs that are not marked spent, however
  the outputs are ordered, as long as that sum is an amount.
\<close>

lemma balance_is_unspent_total:
  assumes "unspent_total w < 2 ^ 64"
  shows "balance w = Ok (unspent_total w)"
  using assms by (rule balance_total)

lemma balance_is_unspent_total_witness: "balance (funded_wallet False) = Ok 1160"
proof -
  have "unspent_total (funded_wallet False) = 1160"
    by (simp add: funded_wallet_eq unspent_total_def bt_values_def new_utxo_def path_utxo_def)
  with balance_is_unspent_total [of "funded_wallet False"] show ?thesis by simp
qed

text \<open>
  C18: Inserting outputs acts on each outpoint separately: a known output changes only its
  spent mark, to the last one given; an unknown output is created from the first mention of
  it, with the key its script is recorded under; an outpoint that is not mentioned keeps what
  it had.
\<close>

theorem insert_utxos_refines_map:
  assumes "wf_wallet w" and "insert_utxos w ps = (Ok (), w')"
  shows "bt_get (wo_utxo_map w') op
       = utxo_after (wo_pubkey_map w) (bt_get (wo_utxo_map w) op) (filter (\<lambda>p. pu_outpoint p = op) ps)"
  using assms by (rule insert_utxos_pointwise)

theorem insert_utxos_refines_map_witness:
  "bt_get (wo_utxo_map (snd (insert_utxos (funded_wallet False) [path_utxo True]))) ([9], 0)
     = Some (set_spent True (new_utxo \<lparr>pd_key_type = External, pd_key_depth = 0\<rparr> (path_utxo False)))"
proof -
  have "insert_utxos (funded_wallet False) [path_utxo True] = (Ok (), snd (insert_utxos (funded_wallet False) [path_utxo True]))"
    by (simp add: funded_wallet_eq insert_utxo_eq bt_get_def path_utxo_def)
  from insert_utxos_refines_map [OF reachable_wf [OF funded_wallet_reachable] this, of "([9], 0)"]
  show ?thesis by (simp add: funded_wallet_eq bt_get_def path_utxo_def)
qed

text \<open>
  Asking for a receive address twice gives the same address and leaves the wallet as it
  was after the first time: the depth of the external chain is never advanced, also when a
  new address is requested.
\<close>

lemma receive_address_never_advances:
  assumes "get_receive_address env w = (Ok a, w')"
  shows "get_receive_address env w' = (Ok a, w')"
  using assms by (rule get_receive_address_again)

lemma receive_address_never_advances_witness:
  "get_receive_address path_env (snd (get_receive_address path_env path_wallet))
     = (Ok ''addr'', snd (get_receive_address path_env path_wallet))"
proof (rule receive_address_never_advances)
  show "get_receive_address path_env path_wallet = (Ok ''addr'', snd (get_receive_address path_env path_wallet))"
    by (simp add: get_receive_address_def path_defs derive_child_def ckd_def)
qed


end
