(* ===== verification/Chain.thy ===== *)
theory Chain
  imports P2P Block_Filter Wallet
begin

text \<open>
  \<^verbatim>\<open>node/src/chain.rs\<close>: following the chain with compact filters. The state is the chain
  with the host; the wallet, which the node and the chain share through a reference count, is
  one field of it. The wallet's operations are those it exports (theory \<open>Wallet\<close>), its errors
  become the code 1. SHA-256 and SipHash are arguments.
\<close>

section \<open>State\<close>

record ChainState =
  cs_last_block_hash :: Hash256
  cs_last_block_height :: u64

record 'x CompactChain =
  cc_p2p :: P2P
  cc_chain_state :: ChainState
  cc_wallet :: "'x wallet"

definition MAX_HEADER_LEN :: nat where "MAX_HEADER_LEN = 2000"
definition FILTER_SIZE :: nat where "FILTER_SIZE = 500"

type_synonym ('x, 'a) chain_call = "('x CompactChain \<times> host, Error, 'a) call"

definition on_p2p :: "'a p2p_call \<Rightarrow> ('x, 'a) chain_call" where
  "on_p2p c = (\<lambda>(cc, h). case c (cc_p2p cc, h) of (r, (p2p, h')) \<Rightarrow> (r, (cc\<lparr>cc_p2p := p2p\<rparr>, h')))"

definition chain_connect ::
    "sha \<Rightarrow> WasiTcpSocket option \<Rightarrow> CustomIPV4SocketAddress \<Rightarrow> Network \<Rightarrow> (host, Error, P2P) call" where
  "chain_connect sha256 raw_socket sock network = (\<lambda>h.
     case p2p_new raw_socket of
       Ok p2p \<Rightarrow>
         (case connect_peer sha256 sock network (p2p, h) of
            (Ok _, (p2p', h')) \<Rightarrow> (Ok p2p', h')
          | (_, (_, h')) \<Rightarrow> (Panic, h'))
     | (Err e :: (Error, P2P) res) \<Rightarrow> (Err e, h)
     | Panic \<Rightarrow> (Panic, h))"

definition chain_new ::
    "sha \<Rightarrow> WasiTcpSocket option \<Rightarrow> CustomIPV4SocketAddress \<Rightarrow> Network \<Rightarrow> Hash256 \<Rightarrow> 'x wallet
     \<Rightarrow> (host, Error, 'x CompactChain) call" where
  "chain_new sha256 raw_socket sock network genesis_block wallet =
     sbind (chain_connect sha256 raw_socket sock network) (\<lambda>p2p.
       slift (Ok \<lparr>cc_p2p = p2p,
         cc_chain_state = \<lparr>cs_last_block_hash = genesis_block, cs_last_block_height = 0\<rparr>, cc_wallet = wallet\<rparr>))"

definition chain_restore ::
    "sha \<Rightarrow> (bytes \<Rightarrow> ChainState option) \<Rightarrow> WasiTcpSocket option \<Rightarrow> CustomIPV4SocketAddress \<Rightarrow> Network
     \<Rightarrow> 'x wallet \<Rightarrow> bytes \<Rightarrow> (host, Error, 'x CompactChain) call" where
  "chain_restore sha256 deserialize raw_socket sock network wallet state =
     sbind (chain_connect sha256 raw_socket sock network) (\<lambda>p2p.
     sbind (slift (of_opt (deserialize state))) (\<lambda>chain_state.
       slift (Ok \<lparr>cc_p2p = p2p, cc_chain_state = chain_state, cc_wallet = wallet\<rparr>)))"

definition chain_get_state :: "'x CompactChain \<Rightarrow> ChainState" where
  "chain_get_state cc = cc_chain_state cc"

section \<open>Filters\<close>

fun check_filters :: "sha \<Rightarrow> Hash256 list \<Rightarrow> CompactFilter list \<Rightarrow> (Error, unit) res" where
  "check_filters sha256 (filter_hash # hashes) (compact_filter # filters) =
     (if sha256d sha256 (cf_filter_bytes compact_filter) \<noteq> filter_hash then Err FilterMatchEror
      else check_filters sha256 hashes filters)"
| "check_filters sha256 _ _ = Ok ()"

definition get_and_verify_compact_filters ::
    "sha \<Rightarrow> u32 \<Rightarrow> Hash256 \<Rightarrow> ('x, CompactFilter list) chain_call" where
  "get_and_verify_compact_filters sha256 start_height last_block_hash =
     sbind (smap_err (\<lambda>err. FetchCompactFilterHeader (to_error_code err))
              (on_p2p (get_compact_filter_headers sha256 start_height last_block_hash))) (\<lambda>filter_header.
     sbind (smap_err (\<lambda>err. FetchCompactFilter (to_error_code err))
              (on_p2p (get_compact_filters sha256 start_height last_block_hash))) (\<lambda>filters.
     sbind (slift (check_filters sha256 (cfh_filter_hashes filter_header) filters)) (\<lambda>_.
       slift (Ok filters))))"

type_synonym siphash = "u64 \<Rightarrow> u64 \<Rightarrow> bytes \<Rightarrow> u64"

fun matching_blocks :: "siphash \<Rightarrow> bytes list \<Rightarrow> CompactFilter list \<Rightarrow> (Error, Hash256 list) res" where
  "matching_blocks siphash pub_keys [] = Ok []"
| "matching_blocks siphash pub_keys (compact_filter # filters) =
     rbind (unwrap (match_any siphash \<lparr>bf_content = cf_filter_bytes compact_filter\<rparr> (cf_block_hash compact_filter) pub_keys)) (\<lambda>result.
     rbind (matching_blocks siphash pub_keys filters) (\<lambda>hashes.
       Ok (if result then cf_block_hash compact_filter # hashes else hashes)))"

section \<open>Outputs\<close>

definition received_utxos :: "sha \<Rightarrow> bytes list \<Rightarrow> Tx \<Rightarrow> GuestUtxo list" where
  "received_utxos sha256 pub_keys txn =
     concat (map (\<lambda>(index, output).
       if txout_lock_script output \<in> set pub_keys
       then [\<lparr>gu_txid = hash_bytes (tx_hash sha256 txn), gu_vout = of_nat index, gu_amount = txout_satoshis output,
              gu_script = txout_lock_script output, gu_is_spent = False\<rparr>]
       else []) (enumerate 0 (tx_outputs txn)))"

definition spent_utxos :: "GuestUtxo list \<Rightarrow> Tx \<Rightarrow> GuestUtxo list" where
  "spent_utxos utxos txn =
     concat (map (\<lambda>input.
       if op_hash (txin_prev_output input) = NO_HASH_STOP then []
       else map (\<lambda>utxo. utxo\<lparr>gu_is_spent := True\<rparr>)
              (filter (\<lambda>utxo. gu_txid utxo = hash_bytes (op_hash (txin_prev_output input))
                 \<and> gu_vout utxo = op_index (txin_prev_output input)) utxos)) (tx_inputs txn))"

definition block_utxos :: "sha \<Rightarrow> bytes list \<Rightarrow> GuestUtxo list \<Rightarrow> Block \<Rightarrow> GuestUtxo list" where
  "block_utxos sha256 pub_keys utxos block =
     concat (map (\<lambda>txn. received_utxos sha256 pub_keys txn @ spent_utxos utxos txn) (block_txns block))"

definition with_wallet :: "('x wallet \<Rightarrow> (guest_wallet_error, 'a) res) \<Rightarrow> ('x, 'a) chain_call" where
  "with_wallet f = sget (\<lambda>(cc, _). rmap_err (\<lambda>_. WalletError 1) (f (cc_wallet cc)))"

definition save_utxos :: "GuestUtxo list \<Rightarrow> ('x, unit) chain_call" where
  "save_utxos utxos = (\<lambda>(cc, h).
     case guest_insert_utxos (cc_wallet cc) utxos of
       (r, w) \<Rightarrow> (rmap_err (\<lambda>_. WalletError 1) r, (cc\<lparr>cc_wallet := w\<rparr>, h)))"

definition fetch_and_save_utxos :: "sha \<Rightarrow> siphash \<Rightarrow> CompactFilter list \<Rightarrow> ('x, unit) chain_call" where
  "fetch_and_save_utxos sha256 siphash filters =
     sbind (with_wallet guest_get_pubkeys) (\<lambda>pub_keys.
     sbind (slift (matching_blocks siphash pub_keys filters)) (\<lambda>blockhash_present.
       if blockhash_present = [] then slift (Ok ())
       else
         (let block_inv = map (\<lambda>hash. \<lparr>iv_obj_type = 2, iv_hash = hash\<rparr>) blockhash_present in
          sbind (smap_err (\<lambda>err. FetchBlock (to_error_code err))
                   (on_p2p (get_block sha256 \<lparr>inv_objects = block_inv\<rparr>))) (\<lambda>blocks.
          sbind (with_wallet guest_get_utxos) (\<lambda>utxos.
            save_utxos (concat (map (block_utxos sha256 pub_keys utxos) blocks)))))))"

section \<open>Synchronising\<close>

text \<open>\<^verbatim>\<open>(start..end).step_by(FILTER_SIZE)\<close>, or the start alone when the range is empty.\<close>

definition block_numbers :: "nat \<Rightarrow> nat \<Rightarrow> nat list" where
  "block_numbers start_block end_block =
     (if start_block < end_block
      then map (\<lambda>i. start_block + FILTER_SIZE * i) [0..<(end_block - start_block + FILTER_SIZE - 1) div FILTER_SIZE]
      else [start_block])"

text \<open>The heights to ask filters from, each with the hash to stop at.\<close>

definition filter_requests :: "sha \<Rightarrow> nat \<Rightarrow> BlockHeader list \<Rightarrow> (u32 \<times> Hash256) list" where
  "filter_requests sha256 start_block headers =
     (let last_block_hash = block_header_hash sha256 (last headers);
          end_block = start_block + (length headers - 1) in
      map (\<lambda>(i, current_block_num).
        let block_headers_counter = FILTER_SIZE * (i + 1) in
        (of_nat current_block_num,
         if block_headers_counter - 1 < length headers
         then block_header_hash sha256 (headers ! (block_headers_counter - 1)) else last_block_hash))
        (enumerate 0 (block_numbers start_block end_block)))"

fun sync_filters :: "sha \<Rightarrow> siphash \<Rightarrow> (u32 \<times> Hash256) list \<Rightarrow> ('x, unit) chain_call" where
  "sync_filters sha256 siphash [] = slift (Ok ())"
| "sync_filters sha256 siphash ((current_block_num, last_known_block_hash) # requests) =
     sbind (get_and_verify_compact_filters sha256 current_block_num last_known_block_hash) (\<lambda>block_filters.
       if block_filters = [] then sync_filters sha256 siphash requests
       else sbind (fetch_and_save_utxos sha256 siphash block_filters) (\<lambda>_. sync_filters sha256 siphash requests))"

text \<open>One turn of the loop; the result says whether there is another one.\<close>

definition sync_round :: "sha \<Rightarrow> siphash \<Rightarrow> ('x, bool) chain_call" where
  "sync_round sha256 siphash = (\<lambda>(cc0, h0).
     sbind (smap_err (\<lambda>err. FetchHeader (to_error_code err))
              (on_p2p (fetch_headers sha256 (cs_last_block_hash (cc_chain_state cc0))))) (\<lambda>headers.
       if headers = [] then slift (Ok False)
       else
         (let last_block_hash = block_header_hash sha256 (last headers);
              height = unat (cs_last_block_height (cc_chain_state cc0));
              start_block = height + 1;
              end_block = start_block + (length headers - 1) in
          if end_block \<ge> 2 ^ 64 then slift Panic
          else
            sbind (sync_filters sha256 siphash (filter_requests sha256 start_block headers)) (\<lambda>_.
            sbind (smod (\<lambda>(cc, h). (cc\<lparr>cc_chain_state :=
                \<lparr>cs_last_block_hash = last_block_hash, cs_last_block_height = of_nat end_block\<rparr>\<rparr>, h)))
              (\<lambda>_. slift (Ok (length headers \<ge> MAX_HEADER_LEN)))))) (cc0, h0))"

lemma keeps_clock_on_p2p [clock_rules]: "keeps_clock c \<Longrightarrow> keeps_clock (on_p2p c)"
  by (fastforce simp: keeps_clock_def on_p2p_def clock_left_def split: prod.splits)

lemma keeps_clock_smap_err [clock_rules]: "keeps_clock c \<Longrightarrow> keeps_clock (smap_err g c)"
  by (fastforce simp: keeps_clock_def smap_err_def split: prod.splits)

lemma uses_clock_on_p2p: "uses_clock c \<Longrightarrow> uses_clock (smap_err g (on_p2p c))"
  by (auto simp: uses_clock_def keeps_clock_on_p2p keeps_clock_smap_err)
    (fastforce simp: smap_err_def on_p2p_def clock_left_def split: prod.splits)

lemma keeps_clock_save_utxos [clock_rules]: "keeps_clock (save_utxos utxos)"
  by (auto simp: keeps_clock_def save_utxos_def clock_left_def split: prod.splits)

lemma keeps_clock_smod [clock_rules]: "keeps_clock (smod (\<lambda>(cc, h). (f cc, h)))"
  by (auto simp: keeps_clock_def clock_left_def)

lemma keeps_clock_if [clock_rules]: "keeps_clock c \<Longrightarrow> keeps_clock d \<Longrightarrow> keeps_clock (if b then c else d)"
  by simp

lemma keeps_clock_fetch_and_save_utxos [clock_rules]:
  "keeps_clock (fetch_and_save_utxos sha256 siphash filters :: ('x, unit) chain_call)"
  unfolding fetch_and_save_utxos_def Let_def with_wallet_def by (intro clock_rules)

lemma keeps_clock_get_and_verify [clock_rules]:
  "keeps_clock (get_and_verify_compact_filters sha256 n hash :: ('x, CompactFilter list) chain_call)"
  unfolding get_and_verify_compact_filters_def by (intro clock_rules)

lemma keeps_clock_sync_filters [clock_rules]:
  "keeps_clock (sync_filters sha256 siphash requests :: ('x, unit) chain_call)"
proof (induction sha256 siphash requests rule: sync_filters.induct)
  case 1
  show ?case unfolding sync_filters.simps by (rule keeps_clock_slift)
next
  case 2
  then show ?case unfolding sync_filters.simps by (intro clock_rules) auto
qed

lemma sync_round_clock:
  assumes "sync_round sha256 siphash st = (Ok again, st')"
  shows "clock_left st' < clock_left st"
proof -
  obtain cc h where st: "st = (cc, h)" by (cases st)
  show ?thesis
    using assms unfolding st sync_round_def prod.case Let_def
    by (rule uses_clockD [rotated])
      (intro uses_clock_first uses_clock_on_p2p uses_clock_fetch_headers clock_rules)
qed

function sync_loop :: "sha \<Rightarrow> siphash \<Rightarrow> ('x, unit) chain_call" where
  "sync_loop sha256 siphash st =
     (case sync_round sha256 siphash st of
        (Ok again, st') \<Rightarrow> if again then sync_loop sha256 siphash st' else (Ok (), st')
      | (Err e, st') \<Rightarrow> (Err e, st')
      | (Panic, st') \<Rightarrow> (Panic, st'))"
  by pat_completeness auto
termination
  by (relation "measure (\<lambda>(_, _, st). clock_left st)") (auto dest: sync_round_clock [OF sym])

declare sync_loop.simps [simp del]

definition sync_state :: "sha \<Rightarrow> siphash \<Rightarrow> ('x, unit) chain_call" where
  "sync_state sha256 siphash =
     sbind (smap_err (\<lambda>_. NetworkError) (on_p2p (p2p_keep_alive sha256))) (\<lambda>_. sync_loop sha256 siphash)"

definition chain_send_transaction :: "sha \<Rightarrow> Tx \<Rightarrow> ('x, unit) chain_call" where
  "chain_send_transaction sha256 transaction =
     sbind (smap_err (\<lambda>_. NetworkError) (on_p2p (p2p_keep_alive sha256))) (\<lambda>_.
       on_p2p (p2p_send_transaction sha256 transaction))"

end
