(* ===== verification/Signer.thy ===== *)
theory Signer
  imports Prelude
begin

text \<open>
  \<^verbatim>\<open>crates/signer/src\<close>: the component that holds the master key. Extended keys, derivation
  paths, PSBTs and their text and byte forms belong to the crate \<^verbatim>\<open>bitcoin\<close>, the saved state
  to \<^verbatim>\<open>bincode\<close>; they are the fields of the environment, with \<open>None\<close> or the left side for an
  error. \<open>'p\<close> is the type of private keys, \<open>'x\<close> of public keys, \<open>'t\<close> of PSBTs.
\<close>

record ('p, 'x) SimpleSigner =
  ks_master_xpriv :: 'p
  ks_master_xpub :: 'x

record ('p, 'x, 't) signer_env =
  sv_parse_xpriv :: "string \<Rightarrow> 'p option"
  sv_from_priv :: "'p \<Rightarrow> 'x"
  sv_into_derivation_path :: "string \<Rightarrow> string + u32 list"
  sv_derive_priv :: "'p \<Rightarrow> u32 list \<Rightarrow> string + 'p"
  sv_fingerprint :: "'x \<Rightarrow> bytes"
  sv_show_xpub :: "'x \<Rightarrow> string"
  sv_show_fingerprint :: "bytes \<Rightarrow> string"
  sv_show_path :: "u32 list \<Rightarrow> string"
  sv_parse_psbt :: "bytes \<Rightarrow> 't option"
  sv_sign :: "'p \<Rightarrow> 't \<Rightarrow> 't option"
  sv_serialize_psbt :: "'t \<Rightarrow> bytes"
  sv_serialize :: "('p, 'x) SimpleSigner \<Rightarrow> bytes option"
  sv_deserialize :: "bytes \<Rightarrow> ('p, 'x) SimpleSigner option"

datatype SignerError = DerivationError string | SigningError

datatype GuestSignerError = GDerivationError | GSigningError

definition simple_signer_new :: "('p, 'x, 't) signer_env \<Rightarrow> 'p \<Rightarrow> ('p, 'x) SimpleSigner" where
  "simple_signer_new env master_xpriv =
     \<lparr>ks_master_xpriv = master_xpriv, ks_master_xpub = sv_from_priv env master_xpriv\<rparr>"

definition simple_signer_from :: "('p, 'x, 't) signer_env \<Rightarrow> bytes \<Rightarrow> ('e, ('p, 'x) SimpleSigner) res" where
  "simple_signer_from env state = of_opt (sv_deserialize env state)"

definition signer_get_state :: "('p, 'x, 't) signer_env \<Rightarrow> ('p, 'x) SimpleSigner \<Rightarrow> ('e, bytes) res" where
  "signer_get_state env s = of_opt (sv_serialize env s)"

definition derivation :: "string + 'a \<Rightarrow> (SignerError, 'a) res" where
  "derivation r = (case r of Inl e \<Rightarrow> Err (DerivationError e) | Inr x \<Rightarrow> Ok x)"

definition derive_account ::
    "('p, 'x, 't) signer_env \<Rightarrow> ('p, 'x) SimpleSigner \<Rightarrow> (SignerError, 'x \<times> bytes \<times> u32 list) res" where
  "derive_account env s =
     rbind (derivation (sv_into_derivation_path env ''84h/0h/0h'')) (\<lambda>path.
     rbind (derivation (sv_derive_priv env (ks_master_xpriv s) path)) (\<lambda>account_0_xpriv.
       Ok (sv_from_priv env account_0_xpriv, sv_fingerprint env (ks_master_xpub s), path)))"

definition sign_psbt ::
    "('p, 'x, 't) signer_env \<Rightarrow> ('p, 'x) SimpleSigner \<Rightarrow> 't \<Rightarrow> (SignerError, 't) res" where
  "sign_psbt env s psbt =
     (case sv_sign env (ks_master_xpriv s) psbt of Some signed_psbt \<Rightarrow> Ok signed_psbt | None \<Rightarrow> Err SigningError)"

section \<open>The exported interface\<close>

text \<open>The state the component exports to be saved.\<close>

definition guest_signer_get_state :: "('p, 'x, 't) signer_env \<Rightarrow> ('p, 'x) SimpleSigner \<Rightarrow> ('e, bytes) res" where
  "guest_signer_get_state env s = signer_get_state env s"

datatype SignerInitialization = SignerOldState bytes | SignerConfig string

definition guest_signer_new ::
    "('p, 'x, 't) signer_env \<Rightarrow> SignerInitialization \<Rightarrow> ('e, ('p, 'x) SimpleSigner) res" where
  "guest_signer_new env init =
     (case init of
        SignerOldState state \<Rightarrow> simple_signer_from env state
      | SignerConfig xpriv \<Rightarrow>
          rbind (of_opt (sv_parse_xpriv env xpriv)) (\<lambda>key. Ok (simple_signer_new env key)))"

definition guest_derive_account ::
    "('p, 'x, 't) signer_env \<Rightarrow> ('p, 'x) SimpleSigner \<Rightarrow> (GuestSignerError, string \<times> string \<times> string) res" where
  "guest_derive_account env s =
     rbind (rmap_err (\<lambda>_. GDerivationError) (derive_account env s)) (\<lambda>(xpub, fingerprint, path).
       Ok (sv_show_xpub env xpub, sv_show_fingerprint env fingerprint, sv_show_path env path))"

definition guest_sign_psbt ::
    "('p, 'x, 't) signer_env \<Rightarrow> ('p, 'x) SimpleSigner \<Rightarrow> bytes \<Rightarrow> (GuestSignerError, bytes) res" where
  "guest_sign_psbt env s psbt =
     rbind (of_opt (sv_parse_psbt env psbt)) (\<lambda>psbt.
     rbind (rmap_err (\<lambda>_. GSigningError) (sign_psbt env s psbt)) (\<lambda>signed_psbt.
       Ok (sv_serialize_psbt env signed_psbt)))"

end
