(* ===== verification/KV_Entry.thy ===== *)
theory KV_Entry
  imports Prelude
begin

text \<open>
  The entries of the key-value store (\<^verbatim>\<open>crates/kv/src/entry.rs\<close>), its keys
  (\<^verbatim>\<open>bit_cask_key.rs\<close>) and its errors (\<^verbatim>\<open>errors.rs\<close>). An entry on disk is a timestamp,
  the lengths of the key and of the value, the key, the value and one tombstone byte. The
  trait \<^verbatim>\<open>BitCaskKey\<close> with the key mapper that is configured beside it is the locale
  \<open>bitcask_key\<close>. Offsets are natural numbers below \<open>2 ^ 32\<close>; an addition that leaves the range,
  a slice out of range and a read beyond the end panic.
\<close>

unbundle bit_operations_syntax

section \<open>Errors and keys\<close>

datatype KvError =
    OpenFileError
  | StreamError
  | FileNotFound u64
  | InvalidData
  | ParseError
  | EntryNotFound

text \<open>A \<^verbatim>\<open>UUIDWasiKey\<close> is a \<^verbatim>\<open>String\<close>: the bytes of a UTF-8 text.\<close>

type_synonym UUIDWasiKey = bytes

definition uuid_serialize :: "UUIDWasiKey \<Rightarrow> bytes" where
  "uuid_serialize key = key"

definition uuid_key_from :: "bytes \<Rightarrow> (KvError, UUIDWasiKey) res" where
  "uuid_key_from value = (if utf8_valid value then Ok value else Panic)"

locale bitcask_key =
  fixes serialize :: "'k \<Rightarrow> bytes" and key_mapper :: "bytes \<Rightarrow> (KvError, 'k) res" and valid :: "'k \<Rightarrow> bool"
  assumes key_mapper_serialize: "valid k \<Longrightarrow> key_mapper (serialize k) = Ok k"
begin

lemma serialize_inj: "valid k \<Longrightarrow> valid k' \<Longrightarrow> serialize k = serialize k' \<longleftrightarrow> k = k'"
  by (metis key_mapper_serialize res.inject(1))

end

interpretation uuid: bitcask_key uuid_serialize uuid_key_from utf8_valid
  by unfold_locales (simp add: uuid_serialize_def uuid_key_from_def)

section \<open>Entries\<close>

record 'k Entry =
  en_key :: 'k
  en_value :: bytes
  en_tombstone :: u8
  en_timestamp :: u32

definition entry_new :: "'k \<Rightarrow> bytes \<Rightarrow> 'k Entry" where
  "entry_new key value = \<lparr>en_key = key, en_value = value, en_tombstone = 0, en_timestamp = 0\<rparr>"

definition entry_new_preserving_timestamp :: "'k \<Rightarrow> bytes \<Rightarrow> u32 \<Rightarrow> 'k Entry" where
  "entry_new_preserving_timestamp key value ts =
     \<lparr>en_key = key, en_value = value, en_tombstone = 0, en_timestamp = ts\<rparr>"

definition entry_new_deleted :: "'k \<Rightarrow> 'k Entry" where
  "entry_new_deleted key = \<lparr>en_key = key, en_value = [], en_tombstone = 1, en_timestamp = 0\<rparr>"

definition entry_timestamp :: "u64 \<Rightarrow> 'k Entry \<Rightarrow> u32" where
  "entry_timestamp now e = (if en_timestamp e = 0 then ucast now else en_timestamp e)"

definition entry_bytes :: "u32 \<Rightarrow> bytes \<Rightarrow> bytes \<Rightarrow> u8 \<Rightarrow> bytes" where
  "entry_bytes timestamp key value tombstone =
     le_bytes 4 (unat timestamp) @ le_bytes 4 (length key) @ le_bytes 4 (length value + 1)
       @ key @ value @ [tombstone]"

text \<open>\<open>now\<close> is the reading of the wall clock, in seconds.\<close>

definition encode :: "('k \<Rightarrow> bytes) \<Rightarrow> u64 \<Rightarrow> 'k Entry \<Rightarrow> ('e, bytes) res" where
  "encode serialize now e =
     (let key = serialize (en_key e) in
      if 12 + length key + (length (en_value e) + 1) < 2 ^ 32
      then Ok (entry_bytes (entry_timestamp now e) key (en_value e) (en_tombstone e))
      else Panic)"

section \<open>Decoding\<close>

record StoredEntry =
  se_key :: bytes
  se_value :: bytes
  se_deleted :: bool
  se_timestamp :: u32

record 'k MappedStoredEntry =
  ms_key :: 'k
  ms_value :: bytes
  ms_deleted :: bool
  ms_timestamp :: u32
  ms_key_offset :: nat
  ms_entry_length :: nat

definition read_u32_at :: "bytes \<Rightarrow> nat \<Rightarrow> ('e, nat) res" where
  "read_u32_at content off =
     (if off + 4 \<le> length content then Ok (le_val (take 4 (drop off content))) else Panic)"

definition add_u32 :: "nat \<Rightarrow> nat \<Rightarrow> ('e, nat) res" where
  "add_u32 a b = (if a + b < 2 ^ 32 then Ok (a + b) else Panic)"

definition slice :: "bytes \<Rightarrow> nat \<Rightarrow> nat \<Rightarrow> ('e, bytes) res" where
  "slice content a b = (if a \<le> b \<and> b \<le> length content then Ok (take (b - a) (drop a content)) else Panic)"

definition decode_from :: "bytes \<Rightarrow> nat \<Rightarrow> (KvError, StoredEntry \<times> nat) res" where
  "decode_from content offset0 =
     rbind (read_u32_at content offset0) (\<lambda>timestamp. rbind (add_u32 offset0 4) (\<lambda>offset1.
     rbind (read_u32_at content offset1) (\<lambda>key_size. rbind (add_u32 offset1 4) (\<lambda>offset2.
     rbind (read_u32_at content offset2) (\<lambda>value_size. rbind (add_u32 offset2 4) (\<lambda>offset3.
     rbind (add_u32 offset3 key_size) (\<lambda>offset4. rbind (slice content offset3 offset4) (\<lambda>serialized_key.
     rbind (add_u32 offset4 value_size) (\<lambda>offset5. rbind (slice content offset4 offset5) (\<lambda>value.
       if value = [] then Panic
       else Ok (\<lparr>se_key = serialized_key, se_value = butlast value,
                 se_deleted = ((last value) AND 1 = 1), se_timestamp = of_nat timestamp\<rparr>, offset5)))))))))))"

definition decode :: "bytes \<Rightarrow> (KvError, StoredEntry) res" where
  "decode content = rbind (decode_from content 0) (\<lambda>(e, _). Ok e)"

lemma decode_from_advances: "decode_from content off = Ok (e, off') \<Longrightarrow> off < off' \<and> off' \<le> length content"
  by (auto simp: decode_from_def add_u32_def slice_def split: if_splits)

function decode_multi_from ::
    "(bytes \<Rightarrow> (KvError, 'k) res) \<Rightarrow> bytes \<Rightarrow> nat \<Rightarrow> (KvError, 'k MappedStoredEntry list) res" where
  "decode_multi_from key_mapper content off =
     (if off < length content mod 2 ^ 32 then
        (case decode_from content off of
           Ok (e, traversed) \<Rightarrow>
             rbind (key_mapper (se_key e)) (\<lambda>key.
             rbind (decode_multi_from key_mapper content traversed) (\<lambda>entries.
               Ok (\<lparr>ms_key = key, ms_value = se_value e, ms_deleted = se_deleted e,
                    ms_timestamp = se_timestamp e, ms_key_offset = off,
                    ms_entry_length = traversed - off\<rparr> # entries)))
         | Err err \<Rightarrow> Err err
         | Panic \<Rightarrow> Panic)
      else Ok [])"
  by pat_completeness auto
termination
proof (relation "measure (\<lambda>(_, content, off). length content - off)")
  fix key_mapper :: "bytes \<Rightarrow> (KvError, 'k) res" and content off x e traversed
  assume "decode_from content off = Ok x" and "(e, traversed) = x"
  then have "off < traversed" and "traversed \<le> length content"
    using decode_from_advances by (metis, metis)
  then show "((key_mapper, content, traversed), (key_mapper, content, off)) \<in>
      measure (\<lambda>(_, content, off). length content - off)"
    by simp
qed simp

declare decode_multi_from.simps [simp del]

definition decode_multi ::
    "(bytes \<Rightarrow> (KvError, 'k) res) \<Rightarrow> bytes \<Rightarrow> (KvError, 'k MappedStoredEntry list) res" where
  "decode_multi key_mapper content = decode_multi_from key_mapper content 0"

section \<open>Decoding what was encoded\<close>

definition stored_of :: "('k \<Rightarrow> bytes) \<Rightarrow> u64 \<Rightarrow> 'k Entry \<Rightarrow> StoredEntry" where
  "stored_of serialize now e =
     \<lparr>se_key = serialize (en_key e), se_value = en_value e,
      se_deleted = ((en_tombstone e) AND 1 = 1), se_timestamp = entry_timestamp now e\<rparr>"

lemma length_entry_bytes [simp]: "length (entry_bytes t k v d) = 13 + length k + length v"
  by (simp add: entry_bytes_def)

lemma read_u32_at_append:
  assumes "length pre = off" and "length field = 4"
  shows "read_u32_at (pre @ field @ post) off = Ok (le_val field)"
  using assms by (simp add: read_u32_at_def)

lemma slice_append:
  assumes "length pre = a" and "b = a + length field"
  shows "slice (pre @ field @ post) a b = Ok field"
  using assms by (simp add: slice_def)

lemma decode_from_entry_bytes:
  assumes "length pre + length (entry_bytes t k v d) < 2 ^ 32"
  shows "decode_from (pre @ entry_bytes t k v d @ post) (length pre)
       = Ok (\<lparr>se_key = k, se_value = v, se_deleted = (d AND 1 = 1), se_timestamp = t\<rparr>,
             length pre + length (entry_bytes t k v d))"
proof -
  define tb kb vb where "tb = le_bytes 4 (unat t)" and "kb = le_bytes 4 (length k)"
    and "vb = le_bytes 4 (length v + 1)"
  note bytes = tb_def kb_def vb_def
  define c where "c = pre @ entry_bytes t k v d @ post"
  have vals: "le_val tb = unat t" "le_val kb = length k" "le_val vb = length v + 1"
    using assms unsigned_less [of t, where 'a = nat] by (simp_all add: bytes)
  have c1: "c = pre @ tb @ (kb @ vb @ k @ v @ d # post)"
    and c2: "c = (pre @ tb) @ kb @ (vb @ k @ v @ d # post)"
    and c3: "c = (pre @ tb @ kb) @ vb @ (k @ v @ d # post)"
    and c4: "c = (pre @ tb @ kb @ vb) @ k @ (v @ d # post)"
    and c5: "c = (pre @ tb @ kb @ vb @ k) @ (v @ [d]) @ post"
    by (simp_all add: c_def entry_bytes_def bytes)
  have r1: "read_u32_at c (length pre) = Ok (unat t)"
    unfolding c1 vals(1) [symmetric] by (rule read_u32_at_append) (simp_all add: bytes)
  have r2: "read_u32_at c (length pre + 4) = Ok (length k)"
    unfolding c2 vals(2) [symmetric] by (rule read_u32_at_append) (simp_all add: bytes)
  have r3: "read_u32_at c (length pre + 8) = Ok (length v + 1)"
    unfolding c3 vals(3) [symmetric] by (rule read_u32_at_append) (simp_all add: bytes)
  have s1: "slice c (length pre + 12) (length pre + 12 + length k) = Ok k"
    unfolding c4 by (rule slice_append) (simp_all add: bytes)
  have s2: "slice c (length pre + 12 + length k) (length pre + 12 + length k + (length v + 1)) = Ok (v @ [d])"
    unfolding c5 by (rule slice_append) (simp_all add: bytes)
  define off where "off = length pre"
  have add: "add_u32 off 4 = Ok (off + 4)" "add_u32 (off + 4) 4 = Ok (off + 8)"
    "add_u32 (off + 8) 4 = Ok (off + 12)" "add_u32 (off + 12) (length k) = Ok (off + 12 + length k)"
    "add_u32 (off + 12 + length k) (length v + 1) = Ok (off + 12 + length k + (length v + 1))"
    using assms by (simp_all add: add_u32_def off_def)
  have "decode_from c off = Ok (\<lparr>se_key = k, se_value = v, se_deleted = (d AND 1 = 1),
      se_timestamp = of_nat (unat t)\<rparr>, off + 12 + length k + (length v + 1))"
    by (simp only: decode_from_def rbind_simps add r1 [folded off_def] r2 [folded off_def]
        r3 [folded off_def] s1 [folded off_def] s2 [folded off_def]) simp
  then show ?thesis by (simp add: c_def off_def)
qed

text \<open>A reader that decodes one entry gets back what was encoded.\<close>

lemma decode_encode:
  assumes "encode serialize now e = Ok bs"
  shows "decode bs = Ok (stored_of serialize now e)"
  using assms decode_from_entry_bytes [of "[]" _ _ _ _ "[]"]
  by (auto simp: encode_def decode_def stored_of_def Let_def split: if_splits)

text \<open>The entries of a file, one after the other from an offset on.\<close>

fun layout :: "('k \<Rightarrow> bytes) \<Rightarrow> nat \<Rightarrow> (u64 \<times> 'k Entry) list \<Rightarrow> 'k MappedStoredEntry list" where
  "layout serialize off [] = []"
| "layout serialize off ((now, e) # es) =
     \<lparr>ms_key = en_key e, ms_value = en_value e, ms_deleted = ((en_tombstone e) AND 1 = 1),
      ms_timestamp = entry_timestamp now e, ms_key_offset = off,
      ms_entry_length = 13 + length (serialize (en_key e)) + length (en_value e)\<rparr>
     # layout serialize (off + 13 + length (serialize (en_key e)) + length (en_value e)) es"

definition entry_image :: "('k \<Rightarrow> bytes) \<Rightarrow> u64 \<times> 'k Entry \<Rightarrow> bytes" where
  "entry_image serialize = (\<lambda>(now, e).
     entry_bytes (entry_timestamp now e) (serialize (en_key e)) (en_value e) (en_tombstone e))"

lemma encode_image: "encode serialize now e = Ok bs \<Longrightarrow> bs = entry_image serialize (now, e)"
  by (auto simp: encode_def entry_image_def Let_def split: if_splits)

lemma decode_multi_from_images:
  assumes "length (pre @ concat (map (entry_image serialize) es)) < 2 ^ 32"
    and "\<And>now e. (now, e) \<in> set es \<Longrightarrow> key_mapper (serialize (en_key e)) = Ok (en_key e)"
  shows "decode_multi_from key_mapper (pre @ concat (map (entry_image serialize) es)) (length pre)
       = Ok (layout serialize (length pre) es)"
  using assms
proof (induction es arbitrary: pre)
  case Nil
  then show ?case by (simp add: decode_multi_from.simps)
next
  case (Cons x es)
  obtain now e where x: "x = (now, e)" by (cases x)
  define img where "img = entry_image serialize (now, e)"
  define rest where "rest = concat (map (entry_image serialize) es)"
  have img: "length img = 13 + length (serialize (en_key e)) + length (en_value e)"
    by (simp add: img_def entry_image_def)
  have len: "length pre + length img + length rest < 2 ^ 32"
    using Cons.prems(1) by (simp add: x img_def rest_def)
  have dec: "decode_from (pre @ img @ rest) (length pre) =
      Ok (\<lparr>se_key = serialize (en_key e), se_value = en_value e,
           se_deleted = ((en_tombstone e) AND 1 = 1), se_timestamp = entry_timestamp now e\<rparr>,
          length pre + length img)"
    using len unfolding img_def entry_image_def by (simp add: decode_from_entry_bytes)
  have "decode_multi_from key_mapper ((pre @ img) @ rest) (length (pre @ img))
      = Ok (layout serialize (length (pre @ img)) es)"
    unfolding rest_def using Cons.prems len by (intro Cons.IH) (auto simp: x img_def rest_def)
  moreover have "key_mapper (serialize (en_key e)) = Ok (en_key e)"
    by (rule Cons.prems(2) [of now]) (simp add: x)
  ultimately show ?case
    using len img
    by (subst decode_multi_from.simps)
      (simp add: x img_def [symmetric] rest_def [symmetric] dec add.assoc)
qed

lemma decode_multi_images:
  assumes "length (concat (map (entry_image serialize) es)) < 2 ^ 32"
    and "\<And>now e. (now, e) \<in> set es \<Longrightarrow> key_mapper (serialize (en_key e)) = Ok (en_key e)"
  shows "decode_multi key_mapper (concat (map (entry_image serialize) es)) = Ok (layout serialize 0 es)"
  using decode_multi_from_images [of "[]", OF _ assms(2)] assms(1) by (simp add: decode_multi_def)

lemma encode_images:
  assumes "list_all2 (\<lambda>(now, e) bs. encode serialize now e = (Ok bs :: (KvError, bytes) res)) es bss"
  shows "bss = map (entry_image serialize) es"
  using assms by (induction es bss rule: list_all2_induct) (auto dest: encode_image)

section \<open>Properties\<close>

text \<open>
  C26: Reading a whole segment file gives back the entries that were appended to it, in order:
  key, value, tombstone and timestamp of each, its position in the file and its length. The
  keys are texts, and the file is within the 32-bit offsets of the reader.
\<close>

theorem entries_round_trip:
  assumes "list_all2 (\<lambda>(now, e) bs. encode uuid_serialize now e = (Ok bs :: (KvError, bytes) res)) es bss"
    and "length (concat bss) < 2 ^ 32"
    and "\<And>now e. (now, e) \<in> set es \<Longrightarrow> utf8_valid (en_key e)"
  shows "decode_multi uuid_key_from (concat bss) = Ok (layout uuid_serialize 0 es)"
  using assms(2,3) uuid.key_mapper_serialize
  unfolding encode_images [OF assms(1)] by (intro decode_multi_images) auto

theorem entries_round_trip_witness:
  "decode_multi uuid_key_from
     (entry_bytes 5 [107] [1, 2] 0 @ entry_bytes 6 [107] [] 1) =
   Ok [\<lparr>ms_key = [107], ms_value = [1, 2], ms_deleted = False, ms_timestamp = 5, ms_key_offset = 0, ms_entry_length = 16\<rparr>,
       \<lparr>ms_key = [107], ms_value = [], ms_deleted = True, ms_timestamp = 6, ms_key_offset = 16, ms_entry_length = 14\<rparr>]"
proof -
  have "decode_multi uuid_key_from (concat [entry_bytes 5 [107] [1, 2] 0, entry_bytes 6 [107] [] 1])
      = Ok (layout uuid_serialize 0 [(5, entry_new [107] [1, 2]), (6, entry_new_deleted [107])])"
    by (rule entries_round_trip)
      (auto simp: encode_def uuid_serialize_def entry_new_def entry_new_deleted_def entry_timestamp_def)
  then show ?thesis
    by (simp add: entry_new_def entry_new_deleted_def entry_timestamp_def uuid_serialize_def)
qed

end
