(* ===== verification/KV_Segments.thy ===== *)
theory KV_Segments
  imports KV_Entry Maps
begin

text \<open>
  The files of the key-value store: \<^verbatim>\<open>crates/kv/src/store.rs\<close> (\<^verbatim>\<open>WasiStore\<close>),
  \<^verbatim>\<open>segment.rs\<close>, \<^verbatim>\<open>segments.rs\<close>, \<^verbatim>\<open>field_generator.rs\<close> and \<^verbatim>\<open>clock.rs\<close>.

  The file system is an explicit store: names lead to file numbers, file numbers to contents.
  A descriptor is a file number, so that clones of a segment share the file, and a file that
  is unlinked stays readable through a descriptor, while each clone keeps a write offset of
  its own. Which calls of the host fail is an argument \<open>faults\<close>; a write that succeeds writes
  all bytes. The clock is a source of readings with the number of readings taken so far.
\<close>

section \<open>Files\<close>

datatype fs_op =
    Preopens
  | CreateDirectory
  | OpenDirectory
  | OpenFile string
  | WriteFile nat nat
  | ReadFile nat
  | OpenStream nat
  | ReadStream nat
  | ReadDirectory
  | ReadDirectoryEntry nat
  | Unlink string

type_synonym faults = "fs_op \<Rightarrow> bool"

record files =
  fs_names :: "((string \<times> string) \<times> nat) list"
  fs_content :: "bytes list"

definition file_content :: "files \<Rightarrow> nat \<Rightarrow> bytes" where
  "file_content fs fd = (if fd < length (fs_content fs) then fs_content fs ! fd else [])"

text \<open>Writing at an offset; a gap after the end of the file is filled with zeros.\<close>

definition write_at :: "bytes \<Rightarrow> nat \<Rightarrow> bytes \<Rightarrow> bytes" where
  "write_at old off new =
     take off (old @ replicate (off - length old) 0) @ new @ drop (off + length new) old"

record WasiStore =
  ws_file_descriptor :: nat
  ws_current_write_offset :: nat
  ws_directory_path :: string
  ws_file_name :: string

type_synonym 'a fs_call = "(files, KvError, 'a) call"

definition store_open :: "faults \<Rightarrow> string \<Rightarrow> string \<Rightarrow> WasiStore fs_call" where
  "store_open faults file_path directory_path fs =
     (if faults Preopens \<or> faults CreateDirectory then (Panic, fs)
      else if faults OpenDirectory \<or> faults (OpenFile file_path) then (Err OpenFileError, fs)
      else
        (let store = \<lambda>fd. \<lparr>ws_file_descriptor = fd, ws_current_write_offset = 0,
               ws_directory_path = directory_path, ws_file_name = file_path\<rparr> in
         case map_of (fs_names fs) (directory_path, file_path) of
           Some fd \<Rightarrow> (Ok (store fd), fs)
         | None \<Rightarrow>
             (let fd = length (fs_content fs) in
              (Ok (store fd), fs\<lparr>fs_names := fs_names fs @ [((directory_path, file_path), fd)],
                                fs_content := fs_content fs @ [[]]\<rparr>))))"

definition store_append :: "faults \<Rightarrow> WasiStore \<Rightarrow> bytes \<Rightarrow> (nat \<times> WasiStore) fs_call" where
  "store_append faults ws bs fs =
     (let fd = ws_file_descriptor ws; offset = ws_current_write_offset ws in
      if faults (WriteFile fd offset) then (Err OpenFileError, fs)
      else (Ok (offset, ws\<lparr>ws_current_write_offset := offset + length bs\<rparr>),
            fs\<lparr>fs_content := (fs_content fs)[fd := write_at (file_content fs fd) offset bs]\<rparr>))"

definition store_read :: "faults \<Rightarrow> files \<Rightarrow> WasiStore \<Rightarrow> nat \<Rightarrow> nat \<Rightarrow> (KvError, bytes) res" where
  "store_read faults fs ws offset len =
     (if faults (ReadFile (ws_file_descriptor ws)) then Err OpenFileError
      else Ok (take len (drop offset (file_content fs (ws_file_descriptor ws)))))"

definition store_read_full :: "faults \<Rightarrow> files \<Rightarrow> WasiStore \<Rightarrow> (KvError, bytes) res" where
  "store_read_full faults fs ws =
     (if faults (OpenStream (ws_file_descriptor ws)) then Err OpenFileError
      else if faults (ReadStream (ws_file_descriptor ws)) then Err StreamError
      else Ok (file_content fs (ws_file_descriptor ws)))"

definition size_in_bytes :: "WasiStore \<Rightarrow> nat" where
  "size_in_bytes ws = ws_current_write_offset ws"

text \<open>The listing stops silently at the first entry that cannot be read.\<close>

fun read_entries :: "faults \<Rightarrow> nat \<Rightarrow> string list \<Rightarrow> string list" where
  "read_entries faults i [] = []"
| "read_entries faults i (name # names) =
     (if faults (ReadDirectoryEntry i) then [] else name # read_entries faults (Suc i) names)"

definition get_files :: "faults \<Rightarrow> files \<Rightarrow> string \<Rightarrow> (KvError, string list) res" where
  "get_files faults fs directory_path =
     (if faults Preopens then Panic
      else if faults OpenDirectory then Err OpenFileError
      else if faults ReadDirectory then Panic
      else Ok (read_entries faults 0
        (map (\<lambda>((_, name), _). name) (filter (\<lambda>((dir, _), _). dir = directory_path) (fs_names fs)))))"

definition store_remove :: "faults \<Rightarrow> WasiStore \<Rightarrow> unit fs_call" where
  "store_remove faults ws fs =
     (if faults Preopens then (Panic, fs)
      else if faults OpenDirectory \<or> faults (Unlink (ws_file_name ws)) then (Ok (), fs)
      else (Ok (), fs\<lparr>fs_names := AList.delete (ws_directory_path ws, ws_file_name ws) (fs_names fs)\<rparr>))"

section \<open>Clock\<close>

record clock =
  ck_wall :: "nat \<Rightarrow> u64"
  ck_monotonic :: "nat \<Rightarrow> u64"
  ck_ticks :: nat

definition clock_now :: "clock \<Rightarrow> u64 \<times> clock" where
  "clock_now c = (ck_wall c (ck_ticks c), c\<lparr>ck_ticks := Suc (ck_ticks c)\<rparr>)"

definition monotonic_now :: "clock \<Rightarrow> u64 \<times> clock" where
  "monotonic_now c = (ck_monotonic c (ck_ticks c), c\<lparr>ck_ticks := Suc (ck_ticks c)\<rparr>)"

text \<open>\<^verbatim>\<open>TimestampBasedFileIdGenerator::next\<close>\<close>

definition next_file_id :: "clock \<Rightarrow> u64 \<times> clock" where
  "next_file_id c = monotonic_now c"

section \<open>One segment\<close>

definition SEGMENT_FILE_PREFIX :: string where "SEGMENT_FILE_PREFIX = ''bitcask''"
definition SEGMENT_FILE_SUFFIX :: string where "SEGMENT_FILE_SUFFIX = ''data''"

definition segment_name :: "u64 \<Rightarrow> string" where
  "segment_name file_id = show_nat (unat file_id) @ ''_'' @ SEGMENT_FILE_PREFIX @ ''.'' @ SEGMENT_FILE_SUFFIX"

record AppendEntryResponse =
  ar_file_id :: u64
  ar_offset :: nat
  ar_entry_length :: nat

record Segment =
  sg_file_id :: u64
  sg_file_path :: string
  sg_store :: WasiStore

definition segment_new :: "faults \<Rightarrow> u64 \<Rightarrow> string \<Rightarrow> Segment fs_call" where
  "segment_new faults file_id directory =
     (let file_path = segment_name file_id in
      sbind (store_open faults file_path directory) (\<lambda>store.
        slift (Ok \<lparr>sg_file_id = file_id, sg_file_path = file_path, sg_store = store\<rparr>)))"

definition segment_append ::
    "faults \<Rightarrow> ('k \<Rightarrow> bytes) \<Rightarrow> u64 \<Rightarrow> Segment \<Rightarrow> 'k Entry \<Rightarrow> (AppendEntryResponse \<times> Segment) fs_call" where
  "segment_append faults serialize now seg entry =
     sbind (slift (encode serialize now entry)) (\<lambda>encoded.
     sbind (store_append faults (sg_store seg) encoded) (\<lambda>(offset, store).
       slift (Ok (\<lparr>ar_file_id = sg_file_id seg, ar_offset = offset, ar_entry_length = length encoded\<rparr>,
                  seg\<lparr>sg_store := store\<rparr>))))"

definition segment_read :: "faults \<Rightarrow> files \<Rightarrow> Segment \<Rightarrow> nat \<Rightarrow> nat \<Rightarrow> (KvError, StoredEntry) res" where
  "segment_read faults fs seg offset len = rbind (store_read faults fs (sg_store seg) offset len) decode"

definition segment_read_full ::
    "faults \<Rightarrow> files \<Rightarrow> (bytes \<Rightarrow> (KvError, 'k) res) \<Rightarrow> Segment \<Rightarrow> (KvError, 'k MappedStoredEntry list) res" where
  "segment_read_full faults fs key_mapper seg =
     rbind (store_read_full faults fs (sg_store seg)) (decode_multi key_mapper)"

definition segment_remove :: "faults \<Rightarrow> Segment \<Rightarrow> unit fs_call" where
  "segment_remove faults seg = store_remove faults (sg_store seg)"

section \<open>The segments\<close>

text \<open>
  \<^verbatim>\<open>inactive_segments\<close> is a hash map. Where the code iterates over it or over another hash
  map, the order is the argument \<open>ke_segment_order\<close> or \<open>ke_change_order\<close> of the environment.
\<close>

record Segments =
  ss_active :: Segment
  ss_inactive :: "(u64 \<times> Segment) list"
  ss_clock :: clock
  ss_max_segment_size_bytes :: u64
  ss_directory :: string

record 'k kv_env =
  ke_faults :: faults
  ke_serialize :: "'k \<Rightarrow> bytes"
  ke_key_mapper :: "bytes \<Rightarrow> (KvError, 'k) res"
  ke_segment_order :: "(u64 \<times> Segment) list \<Rightarrow> (u64 \<times> Segment) list"
  ke_change_order :: "('k \<times> 'k MappedStoredEntry) list \<Rightarrow> ('k \<times> 'k MappedStoredEntry) list"

type_synonym 'a seg_call = "(Segments \<times> files, KvError, 'a) call"

text \<open>A call on the files alone, inside a call on the segments.\<close>

definition on_files :: "'a fs_call \<Rightarrow> ('s \<times> files, KvError, 'a) call" where
  "on_files c = (\<lambda>(s, fs). case c fs of (r, fs') \<Rightarrow> (r, (s, fs')))"

definition fresh_file_id :: "u64 seg_call" where
  "fresh_file_id = (\<lambda>(ss, fs). case next_file_id (ss_clock ss) of (file_id, c) \<Rightarrow> (Ok file_id, (ss\<lparr>ss_clock := c\<rparr>, fs)))"

text \<open>The clock an entry holds is read only when the entry has no timestamp.\<close>

definition entry_now :: "'k Entry \<Rightarrow> u64 seg_call" where
  "entry_now e = (\<lambda>(ss, fs).
     if en_timestamp e = 0
     then (case clock_now (ss_clock ss) of (now, c) \<Rightarrow> (Ok now, (ss\<lparr>ss_clock := c\<rparr>, fs)))
     else (Ok 0, (ss, fs)))"

definition insert_inactive :: "Segment \<Rightarrow> Segments \<Rightarrow> Segments" where
  "insert_inactive seg ss = ss\<lparr>ss_inactive := hm_insert (sg_file_id seg) seg (ss_inactive ss)\<rparr>"

definition maybe_rollover_segment :: "faults \<Rightarrow> Segment \<Rightarrow> Segment option seg_call" where
  "maybe_rollover_segment faults seg = (\<lambda>(ss, fs).
     if int (size_in_bytes (sg_store seg)) \<ge> sint (ss_max_segment_size_bytes ss)
     then sbind fresh_file_id (\<lambda>file_id.
          sbind (on_files (segment_new faults file_id (ss_directory ss))) (\<lambda>new_segment.
            slift (Ok (Some new_segment)))) (ss, fs)
     else (Ok None, (ss, fs)))"

definition maybe_rollover_active_segment :: "faults \<Rightarrow> unit seg_call" where
  "maybe_rollover_active_segment faults = (\<lambda>(ss, fs).
     sbind (maybe_rollover_segment faults (ss_active ss)) (\<lambda>r.
       case r of
         None \<Rightarrow> slift (Ok ())
       | Some new_segment \<Rightarrow>
           smod (\<lambda>(ss, fs). ((insert_inactive (ss_active ss) ss)\<lparr>ss_active := new_segment\<rparr>, fs))) (ss, fs))"

definition append_active :: "'k kv_env \<Rightarrow> 'k Entry \<Rightarrow> AppendEntryResponse seg_call" where
  "append_active env entry =
     sbind (entry_now entry) (\<lambda>now. \<lambda>(ss, fs).
       sbind (on_files (segment_append (ke_faults env) (ke_serialize env) now (ss_active ss) entry))
         (\<lambda>(response, active). sbind (smod (\<lambda>(ss, fs). (ss\<lparr>ss_active := active\<rparr>, fs)))
           (\<lambda>_. slift (Ok response))) (ss, fs))"

definition segments_append :: "'k kv_env \<Rightarrow> 'k \<Rightarrow> bytes \<Rightarrow> AppendEntryResponse seg_call" where
  "segments_append env key value =
     sbind (maybe_rollover_active_segment (ke_faults env)) (\<lambda>_. append_active env (entry_new key value))"

definition segments_append_deleted :: "'k kv_env \<Rightarrow> 'k \<Rightarrow> AppendEntryResponse seg_call" where
  "segments_append_deleted env key =
     sbind (maybe_rollover_active_segment (ke_faults env)) (\<lambda>_. append_active env (entry_new_deleted key))"

definition segments_read ::
    "faults \<Rightarrow> Segments \<times> files \<Rightarrow> u64 \<Rightarrow> nat \<Rightarrow> nat \<Rightarrow> (KvError, StoredEntry) res" where
  "segments_read faults = (\<lambda>(ss, fs) file_id offset len.
     if file_id = sg_file_id (ss_active ss) then segment_read faults fs (ss_active ss) offset len
     else case hm_get (ss_inactive ss) file_id of
            Some seg \<Rightarrow> segment_read faults fs seg offset len
          | None \<Rightarrow> Err (FileNotFound file_id))"

fun read_segments ::
    "faults \<Rightarrow> files \<Rightarrow> (bytes \<Rightarrow> (KvError, 'k) res) \<Rightarrow> nat \<Rightarrow> (u64 \<times> Segment) list
     \<Rightarrow> (KvError, u64 list \<times> 'k MappedStoredEntry list list) res" where
  "read_segments faults fs key_mapper n [] = Ok ([], [])"
| "read_segments faults fs key_mapper n ((file_id, seg) # segs) =
     (if n = 0 then Ok ([], [])
      else rbind (segment_read_full faults fs key_mapper seg) (\<lambda>entries.
           rbind (read_segments faults fs key_mapper (n - 1) segs) (\<lambda>(file_ids, contents).
             Ok (file_id # file_ids, entries # contents))))"

definition read_inactive_segments ::
    "'k kv_env \<Rightarrow> Segments \<times> files \<Rightarrow> nat \<Rightarrow> (KvError, u64 list \<times> 'k MappedStoredEntry list list) res" where
  "read_inactive_segments env = (\<lambda>(ss, fs) total_segments.
     read_segments (ke_faults env) fs (ke_key_mapper env) total_segments
       (ke_segment_order env (ss_inactive ss)))"

definition read_all_inactive_segments ::
    "'k kv_env \<Rightarrow> Segments \<times> files \<Rightarrow> (KvError, u64 list \<times> 'k MappedStoredEntry list list) res" where
  "read_all_inactive_segments env st = read_inactive_segments env st (length (ss_inactive (fst st)))"

text \<open>Writing merged entries back: \<open>seg\<close> is the segment that is being filled.\<close>

fun write_back_loop ::
    "'k kv_env \<Rightarrow> Segment \<Rightarrow> ('k \<times> 'k MappedStoredEntry) list \<Rightarrow> ('k \<times> AppendEntryResponse) list seg_call" where
  "write_back_loop env seg [] = slift (Ok [])"
| "write_back_loop env seg ((key, value) # changes) =
     (let entry = entry_new_preserving_timestamp key (ms_value value) (ms_timestamp value) in
      sbind (entry_now entry) (\<lambda>now.
      sbind (on_files (segment_append (ke_faults env) (ke_serialize env) now seg entry)) (\<lambda>(response, seg).
      sbind (maybe_rollover_segment (ke_faults env) seg) (\<lambda>r.
      sbind (case r of
               None \<Rightarrow> write_back_loop env seg changes
             | Some new_segment \<Rightarrow>
                 sbind (smod (\<lambda>(ss, fs). (insert_inactive new_segment ss, fs)))
                   (\<lambda>_. write_back_loop env new_segment changes)) (\<lambda>responses.
        slift (Ok ((key, response) # responses)))))))"

definition segments_write_back ::
    "'k kv_env \<Rightarrow> ('k \<times> 'k MappedStoredEntry) list \<Rightarrow> ('k \<times> AppendEntryResponse) list seg_call" where
  "segments_write_back env changes = (\<lambda>(ss, fs).
     sbind fresh_file_id (\<lambda>file_id.
     sbind (on_files (segment_new (ke_faults env) file_id (ss_directory ss))) (\<lambda>seg.
     sbind (smod (\<lambda>(ss, fs). (insert_inactive seg ss, fs))) (\<lambda>_.
       write_back_loop env seg (ke_change_order env changes)))) (ss, fs))"

definition remove_active :: "faults \<Rightarrow> unit seg_call" where
  "remove_active faults = (\<lambda>(ss, fs). on_files (segment_remove faults (ss_active ss)) (ss, fs))"

fun remove_each :: "faults \<Rightarrow> Segment list \<Rightarrow> unit fs_call" where
  "remove_each faults [] = slift (Ok ())"
| "remove_each faults (seg # segs) = sbind (segment_remove faults seg) (\<lambda>_. remove_each faults segs)"

definition remove_all_inactive :: "'k kv_env \<Rightarrow> unit seg_call" where
  "remove_all_inactive env = (\<lambda>(ss, fs).
     sbind (on_files (remove_each (ke_faults env) (map snd (ke_segment_order env (ss_inactive ss)))))
       (\<lambda>_. smod (\<lambda>(ss, fs). (ss\<lparr>ss_inactive := []\<rparr>, fs))) (ss, fs))"

fun segments_remove :: "faults \<Rightarrow> u64 list \<Rightarrow> unit seg_call" where
  "segments_remove faults [] = slift (Ok ())"
| "segments_remove faults (file_id # file_ids) = (\<lambda>(ss, fs).
     case hm_get (ss_inactive ss) file_id of
       None \<Rightarrow> segments_remove faults file_ids (ss, fs)
     | Some seg \<Rightarrow>
         sbind (on_files (segment_remove faults seg)) (\<lambda>_. segments_remove faults file_ids)
           (ss\<lparr>ss_inactive := hm_remove file_id (ss_inactive ss)\<rparr>, fs))"

section \<open>Start-up\<close>

definition ends_with :: "string \<Rightarrow> string \<Rightarrow> bool" where
  "ends_with s suffix \<longleftrightarrow> length suffix \<le> length s \<and> drop (length s - length suffix) s = suffix"

definition reload_inactive_segment :: "faults \<Rightarrow> u64 \<Rightarrow> string \<Rightarrow> Segment fs_call" where
  "reload_inactive_segment faults file_id directory =
     (let file_path = segment_name file_id in
      sbind (store_open faults file_path directory) (\<lambda>store.
        slift (Ok \<lparr>sg_file_id = file_id, sg_file_path = file_path, sg_store = store\<rparr>)))"

fun reload_files :: "faults \<Rightarrow> string list \<Rightarrow> unit seg_call" where
  "reload_files faults [] = slift (Ok ())"
| "reload_files faults (entry # entries) = (\<lambda>(ss, fs).
     if ends_with entry (SEGMENT_FILE_PREFIX @ ''.'' @ SEGMENT_FILE_SUFFIX) then
       (case parse_u64 (takeWhile (\<lambda>c. c \<noteq> CHR ''_'') entry) of
          None \<Rightarrow> (Err ParseError, (ss, fs))
        | Some file_id \<Rightarrow>
            if file_id \<noteq> sg_file_id (ss_active ss) then
              sbind (on_files (reload_inactive_segment faults file_id (ss_directory ss))) (\<lambda>seg.
              sbind (smod (\<lambda>(ss, fs). (ss\<lparr>ss_inactive := hm_insert file_id seg (ss_inactive ss)\<rparr>, fs)))
                (\<lambda>_. reload_files faults entries)) (ss, fs)
            else reload_files faults entries (ss, fs))
     else reload_files faults entries (ss, fs))"

definition segments_reload :: "faults \<Rightarrow> unit seg_call" where
  "segments_reload faults = (\<lambda>(ss, fs).
     sbind (slift (get_files faults fs (ss_directory ss))) (reload_files faults) (ss, fs))"

definition segments_new :: "faults \<Rightarrow> string \<Rightarrow> u64 \<Rightarrow> clock \<Rightarrow> Segments fs_call" where
  "segments_new faults directory max_segment_size_bytes clk = (\<lambda>fs.
     case next_file_id clk of (file_id, clk) \<Rightarrow>
       sbind (segment_new faults file_id directory) (\<lambda>active fs.
         case segments_reload faults
                (\<lparr>ss_active = active, ss_inactive = [], ss_clock = clk,
                  ss_max_segment_size_bytes = max_segment_size_bytes, ss_directory = directory\<rparr>, fs) of
           (Ok _, (ss, fs)) \<Rightarrow> (Ok ss, fs)
         | (Err e, (_, fs)) \<Rightarrow> (Err e, fs)
         | (Panic, (_, fs)) \<Rightarrow> (Panic, fs)) fs)"

end
