(* ===== verification/KV_Store.thy ===== *)
theory KV_Store
  imports KV_Segments Node_Error
begin

text \<open>
  The key-value store itself: merging (\<^verbatim>\<open>crates/kv/src/merged_state.rs\<close>), its
  configuration (\<^verbatim>\<open>merge_config.rs\<close>, \<^verbatim>\<open>config.rs\<close>), the in-memory directory of keys
  (\<^verbatim>\<open>key_directory.rs\<close>), the store (\<^verbatim>\<open>kvstore.rs\<close>) and the component's exports
  (\<^verbatim>\<open>lib.rs\<close>). The state of an operation is the store with the files. The lock is
  uncontended in a single-threaded component and a \<^verbatim>\<open>sync\<close> has no effect on what is read, so
  neither appears.
\<close>

section \<open>Merging\<close>

type_synonym 'k entries = "('k \<times> 'k MappedStoredEntry) list"

record 'k MergedState =
  mg_value_by_key :: "'k entries"
  mg_deleted_keys :: "'k entries"

definition merged_state_new :: "'k MergedState" where
  "merged_state_new = \<lparr>mg_value_by_key = [], mg_deleted_keys = []\<rparr>"

definition take_entry :: "'k MappedStoredEntry \<Rightarrow> 'k MergedState \<Rightarrow> 'k MergedState" where
  "take_entry e m =
     (if ms_deleted e then m\<lparr>mg_deleted_keys := hm_insert (ms_key e) e (mg_deleted_keys m)\<rparr>
      else m\<lparr>mg_value_by_key := hm_insert (ms_key e) e (mg_value_by_key m)\<rparr>)"

definition take_all :: "'k MappedStoredEntry list \<Rightarrow> 'k MergedState \<Rightarrow> 'k MergedState" where
  "take_all entries m = fold take_entry entries m"

definition maybe_update :: "'k MappedStoredEntry \<Rightarrow> 'k MappedStoredEntry \<Rightarrow> 'k MergedState \<Rightarrow> 'k MergedState" where
  "maybe_update existing new m =
     (if ms_timestamp new > ms_timestamp existing then
        (if ms_deleted new then m\<lparr>mg_value_by_key := hm_remove (ms_key existing) (mg_value_by_key m)\<rparr>
         else m\<lparr>mg_value_by_key := hm_insert (ms_key existing) new (mg_value_by_key m)\<rparr>)
      else m)"

definition merge_entry :: "'k MappedStoredEntry \<Rightarrow> 'k MergedState \<Rightarrow> 'k MergedState" where
  "merge_entry new m =
     (case hm_get (mg_value_by_key m) (ms_key new) of
        Some existing \<Rightarrow> maybe_update existing new m
      | None \<Rightarrow>
          (case hm_get (mg_deleted_keys m) (ms_key new) of
             Some deleted \<Rightarrow>
               maybe_update deleted new (m\<lparr>mg_deleted_keys := hm_remove (ms_key new) (mg_deleted_keys m)\<rparr>)
           | None \<Rightarrow> m\<lparr>mg_value_by_key := hm_insert (ms_key new) new (mg_value_by_key m)\<rparr>))"

definition merge_with :: "'k MappedStoredEntry list \<Rightarrow> 'k MergedState \<Rightarrow> 'k MergedState" where
  "merge_with entries m = fold merge_entry entries m"

definition merge :: "'k MappedStoredEntry list \<Rightarrow> 'k MappedStoredEntry list \<Rightarrow> 'k MergedState \<Rightarrow> 'k MergedState" where
  "merge entries other_entries m = merge_with other_entries (take_all entries m)"

section \<open>Configuration\<close>

text \<open>The key mapper of the configuration is part of the environment.\<close>

record MergeConfig =
  mc_total_segments_to_read :: nat
  mc_should_read_all_segments :: bool
  mc_run_merge_every :: u64

definition merge_config_new :: "nat \<Rightarrow> MergeConfig" where
  "merge_config_new total_segments_to_read =
     \<lparr>mc_total_segments_to_read = total_segments_to_read, mc_should_read_all_segments = False,
      mc_run_merge_every = 1000\<rparr>"

definition merge_config_new_with_duration :: "nat \<Rightarrow> u64 \<Rightarrow> MergeConfig" where
  "merge_config_new_with_duration total_segments_to_read run_merge_every =
     \<lparr>mc_total_segments_to_read = total_segments_to_read, mc_should_read_all_segments = False,
      mc_run_merge_every = run_merge_every\<rparr>"

definition new_with_all_segments_to_read :: MergeConfig where
  "new_with_all_segments_to_read =
     \<lparr>mc_total_segments_to_read = 0, mc_should_read_all_segments = True, mc_run_merge_every = 1000\<rparr>"

definition new_with_all_segments_to_read_every_fixed_duration :: "u64 \<Rightarrow> MergeConfig" where
  "new_with_all_segments_to_read_every_fixed_duration run_merge_every =
     \<lparr>mc_total_segments_to_read = 0, mc_should_read_all_segments = True,
      mc_run_merge_every = run_merge_every\<rparr>"

record KvConfig =
  cf_directory :: string
  cf_max_segment_size_bytes :: u64
  cf_key_directory_capacity :: u64
  cf_merge_config :: "MergeConfig option"
  cf_clock :: clock

section \<open>The directory of keys\<close>

record KeyEntry =
  kd_file_id :: u64
  kd_offset :: nat
  kd_entry_length :: nat

type_synonym 'k KeyDirectory = "('k \<times> KeyEntry) list"

definition key_entry_from :: "AppendEntryResponse \<Rightarrow> KeyEntry" where
  "key_entry_from r =
     \<lparr>kd_file_id = ar_file_id r, kd_offset = ar_offset r, kd_entry_length = ar_entry_length r\<rparr>"

definition directory_reload :: "u64 \<Rightarrow> 'k MappedStoredEntry list \<Rightarrow> 'k KeyDirectory \<Rightarrow> 'k KeyDirectory" where
  "directory_reload file_id entries d =
     fold (\<lambda>e. hm_insert (ms_key e)
       \<lparr>kd_file_id = file_id, kd_offset = ms_key_offset e, kd_entry_length = ms_entry_length e\<rparr>) entries d"

definition bulk_update :: "('k \<times> AppendEntryResponse) list \<Rightarrow> 'k KeyDirectory \<Rightarrow> 'k KeyDirectory" where
  "bulk_update changes d = fold (\<lambda>(key, r). hm_insert key (key_entry_from r)) changes d"

section \<open>The store\<close>

record 'k KVStore =
  kv_segments :: Segments
  kv_key_directory :: "'k KeyDirectory"
  kv_merge_config :: MergeConfig
  kv_counter :: u64

type_synonym ('k, 'a) kv_call = "('k KVStore \<times> files, KvError, 'a) call"

definition on_segments :: "'a seg_call \<Rightarrow> ('k, 'a) kv_call" where
  "on_segments c = (\<lambda>(s, fs). case c (kv_segments s, fs) of (r, (ss, fs')) \<Rightarrow> (r, (s\<lparr>kv_segments := ss\<rparr>, fs')))"

definition upd :: "('k KVStore \<Rightarrow> 'k KVStore) \<Rightarrow> ('k, unit) kv_call" where
  "upd f = smod (\<lambda>(s, fs). (f s, fs))"

definition kv_write_back :: "'k kv_env \<Rightarrow> u64 list \<Rightarrow> 'k entries \<Rightarrow> ('k, unit) kv_call" where
  "kv_write_back env file_ids changes =
     sbind (on_segments (segments_write_back env changes)) (\<lambda>responses.
     sbind (upd (\<lambda>s. s\<lparr>kv_key_directory := bulk_update responses (kv_key_directory s)\<rparr>)) (\<lambda>_.
       on_segments (segments_remove (ke_faults env) file_ids)))"

text \<open>The result of writing back is ignored; a panic is not.\<close>

definition ignore_error :: "('k, 'a) kv_call \<Rightarrow> ('k, unit) kv_call" where
  "ignore_error c = (\<lambda>st. case c st of (Panic, st') \<Rightarrow> (Panic, st') | (_, st') \<Rightarrow> (Ok (), st'))"

definition begin_merge :: "'k kv_env \<Rightarrow> ('k, unit) kv_call" where
  "begin_merge env = (\<lambda>(s, fs).
     sbind (slift
       (if mc_should_read_all_segments (kv_merge_config s)
        then read_all_inactive_segments env (kv_segments s, fs)
        else read_inactive_segments env (kv_segments s, fs) (mc_total_segments_to_read (kv_merge_config s))))
     (\<lambda>(file_ids, segments).
        case segments of
          first # second # rest \<Rightarrow>
            (let merged_state = fold merge_with (second # rest) (take_all first merged_state_new) in
             ignore_error (kv_write_back env file_ids (mg_value_by_key merged_state)))
        | _ \<Rightarrow> slift (Ok ())) (s, fs))"

definition kv_put :: "'k kv_env \<Rightarrow> 'k \<Rightarrow> bytes \<Rightarrow> ('k, unit) kv_call" where
  "kv_put env key value = (\<lambda>(s, fs).
     sbind (if kv_counter s \<ge> mc_run_merge_every (kv_merge_config s)
            then sbind (begin_merge env) (\<lambda>_. upd (\<lambda>s. s\<lparr>kv_counter := 0\<rparr>))
            else slift (Ok ())) (\<lambda>_.
     sbind (on_segments (segments_append env key value)) (\<lambda>response.
       upd (\<lambda>s. s\<lparr>kv_key_directory := hm_insert key (key_entry_from response) (kv_key_directory s),
                  kv_counter := kv_counter s + 1\<rparr>))) (s, fs))"

definition kv_update :: "'k kv_env \<Rightarrow> 'k \<Rightarrow> bytes \<Rightarrow> ('k, unit) kv_call" where
  "kv_update env key value = kv_put env key value"

definition kv_delete :: "'k kv_env \<Rightarrow> 'k \<Rightarrow> ('k, unit) kv_call" where
  "kv_delete env key =
     sbind (on_segments (segments_append_deleted env key)) (\<lambda>_.
       upd (\<lambda>s. s\<lparr>kv_key_directory := hm_remove key (kv_key_directory s)\<rparr>))"

definition kv_get :: "faults \<Rightarrow> 'k KVStore \<times> files \<Rightarrow> 'k \<Rightarrow> (KvError, bytes) res" where
  "kv_get faults = (\<lambda>(s, fs) key.
     case hm_get (kv_key_directory s) key of
       Some entry \<Rightarrow>
         rbind (segments_read faults (kv_segments s, fs) (kd_file_id entry) (kd_offset entry)
                  (kd_entry_length entry)) (\<lambda>stored. Ok (se_value stored))
     | None \<Rightarrow> Err EntryNotFound)"

definition clear_log :: "'k kv_env \<Rightarrow> ('k, unit) kv_call" where
  "clear_log env =
     sbind (on_segments (remove_active (ke_faults env))) (\<lambda>_. on_segments (remove_all_inactive env))"

fun reload_segments ::
    "faults \<Rightarrow> files \<Rightarrow> (bytes \<Rightarrow> (KvError, 'k) res) \<Rightarrow> (u64 \<times> Segment) list \<Rightarrow> 'k KeyDirectory
     \<Rightarrow> (KvError, 'k KeyDirectory) res" where
  "reload_segments faults fs key_mapper [] d = Ok d"
| "reload_segments faults fs key_mapper ((file_id, seg) # segs) d =
     rbind (segment_read_full faults fs key_mapper seg) (\<lambda>entries.
       reload_segments faults fs key_mapper segs (directory_reload file_id entries d))"

definition kv_new :: "'k kv_env \<Rightarrow> KvConfig \<Rightarrow> 'k KVStore fs_call" where
  "kv_new env config =
     sbind (segments_new (ke_faults env) (cf_directory config) (cf_max_segment_size_bytes config)
              (cf_clock config)) (\<lambda>segments.
       (case cf_merge_config config of
          None \<Rightarrow> slift Panic
        | Some merge_config \<Rightarrow> (\<lambda>fs.
            (rbind (reload_segments (ke_faults env) fs (ke_key_mapper env)
                      (ke_segment_order env (ss_inactive segments)) []) (\<lambda>d.
               Ok \<lparr>kv_segments = segments, kv_key_directory = d, kv_merge_config = merge_config,
                   kv_counter = 0\<rparr>), fs))))"

section \<open>The exported interface\<close>

fun guest_error_from :: "KvError \<Rightarrow> GuestError" where
  "guest_error_from OpenFileError = GE_OpenFileError"
| "guest_error_from StreamError = GE_StreamError"
| "guest_error_from EntryNotFound = GE_EntryNotFound"
| "guest_error_from InvalidData = GE_InvalidData"
| "guest_error_from ParseError = GE_ParseError"
| "guest_error_from (FileNotFound error_code) = GE_FileNotFound error_code"

definition guest_kv_insert ::
    "UUIDWasiKey kv_env \<Rightarrow> UUIDWasiKey \<Rightarrow> bytes \<Rightarrow> (UUIDWasiKey KVStore \<times> files, GuestError, unit) call" where
  "guest_kv_insert env key value st =
     (case kv_update env key value st of (r, st') \<Rightarrow> (rmap_err guest_error_from r, st'))"

definition guest_kv_get ::
    "faults \<Rightarrow> UUIDWasiKey KVStore \<times> files \<Rightarrow> UUIDWasiKey \<Rightarrow> (GuestError, bytes) res" where
  "guest_kv_get faults st key = rmap_err guest_error_from (kv_get faults st key)"

definition guest_kv_delete ::
    "UUIDWasiKey kv_env \<Rightarrow> UUIDWasiKey \<Rightarrow> (UUIDWasiKey KVStore \<times> files, GuestError, unit) call" where
  "guest_kv_delete env key st =
     (case kv_delete env key st of (r, st') \<Rightarrow> (rmap_err guest_error_from r, st'))"

definition guest_kv_config :: "clock \<Rightarrow> KvConfig" where
  "guest_kv_config clk =
     \<lparr>cf_directory = ''bitcoin-wasm'', cf_max_segment_size_bytes = 1048576,
      cf_key_directory_capacity = 1024, cf_merge_config = Some new_with_all_segments_to_read,
      cf_clock = clk\<rparr>"

definition guest_kv_new :: "UUIDWasiKey kv_env \<Rightarrow> clock \<Rightarrow> UUIDWasiKey KVStore fs_call" where
  "guest_kv_new env clk = (\<lambda>fs. case kv_new env (guest_kv_config clk) fs of (r, fs') \<Rightarrow> (unwrap r, fs'))"

end
