(* ===== verification/KV_Correct.thy ===== *)
theory KV_Correct
  imports KV_Store "HOL-Library.Code_Target_Nat"
begin

text \<open>
  What the key-value store guarantees. Between two merges the store is a map: an insertion
  binds its key and no other, a deletion removes its key and no other, and an operation that
  fails changes nothing that can be read, also across a change of the active segment. The
  invariant and the relation \<open>grows\<close> (every segment stays where it is and its file only grows)
  carry the proof.
\<close>

section \<open>Invariant\<close>

abbreviation seg_fd :: "Segment \<Rightarrow> nat" where
  "seg_fd seg \<equiv> ws_file_descriptor (sg_store seg)"

definition seg_at :: "Segments \<Rightarrow> u64 \<Rightarrow> Segment option" where
  "seg_at ss file_id =
     (if file_id = sg_file_id (ss_active ss) then Some (ss_active ss) else hm_get (ss_inactive ss) file_id)"

definition segs_ok :: "Segments \<times> files \<Rightarrow> bool" where
  "segs_ok = (\<lambda>(ss, fs).
     hm_ok (ss_inactive ss)
     \<and> (\<forall>file_id seg. seg_at ss file_id = Some seg \<longrightarrow> seg_fd seg < length (fs_content fs))
     \<and> ws_current_write_offset (sg_store (ss_active ss)) = length (file_content fs (seg_fd (ss_active ss))))"

text \<open>The next reading of the monotonic clock names no segment and no file yet.\<close>

definition fresh :: "Segments \<times> files \<Rightarrow> bool" where
  "fresh = (\<lambda>(ss, fs).
     let file_id = ck_monotonic (ss_clock ss) (ck_ticks (ss_clock ss)) in
     seg_at ss file_id = None \<and> map_of (fs_names fs) (ss_directory ss, segment_name file_id) = None)"

definition in_range :: "Segments \<times> files \<Rightarrow> KeyEntry \<Rightarrow> bool" where
  "in_range = (\<lambda>(ss, fs) e.
     \<exists>seg. seg_at ss (kd_file_id e) = Some seg
       \<and> kd_offset e + kd_entry_length e \<le> length (file_content fs (seg_fd seg)))"

definition kv_ok :: "'k KVStore \<times> files \<Rightarrow> bool" where
  "kv_ok = (\<lambda>(s, fs).
     segs_ok (kv_segments s, fs) \<and> hm_ok (kv_key_directory s)
     \<and> (\<forall>k e. hm_get (kv_key_directory s) k = Some e \<longrightarrow> in_range (kv_segments s, fs) e))"

section \<open>Growth\<close>

definition grows :: "Segments \<times> files \<Rightarrow> Segments \<times> files \<Rightarrow> bool" where
  "grows = (\<lambda>(ss, fs) (ss', fs').
     \<forall>file_id seg. seg_at ss file_id = Some seg \<longrightarrow>
       (\<exists>seg' more. seg_at ss' file_id = Some seg' \<and> seg_fd seg' = seg_fd seg
          \<and> file_content fs' (seg_fd seg) = file_content fs (seg_fd seg) @ more))"

lemma grows_refl [simp]: "grows st st"
  by (auto simp: grows_def)

lemma grows_trans: "grows st1 st2 \<Longrightarrow> grows st2 st3 \<Longrightarrow> grows st1 st3"
  by (fastforce simp: grows_def)

lemma segments_read_seg_at:
  "segments_read faults (ss, fs) file_id offset len =
     (case seg_at ss file_id of Some seg \<Rightarrow> segment_read faults fs seg offset len
      | None \<Rightarrow> Err (FileNotFound file_id))"
  by (simp add: segments_read_def seg_at_def)

lemma grows_read:
  assumes "grows st st'" and "in_range st e"
  shows "segments_read faults st' (kd_file_id e) (kd_offset e) (kd_entry_length e)
       = segments_read faults st (kd_file_id e) (kd_offset e) (kd_entry_length e)"
  using assms
  by (cases st; cases st')
    (fastforce simp: segments_read_seg_at grows_def in_range_def segment_read_def store_read_def)

lemma grows_in_range: "grows st st' \<Longrightarrow> in_range st e \<Longrightarrow> in_range st' e"
  by (cases st; cases st') (fastforce simp: grows_def in_range_def)

section \<open>Steps of the segments\<close>

lemma file_content_append_new [simp]:
  "fd < length (fs_content fs) \<Longrightarrow> file_content (fs\<lparr>fs_names := n, fs_content := fs_content fs @ [[]]\<rparr>) fd = file_content fs fd"
  by (simp add: file_content_def nth_append)

lemma segment_new_cases:
  assumes "segment_new faults file_id dir fs = (r, fs')"
  shows "(\<exists>seg. r = Ok seg \<and> sg_file_id seg = file_id \<and> ws_current_write_offset (sg_store seg) = 0
            \<and> (map_of (fs_names fs) (dir, segment_name file_id) = None \<longrightarrow>
                 seg_fd seg = length (fs_content fs) \<and> fs_content fs' = fs_content fs @ [[]]))
         \<or> (r = Err OpenFileError \<or> r = Panic) \<and> fs' = fs"
  using assms
  by (auto simp: segment_new_def store_open_def sbind_def Let_def split: if_splits option.splits prod.splits res.splits)

lemma rollover_cases:
  assumes "maybe_rollover_active_segment faults (ss, fs) = (r, st')"
  obtains "r = Ok ()" and "st' = (ss, fs)"
  | seg fs' where "segment_new faults (fst (next_file_id (ss_clock ss))) (ss_directory ss) fs = (Ok seg, fs')"
      and "r = Ok ()"
      and "st' = (ss\<lparr>ss_clock := snd (next_file_id (ss_clock ss)),
             ss_inactive := hm_insert (sg_file_id (ss_active ss)) (ss_active ss) (ss_inactive ss),
             ss_active := seg\<rparr>, fs')"
  | e fs' where "segment_new faults (fst (next_file_id (ss_clock ss))) (ss_directory ss) fs = (Err e, fs')"
      and "r = Err e" and "st' = (ss\<lparr>ss_clock := snd (next_file_id (ss_clock ss))\<rparr>, fs')"
  | fs' where "segment_new faults (fst (next_file_id (ss_clock ss))) (ss_directory ss) fs = (Panic, fs')"
      and "r = Panic" and "st' = (ss\<lparr>ss_clock := snd (next_file_id (ss_clock ss))\<rparr>, fs')"
proof -
  obtain file_id c where n: "next_file_id (ss_clock ss) = (file_id, c)" by (cases "next_file_id (ss_clock ss)")
  obtain q fs' where q: "segment_new faults file_id (ss_directory ss) fs = (q, fs')"
    by (cases "segment_new faults file_id (ss_directory ss) fs")
  show ?thesis
    using assms that n q
    by (cases q) (auto simp: maybe_rollover_active_segment_def maybe_rollover_segment_def fresh_file_id_def
        on_files_def sbind_def insert_inactive_def split: if_splits)
qed

lemma seg_at_clock [simp]: "seg_at (ss\<lparr>ss_clock := c\<rparr>) = seg_at ss"
  by (simp add: seg_at_def fun_eq_iff)

lemma segs_ok_clock: "segs_ok (ss, fs) \<Longrightarrow> segs_ok (ss\<lparr>ss_clock := c\<rparr>, fs)"
  by (simp add: segs_ok_def)

lemma grows_clock: "grows (ss, fs) (ss\<lparr>ss_clock := c\<rparr>, fs)"
  by (simp add: grows_def)

text \<open>Starting a new active segment keeps every segment readable.\<close>

lemma rollover_ok:
  assumes "maybe_rollover_active_segment faults st = (r, st')" and "segs_ok st" and "fresh st"
  shows "segs_ok st' \<and> grows st st'"
proof -
  obtain ss fs where st: "st = (ss, fs)" by (cases st)
  define file_id where "file_id = fst (next_file_id (ss_clock ss))"
  have free: "seg_at ss file_id = None" "map_of (fs_names fs) (ss_directory ss, segment_name file_id) = None"
    using assms(3) by (simp_all add: st fresh_def file_id_def next_file_id_def monotonic_now_def Let_def)
  from assms(1) [unfolded st] show ?thesis
  proof (cases rule: rollover_cases)
    case 1
    then show ?thesis using assms(2) by (simp add: st)
  next
    case (2 seg fs')
    from segment_new_cases [OF 2(1) [folded file_id_def]] free(2)
    have seg: "sg_file_id seg = file_id" "ws_current_write_offset (sg_store seg) = 0"
      "seg_fd seg = length (fs_content fs)" "fs_content fs' = fs_content fs @ [[]]" by auto
    have old: "file_content fs' fd = file_content fs fd" if "fd < length (fs_content fs)" for fd
      using that seg(4) by (simp add: file_content_def nth_append)
    have at: "seg_at (fst st') i = (if i = file_id then Some seg else seg_at ss i)" for i
      using assms(2) free(1) seg(1)
      by (auto simp: 2(3) seg_at_def hm.get_ins segs_ok_def st)
    have bound: "seg_fd s < length (fs_content fs)" if "seg_at ss i = Some s" for i s
      using assms(2) that by (auto simp: segs_ok_def st)
    have "segs_ok st'"
      using assms(2) at bound seg
      by (auto simp: 2(3) segs_ok_def st hm.ok_ins file_content_def nth_append less_Suc_eq split: if_splits)
    moreover have "grows (ss, fs) st'"
      using at bound old free(1) by (auto simp: 2(3) grows_def)
    ultimately show ?thesis by (simp add: st)
  next
    case (3 e fs')
    then have "fs' = fs" using segment_new_cases by blast
    with 3 show ?thesis using assms(2) by (simp add: st segs_ok_clock grows_clock)
  next
    case (4 fs')
    then have "fs' = fs" using segment_new_cases by blast
    with 4 show ?thesis using assms(2) by (simp add: st segs_ok_clock grows_clock)
  qed
qed

abbreviation no_faults :: faults where
  "no_faults \<equiv> \<lambda>_. False"

lemma write_at_end [simp]: "write_at old (length old) new = old @ new"
  by (simp add: write_at_def)

lemma append_active_cases:
  assumes "append_active env e (ss, fs) = (r, st')"
  obtains (appended) now c bs where "encode (ke_serialize env) now e = (Ok bs :: (KvError, bytes) res)"
      and "r = Ok \<lparr>ar_file_id = sg_file_id (ss_active ss),
             ar_offset = ws_current_write_offset (sg_store (ss_active ss)), ar_entry_length = length bs\<rparr>"
      and "st' = (ss\<lparr>ss_clock := c, ss_active := (ss_active ss)\<lparr>sg_store := (sg_store (ss_active ss))
             \<lparr>ws_current_write_offset := ws_current_write_offset (sg_store (ss_active ss)) + length bs\<rparr>\<rparr>\<rparr>,
           fs\<lparr>fs_content := (fs_content fs)[seg_fd (ss_active ss) :=
             write_at (file_content fs (seg_fd (ss_active ss)))
               (ws_current_write_offset (sg_store (ss_active ss))) bs]\<rparr>)"
  | (failed) c where "r = Err OpenFileError \<or> r = Panic" and "st' = (ss\<lparr>ss_clock := c\<rparr>, fs)"
proof -
  obtain now c where n: "entry_now e (ss, fs) = (Ok now, (ss\<lparr>ss_clock := c\<rparr>, fs))"
  proof (cases "en_timestamp e = 0")
    case True
    then show ?thesis using that by (simp add: entry_now_def clock_now_def)
  next
    case False
    then show ?thesis using that [of 0 "ss_clock ss"] by (simp add: entry_now_def)
  qed
  show ?thesis
  proof (cases "encode (ke_serialize env) now e :: (KvError, bytes) res")
    case (Ok bs)
    then show ?thesis
      using assms n appended [of now bs c] failed [of c]
      by (auto simp: append_active_def on_files_def segment_append_def store_append_def sbind_def Let_def
          split: if_splits)
  next
    case Panic
    then show ?thesis
      using assms n failed [of c] by (auto simp: append_active_def on_files_def segment_append_def sbind_def)
  qed (simp add: encode_def Let_def split: if_splits)
qed

lemma append_active_ok:
  assumes "append_active env e st = (r, st')" and "segs_ok st"
  shows "segs_ok st' \<and> grows st st' \<and>
     (\<forall>resp. r = Ok resp \<longrightarrow> in_range st' (key_entry_from resp) \<and>
        (\<exists>now. segments_read no_faults st' (ar_file_id resp) (ar_offset resp) (ar_entry_length resp)
           = Ok (stored_of (ke_serialize env) now e)))"
proof -
  obtain ss fs where st: "st = (ss, fs)" by (cases st)
  from assms(1) [unfolded st] show ?thesis
  proof (cases rule: append_active_cases)
    case (appended now c bs)
    define fd where "fd = seg_fd (ss_active ss)"
    define old where "old = file_content fs fd"
    have "seg_at ss (sg_file_id (ss_active ss)) = Some (ss_active ss)" by (simp add: seg_at_def)
    then have fd: "fd < length (fs_content fs)"
      using assms(2) unfolding segs_ok_def st fd_def by blast
    have off: "ws_current_write_offset (sg_store (ss_active ss)) = length old"
      using assms(2) by (simp add: segs_ok_def st old_def fd_def)
    obtain ss' fs' where st': "st' = (ss', fs')" by (cases st')
    have content: "file_content fs' i = (if i = fd then old @ bs else file_content fs i)" for i
      using appended(3) fd by (simp add: st' off file_content_def fd_def [symmetric] old_def [symmetric])
        (simp add: old_def file_content_def)
    have len: "length (fs_content fs') = length (fs_content fs)"
      using appended(3) by (simp add: st')
    have active: "sg_file_id (ss_active ss') = sg_file_id (ss_active ss)" "seg_fd (ss_active ss') = fd"
      "ws_current_write_offset (sg_store (ss_active ss')) = length old + length bs"
      and inactive: "ss_inactive ss' = ss_inactive ss"
      using appended(3) off by (simp_all add: st' fd_def)
    have at: "seg_at ss' i = (if i = sg_file_id (ss_active ss) then Some (ss_active ss') else seg_at ss i)" for i
      by (simp add: seg_at_def active inactive)
    have "segs_ok st'"
      using assms(2) active len fd
      by (auto simp: segs_ok_def st st' inactive content at split: if_splits)
    moreover have "grows st st'"
      using at active by (auto simp: grows_def st st' content seg_at_def old_def fd_def)
    moreover have "in_range st' (key_entry_from resp)" if "r = Ok resp" for resp
      using that appended(2) at active off by (auto simp: in_range_def st' key_entry_from_def content)
    moreover have "segments_read no_faults st' (ar_file_id resp) (ar_offset resp) (ar_entry_length resp)
        = Ok (stored_of (ke_serialize env) now e)" if "r = Ok resp" for resp
      using that appended(1,2) at active off decode_encode [OF appended(1)]
      by (auto simp: st' segments_read_seg_at segment_read_def store_read_def content)
    ultimately show ?thesis by blast
  next
    case (failed c)
    then show ?thesis using assms(2) by (auto simp: st segs_ok_clock grows_clock)
  qed
qed

text \<open>An append, of a value or of a tombstone, with the change of segment it may cause.\<close>

lemma segments_append_entry_ok:
  assumes "sbind (maybe_rollover_active_segment (ke_faults env)) (\<lambda>_. append_active env e) st = (r, st')"
    and "segs_ok st" and "fresh st"
  shows "segs_ok st' \<and> grows st st' \<and>
     (\<forall>resp. r = Ok resp \<longrightarrow> in_range st' (key_entry_from resp) \<and>
        (\<exists>now. segments_read no_faults st' (ar_file_id resp) (ar_offset resp) (ar_entry_length resp)
           = Ok (stored_of (ke_serialize env) now e)))"
proof -
  obtain q st1 where q: "maybe_rollover_active_segment (ke_faults env) st = (q, st1)"
    by (cases "maybe_rollover_active_segment (ke_faults env) st")
  note step = rollover_ok [OF q assms(2,3)]
  show ?thesis
  proof (cases q)
    case (Ok u)
    then have "append_active env e st1 = (r, st')" using assms(1) q by simp
    from append_active_ok [OF this] step show ?thesis by (blast intro: grows_trans)
  qed (use assms(1) q step in auto)
qed

section \<open>Operations of the store\<close>

text \<open>Reading is unaffected by a step that lets the segments grow and leaves the key's entry alone.\<close>

lemma kv_get_grows:
  assumes "kv_ok (s, fs)" and "grows (kv_segments s, fs) (ss', fs')"
    and "hm_get d k = hm_get (kv_key_directory s) k"
  shows "kv_get faults (s'\<lparr>kv_segments := ss', kv_key_directory := d\<rparr>, fs') k = kv_get faults (s, fs) k"
proof (cases "hm_get (kv_key_directory s) k")
  case (Some e)
  then have "in_range (kv_segments s, fs) e" using assms(1) by (simp add: kv_ok_def)
  with Some show ?thesis using assms(3) grows_read [OF assms(2)] by (simp add: kv_get_def)
qed (simp add: kv_get_def assms(3))

text \<open>A put that does not start a merge.\<close>

lemma kv_put_step:
  assumes "kv_put env k v (s, fs) = (r, st')" and "kv_counter s < mc_run_merge_every (kv_merge_config s)"
  obtains q ss' fs' where "segments_append env k v (kv_segments s, fs) = (q, (ss', fs'))"
    and "(\<exists>resp. q = Ok resp \<and> r = Ok () \<and>
           st' = (s\<lparr>kv_segments := ss', kv_key_directory := hm_insert k (key_entry_from resp) (kv_key_directory s),
                    kv_counter := kv_counter s + 1\<rparr>, fs'))
       \<or> (\<forall>resp. q \<noteq> Ok resp) \<and> r \<noteq> Ok () \<and> st' = (s\<lparr>kv_segments := ss'\<rparr>, fs')"
proof -
  obtain q ss' fs' where q: "segments_append env k v (kv_segments s, fs) = (q, (ss', fs'))"
    by (cases "segments_append env k v (kv_segments s, fs)") auto
  have "\<not> mc_run_merge_every (kv_merge_config s) \<le> kv_counter s" using assms(2) by simp
  then show ?thesis
    by (intro that [OF q], cases q)
      (use assms(1) q in \<open>auto simp: kv_put_def on_segments_def sbind_def upd_def\<close>)
qed

lemma kv_ok_insert:
  assumes "kv_ok (s, fs)" and "segs_ok (ss', fs')" and "grows (kv_segments s, fs) (ss', fs')"
    and "in_range (ss', fs') e"
  shows "kv_ok (s'\<lparr>kv_segments := ss', kv_key_directory := hm_insert k e (kv_key_directory s)\<rparr>, fs')"
  using assms grows_in_range [OF assms(3)]
  by (auto simp: kv_ok_def hm.ok_ins hm.get_ins split: if_splits)

lemma kv_ok_remove:
  assumes "kv_ok (s, fs)" and "segs_ok (ss', fs')" and "grows (kv_segments s, fs) (ss', fs')"
  shows "kv_ok (s'\<lparr>kv_segments := ss', kv_key_directory := hm_remove k (kv_key_directory s)\<rparr>, fs')"
  using assms grows_in_range [OF assms(3)]
  by (auto simp: kv_ok_def hm_ok_remove hm_get_remove split: if_splits)

lemma kv_ok_grows:
  assumes "kv_ok (s, fs)" and "segs_ok (ss', fs')" and "grows (kv_segments s, fs) (ss', fs')"
  shows "kv_ok (s\<lparr>kv_segments := ss'\<rparr>, fs')"
  using assms grows_in_range [OF assms(3)] by (auto simp: kv_ok_def)

definition kv_ready :: "'k KVStore \<times> files \<Rightarrow> bool" where
  "kv_ready = (\<lambda>(s, fs). fresh (kv_segments s, fs) \<and> kv_counter s < mc_run_merge_every (kv_merge_config s))"

lemma kv_put_ok:
  assumes "kv_put env k v st = (r, st')" and "kv_ok st" and "kv_ready st"
  shows "kv_ok st' \<and> kv_get no_faults st' = (if r = Ok () then (kv_get no_faults st)(k := Ok v) else kv_get no_faults st)"
proof -
  obtain s fs where st: "st = (s, fs)" by (cases st)
  have "kv_counter s < mc_run_merge_every (kv_merge_config s)" and fresh: "fresh (kv_segments s, fs)"
    using assms(3) by (simp_all add: kv_ready_def st)
  with assms(1) obtain q ss' fs' where
    app: "segments_append env k v (kv_segments s, fs) = (q, (ss', fs'))" and
    res: "(\<exists>resp. q = Ok resp \<and> r = Ok () \<and>
           st' = (s\<lparr>kv_segments := ss', kv_key_directory := hm_insert k (key_entry_from resp) (kv_key_directory s),
                    kv_counter := kv_counter s + 1\<rparr>, fs'))
       \<or> (\<forall>resp. q \<noteq> Ok resp) \<and> r \<noteq> Ok () \<and> st' = (s\<lparr>kv_segments := ss'\<rparr>, fs')"
    unfolding st by (elim kv_put_step) auto
  have "segs_ok (kv_segments s, fs)" using assms(2) by (simp add: kv_ok_def st)
  from segments_append_entry_ok [OF app [unfolded segments_append_def] this fresh]
  have ok: "segs_ok (ss', fs')" and gr: "grows (kv_segments s, fs) (ss', fs')"
    and new: "\<And>resp. q = Ok resp \<Longrightarrow> in_range (ss', fs') (key_entry_from resp) \<and>
        (\<exists>now. segments_read no_faults (ss', fs') (ar_file_id resp) (ar_offset resp) (ar_entry_length resp)
           = Ok (stored_of (ke_serialize env) now (entry_new k v)))" by auto
  note kv = assms(2) [unfolded st]
  from res show ?thesis
  proof (elim disjE exE conjE)
    fix resp
    assume q: "q = Ok resp" and r: "r = Ok ()"
      and st': "st' = (s\<lparr>kv_segments := ss', kv_key_directory := hm_insert k (key_entry_from resp) (kv_key_directory s),
                    kv_counter := kv_counter s + 1\<rparr>, fs')"
    define s1 where "s1 = s\<lparr>kv_counter := kv_counter s + 1\<rparr>"
    have st1: "st' = (s1\<lparr>kv_segments := ss', kv_key_directory := hm_insert k (key_entry_from resp) (kv_key_directory s)\<rparr>, fs')"
      by (simp add: st' s1_def)
    have d: "hm_ok (kv_key_directory s)" using kv by (simp add: kv_ok_def)
    have "kv_ok st'"
      unfolding st1 using kv_ok_insert [OF kv ok gr] new [OF q] by blast
    moreover have "kv_get no_faults st' k = Ok v"
      using new [OF q] d
      by (auto simp: st1 kv_get_def hm.get_ins key_entry_from_def stored_of_def entry_new_def)
    moreover have "kv_get no_faults st' k' = kv_get no_faults st k'" if "k' \<noteq> k" for k'
      unfolding st1 st by (rule kv_get_grows [OF kv gr]) (simp add: d hm.get_ins that)
    ultimately show ?thesis using r by auto
  next
    assume st': "st' = (s\<lparr>kv_segments := ss'\<rparr>, fs')" and r: "r \<noteq> Ok ()"
    have "kv_get no_faults st' k' = kv_get no_faults st k'" for k'
      using kv_get_grows [OF kv gr, of "kv_key_directory s" k' no_faults s] by (simp add: st' st)
    then show ?thesis using kv_ok_grows [OF kv ok gr] r st' by auto
  qed
qed

lemma kv_delete_ok:
  assumes "kv_delete env k st = (r, st')" and "kv_ok st" and "kv_ready st"
  shows "kv_ok st' \<and> kv_get no_faults st'
       = (if r = Ok () then (kv_get no_faults st)(k := Err EntryNotFound) else kv_get no_faults st)"
proof -
  obtain s fs where st: "st = (s, fs)" by (cases st)
  have fresh: "fresh (kv_segments s, fs)" and kv: "kv_ok (s, fs)"
    using assms(2,3) by (simp_all add: kv_ready_def st)
  obtain q ss' fs' where app: "segments_append_deleted env k (kv_segments s, fs) = (q, (ss', fs'))"
    by (cases "segments_append_deleted env k (kv_segments s, fs)") auto
  have "segs_ok (kv_segments s, fs)" using kv by (simp add: kv_ok_def)
  from segments_append_entry_ok [OF app [unfolded segments_append_deleted_def] this fresh]
  have ok: "segs_ok (ss', fs')" and gr: "grows (kv_segments s, fs) (ss', fs')" by auto
  show ?thesis
  proof (cases q)
    case (Ok resp)
    then have st': "st' = (s\<lparr>kv_segments := ss', kv_key_directory := hm_remove k (kv_key_directory s)\<rparr>, fs')"
      and r: "r = Ok ()"
      using assms(1) app by (auto simp: st kv_delete_def on_segments_def sbind_def upd_def)
    have "kv_get no_faults st' k' = kv_get no_faults st k'" if "k' \<noteq> k" for k'
      unfolding st' st by (rule kv_get_grows [OF kv gr]) (simp add: hm_get_remove that)
    moreover have "kv_get no_faults st' k = Err EntryNotFound"
      by (simp add: st' kv_get_def hm_get_remove)
    ultimately show ?thesis using r kv_ok_remove [OF kv ok gr] unfolding st' by auto
  next
    case (Err e)
    then have st': "st' = (s\<lparr>kv_segments := ss'\<rparr>, fs')" and r: "r = Err e"
      using assms(1) app by (auto simp: st kv_delete_def on_segments_def sbind_def)
    have "kv_get no_faults st' k' = kv_get no_faults st k'" for k'
      using kv_get_grows [OF kv gr, of "kv_key_directory s" k' no_faults s] by (simp add: st' st)
    then show ?thesis using kv_ok_grows [OF kv ok gr] r st' by auto
  next
    case Panic
    then have st': "st' = (s\<lparr>kv_segments := ss'\<rparr>, fs')" and r: "r = Panic"
      using assms(1) app by (auto simp: st kv_delete_def on_segments_def sbind_def)
    have "kv_get no_faults st' k' = kv_get no_faults st k'" for k'
      using kv_get_grows [OF kv gr, of "kv_key_directory s" k' no_faults s] by (simp add: st' st)
    then show ?thesis using kv_ok_grows [OF kv ok gr] r st' by auto
  qed
qed

section \<open>The store as a map\<close>

datatype 'k kv_op = KvPut 'k bytes | KvDelete 'k

fun apply_op :: "'k kv_op \<Rightarrow> ('k \<Rightarrow> (KvError, bytes) res) \<Rightarrow> 'k \<Rightarrow> (KvError, bytes) res" where
  "apply_op (KvPut k v) m = m(k := Ok v)"
| "apply_op (KvDelete k) m = m(k := Err EntryNotFound)"

fun exec_op ::
    "('k \<Rightarrow> bytes \<Rightarrow> ('s, KvError, unit) call) \<Rightarrow> ('k \<Rightarrow> ('s, KvError, unit) call) \<Rightarrow> 'k kv_op
     \<Rightarrow> ('s, KvError, unit) call" where
  "exec_op put del (KvPut k v) = put k v"
| "exec_op put del (KvDelete k) = del k"

text \<open>
  Running operations one after the other; those that return an error are skipped and left
  out of the list of what was done. \<open>None\<close>: an operation panicked or was not \<open>ready\<close>.
\<close>

fun run_ops ::
    "('k \<Rightarrow> bytes \<Rightarrow> ('s, KvError, unit) call) \<Rightarrow> ('k \<Rightarrow> ('s, KvError, unit) call) \<Rightarrow> ('s \<Rightarrow> bool)
     \<Rightarrow> 'k kv_op list \<Rightarrow> 's \<Rightarrow> ('k kv_op list \<times> 's) option" where
  "run_ops put del ready [] s = Some ([], s)"
| "run_ops put del ready (op # ops) s =
     (if \<not> ready s then None
      else case exec_op put del op s of
        (Ok _, s') \<Rightarrow> map_option (\<lambda>(performed, t). (op # performed, t)) (run_ops put del ready ops s')
      | (Err _, s') \<Rightarrow> run_ops put del ready ops s'
      | (Panic, _) \<Rightarrow> None)"

locale key_value_map =
  fixes ok :: "'s \<Rightarrow> bool" and ready :: "'s \<Rightarrow> bool" and look :: "'s \<Rightarrow> 'k \<Rightarrow> (KvError, bytes) res"
    and put :: "'k \<Rightarrow> bytes \<Rightarrow> ('s, KvError, unit) call" and del :: "'k \<Rightarrow> ('s, KvError, unit) call"
  assumes put_law: "put k v s = (r, s') \<Longrightarrow> ok s \<Longrightarrow> ready s \<Longrightarrow>
      ok s' \<and> look s' = (if r = Ok () then (look s)(k := Ok v) else look s)"
    and del_law: "del k s = (r, s') \<Longrightarrow> ok s \<Longrightarrow> ready s \<Longrightarrow>
      ok s' \<and> look s' = (if r = Ok () then (look s)(k := Err EntryNotFound) else look s)"
begin

lemma exec_law:
  assumes "exec_op put del op s = (r, s')" and "ok s" and "ready s"
  shows "ok s' \<and> look s' = (if r = Ok () then apply_op op (look s) else look s)"
  using assms put_law del_law by (cases op) auto

lemma run_law:
  assumes "run_ops put del ready ops s = Some (performed, s')" and "ok s"
  shows "ok s' \<and> look s' = fold apply_op performed (look s)"
  using assms
proof (induction ops arbitrary: s performed)
  case (Cons op ops)
  obtain r s1 where x: "exec_op put del op s = (r, s1)" by (cases "exec_op put del op s")
  have ready: "ready s" using Cons.prems(1) by (simp split: if_splits)
  note law = exec_law [OF x Cons.prems(2) ready]
  show ?case
  proof (cases r)
    case (Ok u)
    with Cons.prems(1) x ready obtain rest where "run_ops put del ready ops s1 = Some (rest, s')"
      and "performed = op # rest" by auto
    with Cons.IH [of s1 rest] law Ok show ?thesis by simp
  next
    case (Err e)
    with Cons.prems(1) x ready have "run_ops put del ready ops s1 = Some (performed, s')" by simp
    with Cons.IH [of s1 performed] law Err show ?thesis by simp
  next
    case Panic
    with Cons.prems(1) x ready show ?thesis by simp
  qed
qed simp

end

interpretation kv: key_value_map kv_ok kv_ready "kv_get no_faults" "kv_put env" "kv_delete env" for env
  by unfold_locales (rule kv_put_ok, assumption+, rule kv_delete_ok, assumption+)

section \<open>Start-up\<close>

definition fs_ok :: "files \<Rightarrow> bool" where
  "fs_ok fs \<longleftrightarrow> (\<forall>name fd. map_of (fs_names fs) name = Some fd \<longrightarrow> fd < length (fs_content fs))"

lemma store_open_ok:
  assumes "store_open faults path dir fs = (Ok ws, fs')" and "fs_ok fs"
  shows "fs_ok fs' \<and> ws_file_descriptor ws < length (fs_content fs')
     \<and> (\<exists>extra. fs_content fs' = fs_content fs @ extra)"
  using assms
  by (auto simp: store_open_def fs_ok_def map_add_def Let_def split: if_splits option.splits)
    (metis less_SucI)+

text \<open>What start-up keeps while it opens the files of the directory.\<close>

definition loading :: "Segments \<times> files \<Rightarrow> bool" where
  "loading = (\<lambda>(ss, fs). segs_ok (ss, fs) \<and> fs_ok fs \<and> hm_get (ss_inactive ss) (sg_file_id (ss_active ss)) = None)"

lemma loading_insert:
  assumes "loading (ss, fs)" and "fs_ok fs'" and "fs_content fs' = fs_content fs @ extra"
    and "seg_fd seg < length (fs_content fs')" and "file_id \<noteq> sg_file_id (ss_active ss)"
  shows "loading (ss\<lparr>ss_inactive := hm_insert file_id seg (ss_inactive ss)\<rparr>, fs')"
proof -
  have ok: "hm_ok (ss_inactive ss)" using assms(1) by (simp add: loading_def segs_ok_def)
  have "seg_at ss (sg_file_id (ss_active ss)) = Some (ss_active ss)" by (simp add: seg_at_def)
  then have active: "seg_fd (ss_active ss) < length (fs_content fs)"
    using assms(1) unfolding loading_def segs_ok_def by blast
  then have "file_content fs' (seg_fd (ss_active ss)) = file_content fs (seg_fd (ss_active ss))"
    by (simp add: file_content_def assms(3) nth_append)
  then show ?thesis
    using assms ok active
    by (auto simp: loading_def segs_ok_def seg_at_def hm.ok_ins hm.get_ins split: if_splits)
qed

lemma reload_files_loading:
  assumes "reload_files faults names st = (Ok (), st')" and "loading st"
  shows "loading st'"
  using assms
proof (induction names arbitrary: st)
  case (Cons name names)
  obtain ss fs where st: "st = (ss, fs)" by (cases st)
  show ?case
  proof (cases "parse_u64 (takeWhile (\<lambda>c. c \<noteq> CHR ''_'') name)")
    case None
    with Cons show ?thesis by (auto simp: st split: if_splits)
  next
    case (Some file_id)
    show ?thesis
    proof (cases "ends_with name (SEGMENT_FILE_PREFIX @ ''.'' @ SEGMENT_FILE_SUFFIX)
        \<and> file_id \<noteq> sg_file_id (ss_active ss)")
      case False
      with Some Cons show ?thesis by (auto simp: st split: if_splits)
    next
      case True
      obtain q fs' where q: "reload_inactive_segment faults file_id (ss_directory ss) fs = (q, fs')"
        by (cases "reload_inactive_segment faults file_id (ss_directory ss) fs")
      from Cons.prems(1) True Some q obtain seg where seg: "q = Ok seg"
        and rest: "reload_files faults names (ss\<lparr>ss_inactive := hm_insert file_id seg (ss_inactive ss)\<rparr>, fs') = (Ok (), st')"
        by (cases q) (auto simp: st on_files_def sbind_def)
      from q seg have "store_open faults (segment_name file_id) (ss_directory ss) fs = (Ok (sg_store seg), fs')"
        by (auto simp: reload_inactive_segment_def sbind_def Let_def split: prod.splits res.splits)
      from store_open_ok [OF this] Cons.prems(2) obtain extra where
        "fs_ok fs'" "seg_fd seg < length (fs_content fs')" "fs_content fs' = fs_content fs @ extra"
        by (auto simp: st loading_def)
      then have "loading (ss\<lparr>ss_inactive := hm_insert file_id seg (ss_inactive ss)\<rparr>, fs')"
        using loading_insert Cons.prems(2) True st by blast
      then show ?thesis by (rule Cons.IH [OF rest])
    qed
  qed
qed simp

lemma decode_multi_from_in_range:
  assumes "decode_multi_from key_mapper content off = Ok entries" and "e \<in> set entries"
  shows "ms_key_offset e + ms_entry_length e \<le> length content"
  using assms
proof (induction key_mapper content off arbitrary: entries rule: decode_multi_from.induct)
  case (1 key_mapper content off)
  show ?case
  proof (cases "off < length content mod 2 ^ 32")
    case True
    with "1.prems" obtain stored traversed key rest where
      d: "decode_from content off = Ok (stored, traversed)" and
      r: "decode_multi_from key_mapper content traversed = Ok rest" and
      e: "entries = \<lparr>ms_key = key, ms_value = se_value stored, ms_deleted = se_deleted stored,
            ms_timestamp = se_timestamp stored, ms_key_offset = off, ms_entry_length = traversed - off\<rparr> # rest"
      by (subst (asm) (2) decode_multi_from.simps) (auto split: res.splits)
    from decode_from_advances [OF d] "1.IH" [OF True d refl r] "1.prems"(2) show ?thesis by (auto simp: e)
  next
    case False
    with "1.prems" show ?thesis by (simp add: decode_multi_from.simps)
  qed
qed

lemma directory_reload_get:
  assumes "hm_ok d"
  shows "hm_ok (directory_reload file_id entries d) \<and>
     (\<forall>k x. hm_get (directory_reload file_id entries d) k = Some x \<longrightarrow>
        hm_get d k = Some x \<or> (\<exists>e \<in> set entries. x = \<lparr>kd_file_id = file_id, kd_offset = ms_key_offset e,
          kd_entry_length = ms_entry_length e\<rparr>))"
  using assms
proof (induction entries arbitrary: d)
  case (Cons e entries)
  let ?x = "\<lparr>kd_file_id = file_id, kd_offset = ms_key_offset e, kd_entry_length = ms_entry_length e\<rparr>"
  have "directory_reload file_id (e # entries) d = directory_reload file_id entries (hm_insert (ms_key e) ?x d)"
    by (simp add: directory_reload_def)
  moreover have "hm_get (hm_insert (ms_key e) ?x d) k = Some x \<Longrightarrow> x = ?x \<or> hm_get d k = Some x" for k x
    using Cons.prems by (auto simp: hm.get_ins split: if_splits)
  ultimately show ?case
    using Cons.IH [of "hm_insert (ms_key e) ?x d"] Cons.prems by (auto simp: hm.ok_ins)
qed (simp add: directory_reload_def)

lemma reload_segments_ok:
  assumes "reload_segments faults fs key_mapper segs d = Ok d'" and "hm_ok d"
    and "\<forall>(file_id, seg) \<in> set segs. seg_at ss file_id = Some seg"
    and "\<forall>k x. hm_get d k = Some x \<longrightarrow> in_range (ss, fs) x"
  shows "hm_ok d' \<and> (\<forall>k x. hm_get d' k = Some x \<longrightarrow> in_range (ss, fs) x)"
  using assms
proof (induction segs arbitrary: d)
  case (Cons x segs)
  obtain file_id seg where x: "x = (file_id, seg)" by (cases x)
  from Cons.prems(1) obtain entries where
    r: "segment_read_full faults fs key_mapper seg = Ok entries" and
    rest: "reload_segments faults fs key_mapper segs (directory_reload file_id entries d) = Ok d'"
    by (auto simp: x)
  have at: "seg_at ss file_id = Some seg" using Cons.prems(3) by (simp add: x)
  have "ms_key_offset e + ms_entry_length e \<le> length (file_content fs (seg_fd seg))" if "e \<in> set entries" for e
    using r decode_multi_from_in_range [OF _ that]
    by (auto simp: segment_read_full_def store_read_full_def decode_multi_def split: if_splits)
  with at have "in_range (ss, fs) \<lparr>kd_file_id = file_id, kd_offset = ms_key_offset e, kd_entry_length = ms_entry_length e\<rparr>"
    if "e \<in> set entries" for e
    using that by (simp add: in_range_def)
  with Cons.prems(4) directory_reload_get [OF Cons.prems(2), of file_id entries]
  have "hm_ok (directory_reload file_id entries d)"
    and "\<forall>k x. hm_get (directory_reload file_id entries d) k = Some x \<longrightarrow> in_range (ss, fs) x" by blast+
  with Cons.IH [OF rest] Cons.prems(3) show ?case by (simp add: x)
qed simp

text \<open>A store that starts on the files of an earlier run satisfies the invariant.\<close>

lemma segments_new_loading:
  assumes "segments_new faults dir max_size clk fs = (Ok ss, fs')" and "fs_ok fs"
    and "map_of (fs_names fs) (dir, segment_name (ck_monotonic clk (ck_ticks clk))) = None"
  shows "loading (ss, fs')"
proof -
  define file_id where "file_id = ck_monotonic clk (ck_ticks clk)"
  obtain q fs1 where q: "segment_new faults file_id dir fs = (q, fs1)"
    by (cases "segment_new faults file_id dir fs")
  from assms(1) q obtain seg where seg: "q = Ok seg"
    by (cases q) (auto simp: segments_new_def next_file_id_def monotonic_now_def file_id_def sbind_def)
  define ss0 where "ss0 = \<lparr>ss_active = seg, ss_inactive = [], ss_clock = snd (next_file_id clk),
      ss_max_segment_size_bytes = max_size, ss_directory = dir\<rparr>"
  have rl: "segments_reload faults (ss0, fs1) = (Ok (), (ss, fs'))"
    using assms(1) q seg
    by (auto simp: segments_new_def next_file_id_def monotonic_now_def file_id_def ss0_def sbind_def
        split: prod.splits res.splits)
  from q seg have open_seg: "store_open faults (segment_name file_id) dir fs = (Ok (sg_store seg), fs1)"
    by (auto simp: segment_new_def sbind_def Let_def split: prod.splits res.splits)
  from segment_new_cases [OF q] seg assms(3) file_id_def
  have new: "seg_fd seg = length (fs_content fs)" "fs_content fs1 = fs_content fs @ [[]]"
    "ws_current_write_offset (sg_store seg) = 0" by auto
  have "loading (ss0, fs1)"
    using store_open_ok [OF open_seg assms(2)] new
    by (auto simp: loading_def segs_ok_def seg_at_def ss0_def hm_get_def file_content_def split: if_splits)
  moreover obtain names where "reload_files faults names (ss0, fs1) = (Ok (), (ss, fs'))"
    using rl by (auto simp: segments_reload_def sbind_def split: prod.splits res.splits)
  ultimately show ?thesis using reload_files_loading by blast
qed

lemma kv_new_establishes:
  assumes "kv_new env config fs = (Ok s, fs')" and "fs_ok fs"
    and "map_of (fs_names fs) (cf_directory config,
           segment_name (ck_monotonic (cf_clock config) (ck_ticks (cf_clock config)))) = None"
    and "\<And>segs. set (ke_segment_order env segs) = set segs"
  shows "kv_ok (s, fs')"
proof -
  from assms(1) obtain ss mc d where
    new: "segments_new (ke_faults env) (cf_directory config) (cf_max_segment_size_bytes config) (cf_clock config) fs = (Ok ss, fs')"
    and rl: "reload_segments (ke_faults env) fs' (ke_key_mapper env) (ke_segment_order env (ss_inactive ss)) [] = Ok d"
    and s: "s = \<lparr>kv_segments = ss, kv_key_directory = d, kv_merge_config = mc, kv_counter = 0\<rparr>"
    by (auto simp: kv_new_def sbind_def split: prod.splits res.splits option.splits)
  have ld: "loading (ss, fs')" by (rule segments_new_loading [OF new assms(2,3)])
  then have "hm_ok (ss_inactive ss)" by (simp add: loading_def segs_ok_def)
  then have "\<forall>(file_id, seg) \<in> set (ke_segment_order env (ss_inactive ss)). seg_at ss file_id = Some seg"
    using ld assms(4) by (auto simp: seg_at_def loading_def hm_get_Some [symmetric])
  from reload_segments_ok [OF rl _ this] ld show ?thesis
    by (auto simp: kv_ok_def s loading_def hm_get_def)
qed

section \<open>Samples\<close>

definition sample_env :: "UUIDWasiKey kv_env" where
  "sample_env = \<lparr>ke_faults = no_faults, ke_serialize = uuid_serialize, ke_key_mapper = uuid_key_from,
     ke_segment_order = (\<lambda>segs. segs), ke_change_order = (\<lambda>changes. changes)\<rparr>"

definition sample_clock :: "nat \<Rightarrow> clock" where
  "sample_clock n = \<lparr>ck_wall = (\<lambda>i. of_nat i + 100), ck_monotonic = (\<lambda>i. of_nat i + 1), ck_ticks = n\<rparr>"

text \<open>Every entry fills a segment, and a merge is due after three insertions.\<close>

definition sample_config :: "nat \<Rightarrow> KvConfig" where
  "sample_config n = \<lparr>cf_directory = ''d'', cf_max_segment_size_bytes = 1, cf_key_directory_capacity = 8,
     cf_merge_config = Some (new_with_all_segments_to_read_every_fixed_duration 3),
     cf_clock = sample_clock n\<rparr>"

definition no_files :: files where
  "no_files = \<lparr>fs_names = [], fs_content = []\<rparr>"

definition started :: "nat \<Rightarrow> files \<Rightarrow> (KvError, UUIDWasiKey KVStore) res \<times> files" where
  "started n fs = kv_new sample_env (sample_config n) fs"

section \<open>Success\<close>

lemma segment_new_no_faults: "\<exists>seg fs'. segment_new no_faults file_id dir fs = (Ok seg, fs')"
  by (simp add: segment_new_def store_open_def sbind_def Let_def split: option.splits)

lemma rollover_no_faults: "\<exists>st'. maybe_rollover_active_segment no_faults st = (Ok (), st')"
proof -
  obtain ss fs where st: "st = (ss, fs)" by (cases st)
  obtain r st' where r: "maybe_rollover_active_segment no_faults (ss, fs) = (r, st')"
    by (cases "maybe_rollover_active_segment no_faults (ss, fs)")
  from r have "r = Ok ()"
    by (cases rule: rollover_cases)
      (use segment_new_no_faults [of "fst (next_file_id (ss_clock ss))" "ss_directory ss" fs] in auto)
  with r show ?thesis by (auto simp: st)
qed

lemma append_active_no_faults:
  assumes "ke_faults env = no_faults"
    and "13 + length (ke_serialize env (en_key e)) + length (en_value e) < 2 ^ 32"
  shows "\<exists>resp st'. append_active env e st = (Ok resp, st')"
proof -
  obtain ss fs where st: "st = (ss, fs)" by (cases st)
  have "\<exists>bs. encode (ke_serialize env) now e = (Ok bs :: (KvError, bytes) res)" for now
    using assms(2) by (simp add: encode_def Let_def)
  then show ?thesis
    using assms(1)
    by (auto simp: st append_active_def entry_now_def clock_now_def on_files_def segment_append_def
        store_append_def sbind_def Let_def split: res.splits) (metis res.distinct(1,3))+
qed

lemma kv_put_no_faults:
  assumes "ke_faults env = no_faults" and "13 + length (ke_serialize env k) + length v < 2 ^ 32"
    and "kv_counter (fst st) < mc_run_merge_every (kv_merge_config (fst st))"
  shows "\<exists>st'. kv_put env k v st = (Ok (), st')"
proof -
  obtain s fs where st: "st = (s, fs)" by (cases st)
  obtain st1 where 1: "maybe_rollover_active_segment no_faults (kv_segments s, fs) = (Ok (), st1)"
    using rollover_no_faults by blast
  obtain resp st2 where 2: "append_active env (entry_new k v) st1 = (Ok resp, st2)"
    using append_active_no_faults [OF assms(1), of "entry_new k v" st1] assms(2) by (auto simp: entry_new_def)
  obtain r st' where r: "kv_put env k v (s, fs) = (r, st')" by (cases "kv_put env k v (s, fs)")
  have "segments_append env k v (kv_segments s, fs) = (Ok resp, st2)"
    using 1 2 by (simp add: segments_append_def assms(1))
  then have "r = Ok ()"
    using kv_put_step [OF r] assms(3) by (auto simp: st)
  with r show ?thesis by (auto simp: st)
qed

section \<open>Properties\<close>

definition first_store :: "UUIDWasiKey KVStore \<times> files" where
  "first_store = (case started 0 no_files of (r, fs) \<Rightarrow>
     (case r of Ok s \<Rightarrow> (s, fs) | _ \<Rightarrow> undefined))"

text \<open>A value, a change of segment, another value, a deletion.\<close>

definition sample_ops :: "UUIDWasiKey kv_op list" where
  "sample_ops = [KvPut [107] [1], KvPut [97] [9], KvDelete [107]]"

lemma first_store_started: "\<exists>s fs. started 0 no_files = (Ok s, fs) \<and> first_store = (s, fs)"
proof -
  have "case fst (started 0 no_files) of Ok _ \<Rightarrow> True | _ \<Rightarrow> False" by code_simp
  then show ?thesis by (auto simp: first_store_def split: prod.splits res.splits)
qed

text \<open>
  C22: Between merges the key-value store is a map. After any sequence of insertions and
  deletions, some of which may have failed and with as many changes of the active segment as
  the sizes ask for, every key reads as the operations that succeeded say: the value last
  inserted, not found when it was deleted since, and what it read before when it was not
  touched. The invariant holds again. The clock must not repeat the name of a file, and no
  merge may be due.
\<close>

theorem kv_store_is_map:
  assumes "kv_ok st"
    and "run_ops (kv_put env) (kv_delete env) kv_ready ops st = Some (performed, st')"
  shows "kv_ok st' \<and> kv_get no_faults st' = fold apply_op performed (kv_get no_faults st)"
  using kv.run_law [OF assms(2,1)] .

lemma first_store_ok: "kv_ok first_store"
proof -
  obtain s fs where s: "started 0 no_files = (Ok s, fs)" "first_store = (s, fs)"
    using first_store_started by blast
  show ?thesis unfolding s(2)
    by (rule kv_new_establishes [OF s(1) [unfolded started_def]])
      (simp_all add: fs_ok_def no_files_def sample_env_def)
qed

lemma first_store_run:
  "map_option fst (run_ops (kv_put sample_env) (kv_delete sample_env) kv_ready sample_ops first_store) = Some sample_ops"
  by code_simp

theorem kv_store_is_map_witness:
  "\<exists>st'. run_ops (kv_put sample_env) (kv_delete sample_env) kv_ready sample_ops first_store = Some (sample_ops, st')
     \<and> kv_get no_faults st' [97] = Ok [9] \<and> kv_get no_faults st' [107] = Err EntryNotFound"
proof -
  obtain st' where st': "run_ops (kv_put sample_env) (kv_delete sample_env) kv_ready sample_ops first_store = Some (sample_ops, st')"
    using first_store_run by auto
  from kv_store_is_map [OF first_store_ok st'] st' show ?thesis by (simp add: sample_ops_def)
qed

text \<open>
  A store that starts on the files of earlier runs, whatever they contain, satisfies the
  invariant whenever starting succeeds, provided that the clock does not name one of the files
  that are there.
\<close>

lemma kv_new_establishes_invariant:
  assumes "kv_new env config fs = (Ok s, fs')" and "fs_ok fs"
    and "map_of (fs_names fs) (cf_directory config,
           segment_name (ck_monotonic (cf_clock config) (ck_ticks (cf_clock config)))) = None"
    and "\<And>segs. set (ke_segment_order env segs) = set segs"
  shows "kv_ok (s, fs')"
  using assms by (rule kv_new_establishes)

lemma kv_new_establishes_invariant_witness:
  "\<exists>s fs. kv_new sample_env (sample_config 0) no_files = (Ok s, fs) \<and> kv_ok (s, fs)"
proof -
  obtain s fs where s: "kv_new sample_env (sample_config 0) no_files = (Ok s, fs)"
    using first_store_started by (auto simp: started_def)
  have "kv_ok (s, fs)"
    by (rule kv_new_establishes_invariant [OF s]) (simp_all add: fs_ok_def no_files_def sample_env_def)
  with s show ?thesis by blast
qed

text \<open>
  An insertion that is not due to merge returns, and succeeds when the host's file
  operations succeed and the entry is not longer than its 32-bit length fields can say.
\<close>

lemma kv_put_succeeds:
  assumes "ke_faults env = no_faults" and "13 + length (ke_serialize env k) + length v < 2 ^ 32"
    and "kv_counter (fst st) < mc_run_merge_every (kv_merge_config (fst st))"
  shows "\<exists>st'. kv_put env k v st = (Ok (), st')"
  using assms by (rule kv_put_no_faults)

lemma kv_put_succeeds_witness: "\<exists>st'. kv_put sample_env [107] [1] first_store = (Ok (), st')"
proof (rule kv_put_succeeds)
  show "kv_counter (fst first_store) < mc_run_merge_every (kv_merge_config (fst first_store))" by code_simp
qed (simp_all add: sample_env_def uuid_serialize_def)


end
