(* ===== verification/KV_Merge.thy ===== *)
theory KV_Merge
  imports KV_Store
begin

text \<open>
  What merging keeps. Without tombstones the merged state holds, for every key of the merged
  segments, an entry with the latest timestamp; a tombstone in the first segment that is read,
  however, does not remove the key.
\<close>

section \<open>The latest entry\<close>

text \<open>For every key seen so far the state holds an entry of it that is at least as late as all others.\<close>

definition latest_of :: "'k MappedStoredEntry set \<Rightarrow> 'k MergedState \<Rightarrow> bool" where
  "latest_of seen m \<longleftrightarrow> hm_ok (mg_value_by_key m) \<and> mg_deleted_keys m = [] \<and>
     (\<forall>k. hm_get (mg_value_by_key m) k = None \<longrightarrow> k \<notin> ms_key ` seen) \<and>
     (\<forall>k e. hm_get (mg_value_by_key m) k = Some e \<longrightarrow>
        e \<in> seen \<and> ms_key e = k \<and> (\<forall>e' \<in> seen. ms_key e' = k \<longrightarrow> ms_timestamp e' \<le> ms_timestamp e))"

lemma latest_of_new: "latest_of {} merged_state_new"
  by (simp add: latest_of_def merged_state_new_def hm_get_def)

lemma latest_of_get:
  assumes "latest_of seen m"
  shows "hm_get (mg_value_by_key m) k = None \<Longrightarrow> k \<notin> ms_key ` seen"
    and "hm_get (mg_value_by_key m) k = Some e \<Longrightarrow>
      e \<in> seen \<and> ms_key e = k \<and> (\<forall>e' \<in> seen. ms_key e' = k \<longrightarrow> ms_timestamp e' \<le> ms_timestamp e)"
  using assms by (simp_all add: latest_of_def)

text \<open>An entry that is at least as late as all of its key replaces what was there.\<close>

lemma latest_of_insert:
  assumes "latest_of seen m" and "\<And>e'. e' \<in> seen \<Longrightarrow> ms_key e' = ms_key e \<Longrightarrow> ms_timestamp e' \<le> ms_timestamp e"
  shows "latest_of (insert e seen) (m\<lparr>mg_value_by_key := hm_insert (ms_key e) e (mg_value_by_key m)\<rparr>)"
proof -
  have ok: "hm_ok (mg_value_by_key m)" using assms(1) by (simp add: latest_of_def)
  have "k \<notin> ms_key ` insert e seen" if "hm_get (hm_insert (ms_key e) e (mg_value_by_key m)) k = None" for k
    using that latest_of_get(1) [OF assms(1), of k] ok by (auto simp: hm.get_ins split: if_splits)
  moreover have "x \<in> insert e seen \<and> ms_key x = k \<and>
      (\<forall>e' \<in> insert e seen. ms_key e' = k \<longrightarrow> ms_timestamp e' \<le> ms_timestamp x)"
    if "hm_get (hm_insert (ms_key e) e (mg_value_by_key m)) k = Some x" for k x
    using that latest_of_get(2) [OF assms(1), of k x] ok assms(2) by (auto simp: hm.get_ins split: if_splits)
  ultimately show ?thesis using assms(1) ok unfolding latest_of_def by (simp add: hm.ok_ins)
qed

text \<open>An entry that is not later than the one of its key is dropped.\<close>

lemma latest_of_keep:
  assumes "latest_of seen m" and "hm_get (mg_value_by_key m) (ms_key e) = Some x"
    and "ms_timestamp e \<le> ms_timestamp x"
  shows "latest_of (insert e seen) m"
proof -
  have "k \<notin> ms_key ` insert e seen" if "hm_get (mg_value_by_key m) k = None" for k
    using that latest_of_get(1) [OF assms(1), of k] assms(2) by auto
  moreover have "y \<in> insert e seen \<and> ms_key y = k \<and>
      (\<forall>e' \<in> insert e seen. ms_key e' = k \<longrightarrow> ms_timestamp e' \<le> ms_timestamp y)"
    if "hm_get (mg_value_by_key m) k = Some y" for k y
    using that latest_of_get(2) [OF assms(1), of k y] assms(2,3) by auto
  ultimately show ?thesis using assms(1) unfolding latest_of_def by simp
qed

lemma take_all_latest:
  assumes "latest_of seen m" and "sorted (map ms_timestamp es)"
    and "\<And>e e'. e \<in> set es \<Longrightarrow> e' \<in> seen \<Longrightarrow> ms_timestamp e' \<le> ms_timestamp e"
    and "\<And>e. e \<in> set es \<Longrightarrow> \<not> ms_deleted e"
  shows "latest_of (seen \<union> set es) (take_all es m)"
  using assms
proof (induction es arbitrary: seen m)
  case (Cons e es)
  have "latest_of (insert e seen) (take_entry e m)"
    using Cons.prems latest_of_insert [of seen m e] by (simp add: take_entry_def)
  then have "latest_of (insert e seen \<union> set es) (take_all es (take_entry e m))"
    using Cons.prems by (intro Cons.IH) auto
  then show ?case by (simp add: take_all_def)
qed (simp add: take_all_def)

lemma merge_entry_latest:
  assumes "latest_of seen m" and "\<not> ms_deleted e"
  shows "latest_of (insert e seen) (merge_entry e m)"
proof (cases "hm_get (mg_value_by_key m) (ms_key e)")
  case None
  then have "ms_key e \<notin> ms_key ` seen" by (rule latest_of_get(1) [OF assms(1)])
  then have "latest_of (insert e seen) (m\<lparr>mg_value_by_key := hm_insert (ms_key e) e (mg_value_by_key m)\<rparr>)"
    by (intro latest_of_insert [OF assms(1)]) (metis imageI)
  moreover have "mg_deleted_keys m = []" using assms(1) by (simp add: latest_of_def)
  ultimately show ?thesis using None by (simp add: merge_entry_def) (simp add: hm_get_def)
next
  case (Some x)
  note x = latest_of_get(2) [OF assms(1) Some]
  show ?thesis
  proof (cases "ms_timestamp e > ms_timestamp x")
    case True
    have "latest_of (insert e seen) (m\<lparr>mg_value_by_key := hm_insert (ms_key e) e (mg_value_by_key m)\<rparr>)"
      using x True by (intro latest_of_insert [OF assms(1)]) force
    then show ?thesis using Some x True assms(2) by (simp add: merge_entry_def maybe_update_def)
  next
    case False
    then show ?thesis
      using latest_of_keep [OF assms(1) Some] Some by (simp add: merge_entry_def maybe_update_def)
  qed
qed

lemma merge_with_latest:
  assumes "latest_of seen m" and "\<And>e. e \<in> set es \<Longrightarrow> \<not> ms_deleted e"
  shows "latest_of (seen \<union> set es) (merge_with es m)"
  using assms
proof (induction es arbitrary: seen m)
  case (Cons e es)
  then have "latest_of (insert e seen \<union> set es) (merge_with es (merge_entry e m))"
    by (intro Cons.IH merge_entry_latest) auto
  then show ?case by (simp add: merge_with_def)
qed (simp add: merge_with_def)

lemma merge_all_latest:
  assumes "latest_of seen m" and "\<And>es e. es \<in> set rest \<Longrightarrow> e \<in> set es \<Longrightarrow> \<not> ms_deleted e"
  shows "latest_of (seen \<union> \<Union> (set ` set rest)) (fold merge_with rest m)"
  using assms
proof (induction rest arbitrary: seen m)
  case (Cons es rest)
  then have "latest_of ((seen \<union> set es) \<union> \<Union> (set ` set rest)) (fold merge_with rest (merge_with es m))"
    by (intro Cons.IH merge_with_latest) auto
  then show ?case by (simp add: Un_assoc)
qed simp

section \<open>Tombstones\<close>

lemma take_all_keeps_value:
  assumes "hm_ok (mg_value_by_key m)"
    and "hm_get (mg_value_by_key m) k \<noteq> None \<or> (\<exists>e \<in> set es. ms_key e = k \<and> \<not> ms_deleted e)"
  shows "hm_ok (mg_value_by_key (take_all es m)) \<and> hm_get (mg_value_by_key (take_all es m)) k \<noteq> None"
  using assms
proof (induction es arbitrary: m)
  case (Cons e es)
  have "hm_ok (mg_value_by_key (take_entry e m))"
    using Cons.prems(1) by (simp add: take_entry_def hm.ok_ins)
  moreover have "hm_get (mg_value_by_key (take_entry e m)) k \<noteq> None
      \<or> (\<exists>e \<in> set es. ms_key e = k \<and> \<not> ms_deleted e)"
    using Cons.prems by (auto simp: take_entry_def hm.get_ins)
  ultimately show ?case using Cons.IH [of "take_entry e m"] by (simp add: take_all_def)
qed (simp add: take_all_def)

text \<open>Both maps of the state are indexed by the keys of their entries.\<close>

definition keyed :: "'k MergedState \<Rightarrow> bool" where
  "keyed m \<longleftrightarrow> hm_ok (mg_value_by_key m) \<and> hm_ok (mg_deleted_keys m) \<and>
     (\<forall>k x. hm_get (mg_value_by_key m) k = Some x \<longrightarrow> ms_key x = k) \<and>
     (\<forall>k x. hm_get (mg_deleted_keys m) k = Some x \<longrightarrow> ms_key x = k)"

lemma keyed_new: "keyed merged_state_new"
  by (simp add: keyed_def merged_state_new_def hm_get_def)

lemma keyed_take_entry: "keyed m \<Longrightarrow> keyed (take_entry e m)"
  by (cases "ms_deleted e") (auto simp: keyed_def take_entry_def hm.ok_ins hm.get_ins split: if_splits)

lemma keyed_take_all: "keyed m \<Longrightarrow> keyed (take_all es m)"
  unfolding take_all_def by (induction es arbitrary: m) (simp_all add: keyed_take_entry)

lemma merge_entry_other:
  assumes "keyed m" and "ms_key e \<noteq> k"
  shows "hm_get (mg_value_by_key (merge_entry e m)) k = hm_get (mg_value_by_key m) k"
  using assms
  by (auto simp: keyed_def merge_entry_def maybe_update_def hm.get_ins hm_get_remove split: option.splits)

lemma keyed_merge_entry:
  assumes "keyed m"
  shows "keyed (merge_entry e m)"
proof (cases "hm_get (mg_value_by_key m) (ms_key e)")
  case (Some x)
  then have "ms_key x = ms_key e" using assms by (simp add: keyed_def)
  with Some assms show ?thesis
    by (auto simp: keyed_def merge_entry_def maybe_update_def hm.ok_ins hm.get_ins hm_ok_remove
        hm_get_remove split: if_splits)
next
  case None
  show ?thesis
  proof (cases "hm_get (mg_deleted_keys m) (ms_key e)")
    case (Some x)
    then have "ms_key x = ms_key e" using assms by (simp add: keyed_def)
    with None Some assms show ?thesis
      by (auto simp: keyed_def merge_entry_def maybe_update_def hm.ok_ins hm.get_ins hm_ok_remove
          hm_get_remove split: if_splits)
  next
    case none: None
    with None assms show ?thesis
      by (auto simp: keyed_def merge_entry_def hm.ok_ins hm.get_ins split: if_splits)
  qed
qed

lemma merge_with_other:
  assumes "keyed m" and "\<And>e. e \<in> set es \<Longrightarrow> ms_key e \<noteq> k"
  shows "keyed (merge_with es m) \<and> hm_get (mg_value_by_key (merge_with es m)) k = hm_get (mg_value_by_key m) k"
  using assms
proof (induction es arbitrary: m)
  case (Cons e es)
  then show ?case
    using Cons.IH [of "merge_entry e m"] by (simp add: merge_with_def keyed_merge_entry merge_entry_other)
qed (simp add: merge_with_def)

lemma merge_all_other:
  assumes "keyed m" and "\<And>es e. es \<in> set rest \<Longrightarrow> e \<in> set es \<Longrightarrow> ms_key e \<noteq> k"
  shows "hm_get (mg_value_by_key (fold merge_with rest m)) k = hm_get (mg_value_by_key m) k"
  using assms
proof (induction rest arbitrary: m)
  case (Cons es rest)
  have "keyed (merge_with es m) \<and> hm_get (mg_value_by_key (merge_with es m)) k = hm_get (mg_value_by_key m) k"
    by (rule merge_with_other [OF Cons.prems(1)]) (rule Cons.prems(2), simp_all)
  moreover have "hm_get (mg_value_by_key (fold merge_with rest (merge_with es m))) k
      = hm_get (mg_value_by_key (merge_with es m)) k"
    using calculation Cons.prems(2) by (intro Cons.IH) auto
  ultimately show ?case by simp
qed simp

section \<open>Properties\<close>

definition sample_entry :: "nat \<Rightarrow> bytes \<Rightarrow> bool \<Rightarrow> u32 \<Rightarrow> nat MappedStoredEntry" where
  "sample_entry k v deleted ts = \<lparr>ms_key = k, ms_value = v, ms_deleted = deleted, ms_timestamp = ts,
     ms_key_offset = 0, ms_entry_length = 0\<rparr>"



text \<open>
  A tombstone in the first segment that a merge reads is without effect: if the segment
  also holds a value of the key, the key survives the merge and is written back as present,
  although it was deleted.
\<close>

lemma merge_ignores_first_tombstone:
  assumes "e \<in> set first" and "ms_key e = k" and "\<not> ms_deleted e"
    and "\<And>es e. es \<in> set rest \<Longrightarrow> e \<in> set es \<Longrightarrow> ms_key e \<noteq> k"
  shows "hm_get (mg_value_by_key (fold merge_with rest (take_all first merged_state_new))) k \<noteq> None"
proof -
  have "hm_get (mg_value_by_key (take_all first merged_state_new)) k \<noteq> None"
    using take_all_keeps_value [of merged_state_new k first] assms(1-3)
    by (auto simp: merged_state_new_def)
  moreover have "keyed (take_all first merged_state_new)" by (intro keyed_take_all keyed_new)
  ultimately show ?thesis using merge_all_other assms(4) by metis
qed

lemma merge_ignores_first_tombstone_witness:
  "hm_get (mg_value_by_key (fold merge_with [[sample_entry 2 [9] False 7]]
      (take_all [sample_entry 1 [7] False 4, sample_entry 1 [] True 6] merged_state_new))) 1 \<noteq> None"
  by (rule merge_ignores_first_tombstone [where e = "sample_entry 1 [7] False 4"])
    (auto simp: sample_entry_def)

end
