(* ===== verification/KV_Write_Back.thy ===== *)
theory KV_Write_Back
  imports KV_Correct KV_Merge "HOL-Library.Code_Target_Nat"
begin

text \<open>
  The second half of a merge: the merged entries are written to new segments, the directory of
  keys is pointed at them and the merged segments are removed. After it every merged key reads
  as its merged value, whatever the store held for it before, and the keys that live in other
  segments are untouched.
\<close>

section \<open>File names and fresh identifiers\<close>

lemma takeWhile_show_nat: "takeWhile (\<lambda>c. c \<noteq> CHR ''_'') (show_nat n @ CHR ''_'' # rest) = show_nat n"
proof -
  have "c \<noteq> CHR ''_''" if "c \<in> set (show_nat n)" for c
    using set_show_nat [OF that] digit_char_not_underscore by auto
  then show ?thesis by (simp add: takeWhile_append)
qed

lemma segment_name_parse: "parse_u64 (takeWhile (\<lambda>c. c \<noteq> CHR ''_'') (segment_name file_id)) = Some file_id"
  by (simp add: segment_name_def takeWhile_show_nat parse_u64_show_nat)

lemma segment_name_inject [simp]: "segment_name i = segment_name j \<longleftrightarrow> i = j"
  by (metis option.inject segment_name_parse)

definition mono_id :: "Segments \<Rightarrow> nat \<Rightarrow> u64" where
  "mono_id ss i = ck_monotonic (ss_clock ss) (ck_ticks (ss_clock ss) + i)"

text \<open>The next \<open>n\<close> readings of the monotonic clock are different and name no segment or file.\<close>

definition fresh_ids :: "nat \<Rightarrow> Segments \<times> files \<Rightarrow> bool" where
  "fresh_ids n = (\<lambda>(ss, fs). inj_on (mono_id ss) {..<n} \<and>
     (\<forall>i < n. seg_at ss (mono_id ss i) = None
        \<and> map_of (fs_names fs) (ss_directory ss, segment_name (mono_id ss i)) = None))"

definition tick :: "Segments \<Rightarrow> Segments" where
  "tick ss = ss\<lparr>ss_clock := (ss_clock ss)\<lparr>ck_ticks := Suc (ck_ticks (ss_clock ss))\<rparr>\<rparr>"

lemma tick_simps [simp]:
  "ss_active (tick ss) = ss_active ss" "ss_inactive (tick ss) = ss_inactive ss"
  "ss_directory (tick ss) = ss_directory ss" "seg_at (tick ss) = seg_at ss"
  "ss_max_segment_size_bytes (tick ss) = ss_max_segment_size_bytes ss"
  by (simp_all add: tick_def)

lemma mono_id_tick [simp]: "mono_id (tick ss) i = mono_id ss (Suc i)"
  by (simp add: mono_id_def tick_def)

lemma mono_id_update [simp]:
  "mono_id (ss\<lparr>ss_inactive := x\<rparr>) = mono_id ss" "mono_id (ss\<lparr>ss_active := y\<rparr>) = mono_id ss"
  by (simp_all add: mono_id_def fun_eq_iff)

lemma fresh_ids_mono: "fresh_ids n st \<Longrightarrow> m \<le> n \<Longrightarrow> fresh_ids m st"
  by (cases st) (auto simp: fresh_ids_def intro: inj_on_subset)

lemma fresh_ids_tick: "fresh_ids (Suc n) (ss, fs) \<Longrightarrow> fresh_ids n (tick ss, fs)"
  by (auto simp: fresh_ids_def inj_on_def)

text \<open>Taking the first of the fresh identifiers for a new segment leaves the others fresh.\<close>

lemma fresh_ids_insert:
  assumes "fresh_ids (Suc n) (ss, fs)" and "seg_at ss' = (seg_at ss)(mono_id ss 0 \<mapsto> seg)"
    and "mono_id ss' = mono_id (tick ss)" and "ss_directory ss' = ss_directory ss"
    and "fs_names fs' = fs_names fs @ [((ss_directory ss, segment_name (mono_id ss 0)), fd)]"
  shows "fresh_ids n (ss', fs')"
proof -
  have "mono_id ss (Suc i) \<noteq> mono_id ss 0" if "i < n" for i
    using assms(1) that by (auto simp: fresh_ids_def inj_on_def)
  then show ?thesis
    using assms by (auto simp: fresh_ids_def inj_on_def map_add_def split: option.splits)
qed

lemma fresh_ids_files: "fresh_ids n (ss, fs) \<Longrightarrow> fs_names fs' = fs_names fs \<Longrightarrow> fresh_ids n (ss, fs')"
  by (simp add: fresh_ids_def)

section \<open>Writing to a segment that is not active\<close>

text \<open>\<open>seg\<close> is the segment being filled; the map of inactive segments holds a clone of it.\<close>

definition filling :: "Segment \<Rightarrow> Segments \<times> files \<Rightarrow> bool" where
  "filling seg = (\<lambda>(ss, fs). segs_ok (ss, fs)
     \<and> (\<exists>clone. hm_get (ss_inactive ss) (sg_file_id seg) = Some clone \<and> seg_fd clone = seg_fd seg)
     \<and> sg_file_id seg \<noteq> sg_file_id (ss_active ss) \<and> seg_fd seg \<noteq> seg_fd (ss_active ss)
     \<and> seg_fd seg < length (fs_content fs)
     \<and> ws_current_write_offset (sg_store seg) = length (file_content fs (seg_fd seg)))"

definition reads_as :: "Segments \<times> files \<Rightarrow> AppendEntryResponse \<Rightarrow> bytes \<Rightarrow> bool" where
  "reads_as st resp v \<longleftrightarrow> in_range st (key_entry_from resp) \<and>
     (\<exists>stored. segments_read no_faults st (ar_file_id resp) (ar_offset resp) (ar_entry_length resp) = Ok stored
        \<and> se_value stored = v)"

lemma reads_as_grows: "grows st st' \<Longrightarrow> reads_as st resp v \<Longrightarrow> reads_as st' resp v"
  using grows_read [of st st' "key_entry_from resp"] grows_in_range [of st st' "key_entry_from resp"]
  by (auto simp: reads_as_def key_entry_from_def)

lemma segment_append_filling:
  assumes "segment_append faults serialize now seg e fs = (Ok (resp, seg'), fs')" and "filling seg (ss, fs)"
  shows "filling seg' (ss, fs') \<and> grows (ss, fs) (ss, fs') \<and> reads_as (ss, fs') resp (en_value e)
     \<and> ar_file_id resp = sg_file_id seg \<and> sg_file_id seg' = sg_file_id seg \<and> fs_names fs' = fs_names fs"
proof -
  define fd where "fd = seg_fd seg"
  define old where "old = file_content fs fd"
  from assms(1) obtain bs where enc: "encode serialize now e = (Ok bs :: (KvError, bytes) res)"
    by (cases "encode serialize now e :: (KvError, bytes) res") (auto simp: segment_append_def)
  have off: "ws_current_write_offset (sg_store seg) = length old" and fd: "fd < length (fs_content fs)"
    and diff: "fd \<noteq> seg_fd (ss_active ss)" "sg_file_id seg \<noteq> sg_file_id (ss_active ss)"
    using assms(2) by (simp_all add: filling_def old_def fd_def)
  have resp: "resp = \<lparr>ar_file_id = sg_file_id seg, ar_offset = length old, ar_entry_length = length bs\<rparr>"
    and seg': "seg' = seg\<lparr>sg_store := (sg_store seg)\<lparr>ws_current_write_offset := length old + length bs\<rparr>\<rparr>"
    and fs': "fs' = fs\<lparr>fs_content := (fs_content fs)[fd := old @ bs]\<rparr>"
    using assms(1) enc off
    by (auto simp: segment_append_def store_append_def Let_def sbind_def fd_def old_def split: if_splits)
  have content: "file_content fs' i = (if i = fd then old @ bs else file_content fs i)" for i
    using fd by (simp add: fs' file_content_def)
  have len: "length (fs_content fs') = length (fs_content fs)" by (simp add: fs')
  obtain clone where clone: "hm_get (ss_inactive ss) (sg_file_id seg) = Some clone" "seg_fd clone = fd"
    using assms(2) by (auto simp: filling_def fd_def)
  then have at: "seg_at ss (sg_file_id seg) = Some clone" using diff by (simp add: seg_at_def)
  have "filling seg' (ss, fs')"
    using assms(2) clone diff fd len
    by (auto simp: filling_def segs_ok_def seg' content fd_def [symmetric])
  moreover have "grows (ss, fs) (ss, fs')"
    by (auto simp: grows_def content old_def)
  moreover have "reads_as (ss, fs') resp (en_value e)"
    using at clone(2) decode_encode [OF enc]
    by (simp add: reads_as_def in_range_def resp key_entry_from_def content segments_read_seg_at
        segment_read_def store_read_def stored_of_def)
  ultimately show ?thesis by (simp add: resp seg' fs')
qed

text \<open>A new segment that is entered into the map of inactive segments.\<close>

lemma segment_new_filling:
  assumes "segment_new faults (mono_id ss 0) (ss_directory ss) fs = (Ok seg, fs')"
    and "segs_ok (ss, fs)" and "fresh_ids (Suc n) (ss, fs)"
  shows "filling seg (insert_inactive seg (tick ss), fs') \<and> grows (ss, fs) (insert_inactive seg (tick ss), fs')
     \<and> fresh_ids n (insert_inactive seg (tick ss), fs') \<and> sg_file_id seg = mono_id ss 0"
proof -
  define file_id where "file_id = mono_id ss 0"
  have free: "seg_at ss file_id = None" "map_of (fs_names fs) (ss_directory ss, segment_name file_id) = None"
    using assms(3) by (auto simp: fresh_ids_def file_id_def)
  then have other: "file_id \<noteq> sg_file_id (ss_active ss)" by (auto simp: seg_at_def)
  from segment_new_cases [OF assms(1)] free(2)
  have seg: "sg_file_id seg = file_id" "ws_current_write_offset (sg_store seg) = 0"
    "seg_fd seg = length (fs_content fs)" "fs_content fs' = fs_content fs @ [[]]"
    by (auto simp: file_id_def)
  have names: "fs_names fs' = fs_names fs @ [((ss_directory ss, segment_name file_id), length (fs_content fs))]"
    using assms(1) free(2)
    by (auto simp: segment_new_def store_open_def sbind_def Let_def file_id_def split: if_splits)
  have inv: "hm_ok (ss_inactive ss)"
    "\<And>i s. seg_at ss i = Some s \<Longrightarrow> seg_fd s < length (fs_content fs)"
    "ws_current_write_offset (sg_store (ss_active ss)) = length (file_content fs (seg_fd (ss_active ss)))"
    using assms(2) by (auto simp: segs_ok_def)
  then have active: "seg_fd (ss_active ss) < length (fs_content fs)"
    by (metis seg_at_def)
  define ss' where "ss' = insert_inactive seg (tick ss)"
  have ss': "ss_active ss' = ss_active ss" "ss_inactive ss' = hm_insert file_id seg (ss_inactive ss)"
    "ss_directory ss' = ss_directory ss" "mono_id ss' = mono_id (tick ss)"
    by (simp_all add: ss'_def insert_inactive_def seg(1) fun_eq_iff)
  have at: "seg_at ss' = (seg_at ss)(file_id \<mapsto> seg)"
    using inv(1) other seg(1) by (auto simp: fun_eq_iff seg_at_def ss' hm.get_ins)
  have old: "file_content fs' fd = file_content fs fd" if "fd < length (fs_content fs)" for fd
    using that seg(4) by (simp add: file_content_def nth_append)
  have new: "file_content fs' (length (fs_content fs)) = []" by (simp add: file_content_def seg(4))
  have "segs_ok (ss', fs')"
    using inv active old seg by (auto simp: segs_ok_def at ss' hm.ok_ins less_Suc_eq split: if_splits)
  then have "filling seg (ss', fs')"
    using inv(1) seg other active by (auto simp: filling_def ss' hm.get_ins new)
  moreover have "grows (ss, fs) (ss', fs')"
    using inv(2) old free(1) by (auto simp: grows_def at)
  moreover have "fresh_ids n (ss', fs')"
    by (rule fresh_ids_insert [OF assms(3)]) (simp_all add: at file_id_def [symmetric] names ss')
  ultimately show ?thesis by (simp add: seg(1) file_id_def ss'_def)
qed

section \<open>The loop\<close>

lemma filling_tick [simp]: "filling seg (tick ss, fs) = filling seg (ss, fs)"
  by (simp add: filling_def segs_ok_def)

lemma grows_tick [simp]: "grows (tick ss, fs) st = grows (ss, fs) st" "grows st (tick ss, fs) = grows st (ss, fs)"
  by (cases st; simp add: grows_def)+

lemma insert_inactive_active [simp]: "ss_active (insert_inactive seg ss) = ss_active ss"
  by (simp add: insert_inactive_def)

lemma entry_now_tick:
  "\<exists>now ss1. entry_now e (ss, fs) = (Ok now, (ss1, fs)) \<and> (ss1 = ss \<or> ss1 = tick ss)"
  by (simp add: entry_now_def clock_now_def tick_def)

lemma maybe_rollover_segment_cases:
  assumes "maybe_rollover_segment faults seg (ss, fs) = (Ok r, (ss', fs'))"
  obtains "r = None" and "ss' = ss" and "fs' = fs"
  | new where "r = Some new" and "ss' = tick ss"
      and "segment_new faults (mono_id ss 0) (ss_directory ss) fs = (Ok new, fs')"
proof -
  obtain q fs1 where q: "segment_new faults (mono_id ss 0) (ss_directory ss) fs = (q, fs1)"
    by (cases "segment_new faults (mono_id ss 0) (ss_directory ss) fs")
  then show ?thesis
    using assms that
    by (cases q) (auto simp: maybe_rollover_segment_def fresh_file_id_def next_file_id_def monotonic_now_def
        on_files_def sbind_def mono_id_def tick_def split: if_splits)
qed

text \<open>Filling goes on in the same segment or in a new one.\<close>

lemma rollover_filling:
  assumes "maybe_rollover_segment faults seg (ss, fs) = (Ok r, (ss1, fs1))" and "filling seg (ss, fs)"
    and "fresh_ids (Suc n) (ss, fs)"
    and "nxt = (case r of None \<Rightarrow> seg | Some new \<Rightarrow> new)"
    and "ss2 = (case r of None \<Rightarrow> ss1 | Some new \<Rightarrow> insert_inactive new ss1)"
  shows "filling nxt (ss2, fs1) \<and> fresh_ids n (ss2, fs1) \<and> grows (ss, fs) (ss2, fs1)
     \<and> ss_active ss2 = ss_active ss \<and> (sg_file_id nxt = sg_file_id seg \<or> seg_at ss (sg_file_id nxt) = None)"
  using assms(1)
proof (cases rule: maybe_rollover_segment_cases)
  case 1
  then show ?thesis using assms fresh_ids_mono [OF assms(3), of n] by simp
next
  case (2 new)
  have "segs_ok (ss, fs)" using assms(2) by (simp add: filling_def)
  from segment_new_filling [OF 2(3) this assms(3)]
  have "filling new (insert_inactive new (tick ss), fs1)" "grows (ss, fs) (insert_inactive new (tick ss), fs1)"
    "fresh_ids n (insert_inactive new (tick ss), fs1)" "sg_file_id new = mono_id ss 0" by blast+
  moreover have "seg_at ss (mono_id ss 0) = None" using assms(3) by (simp add: fresh_ids_def)
  ultimately show ?thesis using 2(1,2) assms(4,5) by simp
qed

lemma write_back_loop_step:
  assumes "write_back_loop env seg ((k, e) # changes) (ss, fs) = (Ok resps, st')" and "filling seg (ss, fs)"
    and "fresh_ids (Suc (Suc n)) (ss, fs)"
  obtains resp rest nxt ss2 fs2 where "resps = (k, resp) # rest"
    and "write_back_loop env nxt changes (ss2, fs2) = (Ok rest, st')"
    and "filling nxt (ss2, fs2)" and "fresh_ids n (ss2, fs2)" and "grows (ss, fs) (ss2, fs2)"
    and "reads_as (ss2, fs2) resp (ms_value e)" and "ar_file_id resp = sg_file_id seg"
    and "ss_active ss2 = ss_active ss"
    and "sg_file_id nxt = sg_file_id seg \<or> seg_at ss (sg_file_id nxt) = None"
proof -
  let ?e = "entry_new_preserving_timestamp k (ms_value e) (ms_timestamp e)"
  obtain now ss1 where now: "entry_now ?e (ss, fs) = (Ok now, (ss1, fs))" "ss1 = ss \<or> ss1 = tick ss"
    using entry_now_tick by blast
  have fill1: "filling seg (ss1, fs)" and fresh1: "fresh_ids (Suc n) (ss1, fs)"
    and at1: "seg_at ss1 = seg_at ss" and active1: "ss_active ss1 = ss_active ss"
    using now(2) assms(2,3) fresh_ids_tick fresh_ids_mono [OF assms(3), of "Suc n"] by auto
  obtain q fs1 where q: "segment_append (ke_faults env) (ke_serialize env) now seg ?e fs = (q, fs1)"
    by (cases "segment_append (ke_faults env) (ke_serialize env) now seg ?e fs")
  with assms(1) now(1) obtain resp seg1 where q': "q = Ok (resp, seg1)"
    by (cases q) (auto simp: sbind_def on_files_def Let_def)
  note app = segment_append_filling [OF q [unfolded q'] fill1]
  obtain r ss2 fs2 where r: "maybe_rollover_segment (ke_faults env) seg1 (ss1, fs1) = (r, (ss2, fs2))"
    by (cases "maybe_rollover_segment (ke_faults env) seg1 (ss1, fs1)") auto
  with assms(1) now(1) q q' obtain x where x: "r = Ok x"
    by (cases r) (auto simp: sbind_def on_files_def Let_def)
  define nxt where "nxt = (case x of None \<Rightarrow> seg1 | Some new \<Rightarrow> new)"
  define ss3 where "ss3 = (case x of None \<Rightarrow> ss2 | Some new \<Rightarrow> insert_inactive new ss2)"
  have "fresh_ids (Suc n) (ss1, fs1)" using fresh_ids_files fresh1 app by blast
  note roll = rollover_filling [OF r [unfolded x] _ this nxt_def ss3_def]
  obtain rest where rest: "write_back_loop env nxt changes (ss3, fs2) = (Ok rest, st')" "resps = (k, resp) # rest"
    using assms(1) now(1) q q' r x
    by (cases x) (auto simp: sbind_eq_Ok on_files_def Let_def nxt_def ss3_def)
  have "grows (ss1, fs) (ss3, fs2)" using app roll grows_trans by blast
  moreover have "grows (ss, fs) (ss3, fs2) = grows (ss1, fs) (ss3, fs2)" using now(2) by auto
  ultimately show ?thesis
    using that [OF rest(2,1)] roll app reads_as_grows [of "(ss1, fs1)" "(ss3, fs2)"] at1 active1
    by (simp add: entry_new_preserving_timestamp_def)
qed

lemma write_back_loop_ok:
  assumes "write_back_loop env seg changes (ss, fs) = (Ok resps, st')" and "filling seg (ss, fs)"
    and "fresh_ids (2 * length changes) (ss, fs)"
    and "\<And>f. f \<in> F \<Longrightarrow> seg_at ss f \<noteq> None" and "sg_file_id seg \<notin> F"
  shows "segs_ok st' \<and> grows (ss, fs) st' \<and> ss_active (fst st') = ss_active ss \<and>
     list_all2 (\<lambda>(k, e) (k', resp). k' = k \<and> reads_as st' resp (ms_value e) \<and> ar_file_id resp \<notin> F) changes resps"
  using assms
proof (induction changes arbitrary: seg ss fs resps)
  case Nil
  then show ?case by (auto simp: filling_def)
next
  case (Cons c changes)
  obtain k e where c: "c = (k, e)" by (cases c)
  have fresh: "fresh_ids (Suc (Suc (2 * length changes))) (ss, fs)" using Cons.prems(3) by simp
  from Cons.prems(1) [unfolded c] Cons.prems(2) fresh
  obtain resp rest nxt ss2 fs2 where step: "resps = (k, resp) # rest"
    "write_back_loop env nxt changes (ss2, fs2) = (Ok rest, st')" "filling nxt (ss2, fs2)"
    "fresh_ids (2 * length changes) (ss2, fs2)" "grows (ss, fs) (ss2, fs2)"
    "reads_as (ss2, fs2) resp (ms_value e)" "ar_file_id resp = sg_file_id seg"
    "ss_active ss2 = ss_active ss" "sg_file_id nxt = sg_file_id seg \<or> seg_at ss (sg_file_id nxt) = None"
    by (rule write_back_loop_step)
  have "seg_at ss2 f \<noteq> None" if "f \<in> F" for f
    using Cons.prems(4) [OF that] step(5) by (fastforce simp: grows_def)
  moreover have "sg_file_id nxt \<notin> F" using step(9) Cons.prems(4) [of "sg_file_id nxt"] Cons.prems(5) by auto
  ultimately have "segs_ok st' \<and> grows (ss2, fs2) st' \<and> ss_active (fst st') = ss_active ss2 \<and>
     list_all2 (\<lambda>(k, e) (k', resp). k' = k \<and> reads_as st' resp (ms_value e) \<and> ar_file_id resp \<notin> F) changes rest"
    by (rule Cons.IH [OF step(2-4)])
  then show ?case
    using step grows_trans [OF step(5)] reads_as_grows [of "(ss2, fs2)" st'] Cons.prems(5) by (simp add: c)
qed

section \<open>Removing the merged segments\<close>

lemma segment_remove_content:
  "segment_remove faults seg fs = (r, fs') \<Longrightarrow> fs_content fs' = fs_content fs"
  by (auto simp: segment_remove_def store_remove_def split: if_splits)

lemma segments_remove_ok:
  assumes "segments_remove faults F (ss, fs) = (r, (ss', fs'))"
  shows "fs_content fs' = fs_content fs \<and> ss_active ss' = ss_active ss
     \<and> (\<forall>f. f \<notin> set F \<longrightarrow> hm_get (ss_inactive ss') f = hm_get (ss_inactive ss) f)"
  using assms
proof (induction F arbitrary: ss fs)
  case (Cons f F)
  show ?case
  proof (cases "hm_get (ss_inactive ss) f")
    case None
    with Cons show ?thesis by simp
  next
    case (Some seg)
    obtain q fs1 where q: "segment_remove faults seg fs = (q, fs1)" by (cases "segment_remove faults seg fs")
    note content = segment_remove_content [OF q]
    show ?thesis
    proof (cases q)
      case (Ok u)
      with Cons.prems Some q
      have "segments_remove faults F (ss\<lparr>ss_inactive := hm_remove f (ss_inactive ss)\<rparr>, fs1) = (r, (ss', fs'))"
        by (simp add: on_files_def sbind_def)
      from Cons.IH [OF this] content show ?thesis by (simp add: hm_get_remove)
    qed (use Cons.prems Some q content in \<open>auto simp: on_files_def sbind_def hm_get_remove\<close>)
  qed
qed simp

lemma segments_read_removed:
  assumes "segments_remove faults F (ss, fs) = (r, (ss', fs'))" and "file_id \<notin> set F"
  shows "segments_read faults' (ss', fs') file_id off len = segments_read faults' (ss, fs) file_id off len"
proof -
  have "file_content fs' = file_content fs"
    using segments_remove_ok [OF assms(1)] by (simp add: file_content_def fun_eq_iff)
  then show ?thesis
    using segments_remove_ok [OF assms(1)] assms(2)
    by (auto simp: segments_read_def segment_read_def store_read_def split: option.splits)
qed

section \<open>Writing back\<close>

lemma bulk_update_get:
  assumes "hm_ok d" and "distinct (map fst resps)"
  shows "hm_get (bulk_update resps d) k
       = (case map_of resps k of Some resp \<Rightarrow> Some (key_entry_from resp) | None \<Rightarrow> hm_get d k)"
proof -
  have eq: "bulk_update resps d = fold (\<lambda>(k, v). hm_insert k v) (map (\<lambda>(k, r). (k, key_entry_from r)) resps) d"
    unfolding bulk_update_def by (induction resps arbitrary: d) (auto simp: case_prod_beta)
  have "map_of (rev (map (\<lambda>(k, r). (k, key_entry_from r)) resps)) k = map_option key_entry_from (map_of resps k)"
  proof -
    have "distinct (map fst (map (\<lambda>(k, r). (k, key_entry_from r)) resps))"
      using assms(2) by (simp add: case_prod_beta comp_def)
    then have "map_of (rev (map (\<lambda>(k, r). (k, key_entry_from r)) resps))
        = map_of (map (\<lambda>(k, r). (k, key_entry_from r)) resps)"
      by (metis map_of_inject_set distinct_rev rev_map set_rev)
    then show ?thesis by (simp add: map_of_map)
  qed
  with hm.get_fold [OF assms(1)] show ?thesis by (simp add: eq split: option.splits)
qed

lemma segments_write_back_ok:
  assumes "segments_write_back env changes (ss, fs) = (Ok resps, st')" and "segs_ok (ss, fs)"
    and "fresh_ids (Suc (2 * length (ke_change_order env changes))) (ss, fs)"
    and "\<And>f. f \<in> F \<Longrightarrow> seg_at ss f \<noteq> None"
  shows "segs_ok st' \<and> grows (ss, fs) st' \<and> ss_active (fst st') = ss_active ss \<and>
     list_all2 (\<lambda>(k, e) (k', resp). k' = k \<and> reads_as st' resp (ms_value e) \<and> ar_file_id resp \<notin> F)
       (ke_change_order env changes) resps"
proof -
  obtain q fs1 where q: "segment_new (ke_faults env) (mono_id ss 0) (ss_directory ss) fs = (q, fs1)"
    by (cases "segment_new (ke_faults env) (mono_id ss 0) (ss_directory ss) fs")
  with assms(1) obtain seg where seg: "q = Ok seg"
    and loop: "write_back_loop env seg (ke_change_order env changes) (insert_inactive seg (tick ss), fs1) = (Ok resps, st')"
    by (cases q) (auto simp: segments_write_back_def fresh_file_id_def next_file_id_def monotonic_now_def
        on_files_def sbind_def mono_id_def tick_def)
  note new = segment_new_filling [OF q [unfolded seg] assms(2,3)]
  have F: "seg_at (insert_inactive seg (tick ss)) f \<noteq> None" if "f \<in> F" for f
    using assms(4) [OF that] new by (fastforce simp: grows_def)
  have "seg_at ss (mono_id ss 0) = None" using assms(3) by (simp add: fresh_ids_def)
  then have "sg_file_id seg \<notin> F" using new assms(4) [of "mono_id ss 0"] by auto
  from write_back_loop_ok [OF loop _ _ F this] new show ?thesis
    using grows_trans [of "(ss, fs)" "(insert_inactive seg (tick ss), fs1)" st'] by auto
qed

lemma list_all2_keys:
  assumes "list_all2 (\<lambda>(k, e) (k', resp). k' = k \<and> Q e resp) xs ys"
  shows "map fst ys = map fst xs" and "(k, e) \<in> set xs \<Longrightarrow> \<exists>resp. (k, resp) \<in> set ys \<and> Q e resp"
  using assms by (induction xs ys rule: list_all2_induct) auto

lemma kv_write_back_cases:
  assumes "kv_write_back env F changes (s, fs) = (Ok (), (s', fs'))"
  obtains resps ss1 fs1 where "segments_write_back env changes (kv_segments s, fs) = (Ok resps, (ss1, fs1))"
    and "segments_remove (ke_faults env) F (ss1, fs1) = (Ok (), (kv_segments s', fs'))"
    and "kv_key_directory s' = bulk_update resps (kv_key_directory s)"
proof -
  obtain q ss1 fs1 where q: "segments_write_back env changes (kv_segments s, fs) = (q, (ss1, fs1))"
    by (cases "segments_write_back env changes (kv_segments s, fs)") auto
  obtain r ss2 fs2 where r: "segments_remove (ke_faults env) F (ss1, fs1) = (r, (ss2, fs2))"
    by (cases "segments_remove (ke_faults env) F (ss1, fs1)") auto
  show ?thesis
    using assms that q r
    by (cases q) (auto simp: kv_write_back_def on_segments_def upd_def sbind_def)
qed

lemma kv_write_back_reads:
  assumes "kv_write_back env F changes (s, fs) = (Ok (), (s', fs'))" and "kv_ok (s, fs)"
    and "fresh_ids (Suc (2 * length changes)) (kv_segments s, fs)"
    and "\<And>f. f \<in> set F \<Longrightarrow> seg_at (kv_segments s) f \<noteq> None"
    and "mset (ke_change_order env changes) = mset changes" and "distinct (map fst changes)"
  shows "(k, e) \<in> set changes \<Longrightarrow> kv_get no_faults (s', fs') k = Ok (ms_value e)"
    and "k \<notin> fst ` set changes \<Longrightarrow> hm_get (kv_key_directory s) k = Some x \<Longrightarrow> kd_file_id x \<notin> set F \<Longrightarrow>
       kv_get faults' (s', fs') k = kv_get faults' (s, fs) k"
proof -
  obtain resps ss1 fs1 where
    wb: "segments_write_back env changes (kv_segments s, fs) = (Ok resps, (ss1, fs1))" and
    rm: "segments_remove (ke_faults env) F (ss1, fs1) = (Ok (), (kv_segments s', fs'))" and
    dir: "kv_key_directory s' = bulk_update resps (kv_key_directory s)"
    by (rule kv_write_back_cases [OF assms(1)])
  have ok: "segs_ok (kv_segments s, fs)" "hm_ok (kv_key_directory s)" using assms(2) by (simp_all add: kv_ok_def)
  have len: "length (ke_change_order env changes) = length changes"
    and ord: "set (ke_change_order env changes) = set changes"
    and dist: "distinct (map fst (ke_change_order env changes))"
    using assms(5,6) by (metis size_mset, metis set_mset_mset, metis distinct_map mset_eq_imp_distinct_iff mset_eq_setD)
  note out = segments_write_back_ok [OF wb ok(1) assms(3) [folded len] assms(4)]
  then have gr: "grows (kv_segments s, fs) (ss1, fs1)"
    and keys: "list_all2 (\<lambda>(k, e) (k', resp). k' = k \<and> (reads_as (ss1, fs1) resp (ms_value e) \<and> ar_file_id resp \<notin> set F))
       (ke_change_order env changes) resps" by auto
  note keys = list_all2_keys [OF keys]
  have get: "hm_get (kv_key_directory s') k =
      (case map_of resps k of Some resp \<Rightarrow> Some (key_entry_from resp) | None \<Rightarrow> hm_get (kv_key_directory s) k)" for k
    unfolding dir using keys(1) dist by (intro bulk_update_get ok) simp
  show "kv_get no_faults (s', fs') k = Ok (ms_value e)" if "(k, e) \<in> set changes"
  proof -
    from that keys(2) ord obtain resp where r: "(k, resp) \<in> set resps"
      "reads_as (ss1, fs1) resp (ms_value e)" "ar_file_id resp \<notin> set F" by blast
    then have "map_of resps k = Some resp" using keys(1) dist by (simp add: map_of_eq_Some_iff)
    with r segments_read_removed [OF rm r(3)] show ?thesis
      by (auto simp: kv_get_def get key_entry_from_def reads_as_def)
  qed
  show "kv_get faults' (s', fs') k = kv_get faults' (s, fs) k"
    if "k \<notin> fst ` set changes" and "hm_get (kv_key_directory s) k = Some x" and "kd_file_id x \<notin> set F"
  proof -
    have "map_of resps k = None"
      using that(1) keys(1) ord by (metis list.set_map map_of_eq_None_iff)
    moreover have "in_range (kv_segments s, fs) x" using assms(2) that(2) by (simp add: kv_ok_def)
    ultimately show ?thesis
      using that(2) grows_read [OF gr] segments_read_removed [OF rm that(3)]
      by (simp add: kv_get_def get)
  qed
qed

section \<open>Properties\<close>

text \<open>Three values of one key, the first two in inactive segments, the last in the active one.\<close>

definition sample_segment :: "u64 \<Rightarrow> nat \<Rightarrow> Segment" where
  "sample_segment file_id fd = \<lparr>sg_file_id = file_id, sg_file_path = segment_name file_id,
     sg_store = \<lparr>ws_file_descriptor = fd, ws_current_write_offset = 15, ws_directory_path = ''d'',
                 ws_file_name = segment_name file_id\<rparr>\<rparr>"

definition three_values :: "UUIDWasiKey KVStore \<times> files" where
  "three_values =
     (\<lparr>kv_segments = \<lparr>ss_active = sample_segment 5 2,
         ss_inactive = [(1, sample_segment 1 0), (3, sample_segment 3 1)], ss_clock = sample_clock 6,
         ss_max_segment_size_bytes = 1, ss_directory = ''d''\<rparr>,
       kv_key_directory = [([107], \<lparr>kd_file_id = 5, kd_offset = 0, kd_entry_length = 15\<rparr>)],
       kv_merge_config = new_with_all_segments_to_read_every_fixed_duration 3, kv_counter = 3\<rparr>,
      \<lparr>fs_names = [((''d'', segment_name 1), 0), ((''d'', segment_name 3), 1), ((''d'', segment_name 5), 2)],
       fs_content = [entry_bytes 101 [107] [1] 0, entry_bytes 103 [107] [2] 0, entry_bytes 105 [107] [3] 0]\<rparr>)"

definition merged_entry :: "UUIDWasiKey MappedStoredEntry" where
  "merged_entry = \<lparr>ms_key = [107], ms_value = [2], ms_deleted = False, ms_timestamp = 103,
     ms_key_offset = 0, ms_entry_length = 15\<rparr>"

lemma three_values_ok: "kv_ok three_values"
  by (auto simp: three_values_def kv_ok_def segs_ok_def seg_at_def in_range_def hm_get_def hm_ok_def
      sample_segment_def file_content_def split: if_splits)

lemma three_values_write_back: "fst (kv_write_back sample_env [1, 3] [([107], merged_entry)] three_values) = Ok ()"
  by code_simp

lemma three_values_fresh: "fresh_ids 3 (kv_segments (fst three_values), snd three_values)"
  by (simp add: fresh_ids_def three_values_def mono_id_def sample_clock_def inj_on_def seg_at_def hm_get_def
      sample_segment_def lessThan_Suc numeral_3_eq_3 less_Suc_eq)

lemma three_values_merged:
  assumes "kv_write_back sample_env [1, 3] [([107], merged_entry)] three_values = (Ok (), st')"
  shows "kv_get no_faults st' [107] = Ok [2]"
proof -
  obtain s fs where st: "three_values = (s, fs)" by (cases three_values)
  obtain s' fs' where st': "st' = (s', fs')" by (cases st')
  have "kv_get no_faults (s', fs') [107] = Ok (ms_value merged_entry)"
  proof (rule kv_write_back_reads(1) [OF assms [unfolded st st']])
    show "kv_ok (s, fs)" using three_values_ok by (simp add: st)
    show "fresh_ids (Suc (2 * length [([107], merged_entry)])) (kv_segments s, fs)"
      using three_values_fresh by (simp add: st numeral_3_eq_3)
    have "kv_segments s = kv_segments (fst three_values)" by (simp add: st)
    then show "seg_at (kv_segments s) f \<noteq> None" if "f \<in> set [1, 3]" for f
      using that by (auto simp: three_values_def seg_at_def hm_get_def sample_segment_def)
  qed (simp_all add: sample_env_def)
  then show ?thesis by (simp add: st' merged_entry_def)
qed

text \<open>
  The name of a segment file is recognised at start-up: it has the suffix that is looked
  for, and the text before its first underscore is the decimal form of the segment's
  identifier, which is read back exactly.
\<close>

lemma segment_name_recognised:
  "ends_with (segment_name file_id) (SEGMENT_FILE_PREFIX @ ''.'' @ SEGMENT_FILE_SUFFIX)
   \<and> parse_u64 (takeWhile (\<lambda>c. c \<noteq> CHR ''_'') (segment_name file_id)) = Some file_id"
proof -
  have "ends_with (show_nat (unat file_id) @ ''_'' @ (SEGMENT_FILE_PREFIX @ ''.'' @ SEGMENT_FILE_SUFFIX))
      (SEGMENT_FILE_PREFIX @ ''.'' @ SEGMENT_FILE_SUFFIX)"
    unfolding append_assoc [symmetric] by (simp add: ends_with_def)
  then show ?thesis by (simp add: segment_name_parse) (simp add: segment_name_def)
qed

text \<open>
  C28: After merged entries have been written back without an error, every merged key reads as
  its merged value, although the files it was in are gone; the new files are told apart from
  the old ones by the readings of the clock.
\<close>

theorem merge_write_back_reads:
  assumes "kv_write_back env F changes (s, fs) = (Ok (), (s', fs'))" and "kv_ok (s, fs)"
    and "fresh_ids (Suc (2 * length changes)) (kv_segments s, fs)"
    and "\<And>f. f \<in> set F \<Longrightarrow> seg_at (kv_segments s) f \<noteq> None"
    and "mset (ke_change_order env changes) = mset changes" and "distinct (map fst changes)"
    and "(k, e) \<in> set changes"
  shows "kv_get no_faults (s', fs') k = Ok (ms_value e)"
  using assms by (rule kv_write_back_reads(1))

theorem merge_write_back_reads_witness:
  "kv_get no_faults (snd (kv_write_back sample_env [1, 3] [([107], merged_entry)] three_values)) [107] = Ok [2]"
proof -
  obtain s fs where st: "three_values = (s, fs)" by (cases three_values)
  obtain r s' fs' where st': "kv_write_back sample_env [1, 3] [([107], merged_entry)] three_values = (r, (s', fs'))"
    by (cases "kv_write_back sample_env [1, 3] [([107], merged_entry)] three_values") auto
  have "r = Ok ()" using three_values_write_back st' by simp
  then have "kv_write_back sample_env [1, 3] [([107], merged_entry)] (s, fs) = (Ok (), (s', fs'))"
    using st' by (simp add: st)
  then have "kv_get no_faults (s', fs') [107] = Ok (ms_value merged_entry)"
  proof (rule merge_write_back_reads)
    show "kv_ok (s, fs)" using three_values_ok by (simp add: st)
    show "fresh_ids (Suc (2 * length [([107], merged_entry)])) (kv_segments s, fs)"
      using three_values_fresh by (simp add: st numeral_3_eq_3)
    have "kv_segments s = kv_segments (fst three_values)" by (simp add: st)
    then show "seg_at (kv_segments s) f \<noteq> None" if "f \<in> set [1, 3]" for f
      using that by (auto simp: three_values_def seg_at_def hm_get_def sample_segment_def)
  qed (simp_all add: sample_env_def)
  moreover have "ms_value merged_entry = [2]" by (simp add: merged_entry_def)
  ultimately show ?thesis by (simp add: st')
qed


end
