(* ===== verification/Node.thy ===== *)
theory Node
  imports Chain Signer KV_Write_Back
begin

text \<open>
  \<^verbatim>\<open>node/src/node.rs\<close>, \<^verbatim>\<open>db.rs\<close> and the exports in \<^verbatim>\<open>lib.rs\<close>: the client, which puts the
  chain, the wallet, the signer and the key-value store together. The state of an operation is
  the node with the files of the store, and the host. The wallet is the one inside the chain.
  \<open>node_env\<close> collects the parameters of the components and the encodings of the saved states
  (\<^verbatim>\<open>bincode\<close>).
\<close>

section \<open>State\<close>

record NodeConfig =
  nc_socket_address :: CustomIPV4SocketAddress
  nc_network :: Network
  nc_xpriv :: string

record NodeState =
  ns_socket_address :: CustomIPV4SocketAddress
  ns_network :: Network

record ('x, 'p, 't) node_env =
  ne_sha256 :: sha
  ne_siphash :: siphash
  ne_hex_decode :: "string \<Rightarrow> (string, bytes) res"
  ne_raw_socket :: "WasiTcpSocket option"
  ne_kv :: "UUIDWasiKey kv_env"
  ne_kv_clock :: clock
  ne_signer :: "('p, 'x, 't) signer_env"
  ne_wallet :: "(outpoint, 'x) wallet_env"
  ne_parse_xpub :: "string \<Rightarrow> 'x option"
  ne_parse_path :: "string \<Rightarrow> u32 list option"
  ne_parse_fingerprint :: "string \<Rightarrow> bytes option"
  ne_from_sat_per_vb :: "u64 \<Rightarrow> fee_env option"
  ne_parse_signed :: "bytes \<Rightarrow> (SignedInput list \<times> (SignedInput list \<Rightarrow> string + bytes)) option"
  ne_save_wallet :: "'x wallet \<Rightarrow> bytes option"
  ne_load_wallet :: "bytes \<Rightarrow> 'x wallet option"
  ne_save_chain :: "ChainState \<Rightarrow> bytes option"
  ne_load_chain :: "bytes \<Rightarrow> ChainState option"
  ne_save_node :: "NodeState \<Rightarrow> bytes option"
  ne_load_node :: "bytes \<Rightarrow> NodeState option"

type_synonym kv_store = "UUIDWasiKey KVStore"

record ('x, 'p) Node =
  nd_chain :: "'x CompactChain"
  nd_signer :: "('p, 'x) SimpleSigner"
  nd_node_state :: NodeState
  nd_db :: kv_store

section \<open>The database\<close>

definition CHAIN_STATE_KEY :: UUIDWasiKey where "CHAIN_STATE_KEY = str_bytes ''chain_state''"
definition WALLET_STATE_KEY :: UUIDWasiKey where "WALLET_STATE_KEY = str_bytes ''wallet_state''"
definition NODE_STATE_KEY :: UUIDWasiKey where "NODE_STATE_KEY = str_bytes ''node_state''"
definition SIGNER_STATE_KEY :: UUIDWasiKey where "SIGNER_STATE_KEY = str_bytes ''signer_state''"

type_synonym 'a db_call = "(kv_store \<times> files, Error, 'a) call"

definition db_insert :: "UUIDWasiKey kv_env \<Rightarrow> UUIDWasiKey \<Rightarrow> bytes \<Rightarrow> unit db_call" where
  "db_insert env key value = smap_err DBError (guest_kv_insert env key value)"

definition db_get :: "faults \<Rightarrow> kv_store \<times> files \<Rightarrow> UUIDWasiKey \<Rightarrow> (Error, bytes) res" where
  "db_get faults st key = rmap_err DBError (guest_kv_get faults st key)"

definition db_delete :: "UUIDWasiKey kv_env \<Rightarrow> UUIDWasiKey \<Rightarrow> unit db_call" where
  "db_delete env key = smap_err DBError (guest_kv_delete env key)"

section \<open>Creating and restoring\<close>

fun wallet_network :: "Network \<Rightarrow> Network" where
  "wallet_network Bitcoin = Bitcoin"
| "wallet_network Testnet = Testnet"
| "wallet_network Testnet4 = Testnet4"
| "wallet_network Signet = Signet"
| "wallet_network Regtest = Regtest"
| "wallet_network OtherNetwork = Bitcoin"

definition fst_call :: "('s, 'e, 'a) call \<Rightarrow> ('s \<times> 't, 'e, 'a) call" where
  "fst_call c = (\<lambda>(s, t). case c s of (r, s') \<Rightarrow> (r, (s', t)))"

definition snd_call :: "('t, 'e, 'a) call \<Rightarrow> ('s \<times> 't, 'e, 'a) call" where
  "snd_call c = (\<lambda>(s, t). case c t of (r, t') \<Rightarrow> (r, (s, t')))"

definition node_new :: "('x, 'p, 't) node_env \<Rightarrow> NodeConfig \<Rightarrow> (files \<times> host, Error, ('x, 'p) Node) call" where
  "node_new env config =
     sbind (fst_call (sunwrap (guest_kv_new (ne_kv env) (ne_kv_clock env)))) (\<lambda>db.
     sbind (slift (guest_signer_new (ne_signer env) (SignerConfig (nc_xpriv config)))) (\<lambda>signer.
     sbind (slift (unwrap (guest_derive_account (ne_signer env) signer))) (\<lambda>(xpub, master_fingerprint, account_derivation).
     sbind (slift (guest_new (ne_load_wallet env) (ne_parse_xpub env) (ne_parse_path env) (ne_parse_fingerprint env)
              (Config \<lparr>wc_xpub = xpub, wc_network = wallet_network (nc_network config),
                 wc_account_derivation = account_derivation, wc_master_fingerprint = master_fingerprint\<rparr>))) (\<lambda>wallet.
     sbind (slift (genesis_block_hash_from_network (ne_hex_decode env) (nc_network config))) (\<lambda>genesis.
     sbind (snd_call (chain_new (ne_sha256 env) (ne_raw_socket env) (nc_socket_address config) (nc_network config)
              genesis wallet)) (\<lambda>chain.
       slift (Ok \<lparr>nd_chain = chain, nd_signer = signer,
         nd_node_state = \<lparr>ns_socket_address = nc_socket_address config, ns_network = nc_network config\<rparr>,
         nd_db = db\<rparr>)))))))"

definition load :: "('x, 'p, 't) node_env \<Rightarrow> kv_store \<Rightarrow> UUIDWasiKey \<Rightarrow> (files \<times> host, Error, bytes) call" where
  "load env db key = sget (\<lambda>(fs, _). unwrap (db_get (ke_faults (ne_kv env)) (db, fs) key))"

definition node_restore :: "('x, 'p, 't) node_env \<Rightarrow> (files \<times> host, Error, ('x, 'p) Node) call" where
  "node_restore env =
     sbind (fst_call (sunwrap (guest_kv_new (ne_kv env) (ne_kv_clock env)))) (\<lambda>db.
     sbind (load env db WALLET_STATE_KEY) (\<lambda>wallet_state.
     sbind (slift (guest_new (ne_load_wallet env) (ne_parse_xpub env) (ne_parse_path env) (ne_parse_fingerprint env)
              (OldState wallet_state))) (\<lambda>wallet.
     sbind (load env db SIGNER_STATE_KEY) (\<lambda>signer_state.
     sbind (slift (guest_signer_new (ne_signer env) (SignerOldState signer_state))) (\<lambda>signer.
     sbind (load env db NODE_STATE_KEY) (\<lambda>serialized_node_state.
     sbind (slift (of_opt (ne_load_node env serialized_node_state))) (\<lambda>node_state.
     sbind (load env db CHAIN_STATE_KEY) (\<lambda>chain_state.
     sbind (snd_call (chain_restore (ne_sha256 env) (ne_load_chain env) (ne_raw_socket env)
              (ns_socket_address node_state) (ns_network node_state) wallet chain_state)) (\<lambda>chain.
       slift (Ok \<lparr>nd_chain = chain, nd_signer = signer, nd_node_state = node_state, nd_db = db\<rparr>))))))))))"

section \<open>Operations\<close>

type_synonym ('x, 'p, 'a) node_call = "((('x, 'p) Node \<times> files) \<times> host, Error, 'a) call"

definition on_chain :: "('x, 'a) chain_call \<Rightarrow> ('x, 'p, 'a) node_call" where
  "on_chain c = (\<lambda>((n, fs), h).
     case c (nd_chain n, h) of (r, (cc, h')) \<Rightarrow> (r, ((n\<lparr>nd_chain := cc\<rparr>, fs), h')))"

definition on_db :: "'a db_call \<Rightarrow> ('x, 'p, 'a) node_call" where
  "on_db c = (\<lambda>((n, fs), h). case c (nd_db n, fs) of (r, (db, fs')) \<Rightarrow> (r, ((n\<lparr>nd_db := db\<rparr>, fs'), h)))"

text \<open>A call of the wallet that may change it.\<close>

definition on_wallet ::
    "('x wallet \<Rightarrow> (guest_wallet_error, 'a) res \<times> 'x wallet) \<Rightarrow> (((('x, 'p) Node \<times> files) \<times> host, guest_wallet_error, 'a) call)" where
  "on_wallet f = (\<lambda>((n, fs), h).
     case f (cc_wallet (nd_chain n)) of
       (r, w) \<Rightarrow> (r, ((n\<lparr>nd_chain := (nd_chain n)\<lparr>cc_wallet := w\<rparr>\<rparr>, fs), h)))"

definition store_state :: "('x, 'p, 't) node_env \<Rightarrow> ('x, 'p, unit) node_call" where
  "store_state env =
     sbind (sget (\<lambda>((n, _), _). of_opt (ne_save_chain env (chain_get_state (nd_chain n))))) (\<lambda>encoded_chain_state.
     sbind (sunwrap (on_db (db_insert (ne_kv env) CHAIN_STATE_KEY encoded_chain_state))) (\<lambda>_.
     sbind (sget (\<lambda>((n, _), _). get_state (ne_save_wallet env) (cc_wallet (nd_chain n)))) (\<lambda>wallet_state.
     sbind (sunwrap (on_db (db_insert (ne_kv env) WALLET_STATE_KEY wallet_state))) (\<lambda>_.
     sbind (sget (\<lambda>((n, _), _). guest_signer_get_state (ne_signer env) (nd_signer n))) (\<lambda>signer_state.
     sbind (sunwrap (on_db (db_insert (ne_kv env) SIGNER_STATE_KEY signer_state))) (\<lambda>_.
     sbind (sget (\<lambda>((n, _), _). of_opt (ne_save_node env (nd_node_state n)))) (\<lambda>encoded_node_state.
       sunwrap (on_db (db_insert (ne_kv env) NODE_STATE_KEY encoded_node_state)))))))))"

definition node_balance :: "('x, 'p, 't) node_env \<Rightarrow> ('x, 'p, u64) node_call" where
  "node_balance env =
     sbind (on_chain (sync_state (ne_sha256 env) (ne_siphash env))) (\<lambda>_.
     sbind (store_state env) (\<lambda>_.
       sget (\<lambda>((n, _), _). rmap_err (\<lambda>_. WalletError 3) (guest_balance (cc_wallet (nd_chain n))))))"

definition node_get_receive_address :: "('x, 'p, 't) node_env \<Rightarrow> ('x, 'p, string) node_call" where
  "node_get_receive_address env =
     sbind (smap_err (\<lambda>_. WalletError 4) (on_wallet (guest_get_receive_address (ne_wallet env)))) (\<lambda>address.
     sbind (store_state env) (\<lambda>_. slift (Ok address)))"

definition send_to_address ::
    "('x, 'p, 't) node_env \<Rightarrow> (nat \<Rightarrow> u32) \<Rightarrow> bytes \<Rightarrow> u64 \<Rightarrow> u64 \<Rightarrow> ('x, 'p, unit) node_call" where
  "send_to_address env rnd recepient amount fee_rate =
     sbind (on_chain (sync_state (ne_sha256 env) (ne_siphash env))) (\<lambda>_.
     sbind (sunwrap (on_wallet (\<lambda>w. guest_create_transaction (ne_wallet env) (ne_from_sat_per_vb env) w
              recepient amount fee_rate rnd))) (\<lambda>transaction.
     sbind (sget (\<lambda>((n, _), _). unwrap (guest_sign_psbt (ne_signer env) (nd_signer n) transaction))) (\<lambda>signed_transaction.
     sbind (sunwrap (on_wallet (\<lambda>w. guest_finalise_transaction (ne_parse_signed env) w signed_transaction)))
       (\<lambda>finalised_transaction.
     sbind (slift (unwrap (parse_all tx_read finalised_transaction))) (\<lambda>deserialised_transaction.
     sbind (sunwrap (on_chain (chain_send_transaction (ne_sha256 env) deserialised_transaction))) (\<lambda>_.
       store_state env))))))"

section \<open>The exported interface\<close>

datatype WasiBitcoinNetwork = WBitcoin | WTestnet | WTestnet4 | WSignet | WRegtest

fun network_from :: "WasiBitcoinNetwork \<Rightarrow> Network" where
  "network_from WBitcoin = Bitcoin"
| "network_from WTestnet = Testnet"
| "network_from WRegtest = Regtest"
| "network_from WTestnet4 = Testnet4"
| "network_from WSignet = Signet"

record WasiNodeConfig =
  wn_network :: WasiBitcoinNetwork
  wn_socket_address :: "(u8 \<times> u8 \<times> u8 \<times> u8) \<times> u16"
  wn_xpriv :: string

definition node_config_from :: "WasiNodeConfig \<Rightarrow> NodeConfig" where
  "node_config_from val =
     (case wn_socket_address val of (address, port) \<Rightarrow>
        \<lparr>nc_socket_address = \<lparr>sa_ip = address, sa_port = port\<rparr>, nc_network = network_from (wn_network val),
         nc_xpriv = wn_xpriv val\<rparr>)"

datatype NodeInitialization = NodeOldState | NodeConfigInit WasiNodeConfig

definition client_new ::
    "('x, 'p, 't) node_env \<Rightarrow> NodeInitialization \<Rightarrow> (files \<times> host, Error, ('x, 'p) Node) call" where
  "client_new env init = (case init of NodeOldState \<Rightarrow> node_restore env | NodeConfigInit config \<Rightarrow> node_new env (node_config_from config))"

definition client_get_balance ::
    "('x, 'p, 't) node_env \<Rightarrow> ((('x, 'p) Node \<times> files) \<times> host, u32, u64) call" where
  "client_get_balance env = smap_err to_error_code (node_balance env)"

definition client_get_receive_address ::
    "('x, 'p, 't) node_env \<Rightarrow> ((('x, 'p) Node \<times> files) \<times> host, u32, string) call" where
  "client_get_receive_address env = smap_err to_error_code (node_get_receive_address env)"

definition client_send_to_address ::
    "('x, 'p, 't) node_env \<Rightarrow> (nat \<Rightarrow> u32) \<Rightarrow> bytes \<Rightarrow> u64 \<Rightarrow> u64 \<Rightarrow> ((('x, 'p) Node \<times> files) \<times> host, u32, unit) call" where
  "client_send_to_address env rnd recepient amount fee_rate =
     smap_err to_error_code (send_to_address env rnd recepient amount fee_rate)"

end
