(* ===== verification/P2P_Correct.thy ===== *)
theory P2P_Correct
  imports P2P
begin

text \<open>
  What the connection of theory \<open>P2P\<close> does: when a wait for a message ends, which message it
  delivers, what the handshake exchanges and what the requests for filters and blocks return.
  A peer is given by the messages it has written to the stream.
\<close>

section \<open>The receive loop\<close>

lemma receive_loop_cases:
  assumes "receive_loop sha256 duration c (p, h) = (r, st')"
  obtains
    (exhausted) "ho_monotonic h = []" "r = Err Timeout" "st' = (p, h\<lparr>ho_exhausted := True\<rparr>)"
  | (late) now readings where "ho_monotonic h = now # readings" "duration \<le> now" "r = Err Timeout"
      "st' = (p, h\<lparr>ho_monotonic := readings\<rparr>)"
  | (stop) now readings q where "ho_monotonic h = now # readings" "now < duration"
      "read_message sha256 (p, h\<lparr>ho_monotonic := readings\<rparr>) = (q, st')"
      "(\<exists>m hd. q = Ok (m, hd) \<and> r = Ok m \<and> (mh_command hd = NOTFOUND \<or> mh_command hd = c))
       \<or> (\<exists>e. q = Err e \<and> r = Err e) \<or> r = Panic"
  | (again) now readings q p1 h1 where "ho_monotonic h = now # readings" "now < duration"
      "read_message sha256 (p, h\<lparr>ho_monotonic := readings\<rparr>) = (q, (p1, h1))"
      "receive_loop sha256 duration c (p1, h1) = (r, st')"
proof (cases "ho_monotonic h")
  case Nil
  with assms exhausted show ?thesis by (auto simp: receive_loop.simps [of _ _ _ p h])
next
  case (Cons now readings)
  show ?thesis
  proof (cases "now < duration")
    case True
    obtain q p1 h1 where q: "read_message sha256 (p, h\<lparr>ho_monotonic := readings\<rparr>) = (q, (p1, h1))"
      by (cases "read_message sha256 (p, h\<lparr>ho_monotonic := readings\<rparr>)") auto
    from assms Cons True q have "receive_loop sha256 duration c (p1, h1) = (r, st') \<or> st' = (p1, h1) \<and>
        ((\<exists>m hd. q = Ok (m, hd) \<and> r = Ok m \<and> (mh_command hd = NOTFOUND \<or> mh_command hd = c))
         \<or> (\<exists>e. q = Err e \<and> r = Err e) \<or> r = Panic)"
      by (auto simp: receive_loop.simps [of _ _ _ p h] split: res.splits prod.splits if_splits Error.splits)
    with stop [OF Cons True, of q] again [OF Cons True q] q show ?thesis by auto
  next
    case False
    with assms Cons late show ?thesis by (auto simp: receive_loop.simps [of _ _ _ p h])
  qed
qed

text \<open>
  A wait on a clock that reaches the deadline: the readings it uses up are before the deadline
  but for the last, and when the last is not the wait has timed out.
\<close>

lemma receive_loop_in_time:
  assumes "receive_loop sha256 duration c (p, h) = (r, (p', h'))"
    and "\<exists>t \<in> set (ho_monotonic h). duration \<le> t"
  shows "ho_exhausted h' = ho_exhausted h \<and>
    (\<exists>before t. ho_monotonic h = before @ t # ho_monotonic h' \<and> (\<forall>u \<in> set before. u < duration)
       \<and> (duration \<le> t \<longrightarrow> r = Err Timeout))"
  using assms
proof (induction "ho_monotonic h" arbitrary: p h)
  case Nil
  then show ?case by simp
next
  case (Cons now readings)
  note m = Cons.hyps(2) [symmetric]
  from Cons.prems(1) show ?case
  proof (cases rule: receive_loop_cases)
    case exhausted
    with m show ?thesis by simp
  next
    case late
    with m show ?thesis by (auto intro!: exI [of _ "[]"])
  next
    case (stop t ts q)
    then show ?thesis
      using read_message_monotonic [OF stop(3)] read_message_exhausted [OF stop(3)]
      by (auto intro!: exI [of _ "[]"])
  next
    case (again t ts q p1 h1)
    have h1: "ho_monotonic h1 = readings" "ho_exhausted h1 = ho_exhausted h"
      using read_message_monotonic [OF again(3)] read_message_exhausted [OF again(3)] again(1) m by auto
    moreover have "\<exists>t \<in> set (ho_monotonic h1). duration \<le> t"
      using Cons.prems(2) m again h1 by auto
    ultimately obtain before u where "ho_exhausted h' = ho_exhausted h1"
      "readings = before @ u # ho_monotonic h'" "\<forall>x \<in> set before. x < duration" "duration \<le> u \<longrightarrow> r = Err Timeout"
      using Cons.hyps(1) [OF h1(1) [symmetric] again(4)] by auto
    with h1 m again show ?thesis by (auto intro!: exI [of _ "now # before"])
  qed
qed

section \<open>Messages on the stream\<close>

definition wire :: "sha \<Rightarrow> bytes \<Rightarrow> Message \<Rightarrow> bytes" where
  "wire sha256 magic m = (case message_write sha256 m magic of Ok bs \<Rightarrow> bs | _ \<Rightarrow> [])"

text \<open>Messages the peer sends that are read back: one wall-clock reading for each.\<close>

definition wall_reading :: "u64 list \<Rightarrow> u32" where
  "wall_reading ts = (case ts of [] \<Rightarrow> 0 | t # _ \<Rightarrow> ucast t)"

fun readable :: "u64 list \<Rightarrow> Message list \<Rightarrow> bool" where
  "readable walls [] \<longleftrightarrow> True"
| "readable walls (m # ms) \<longleftrightarrow> transferable (wall_reading walls) m \<and> readable (tl walls) ms"

lemma message_read_nil: "message_read sha256 now eof [] = (r, rest) \<Longrightarrow> r \<noteq> Ok x"
  by (auto simp: message_read_def message_header_read_def sbind_def stream_read_exact_def
      split: res.splits prod.splits)

lemma wire_read:
  assumes "transferable now m" and "length magic = 4"
  shows "wire sha256 magic m \<noteq> []"
    and "\<exists>hd. message_read sha256 now eof (wire sha256 magic m @ rest) = (Ok (m, hd), rest)
           \<and> mh_command hd = message_command m"
proof -
  show 2: "\<exists>hd. message_read sha256 now eof (wire sha256 magic m @ rest) = (Ok (m, hd), rest)
           \<and> mh_command hd = message_command m" for rest
    using message_round_trip_aux [OF assms, of sha256 eof rest] by (auto simp: wire_def)
  show "wire sha256 magic m \<noteq> []"
    using 2 [of "[]"] message_read_nil by fastforce
qed

lemma read_message_wire:
  assumes "transferable (wall_reading (ho_wall h)) m" and "length magic = 4"
    and "pe_input p = (wire sha256 magic m @ rest, eof) # segs"
  shows "\<exists>hd. read_message sha256 (p, h) =
      (Ok (m, hd), (p\<lparr>pe_input := (rest, eof) # segs\<rparr>, h\<lparr>ho_wall := tl (ho_wall h)\<rparr>))
    \<and> mh_command hd = message_command m"
proof -
  obtain hd where hd: "mh_command hd = message_command m"
    "message_read sha256 (wall_reading (ho_wall h)) eof (wire sha256 magic m @ rest) = (Ok (m, hd), rest)"
    using wire_read(2) [OF assms(1,2)] by blast
  have "h\<lparr>ho_wall := []\<rparr> = h" if "ho_wall h = []" using that by (cases h) simp
  with hd wire_read(1) [OF assms(1,2)] assms(3) show ?thesis
    by (cases "ho_wall h") (auto simp: read_message_def take_wall_def wall_reading_def)
qed

lemma receive_loop_wire:
  assumes "readable (ho_wall h) (skipped @ [m])" and "length magic = 4"
    and "pe_input p = (concat (map (wire sha256 magic) (skipped @ [m])) @ rest, eof) # segs"
    and "\<forall>x \<in> set skipped. message_command x \<noteq> c \<and> message_command x \<noteq> NOTFOUND"
    and "message_command m = c"
    and "ho_monotonic h = before @ left" and "length before = Suc (length skipped)"
    and "\<forall>t \<in> set before. t < duration"
  shows "receive_loop sha256 duration c (p, h) =
    (Ok m, (p\<lparr>pe_input := (rest, eof) # segs\<rparr>,
            h\<lparr>ho_monotonic := left, ho_wall := drop (Suc (length skipped)) (ho_wall h)\<rparr>))"
  using assms
proof (induction skipped arbitrary: p h before)
  case Nil
  then obtain t where b: "before = [t]" by (cases before) auto
  with Nil.prems obtain hd where
    "read_message sha256 (p, h\<lparr>ho_monotonic := left\<rparr>) =
      (Ok (m, hd), (p\<lparr>pe_input := (rest, eof) # segs\<rparr>, h\<lparr>ho_monotonic := left, ho_wall := tl (ho_wall h)\<rparr>))"
    "mh_command hd = c"
    using read_message_wire [of "h\<lparr>ho_monotonic := left\<rparr>" m magic p sha256 rest eof segs] by auto
  with Nil.prems b show ?case by (simp add: receive_loop.simps [of _ _ _ p h] drop_Suc)
next
  case (Cons x skipped)
  then obtain t ts where b: "before = t # ts" by (cases before) auto
  let ?more = "concat (map (wire sha256 magic) (skipped @ [m])) @ rest"
  from Cons.prems b obtain hd where
    q: "read_message sha256 (p, h\<lparr>ho_monotonic := ts @ left\<rparr>) =
      (Ok (x, hd), (p\<lparr>pe_input := (?more, eof) # segs\<rparr>, h\<lparr>ho_monotonic := ts @ left, ho_wall := tl (ho_wall h)\<rparr>))"
    "mh_command hd = message_command x"
    using read_message_wire [of "h\<lparr>ho_monotonic := ts @ left\<rparr>" x magic p sha256 ?more eof segs] by auto
  have "receive_loop sha256 duration c
      (p\<lparr>pe_input := (?more, eof) # segs\<rparr>, h\<lparr>ho_monotonic := ts @ left, ho_wall := tl (ho_wall h)\<rparr>) =
    (Ok m, (p\<lparr>pe_input := (rest, eof) # segs\<rparr>,
            h\<lparr>ho_monotonic := left, ho_wall := drop (Suc (Suc (length skipped))) (ho_wall h)\<rparr>))"
    using Cons.IH [of "h\<lparr>ho_monotonic := ts @ left, ho_wall := tl (ho_wall h)\<rparr>"
        "p\<lparr>pe_input := (?more, eof) # segs\<rparr>" ts] Cons.prems b by (simp add: drop_Suc)
  with Cons.prems b q show ?case by (simp add: receive_loop.simps [of _ _ _ p h])
qed

section \<open>A prompt peer\<close>

text \<open>The monotonic readings of an exchange that stays within a second from \<open>start\<close>.\<close>

definition prompt :: "u64 \<Rightarrow> host \<Rightarrow> bool" where
  "prompt start h \<longleftrightarrow> unat start + 2 * 1000000000 < 2 ^ 64
     \<and> (\<forall>t \<in> set (ho_monotonic h). start \<le> t \<and> t < start + 1000000000)"

definition sending :: "host \<Rightarrow> bool" where
  "sending h \<longleftrightarrow> set (ho_sends h) \<subseteq> {Sent}"

lemma prompt_deadline:
  assumes "unat start + 2 * 1000000000 < 2 ^ 64" and "start \<le> now" and "now < start + 1000000000"
    and "t < start + (1000000000 :: u64)"
  shows "unat now + 1000000000 < 2 ^ 64 \<and> t < now + 1000000000"
proof -
  have s: "unat (start + 1000000000) = unat start + 1000000000"
    using assms(1) by (simp add: unat_add_lem [THEN iffD1])
  with assms have n: "unat now < unat start + 1000000000" "unat start \<le> unat now" "unat t < unat start + 1000000000"
    by (simp_all add: word_less_nat_alt word_le_nat_alt)
  with assms(1) have "unat (now + 1000000000) = unat now + 1000000000"
    by (simp add: unat_add_lem [THEN iffD1])
  with n assms(1) show ?thesis by (simp add: word_less_nat_alt)
qed

lemma receive_wire:
  assumes "readable (ho_wall h) (skipped @ [m])" and "length magic = 4"
    and "pe_input p = (concat (map (wire sha256 magic) (skipped @ [m])) @ rest, eof) # segs"
    and "\<forall>x \<in> set skipped. message_command x \<noteq> c \<and> message_command x \<noteq> NOTFOUND"
    and "message_command m = c"
    and "ho_monotonic h = now # before @ left" and "length before = Suc (length skipped)"
    and "unat now + 1000000000 < 2 ^ 64" and "\<forall>t \<in> set before. t < now + 1000000000"
  shows "receive sha256 c (p, h) =
    (Ok m, (p\<lparr>pe_input := (rest, eof) # segs\<rparr>,
            h\<lparr>ho_monotonic := left, ho_wall := drop (Suc (length skipped)) (ho_wall h)\<rparr>))"
  using receive_loop_wire [of "h\<lparr>ho_monotonic := before @ left\<rparr>" skipped m magic p sha256 rest eof segs c before left
      "now + 1000000000"] assms
  by (simp add: receive_def)

lemma receive_prompt:
  assumes "readable (ho_wall h) (skipped @ [m])" and "length magic = 4"
    and "pe_input p = (concat (map (wire sha256 magic) (skipped @ [m])) @ rest, eof) # segs"
    and "\<forall>x \<in> set skipped. message_command x \<noteq> c \<and> message_command x \<noteq> NOTFOUND"
    and "message_command m = c"
    and "prompt start h" and "length skipped + 2 \<le> length (ho_monotonic h)"
  shows "receive sha256 c (p, h) =
    (Ok m, (p\<lparr>pe_input := (rest, eof) # segs\<rparr>,
            h\<lparr>ho_monotonic := drop (length skipped + 2) (ho_monotonic h),
              ho_wall := drop (Suc (length skipped)) (ho_wall h)\<rparr>))"
proof -
  obtain now ts where m: "ho_monotonic h = now # ts" using assms(7) by (cases "ho_monotonic h") auto
  let ?n = "Suc (length skipped)"
  have "t < now + 1000000000" "unat now + 1000000000 < 2 ^ 64" if "t \<in> set (ho_monotonic h)" for t
    using prompt_deadline [of start now t] assms(6) that by (auto simp: prompt_def m)
  moreover have "set (take ?n ts) \<subseteq> set (ho_monotonic h)" using set_take_subset [of ?n ts] by (auto simp: m)
  ultimately show ?thesis
    using receive_wire [OF assms(1-5), of now "take ?n ts" "drop ?n ts"] assms(7) m by auto
qed

text \<open>Every message but the two kinds the reader makes up can be written.\<close>

fun writable :: "Message \<Rightarrow> bool" where
  "writable (Other _) \<longleftrightarrow> False"
| "writable (Partial _) \<longleftrightarrow> False"
| "writable _ \<longleftrightarrow> True"

lemma message_write_writable: "writable m \<Longrightarrow> \<exists>bs. message_write sha256 m magic = Ok bs"
  by (cases m) (simp_all add: write_with_payload_def write_without_payload_def)

lemma peer_send_wire:
  assumes "sending h" and "writable m"
  shows "peer_send sha256 m (p, h) =
    (Ok (), (p\<lparr>pe_output := pe_output p @ wire sha256 (pe_magic p) m\<rparr>, h\<lparr>ho_sends := tl (ho_sends h)\<rparr>))"
proof -
  obtain bs where "message_write sha256 m (pe_magic p) = Ok bs"
    using message_write_writable [OF assms(2)] by blast
  moreover have "h\<lparr>ho_sends := []\<rparr> = h" if "ho_sends h = []" using that by (cases h) simp
  ultimately show ?thesis
    using assms(1) by (cases "ho_sends h") (auto simp: peer_send_def take_send_def wire_def sending_def)
qed

text \<open>
  What is left of the host during such an exchange: at least \<open>n\<close> monotonic readings and the
  wall-clock readings \<open>walls\<close>.
\<close>

definition able :: "u64 \<Rightarrow> nat \<Rightarrow> u64 list \<Rightarrow> host \<Rightarrow> bool" where
  "able start n walls h \<longleftrightarrow> prompt start h \<and> n \<le> length (ho_monotonic h) \<and> sending h
     \<and> ho_wall h = walls \<and> \<not> ho_exhausted h"

lemma receive_able:
  assumes "able start (length skipped + 2 + n) walls h"
    and "readable walls (skipped @ [m])" and "length magic = 4"
    and "pe_input p = (concat (map (wire sha256 magic) (skipped @ [m])) @ rest, eof) # segs"
    and "\<forall>x \<in> set skipped. message_command x \<noteq> c \<and> message_command x \<noteq> NOTFOUND"
    and "message_command m = c"
  obtains h' where "receive sha256 c (p, h) = (Ok m, (p\<lparr>pe_input := (rest, eof) # segs\<rparr>, h'))"
    and "able start n (drop (Suc (length skipped)) walls) h'" and "ho_random h' = ho_random h"
proof -
  let ?h' = "h\<lparr>ho_monotonic := drop (length skipped + 2) (ho_monotonic h),
              ho_wall := drop (Suc (length skipped)) (ho_wall h)\<rparr>"
  have "able start n (drop (Suc (length skipped)) walls) ?h'"
    using assms(1) set_drop_subset [of "length skipped + 2" "ho_monotonic h"]
    by (auto simp: able_def prompt_def sending_def)
  moreover have "receive sha256 c (p, h) = (Ok m, (p\<lparr>pe_input := (rest, eof) # segs\<rparr>, ?h'))"
    using assms receive_prompt [of h skipped m magic p sha256 rest eof segs c start] by (simp add: able_def)
  ultimately show thesis using that by simp
qed

lemma send_able:
  assumes "able start n walls h" and "writable m"
  obtains h' where "peer_send sha256 m (p, h) = (Ok (), (p\<lparr>pe_output := pe_output p @ wire sha256 (pe_magic p) m\<rparr>, h'))"
    and "able start n walls h'" and "ho_random h' = ho_random h"
proof -
  have "able start n walls (h\<lparr>ho_sends := tl (ho_sends h)\<rparr>)"
    using assms(1) by (cases "ho_sends h") (auto simp: able_def prompt_def sending_def)
  with peer_send_wire [of h m sha256 p] assms that show thesis by (simp add: able_def)
qed

lemma random_able:
  assumes "able start n walls h"
  obtains h' where "on_host take_random (p, h) = (Ok (fst (take_random h)), (p, h'))" and "able start n walls h'"
  using assms that by (cases "ho_random h") (auto simp: on_host_def take_random_def able_def prompt_def sending_def)

lemma take_random_cong: "ho_random h' = ho_random h \<Longrightarrow> fst (take_random h') = fst (take_random h)"
  by (simp add: take_random_def split: list.splits)

lemma version_able:
  assumes "able start n walls h"
  obtains own h' where "peer_version (p, h) = (Ok (MVersion own), (p, h'))"
    and "able start n (tl walls) h'" and "ho_random h' = ho_random h"
proof -
  define h' where "h' = snd (take_wall h)"
  have "\<exists>own. peer_version (p, h) = (Ok (MVersion own), (p, h'))"
    by (auto simp: peer_version_def sbind_def on_host_def h'_def split: prod.splits)
  moreover have "able start n (tl walls) h'" "ho_random h' = ho_random h"
    using assms by (auto simp: h'_def take_wall_def able_def prompt_def sending_def split: list.splits)
  ultimately show thesis using that by blast
qed

lemma readable_append: "readable walls (ms @ ms') \<longleftrightarrow> readable walls ms \<and> readable (drop (length ms) walls) ms'"
  by (induction ms arbitrary: walls) (auto simp: drop_Suc)

text \<open>
  C30: The handshake with a prompt peer. When the peer has sent its version, its
  acknowledgement and a pong, with any other messages in between, the handshake succeeds; it
  takes exactly these messages from the stream and writes its own version, the
  acknowledgement and a ping, in this order. The magic bytes of what the peer sends are not
  looked at.
\<close>

theorem handshake_completes:
  assumes "able start (length s1 + length s2 + length s3 + 6) walls h"
    and "pe_input p = (concat (map (wire sha256 magic)
           (s1 @ MVersion v # s2 @ Verack # s3 @ [Pong q])) @ rest, eof) # segs"
    and "readable (tl walls) (s1 @ MVersion v # s2 @ Verack # s3 @ [Pong q])" and "length magic = 4"
    and "\<forall>x \<in> set s1. message_command x \<noteq> VERSION \<and> message_command x \<noteq> NOTFOUND"
    and "\<forall>x \<in> set s2. message_command x \<noteq> VERACK \<and> message_command x \<noteq> NOTFOUND"
    and "\<forall>x \<in> set s3. message_command x \<noteq> PONG \<and> message_command x \<noteq> NOTFOUND"
  shows "\<exists>own h'. fst (peer_version (p, h)) = Ok own \<and> \<not> ho_exhausted h'
    \<and> handshake sha256 (p, h) = (Ok (), (p\<lparr>pe_input := (rest, eof) # segs,
         pe_output := pe_output p @ wire sha256 (pe_magic p) own @ wire sha256 (pe_magic p) Verack
           @ wire sha256 (pe_magic p) (MPing \<lparr>ping_nonce = fst (take_random h)\<rparr>)\<rparr>, h'))"
proof -
  let ?w = "\<lambda>ms. concat (map (wire sha256 magic) ms)"
  let ?n2 = "length s2 + 2 + (length s3 + 2)"
  obtain own h0 where 0: "peer_version (p, h) = (Ok (MVersion own), (p, h0))"
    "able start (length s1 + 2 + ?n2) (tl walls) h0" "ho_random h0 = ho_random h"
    by (rule version_able [of start _ walls h p]) (use assms(1) in \<open>auto simp: able_def\<close>)
  from send_able [OF 0(2), of "MVersion own" sha256 p] obtain h1 where
    1: "peer_send sha256 (MVersion own) (p, h0) = (Ok (), (p\<lparr>pe_output := pe_output p @ wire sha256 (pe_magic p) (MVersion own)\<rparr>, h1))"
    "able start (length s1 + 2 + ?n2) (tl walls) h1" "ho_random h1 = ho_random h" using 0 by auto
  define p1 where "p1 = p\<lparr>pe_output := pe_output p @ wire sha256 (pe_magic p) (MVersion own)\<rparr>"
  define walls1 where "walls1 = drop (Suc (length s1)) (tl walls)"
  have r: "readable (tl walls) (s1 @ [MVersion v])" "readable walls1 (s2 @ [Verack])"
    "readable (drop (Suc (length s2)) walls1) (s3 @ [Pong q])"
    using assms(3) by (simp_all add: readable_append walls1_def drop_Suc tl_drop)
  from receive_able [OF 1(2) r(1) assms(4), of p1 sha256 "?w (s2 @ Verack # s3 @ [Pong q]) @ rest" eof segs VERSION]
  obtain h2 where
    2: "receive sha256 VERSION (p1, h1) = (Ok (MVersion v), (p1\<lparr>pe_input := (?w (s2 @ Verack # s3 @ [Pong q]) @ rest, eof) # segs\<rparr>, h2))"
    "able start ?n2 walls1 h2" "ho_random h2 = ho_random h"
    using assms(2,5) 1(3) by (auto simp: p1_def walls1_def)
  define p2 where "p2 = p1\<lparr>pe_input := (?w (s2 @ Verack # s3 @ [Pong q]) @ rest, eof) # segs\<rparr>"
  from receive_able [OF 2(2) r(2) assms(4), of p2 sha256 "?w (s3 @ [Pong q]) @ rest" eof segs VERACK]
  obtain h3 where
    3: "receive sha256 VERACK (p2, h2) = (Ok Verack, (p2\<lparr>pe_input := (?w (s3 @ [Pong q]) @ rest, eof) # segs\<rparr>, h3))"
    "able start (length s3 + 2 + 0) (drop (Suc (length s2)) walls1) h3" "ho_random h3 = ho_random h"
    using assms(6) 2(3) by (auto simp: p2_def)
  define p3 where "p3 = p2\<lparr>pe_input := (?w (s3 @ [Pong q]) @ rest, eof) # segs\<rparr>"
  from send_able [OF 3(2), of Verack sha256 p3] obtain h4 where
    4: "peer_send sha256 Verack (p3, h3) = (Ok (), (p3\<lparr>pe_output := pe_output p3 @ wire sha256 (pe_magic p3) Verack\<rparr>, h4))"
    "able start (length s3 + 2 + 0) (drop (Suc (length s2)) walls1) h4" "ho_random h4 = ho_random h" using 3 by auto
  define p4 where "p4 = p3\<lparr>pe_output := pe_output p3 @ wire sha256 (pe_magic p3) Verack\<rparr>"
  from random_able [OF 4(2), of p4] obtain h5 where
    5: "on_host take_random (p4, h4) = (Ok (fst (take_random h)), (p4, h5))"
    "able start (length s3 + 2 + 0) (drop (Suc (length s2)) walls1) h5" using take_random_cong [OF 4(3)] by auto
  let ?ping = "MPing \<lparr>ping_nonce = fst (take_random h)\<rparr>"
  from send_able [OF 5(2), of ?ping sha256 p4] obtain h6 where
    6: "peer_send sha256 ?ping (p4, h5) = (Ok (), (p4\<lparr>pe_output := pe_output p4 @ wire sha256 (pe_magic p4) ?ping\<rparr>, h6))"
    "able start (length s3 + 2 + 0) (drop (Suc (length s2)) walls1) h6" by auto
  define p5 where "p5 = p4\<lparr>pe_output := pe_output p4 @ wire sha256 (pe_magic p4) ?ping\<rparr>"
  from receive_able [OF 6(2) r(3) assms(4), of p5 sha256 rest eof segs PONG] obtain h7 where
    7: "receive sha256 PONG (p5, h6) = (Ok (Pong q), (p5\<lparr>pe_input := (rest, eof) # segs\<rparr>, h7))" "\<not> ho_exhausted h7"
    using assms(7) by (auto simp: p5_def p4_def p3_def able_def)
  from 0(1) 1(1) 2(1) 3(1) 4(1) 5(1) 6(1) 7 show ?thesis
    unfolding p1_def [symmetric] p2_def [symmetric] p3_def [symmetric] p4_def [symmetric] p5_def [symmetric]
    by (simp add: handshake_def) (simp add: p5_def p4_def p3_def p2_def p1_def)
qed

definition sample_sha :: sha where
  "sample_sha = (\<lambda>_. replicate 32 7)"

definition sample_host :: host where
  "sample_host = \<lparr>ho_monotonic = [5, 6, 7, 8, 9, 10, 2000000000], ho_wall = [], ho_random = [77], ho_sends = [],
     ho_exhausted = False\<rparr>"

definition sample_addr :: NodeAddr where
  "sample_addr = node_addr_new (V4 [127, 0, 0, 1]) 18744"

definition sample_version :: Version where
  "sample_version = \<lparr>ver_version = 70015, ver_services = 0, ver_timestamp = 0, ver_recv_addr = sample_addr,
     ver_tx_addr = sample_addr, ver_nonce = 3, ver_user_agent = [], ver_start_height = 0, ver_relay = False\<rparr>"

definition sample_peer :: "bytes \<Rightarrow> Peer" where
  "sample_peer bs = \<lparr>pe_input = [(bs, TimedOut)], pe_output = [], pe_remote_address = sample_addr,
     pe_config = \<lparr>pc_network = Regtest, pc_nonce = 1, pc_height = 0, pc_user_agent = USER_AGENT,
       pc_max_protocol_version = MAX_PROTOCOL_VERSION\<rparr>, pe_magic = magic_from_network Regtest\<rparr>"

lemma sample_version_readable: "transferable 0 (MVersion sample_version)"
proof -
  have wf: "wf_version sample_version"
    by (simp add: wf_version_def sample_version_def wf_node_addr_def sample_addr_def node_addr_new_def fits_def)
  moreover have "length (version_write sample_version) < 2 ^ 32"
    unfolding version_codec.wr_size [OF wf]
    by (simp add: sample_version_def version_size_def node_addr_size_def var_int_size_def len_u64_def)
  then have "fits (version_write sample_version)" by (simp add: fits_def)
  ultimately show ?thesis by (simp add: version_validate_Ok_iff sample_version_def)
qed

lemma sample_able: "able 5 6 [] (sample_host\<lparr>ho_monotonic := [5, 6, 7, 8, 9, 10]\<rparr>)"
  by (simp add: able_def prompt_def sending_def sample_host_def)

lemma sendheaders_neq: "SENDHEADERS \<noteq> VERACK" "SENDHEADERS \<noteq> NOTFOUND"
  using commands_neq by simp_all

theorem handshake_completes_witness:
  "\<exists>p h'. handshake sample_sha
     (sample_peer (concat (map (wire sample_sha [1, 2, 3, 4])
        [MVersion sample_version, SendHeaders, Verack, Pong \<lparr>ping_nonce = 77\<rparr>])),
      sample_host\<lparr>ho_monotonic := [5, 6, 7, 8, 9, 10, 11]\<rparr>) = (Ok (), (p, h')) \<and> \<not> ho_exhausted h'"
proof -
  have "able 5 (length ([] :: Message list) + length [SendHeaders] + length ([] :: Message list) + 6) []
      (sample_host\<lparr>ho_monotonic := [5, 6, 7, 8, 9, 10, 11]\<rparr>)"
    by (simp add: able_def prompt_def sending_def sample_host_def)
  then show ?thesis
    using handshake_completes [of 5 "[]" "[SendHeaders]" "[]" "[]" "sample_host\<lparr>ho_monotonic := [5, 6, 7, 8, 9, 10, 11]\<rparr>"
        "sample_peer (concat (map (wire sample_sha [1, 2, 3, 4])
          [MVersion sample_version, SendHeaders, Verack, Pong \<lparr>ping_nonce = 77\<rparr>]))"
        sample_sha "[1, 2, 3, 4]" sample_version "\<lparr>ping_nonce = 77\<rparr>" "[]" TimedOut "[]"]
      sample_version_readable sendheaders_neq
    by (auto simp: sample_peer_def wall_reading_def simp del: transferable.simps(12))
qed

section \<open>Waiting\<close>



text \<open>
  C32: A wait delivers the message it is for. When the peer has sent some other messages, the
  awaited one and possibly more, and the clock readings stay before the deadline, the wait
  returns that message, drops the ones before it and leaves the rest of the stream.
\<close>

theorem receive_delivers:
  assumes "readable (ho_wall h) (skipped @ [m])" and "length magic = 4"
    and "pe_input p = (concat (map (wire sha256 magic) (skipped @ [m])) @ rest, eof) # segs"
    and "\<forall>x \<in> set skipped. message_command x \<noteq> message_command m \<and> message_command x \<noteq> NOTFOUND"
    and "ho_monotonic h = now # before @ left" and "length before = Suc (length skipped)"
    and "unat now + 1000000000 < 2 ^ 64" and "\<forall>t \<in> set before. t < now + 1000000000"
  shows "receive sha256 (message_command m) (p, h) =
    (Ok m, (p\<lparr>pe_input := (rest, eof) # segs\<rparr>,
            h\<lparr>ho_monotonic := left, ho_wall := drop (Suc (length skipped)) (ho_wall h)\<rparr>))"
  using assms by (intro receive_wire) auto

theorem receive_delivers_witness:
  "fst (receive sample_sha PONG (sample_peer (concat (map (wire sample_sha [1, 2, 3, 4])
      [Verack, Pong \<lparr>ping_nonce = 7\<rparr>]) @ [9]), sample_host)) = Ok (Pong \<lparr>ping_nonce = 7\<rparr>)"
proof -
  have "ho_monotonic sample_host = 5 # [6, 7] @ [8, 9, 10, 2000000000]" by (simp add: sample_host_def)
  then show ?thesis
    using receive_delivers [of sample_host "[Verack]" "Pong \<lparr>ping_nonce = 7\<rparr>" "[1, 2, 3, 4]"
        "sample_peer (concat (map (wire sample_sha [1, 2, 3, 4]) [Verack, Pong \<lparr>ping_nonce = 7\<rparr>]) @ [9])"
        sample_sha "[9]" TimedOut "[]" 5 "[6, 7]"] commands_neq
    by (simp add: sample_peer_def)
qed

section \<open>Requests\<close>

lemma filters_loop_Ok:
  assumes "filters_loop sha256 hash_stop acc st = (Ok filters, st')"
  shows "\<exists>fresh f. filters = acc @ fresh @ [f] \<and> cf_block_hash f = hash_stop
    \<and> (\<forall>x \<in> set fresh. cf_block_hash x \<noteq> hash_stop)"
  using assms
proof (induction sha256 hash_stop acc st rule: filters_loop.induct)
  case (1 sha256 hash_stop acc st)
  from "1.prems" obtain f st1 where f: "receive sha256 CFILTERS st = (Ok (CFilters f), st1)"
    by (subst (asm) filters_loop.simps) (auto split: res.splits Message.splits prod.splits)
  show ?case
  proof (cases "cf_block_hash f = hash_stop")
    case True
    with "1.prems" f have "filters = acc @ [f]"
      by (subst (asm) filters_loop.simps) (simp add: Let_def)
    with True show ?thesis by (auto intro!: exI [of _ "[]"])
  next
    case False
    with "1.prems" f have "filters_loop sha256 hash_stop (acc @ [f]) st1 = (Ok filters, st')"
      by (subst (asm) filters_loop.simps) (simp add: Let_def)
    with "1.IH" [OF f [symmetric] refl refl refl False] obtain fresh g where
      "filters = (acc @ [f]) @ fresh @ [g]" "cf_block_hash g = hash_stop" "\<forall>x \<in> set fresh. cf_block_hash x \<noteq> hash_stop"
      by blast
    with False show ?thesis by (auto intro!: exI [of _ "f # fresh"])
  qed
qed

lemma blocks_loop_Ok:
  assumes "blocks_loop sha256 n acc st = (Ok blocks, st')"
  shows "length blocks = n \<and> length acc < n"
  using assms
proof (induction sha256 n acc st rule: blocks_loop.induct)
  case (1 sha256 n acc st)
  from "1.prems" obtain b st1 where b: "receive sha256 BLOCK st = (Ok (MBlock b), st1)"
    by (subst (asm) blocks_loop.simps) (auto split: res.splits Message.splits prod.splits)
  show ?case
    using "1.prems" "1.IH" [OF b [symmetric] refl refl refl]
    by (subst (asm) (1) blocks_loop.simps) (auto simp: b Let_def split: if_splits)
qed

text \<open>A request and its answer.\<close>

lemma answer_able:
  assumes "able start (2 + n) walls h" and "writable m" and "length magic = 4"
    and "transferable (wall_reading walls) a" and "message_command a = c"
    and "pe_input p = (wire sha256 magic a @ rest, eof) # segs"
  obtains h1 h' where "peer_send sha256 m (p, h) = (Ok (), (p\<lparr>pe_output := pe_output p @ wire sha256 (pe_magic p) m\<rparr>, h1))"
    and "receive sha256 c (p\<lparr>pe_output := pe_output p @ wire sha256 (pe_magic p) m\<rparr>, h1) =
      (Ok a, (p\<lparr>pe_output := pe_output p @ wire sha256 (pe_magic p) m, pe_input := (rest, eof) # segs\<rparr>, h'))"
    and "able start n (tl walls) h'"
proof -
  let ?p = "p\<lparr>pe_output := pe_output p @ wire sha256 (pe_magic p) m\<rparr>"
  obtain h1 where 1: "peer_send sha256 m (p, h) = (Ok (), (?p, h1))" "able start (2 + n) walls h1"
    by (rule send_able [OF assms(1,2)])
  from receive_able [of start "[]" n walls h1 a magic ?p sha256 rest eof segs c] 1(2) assms obtain h2 where
    2: "receive sha256 c (?p, h1) = (Ok a, (?p\<lparr>pe_input := (rest, eof) # segs\<rparr>, h2))" "able start n (tl walls) h2"
    by (auto simp: drop_Suc)
  show thesis by (rule that [OF 1(1) 2])
qed

lemma keep_alive_able:
  assumes "able start (2 + n) walls h" and "length magic = 4"
    and "pe_input p = (wire sha256 magic (Pong q) @ rest, eof) # segs"
  obtains h' out where "keep_alive sha256 (p, h) = (Ok (), (p\<lparr>pe_output := out, pe_input := (rest, eof) # segs\<rparr>, h'))"
    and "able start n (tl walls) h'"
proof -
  obtain nonce h0 where 0: "on_host take_random (p, h) = (Ok nonce, (p, h0))" "able start (2 + n) walls h0"
    by (rule random_able [OF assms(1)])
  let ?ping = "MPing \<lparr>ping_nonce = nonce\<rparr>"
  let ?p = "p\<lparr>pe_output := pe_output p @ wire sha256 (pe_magic p) ?ping\<rparr>"
  have "writable ?ping" by simp
  with 0(2) obtain h1 where 1: "peer_send sha256 ?ping (p, h0) = (Ok (), (?p, h1))" "able start (2 + n) walls h1"
    by (rule send_able)
  from receive_able [of start "[]" n walls h1 "Pong q" magic ?p sha256 rest eof segs PONG] 1(2) assms obtain h2 where
    2: "receive sha256 PONG (?p, h1) = (Ok (Pong q), (?p\<lparr>pe_input := (rest, eof) # segs\<rparr>, h2))" "able start n (tl walls) h2"
    by (auto simp: drop_Suc)
  show thesis by (rule that [OF _ 2(2)]) (simp add: keep_alive_def 0 1 2)
qed

text \<open>A prompt peer that sends filters, the last one that of the block the request stops at.\<close>

lemma filters_loop_wire:
  assumes "able start (2 * length fs + 2 + n) walls h" and "length magic = 4"
    and "readable walls (map CFilters (fs @ [f]))"
    and "pe_input p = (concat (map (\<lambda>f. wire sha256 magic (CFilters f)) (fs @ [f])) @ rest, eof) # segs"
    and "\<forall>x \<in> set fs. cf_block_hash x \<noteq> hash_stop" and "cf_block_hash f = hash_stop"
  shows "\<exists>h'. filters_loop sha256 hash_stop acc (p, h) =
      (Ok (acc @ fs @ [f]), (p\<lparr>pe_input := (rest, eof) # segs\<rparr>, h'))
    \<and> able start n (drop (Suc (length fs)) walls) h'"
  using assms
proof (induction fs arbitrary: p h walls acc)
  case Nil
  then obtain h' where "receive sha256 CFILTERS (p, h) = (Ok (CFilters f), (p\<lparr>pe_input := (rest, eof) # segs\<rparr>, h'))"
    "able start n (drop (Suc 0) walls) h'"
    using receive_able [of start "[]" n walls h "CFilters f" magic p sha256 rest eof segs CFILTERS] by auto
  with Nil.prems show ?case by (simp add: filters_loop.simps [of _ _ _ "(p, h)"])
next
  case (Cons x fs)
  let ?more = "concat (map (\<lambda>f. wire sha256 magic (CFilters f)) (fs @ [f])) @ rest"
  let ?p = "p\<lparr>pe_input := (?more, eof) # segs\<rparr>"
  from Cons.prems obtain h1 where 1: "receive sha256 CFILTERS (p, h) = (Ok (CFilters x), (?p, h1))"
    "able start (2 * length fs + 2 + n) (drop (Suc 0) walls) h1"
    using receive_able [of start "[]" "2 * length fs + 2 + n" walls h "CFilters x" magic p sha256 ?more eof segs CFILTERS]
    by auto
  have "readable (drop (Suc 0) walls) (map CFilters (fs @ [f]))" using Cons.prems(3) by (simp add: drop_Suc)
  from Cons.IH [OF 1(2) Cons.prems(2) this, of ?p "acc @ [x]"] Cons.prems obtain h' where
    "filters_loop sha256 hash_stop (acc @ [x]) (?p, h1) =
      (Ok (acc @ x # fs @ [f]), (p\<lparr>pe_input := (rest, eof) # segs\<rparr>, h'))"
    "able start n (drop (Suc (Suc (length fs))) walls) h'" by auto
  with 1(1) Cons.prems show ?case by (simp add: filters_loop.simps [of _ _ _ "(p, h)"] Let_def)
qed

lemma fetch_compact_filters_complete_aux:
  assumes "able start (2 * length fs + 2) walls h" and "length magic = 4"
    and "readable walls (map CFilters (fs @ [f]))"
    and "pe_input p = (concat (map (\<lambda>f. wire sha256 magic (CFilters f)) (fs @ [f])) @ rest, eof) # segs"
    and "\<forall>x \<in> set fs. cf_block_hash x \<noteq> hash_stop" and "cf_block_hash f = hash_stop"
  shows "\<exists>h'. fetch_compact_filters sha256 start_height hash_stop (p, h) =
    (Ok (fs @ [f]), (p\<lparr>pe_input := (rest, eof) # segs,
       pe_output := pe_output p @ wire sha256 (pe_magic p)
         (GetCFilters \<lparr>fl_filter_type = 0, fl_start_height = start_height, fl_hash_stop = hash_stop\<rparr>)\<rparr>, h'))
    \<and> \<not> ho_exhausted h'"
proof -
  let ?m = "GetCFilters \<lparr>fl_filter_type = 0, fl_start_height = start_height, fl_hash_stop = hash_stop\<rparr>"
  let ?p = "p\<lparr>pe_output := pe_output p @ wire sha256 (pe_magic p) ?m\<rparr>"
  from assms(1) obtain h1 where 1: "peer_send sha256 ?m (p, h) = (Ok (), (?p, h1))"
    "able start (2 * length fs + 2 + 0) walls h1"
    using send_able [of start "2 * length fs + 2" walls h ?m sha256 p] by auto
  from filters_loop_wire [OF 1(2) assms(2,3), of ?p sha256 rest eof segs hash_stop "[]"] assms(4-6) obtain h' where
    "filters_loop sha256 hash_stop [] (?p, h1) = (Ok (fs @ [f]), (?p\<lparr>pe_input := (rest, eof) # segs\<rparr>, h'))"
    "able start 0 (drop (Suc (length fs)) walls) h'" by auto
  with 1 show ?thesis by (auto simp: fetch_compact_filters_def able_def)
qed

text \<open>
  Filters are fetched completely. From a prompt peer that sends one filter for each block
  of the range the request returns all of them, up to and including the one for the block it
  stops at, and no byte beyond it is taken; what is written is the one request.
\<close>

lemma fetch_compact_filters_complete:
  assumes "able start (2 * length fs + 2) walls h" and "length magic = 4"
    and "readable walls (map CFilters (fs @ [f]))"
    and "pe_input p = (concat (map (\<lambda>f. wire sha256 magic (CFilters f)) (fs @ [f])) @ rest, eof) # segs"
    and "\<forall>x \<in> set fs. cf_block_hash x \<noteq> hash_stop" and "cf_block_hash f = hash_stop"
  shows "\<exists>h'. fetch_compact_filters sha256 start_height hash_stop (p, h) =
    (Ok (fs @ [f]), (p\<lparr>pe_input := (rest, eof) # segs,
       pe_output := pe_output p @ wire sha256 (pe_magic p)
         (GetCFilters \<lparr>fl_filter_type = 0, fl_start_height = start_height, fl_hash_stop = hash_stop\<rparr>)\<rparr>, h'))
    \<and> \<not> ho_exhausted h'"
  using assms by (rule fetch_compact_filters_complete_aux)

definition sample_cfilter :: CompactFilter where
  "sample_cfilter = \<lparr>cf_filter_type = 0, cf_block_hash = Hash256 (replicate 32 1), cf_filter_bytes = [0]\<rparr>"

lemma sample_cfilter_readable: "transferable now (CFilters sample_cfilter)"
proof -
  have wf: "wf_compact_filter sample_cfilter"
    by (simp add: wf_compact_filter_def sample_cfilter_def wf_hash_def fits_def)
  then have "length (compact_filter_write sample_cfilter) < 2 ^ 32"
    by (simp only: compact_filter_codec.wr_size)
      (simp add: sample_cfilter_def compact_filter_size_def var_int_size_def len_u64_def)
  with wf show ?thesis by (simp add: fits_def)
qed

lemma fetch_compact_filters_complete_witness:
  "\<exists>st'. fetch_compact_filters sample_sha 8 (Hash256 (replicate 32 1))
     (sample_peer (wire sample_sha [1, 2, 3, 4] (CFilters sample_cfilter)), sample_host\<lparr>ho_monotonic := [5, 6]\<rparr>)
     = (Ok [sample_cfilter], st')"
proof -
  have "able 5 (2 * length ([] :: CompactFilter list) + 2) [] (sample_host\<lparr>ho_monotonic := [5, 6]\<rparr>)"
    by (simp add: able_def prompt_def sending_def sample_host_def)
  moreover have "cf_block_hash sample_cfilter = Hash256 (replicate 32 1)" by (simp add: sample_cfilter_def)
  ultimately show ?thesis
    using fetch_compact_filters_complete [of 5 "[]" "[]" "sample_host\<lparr>ho_monotonic := [5, 6]\<rparr>" "[1, 2, 3, 4]" sample_cfilter
        "sample_peer (wire sample_sha [1, 2, 3, 4] (CFilters sample_cfilter))" sample_sha "[]" TimedOut "[]"
        "Hash256 (replicate 32 1)" 8] sample_cfilter_readable
    by (auto simp: sample_peer_def simp del: transferable.simps)
qed

end
