(* ===== verification/Chain_Correct.thy ===== *)
theory Chain_Correct
  imports Chain P2P_Correct
begin

text \<open>
  What following the chain does: which filters are accepted, which blocks are asked for, which
  outputs reach the wallet, how far a synchronisation gets and what it keeps of the wallet.
\<close>

section \<open>What the calls keep\<close>

text \<open>
  A property of the chain that neither the exchange with the peer nor an insertion into the
  wallet affects is kept by fetching and checking filters and blocks; one that the recorded
  position does not affect either is kept by the whole synchronisation. Calls that fail are
  included.
\<close>

definition keeps :: "('x CompactChain \<Rightarrow> bool) \<Rightarrow> ('x, 'a) chain_call \<Rightarrow> bool" where
  "keeps Q c \<longleftrightarrow> (\<forall>st r st'. c st = (r, st') \<longrightarrow> Q (fst st) \<longrightarrow> Q (fst st'))"

named_theorems keeps_rules \<open>calls and what they keep\<close>

lemma keepsD: "keeps Q c \<Longrightarrow> c st = (r, st') \<Longrightarrow> Q (fst st) \<Longrightarrow> Q (fst st')"
  unfolding keeps_def by blast

lemma keeps_sbind [keeps_rules]: "keeps Q c \<Longrightarrow> (\<And>x. keeps Q (f x)) \<Longrightarrow> keeps Q (sbind c f)"
  by (fastforce simp: keeps_def sbind_def split: prod.splits res.splits)

lemma keeps_slift [keeps_rules]: "keeps Q (slift r)"
  by (simp add: keeps_def)

lemma keeps_sget [keeps_rules]: "keeps Q (sget f)"
  by (simp add: keeps_def)

lemma keeps_smap_err [keeps_rules]: "keeps Q c \<Longrightarrow> keeps Q (smap_err g c)"
  by (fastforce simp: keeps_def smap_err_def split: prod.splits)

lemma keeps_if [keeps_rules]: "keeps Q c \<Longrightarrow> keeps Q d \<Longrightarrow> keeps Q (if b then c else d)"
  by simp

locale chain_property =
  fixes Q :: "'x CompactChain \<Rightarrow> bool"
  assumes exchange: "Q cc \<Longrightarrow> Q (cc\<lparr>cc_p2p := p2p\<rparr>)"
    and insertion: "Q cc \<Longrightarrow> Q (cc\<lparr>cc_wallet := snd (guest_insert_utxos (cc_wallet cc) utxos)\<rparr>)"
begin

lemma p2p_keeps: "keeps Q (on_p2p c)"
  using exchange by (fastforce simp: keeps_def on_p2p_def split: prod.splits)

lemma save_keeps: "keeps Q (save_utxos utxos)"
  by (auto simp: keeps_def save_utxos_def split: prod.splits) (metis insertion snd_conv)

lemma fetch_keeps: "keeps Q (fetch_and_save_utxos sha256 siphash filters)"
  unfolding fetch_and_save_utxos_def Let_def with_wallet_def by (intro keeps_rules save_keeps p2p_keeps)

lemma verify_keeps: "keeps Q (get_and_verify_compact_filters sha256 n hash)"
  unfolding get_and_verify_compact_filters_def by (intro keeps_rules p2p_keeps)

lemma filters_keep: "keeps Q (sync_filters sha256 siphash requests)"
proof (induction sha256 siphash requests rule: sync_filters.induct)
  case 1
  show ?case unfolding sync_filters.simps by (rule keeps_slift)
next
  case 2
  then show ?case unfolding sync_filters.simps by (intro keeps_rules fetch_keeps verify_keeps) auto
qed

end

locale sync_property = chain_property +
  assumes position: "Q cc \<Longrightarrow> Q (cc\<lparr>cc_chain_state := s\<rparr>)"
begin

lemma position_keeps: "keeps Q (smod (\<lambda>(cc, h). (cc\<lparr>cc_chain_state := s\<rparr>, h)))"
  using position by (auto simp: keeps_def)

lemma round_keeps:
  assumes "sync_round sha256 siphash st = (r, st')" and "Q (fst st)"
  shows "Q (fst st')"
proof -
  obtain cc h where st: "st = (cc, h)" by (cases st)
  from assms show ?thesis
    unfolding st sync_round_def prod.case Let_def
    by (rule keepsD [rotated]) (intro keeps_rules filters_keep p2p_keeps position_keeps)
qed

lemma loop_keeps: "sync_loop sha256 siphash st = (r, st') \<Longrightarrow> Q (fst st) \<Longrightarrow> Q (fst st')"
proof (induction sha256 siphash st rule: sync_loop.induct)
  case (1 sha256 siphash st)
  obtain q st1 where q: "sync_round sha256 siphash st = (q, st1)" by (cases "sync_round sha256 siphash st")
  have "Q (fst st1)" by (rule round_keeps [OF q "1.prems"(2)])
  with "1.prems"(1) "1.IH" [OF q [symmetric]] show ?case
    by (auto simp: sync_loop.simps [of _ _ st] q split: res.splits if_splits)
qed

lemma sync_keeps:
  assumes "sync_state sha256 siphash st = (r, st')" and "Q (fst st)"
  shows "Q (fst st')"
proof -
  have "keeps Q (sync_loop sha256 siphash)"
    unfolding keeps_def using loop_keeps by blast
  then have "keeps Q (sync_state sha256 siphash)"
    unfolding sync_state_def by (intro keeps_rules p2p_keeps)
  from keepsD [OF this assms] show ?thesis .
qed

end

lemma guest_insert_utxos_state:
  "snd (guest_insert_utxos w utxos) = w \<or> (\<exists>ps. snd (guest_insert_utxos w utxos) = snd (insert_utxos w ps))"
  by (auto simp: guest_insert_utxos_def split: res.splits prod.splits) (metis snd_conv)

lemma insert_utxos_pubkeys: "wo_pubkey_map (snd (insert_utxos w ps)) = wo_pubkey_map w"
  by (induction w ps rule: insert_utxos.induct) (auto simp: insert_utxo_eq split: res.splits option.splits)

interpretation kept_position: chain_property "\<lambda>cc. cc_chain_state cc = s" for s
  by unfold_locales simp_all

interpretation wf_sync: sync_property "\<lambda>cc. wf_wallet (cc_wallet cc)"
proof
  fix cc :: "'x CompactChain" and utxos
  assume "wf_wallet (cc_wallet cc)"
  then show "wf_wallet (cc_wallet (cc\<lparr>cc_wallet := snd (guest_insert_utxos (cc_wallet cc) utxos)\<rparr>))"
    using guest_insert_utxos_state [of "cc_wallet cc" utxos] insert_utxos_wf by auto
qed simp_all

interpretation scripts_sync: sync_property "\<lambda>cc. wo_pubkey_map (cc_wallet cc) = m" for m
proof
  fix cc :: "'x CompactChain" and utxos
  assume "wo_pubkey_map (cc_wallet cc) = m"
  then show "wo_pubkey_map (cc_wallet (cc\<lparr>cc_wallet := snd (guest_insert_utxos (cc_wallet cc) utxos)\<rparr>)) = m"
    using guest_insert_utxos_state [of "cc_wallet cc" utxos] insert_utxos_pubkeys by auto
qed simp_all

section \<open>Filters\<close>

lemma check_filters_Ok:
  "check_filters sha256 hashes filters = Ok () \<longleftrightarrow>
     (\<forall>(hash, f) \<in> set (zip hashes filters). sha256d sha256 (cf_filter_bytes f) = hash)"
  by (induction sha256 hashes filters rule: check_filters.induct) auto

lemma check_filters_short_header: "check_filters sha256 [] filters = Ok ()"
  by simp

lemma get_compact_filters_Ok:
  assumes "get_compact_filters sha256 n hash_stop st = (Ok filters, st')"
  shows "filters \<noteq> [] \<and> cf_block_hash (last filters) = hash_stop"
proof -
  obtain p2p h where st: "st = (p2p, h)" by (cases st)
  from assms obtain peer st1 acc where "filters_loop sha256 hash_stop acc st1 = (Ok filters, peer)"
    by (auto simp: st get_compact_filters_def with_peer_def fetch_compact_filters_def Let_def sbind_eq_Ok
        split: option.splits prod.splits)
  from filters_loop_Ok [OF this] show ?thesis by auto
qed

lemma on_p2p_Ok:
  "on_p2p c (cc, h) = (Ok x, st') \<Longrightarrow> \<exists>st''. c (cc_p2p cc, h) = (Ok x, st'')"
  by (auto simp: on_p2p_def split: prod.splits)

lemma get_and_verify_Ok:
  assumes "get_and_verify_compact_filters sha256 n hash_stop st = (Ok filters, st')"
  shows "\<exists>header st1. on_p2p (get_compact_filter_headers sha256 n hash_stop) st = (Ok header, st1)
    \<and> (\<forall>(hash, f) \<in> set (zip (cfh_filter_hashes header) filters). sha256d sha256 (cf_filter_bytes f) = hash)
    \<and> filters \<noteq> [] \<and> cf_block_hash (last filters) = hash_stop"
proof -
  from assms obtain header st1 where
    h: "on_p2p (get_compact_filter_headers sha256 n hash_stop) st = (Ok header, st1)" and
    f: "on_p2p (get_compact_filters sha256 n hash_stop) st1 = (Ok filters, st')" and
    c: "check_filters sha256 (cfh_filter_hashes header) filters = Ok ()"
    by (auto simp: get_and_verify_compact_filters_def sbind_eq_Ok)
  obtain cc h1 where "st1 = (cc, h1)" by (cases st1)
  with f get_compact_filters_Ok have "filters \<noteq> [] \<and> cf_block_hash (last filters) = hash_stop"
    by (blast dest: on_p2p_Ok)
  with h c show ?thesis unfolding check_filters_Ok by blast
qed

section \<open>Ranges\<close>

text \<open>The index of the last header of the \<open>i\<close>-th range among \<open>n\<close>.\<close>

definition range_end :: "nat \<Rightarrow> nat \<Rightarrow> nat" where
  "range_end n i = min (FILTER_SIZE * (i + 1) - 1) (n - 1)"

definition range_count :: "nat \<Rightarrow> nat" where
  "range_count n = (if n = 1 then 1 else (n - 1 + FILTER_SIZE - 1) div FILTER_SIZE)"

lemma block_numbers_eq:
  "0 < n \<Longrightarrow> block_numbers start (start + (n - 1)) = map (\<lambda>i. start + FILTER_SIZE * i) [0..<range_count n]"
  by (cases "n = 1") (simp_all add: block_numbers_def range_count_def)

lemma filter_requests_eq:
  assumes "headers \<noteq> []"
  shows "filter_requests sha256 start headers =
    map (\<lambda>i. (of_nat (start + FILTER_SIZE * i), block_header_hash sha256 (headers ! range_end (length headers) i)))
      [0..<range_count (length headers)]"
  using block_numbers_eq [of "length headers" start] assms
  by (auto simp: filter_requests_def Let_def enumerate_map_upt range_end_def last_conv_nth min_def simp del: upt_Suc)

lemma covered_iff:
  assumes "j < n"
  shows "(\<exists>i < range_count n. FILTER_SIZE * i \<le> j \<and> j \<le> range_end n i) \<longleftrightarrow>
    \<not> (j + 1 = n \<and> n > 1 \<and> n mod FILTER_SIZE = 1)"
proof
  assume "\<exists>i < range_count n. FILTER_SIZE * i \<le> j \<and> j \<le> range_end n i"
  then obtain i where i: "i < range_count n" "j \<le> FILTER_SIZE * i + 499"
    by (auto simp: range_end_def FILTER_SIZE_def)
  show "\<not> (j + 1 = n \<and> n > 1 \<and> n mod FILTER_SIZE = 1)"
  proof
    assume last: "j + 1 = n \<and> n > 1 \<and> n mod FILTER_SIZE = 1"
    define q where "q = n div FILTER_SIZE"
    have n: "n = 500 * q + 1" using last unfolding q_def FILTER_SIZE_def by (metis mult_div_mod_eq)
    then have "(n - 1 + 500 - 1) div 500 = q" by simp
    with i(1) last have "i < q" by (simp add: range_count_def FILTER_SIZE_def)
    with i(2) last n show False by (simp add: FILTER_SIZE_def)
  qed
next
  assume n: "\<not> (j + 1 = n \<and> n > 1 \<and> n mod FILTER_SIZE = 1)"
  have j: "FILTER_SIZE * (j div FILTER_SIZE) \<le> j" "j \<le> FILTER_SIZE * (j div FILTER_SIZE) + 499"
    by (simp_all add: FILTER_SIZE_def)
  have "j div FILTER_SIZE < range_count n"
  proof (cases "n = 1")
    case False
    define q r where "q = j div 500" and "r = j mod 500"
    have j: "j = 500 * q + r" by (simp add: q_def r_def)
    have "j + 1 \<noteq> n \<or> r \<noteq> 0"
    proof (rule ccontr)
      assume "\<not> (j + 1 \<noteq> n \<or> r \<noteq> 0)"
      then have last: "Suc j = n" and z: "j mod 500 = 0" by (simp_all add: r_def)
      from z have "Suc j mod 500 = 1" by (simp add: mod_Suc)
      with last n assms False show False by (auto simp: FILTER_SIZE_def)
    qed
    with assms have "j + 1 < n \<or> 0 < r" by auto
    then have "500 * (q + 1) \<le> n + 498" using j assms by (elim disjE) simp_all
    then show ?thesis using False
      by (simp add: range_count_def FILTER_SIZE_def less_eq_div_iff_mult_less_eq q_def Suc_le_eq [symmetric] add.commute)
  qed (use assms in \<open>simp add: range_count_def\<close>)
  with j assms show "\<exists>i < range_count n. FILTER_SIZE * i \<le> j \<and> j \<le> range_end n i"
    by (intro exI [of _ "j div FILTER_SIZE"]) (auto simp: range_end_def FILTER_SIZE_def)
qed

section \<open>Outputs\<close>

lemma received_utxos_iff:
  "u \<in> set (received_utxos sha256 pub_keys txn) \<longleftrightarrow>
     (\<exists>i < length (tx_outputs txn). txout_lock_script (tx_outputs txn ! i) \<in> set pub_keys
        \<and> u = \<lparr>gu_txid = hash_bytes (tx_hash sha256 txn), gu_vout = of_nat i,
                gu_amount = txout_satoshis (tx_outputs txn ! i),
                gu_script = txout_lock_script (tx_outputs txn ! i), gu_is_spent = False\<rparr>)"
  by (fastforce simp: received_utxos_def in_set_enumerate_eq split: if_splits)

lemma spent_utxos_iff:
  "u \<in> set (spent_utxos utxos txn) \<longleftrightarrow>
     (\<exists>input \<in> set (tx_inputs txn). \<exists>known \<in> set utxos. op_hash (txin_prev_output input) \<noteq> NO_HASH_STOP
        \<and> gu_txid known = hash_bytes (op_hash (txin_prev_output input))
        \<and> gu_vout known = op_index (txin_prev_output input) \<and> u = known\<lparr>gu_is_spent := True\<rparr>)"
  by (fastforce simp: spent_utxos_def split: if_splits)

section \<open>The position\<close>

text \<open>The position after a batch of headers.\<close>

definition advance :: "sha \<Rightarrow> BlockHeader list \<Rightarrow> ChainState \<Rightarrow> ChainState" where
  "advance sha256 headers s =
     (if headers = [] then s
      else \<lparr>cs_last_block_hash = block_header_hash sha256 (last headers),
            cs_last_block_height = cs_last_block_height s + of_nat (length headers)\<rparr>)"

lemma sync_round_Ok:
  assumes "sync_round sha256 siphash (cc, h) = (Ok again, (cc', h'))"
  shows "\<exists>headers st1. on_p2p (fetch_headers sha256 (cs_last_block_hash (cc_chain_state cc))) (cc, h) = (Ok headers, st1)
    \<and> again = (length headers \<ge> MAX_HEADER_LEN)
    \<and> cc_chain_state cc' = advance sha256 headers (cc_chain_state cc)
    \<and> unat (cs_last_block_height (cc_chain_state cc')) =
        unat (cs_last_block_height (cc_chain_state cc)) + length headers"
proof -
  from assms obtain headers cc1 h1 where
    f: "on_p2p (fetch_headers sha256 (cs_last_block_hash (cc_chain_state cc))) (cc, h) = (Ok headers, (cc1, h1))"
    by (auto simp: sync_round_def sbind_eq_Ok)
  have c1: "cc_chain_state cc1 = cc_chain_state cc"
    using keepsD [OF kept_position.p2p_keeps f] by simp
  show ?thesis
  proof (cases headers)
    case Nil
    with assms f c1 show ?thesis
      by (auto simp: sync_round_def sbind_eq_Ok MAX_HEADER_LEN_def advance_def)
  next
    case (Cons x xs)
    let ?n = "unat (cs_last_block_height (cc_chain_state cc)) + length headers"
    from assms f Cons have "?n < 2 ^ 64 \<and> again = (length headers \<ge> MAX_HEADER_LEN) \<and> cc_chain_state cc' =
        \<lparr>cs_last_block_hash = block_header_hash sha256 (last headers), cs_last_block_height = of_nat ?n\<rparr>"
      by (auto simp: sync_round_def sbind_eq_Ok Let_def split: if_splits)
    moreover have "unat (of_nat ?n :: u64) = ?n" if "?n < 2 ^ 64" by (rule unat_of_nat_u64 [OF that])
    ultimately show ?thesis using f Cons by (simp add: advance_def)
  qed
qed

lemma sync_loop_Ok:
  assumes "sync_loop sha256 siphash (cc, h) = (Ok (), (cc', h'))"
  shows "\<exists>batches final. cc_chain_state cc' = fold (advance sha256) (batches @ [final]) (cc_chain_state cc)
    \<and> (\<forall>b \<in> set batches. MAX_HEADER_LEN \<le> length b) \<and> length final < MAX_HEADER_LEN
    \<and> unat (cs_last_block_height (cc_chain_state cc')) =
        unat (cs_last_block_height (cc_chain_state cc)) + length (concat batches) + length final"
  using assms
proof (induction sha256 siphash "(cc, h)" arbitrary: cc h rule: sync_loop.induct)
  case (1 sha256 siphash cc h)
  from "1.prems" obtain again cc1 h1 where r: "sync_round sha256 siphash (cc, h) = (Ok again, (cc1, h1))"
    by (auto simp: sync_loop.simps [of _ _ "(cc, h)"] split: res.splits prod.splits)
  from sync_round_Ok [OF r] obtain headers where
    again: "again = (length headers \<ge> MAX_HEADER_LEN)" and
    s: "cc_chain_state cc1 = advance sha256 headers (cc_chain_state cc)" and
    len: "unat (cs_last_block_height (cc_chain_state cc1)) = unat (cs_last_block_height (cc_chain_state cc)) + length headers"
    by blast
  show ?case
  proof (cases again)
    case False
    with "1.prems" r have "cc' = cc1" by (simp add: sync_loop.simps [of _ _ "(cc, h)"])
    with s len again False show ?thesis by (intro exI [of _ "[]"] exI [of _ headers]) auto
  next
    case True
    with "1.prems" r have "sync_loop sha256 siphash (cc1, h1) = (Ok (), (cc', h'))"
      by (simp add: sync_loop.simps [of _ _ "(cc, h)"])
    from "1.hyps" [OF r [symmetric] refl True this] obtain batches final where
      "cc_chain_state cc' = fold (advance sha256) (batches @ [final]) (cc_chain_state cc1)"
      "\<forall>b \<in> set batches. MAX_HEADER_LEN \<le> length b" "length final < MAX_HEADER_LEN"
      "unat (cs_last_block_height (cc_chain_state cc')) =
         unat (cs_last_block_height (cc_chain_state cc1)) + length (concat batches) + length final"
      by blast
    with s len again True show ?thesis by (intro exI [of _ "headers # batches"] exI [of _ final]) auto
  qed
qed

section \<open>A prompt peer\<close>

definition chain_with :: "Peer \<Rightarrow> 'x CompactChain \<Rightarrow> 'x CompactChain" where
  "chain_with p cc = cc\<lparr>cc_p2p := (cc_p2p cc)\<lparr>pp_peer := Some p\<rparr>\<rparr>"

lemma on_p2p_with_peer:
  "c (p, h) = (r, (p', h')) \<Longrightarrow> on_p2p (with_peer c) (chain_with p cc, h) = (r, (chain_with p' cc, h'))"
  by (simp add: on_p2p_def with_peer_def chain_with_def)

lemma verify_prompt_peer:
  assumes "able start (2 + (2 * length fs + 2)) walls h" and "length magic = 4"
    and "readable walls (CFHeaders header # map CFilters (fs @ [f]))"
    and "pe_input p = (wire sha256 magic (CFHeaders header)
           @ concat (map (\<lambda>f. wire sha256 magic (CFilters f)) (fs @ [f])) @ rest, eof) # segs"
    and "\<forall>x \<in> set fs. cf_block_hash x \<noteq> hash_stop" and "cf_block_hash f = hash_stop"
  shows "fst (get_and_verify_compact_filters sha256 n hash_stop (chain_with p cc, h)) =
    rbind (check_filters sha256 (cfh_filter_hashes header) (fs @ [f])) (\<lambda>_. Ok (fs @ [f]))"
proof -
  let ?m = "GetCFHeaders \<lparr>fl_filter_type = 0, fl_start_height = n, fl_hash_stop = hash_stop\<rparr>"
  let ?more = "concat (map (\<lambda>f. wire sha256 magic (CFilters f)) (fs @ [f])) @ rest"
  let ?p = "p\<lparr>pe_output := pe_output p @ wire sha256 (pe_magic p) ?m, pe_input := (?more, eof) # segs\<rparr>"
  have w: "writable ?m" and c: "message_command (CFHeaders header) = CFHEADERS"
    and hd: "transferable (wall_reading walls) (CFHeaders header)"
    and tl: "readable (tl walls) (map CFilters (fs @ [f]))" using assms(3) by simp_all
  obtain h0 h1 where
    1: "peer_send sha256 ?m (p, h) = (Ok (), (p\<lparr>pe_output := pe_output p @ wire sha256 (pe_magic p) ?m\<rparr>, h0))"
    "receive sha256 CFHEADERS (p\<lparr>pe_output := pe_output p @ wire sha256 (pe_magic p) ?m\<rparr>, h0) = (Ok (CFHeaders header), (?p, h1))"
    and a: "able start (2 * length fs + 2) (tl walls) h1"
    by (rule answer_able [OF assms(1) w assms(2) hd c assms(4)])
  have "fetch_compact_filter_headers sha256 n hash_stop (p, h) = (Ok header, (?p, h1))"
    using 1 by (simp add: fetch_compact_filter_headers_def)
  from on_p2p_with_peer [where c = "fetch_compact_filter_headers sha256 n hash_stop", OF this, of cc]
  have r1: "on_p2p (get_compact_filter_headers sha256 n hash_stop) (chain_with p cc, h) = (Ok header, (chain_with ?p cc, h1))"
    unfolding get_compact_filter_headers_def .
  obtain p2 h2 where "fetch_compact_filters sha256 n hash_stop (?p, h1) = (Ok (fs @ [f]), (p2, h2))"
    using fetch_compact_filters_complete_aux [OF a assms(2) tl, of ?p sha256 rest eof segs hash_stop n] assms(5,6) by auto
  from on_p2p_with_peer [where c = "fetch_compact_filters sha256 n hash_stop", OF this, of cc]
  have "on_p2p (get_compact_filters sha256 n hash_stop) (chain_with ?p cc, h1) = (Ok (fs @ [f]), (chain_with p2 cc, h2))"
    unfolding get_compact_filters_def .
  with r1 show ?thesis
    by (cases "check_filters sha256 (cfh_filter_hashes header) (fs @ [f])")
      (simp_all add: get_and_verify_compact_filters_def sbind_def smap_err_def)
qed

lemma sync_prompt_peer:
  assumes "able start 4 walls h" and "length magic = 4"
    and "pe_input p = (wire sha256 magic (Pong q) @ wire sha256 magic (MHeaders \<lparr>headers_inner = []\<rparr>) @ rest, eof) # segs"
  shows "\<exists>p' h'. sync_state sha256 siphash (chain_with p cc, h) = (Ok (), (chain_with p' cc, h'))"
proof -
  have "able start (2 + 2) walls h" using assms(1) by simp
  then obtain out h1 where
    1: "keep_alive sha256 (p, h) =
      (Ok (), (p\<lparr>pe_output := out, pe_input := (wire sha256 magic (MHeaders \<lparr>headers_inner = []\<rparr>) @ rest, eof) # segs\<rparr>, h1))"
    and "able start 2 (tl walls) h1"
    by (rule keep_alive_able [OF _ assms(2,3)])
  then have a: "able start (2 + 0) (tl walls) h1" by simp
  let ?p = "p\<lparr>pe_output := out, pe_input := (wire sha256 magic (MHeaders \<lparr>headers_inner = []\<rparr>) @ rest, eof) # segs\<rparr>"
  let ?hash = "cs_last_block_hash (cc_chain_state (chain_with ?p cc))"
  let ?m = "GetHeaders \<lparr>bl_version = PROTOCOL_VERSION, bl_block_locator_hashes = [?hash], bl_hash_stop = NO_HASH_STOP\<rparr>"
  have wf: "wf_headers \<lparr>headers_inner = []\<rparr>" by (simp add: wf_headers_def fits_def)
  then have "length (headers_write \<lparr>headers_inner = []\<rparr>) < 2 ^ 32"
    by (simp only: headers_codec.wr_size) (simp add: headers_size_def var_int_size_def len_u64_def)
  with wf have hd: "transferable (wall_reading (tl walls)) (MHeaders \<lparr>headers_inner = []\<rparr>)" by (simp add: fits_def)
  have w: "writable ?m" and c: "message_command (MHeaders \<lparr>headers_inner = []\<rparr>) = HEADERS"
    and i: "pe_input ?p = (wire sha256 magic (MHeaders \<lparr>headers_inner = []\<rparr>) @ rest, eof) # segs" by simp_all
  obtain p1 p2 h2 h3 where
    2: "peer_send sha256 ?m (?p, h1) = (Ok (), (p1, h2))"
    "receive sha256 HEADERS (p1, h2) = (Ok (MHeaders \<lparr>headers_inner = []\<rparr>), (p2, h3))"
    by (rule answer_able [OF a w assms(2) hd c i])
  have "peer_fetch_headers sha256 ?hash (?p, h1) = (Ok [], (p2, h3))"
    using 2 by (simp add: peer_fetch_headers_def)
  from on_p2p_with_peer [where c = "peer_fetch_headers sha256 ?hash", OF this, of cc] have
    "sync_round sha256 siphash (chain_with ?p cc, h1) = (Ok False, (chain_with p2 cc, h3))"
    by (simp add: sync_round_def fetch_headers_def sbind_def smap_err_def)
  then have "sync_loop sha256 siphash (chain_with ?p cc, h1) = (Ok (), (chain_with p2 cc, h3))"
    by (simp add: sync_loop.simps)
  with on_p2p_with_peer [where c = "keep_alive sha256", OF 1, of cc] show ?thesis
    by (auto simp: sync_state_def p2p_keep_alive_def sbind_def smap_err_def)
qed

section \<open>Properties\<close>

definition sample_chain :: "u32 list CompactChain" where
  "sample_chain = \<lparr>cc_p2p = \<lparr>pp_peer = None, pp_socket = \<lparr>sk_start_connect = None, sk_finish_connect = []\<rparr>\<rparr>,
     cc_chain_state = \<lparr>cs_last_block_hash = Hash256 (replicate 32 0), cs_last_block_height = 7\<rparr>,
     cc_wallet = path_wallet\<rparr>"

definition sample_sync :: "(Error, unit) res \<times> u32 list CompactChain \<times> host" where
  "sample_sync = sync_state sample_sha (\<lambda>_ _ _. 0)
     (chain_with (sample_peer (wire sample_sha [1, 2, 3, 4] (Pong \<lparr>ping_nonce = 7\<rparr>)
        @ wire sample_sha [1, 2, 3, 4] (MHeaders \<lparr>headers_inner = []\<rparr>))) sample_chain,
      sample_host\<lparr>ho_monotonic := [5, 6, 7, 8]\<rparr>)"

lemma sample_sync_Ok: "\<exists>p h. sample_sync = (Ok (), (chain_with p sample_chain, h))"
proof -
  have "able 5 4 [] (sample_host\<lparr>ho_monotonic := [5, 6, 7, 8]\<rparr>)"
    by (simp add: able_def prompt_def sending_def sample_host_def)
  from sync_prompt_peer [OF this, of "[1, 2, 3, 4]" "sample_peer _" sample_sha "\<lparr>ping_nonce = 7\<rparr>" "[]" TimedOut "[]"]
  show ?thesis by (fastforce simp: sample_sync_def sample_peer_def)
qed

lemma sync_state_Ok:
  assumes "sync_state sha256 siphash (cc, h) = (Ok (), (cc', h'))"
  shows "\<exists>batches final. cc_chain_state cc' = fold (advance sha256) (batches @ [final]) (cc_chain_state cc)
    \<and> (\<forall>b \<in> set batches. MAX_HEADER_LEN \<le> length b) \<and> length final < MAX_HEADER_LEN
    \<and> unat (cs_last_block_height (cc_chain_state cc')) =
        unat (cs_last_block_height (cc_chain_state cc)) + length (concat batches) + length final"
proof -
  from assms obtain cc1 h1 where
    k: "on_p2p (p2p_keep_alive sha256) (cc, h) = (Ok (), (cc1, h1))" and
    l: "sync_loop sha256 siphash (cc1, h1) = (Ok (), (cc', h'))"
    by (auto simp: sync_state_def sbind_eq_Ok)
  have "cc_chain_state cc1 = cc_chain_state cc"
    using keepsD [OF kept_position.p2p_keeps k] by simp
  with sync_loop_Ok [OF l] show ?thesis by simp
qed



text \<open>
  C34: Synchronising keeps the wallet well formed and its scripts unchanged, whether it
  succeeds, fails or panics, at whichever request it ends.
\<close>

theorem sync_state_keeps_wallet:
  assumes "sync_state sha256 siphash (cc, h) = (r, (cc', h'))" and "wf_wallet (cc_wallet cc)"
  shows "wf_wallet (cc_wallet cc') \<and> wo_pubkey_map (cc_wallet cc') = wo_pubkey_map (cc_wallet cc)"
  using wf_sync.sync_keeps [OF assms(1)] scripts_sync.sync_keeps [OF assms(1)] assms(2) by simp

theorem sync_state_keeps_wallet_witness:
  "\<exists>cc h. sample_sync = (Ok (), (cc, h)) \<and> wf_wallet (cc_wallet cc)"
proof -
  obtain cc h where s: "sample_sync = (Ok (), (cc, h))" using sample_sync_Ok by blast
  have "wf_wallet path_wallet" by (simp add: wf_wallet_def path_defs bt_ok_def)
  with sync_state_keeps_wallet [OF s [unfolded sample_sync_def]] s show ?thesis
    by (auto simp: sample_chain_def chain_with_def)
qed

text \<open>
  C35: Filters are used only when they agree with the filter header. Every filter that has a
  counterpart in the list of hashes the peer announced has the announced hash, and the last
  filter is that of the block the request stops at. (Filters beyond the end of the list are
  not compared with anything.)
\<close>

theorem accepted_filters_verified:
  assumes "get_and_verify_compact_filters sha256 n hash_stop st = (Ok filters, st')"
  shows "\<exists>header st1. on_p2p (get_compact_filter_headers sha256 n hash_stop) st = (Ok header, st1)
    \<and> (\<forall>(hash, f) \<in> set (zip (cfh_filter_hashes header) filters). sha256d sha256 (cf_filter_bytes f) = hash)
    \<and> filters \<noteq> [] \<and> cf_block_hash (last filters) = hash_stop"
  using assms by (rule get_and_verify_Ok)

definition sample_filter_header :: CompactFilterHeader where
  "sample_filter_header = \<lparr>cfh_filter_type = 0, cfh_stop_hash = Hash256 (replicate 32 1),
     cfh_previous_filter_header = Hash256 (replicate 32 0), cfh_filter_hashes = [Hash256 (replicate 32 7)]\<rparr>"

definition sample_verify :: "(Error, CompactFilter list) res \<times> u32 list CompactChain \<times> host" where
  "sample_verify = get_and_verify_compact_filters sample_sha 8 (Hash256 (replicate 32 1))
     (chain_with (sample_peer (wire sample_sha [1, 2, 3, 4] (CFHeaders sample_filter_header)
        @ wire sample_sha [1, 2, 3, 4] (CFilters sample_cfilter))) sample_chain,
      sample_host\<lparr>ho_monotonic := [5, 6, 7, 8]\<rparr>)"

lemma sample_filter_header_readable: "transferable now (CFHeaders sample_filter_header)"
proof -
  have wf: "wf_compact_filter_header sample_filter_header"
    by (simp add: wf_compact_filter_header_def sample_filter_header_def wf_hash_def fits_def)
  then have "length (compact_filter_header_write sample_filter_header) < 2 ^ 32"
    by (simp only: compact_filter_header_codec.wr_size)
      (simp add: sample_filter_header_def compact_filter_header_size_def var_int_size_def len_u64_def)
  with wf show ?thesis by (simp add: fits_def)
qed

lemma sample_verify_Ok: "\<exists>st. sample_verify = (Ok [sample_cfilter], st)"
proof -
  have "able 5 (2 + (2 * length ([] :: CompactFilter list) + 2)) [] (sample_host\<lparr>ho_monotonic := [5, 6, 7, 8]\<rparr>)"
    by (simp add: able_def prompt_def sending_def sample_host_def)
  moreover have "check_filters sample_sha (cfh_filter_hashes sample_filter_header) [sample_cfilter] = Ok ()"
    by (simp add: sample_filter_header_def sha256d_def sample_sha_def)
  moreover have "cf_block_hash sample_cfilter = Hash256 (replicate 32 1)" by (simp add: sample_cfilter_def)
  ultimately have "fst sample_verify = Ok [sample_cfilter]"
    unfolding sample_verify_def
    using verify_prompt_peer [of 5 "[]" "[]" "sample_host\<lparr>ho_monotonic := [5, 6, 7, 8]\<rparr>" "[1, 2, 3, 4]" sample_filter_header
        sample_cfilter "sample_peer (wire sample_sha [1, 2, 3, 4] (CFHeaders sample_filter_header)
          @ wire sample_sha [1, 2, 3, 4] (CFilters sample_cfilter))" sample_sha "[]" TimedOut "[]"
        "Hash256 (replicate 32 1)" 8 sample_chain] sample_filter_header_readable sample_cfilter_readable
    by (simp add: sample_peer_def del: transferable.simps)
  then show ?thesis by (metis prod.collapse)
qed

theorem accepted_filters_verified_witness:
  "\<exists>header st1 st. sample_verify = (Ok [sample_cfilter], st) \<and>
     on_p2p (get_compact_filter_headers sample_sha 8 (Hash256 (replicate 32 1)))
     (chain_with (sample_peer (wire sample_sha [1, 2, 3, 4] (CFHeaders sample_filter_header)
        @ wire sample_sha [1, 2, 3, 4] (CFilters sample_cfilter))) sample_chain,
      sample_host\<lparr>ho_monotonic := [5, 6, 7, 8]\<rparr>) = (Ok header, st1)"
proof -
  obtain st where "sample_verify = (Ok [sample_cfilter], st)" using sample_verify_Ok by blast
  with accepted_filters_verified [OF this [unfolded sample_verify_def]] show ?thesis by blast
qed

text \<open>
  C36: The requests for filters cover every new block but one: of the headers received, each
  lies in one of the ranges asked for, with one exception, the last header when there are more
  than one and their number is one more than a multiple of 500. Outputs in that block are
  never looked for.
\<close>

theorem filter_requests_cover:
  assumes "j < length headers"
  shows "(\<exists>i < length (filter_requests sha256 start headers).
      filter_requests sha256 start headers ! i =
        (of_nat (start + FILTER_SIZE * i), block_header_hash sha256 (headers ! range_end (length headers) i))
      \<and> FILTER_SIZE * i \<le> j \<and> j \<le> range_end (length headers) i)
    \<longleftrightarrow> \<not> (j + 1 = length headers \<and> length headers > 1 \<and> length headers mod FILTER_SIZE = 1)"
proof -
  have "headers \<noteq> []" using assms by auto
  then show ?thesis
    unfolding covered_iff [OF assms, symmetric]
    by (intro ex_cong1) (auto simp: filter_requests_eq simp del: upt_Suc)
qed

definition sample_header :: BlockHeader where
  "sample_header = \<lparr>bh_version = 1, bh_prev_hash = Hash256 (replicate 32 0), bh_merkle_root = Hash256 (replicate 32 0),
     bh_timestamp = 0, bh_bits = 0, bh_nonce = 0\<rparr>"

theorem filter_requests_cover_witness:
  "\<not> (\<exists>i < length (filter_requests sample_sha 8 (replicate 501 sample_header)).
      filter_requests sample_sha 8 (replicate 501 sample_header) ! i =
        (of_nat (8 + FILTER_SIZE * i), block_header_hash sample_sha (replicate 501 sample_header ! range_end 501 i))
      \<and> FILTER_SIZE * i \<le> 500 \<and> 500 \<le> range_end 501 i)"
  using filter_requests_cover [of 500 "replicate 501 sample_header" sample_sha 8]
  by (simp add: FILTER_SIZE_def)


text \<open>
  An output received and spent within one batch is recorded as unspent when the wallet did not
  know it before: with no known outputs nothing is marked as spent.
\<close>

lemma spend_in_same_batch_missed:
  "list_all (\<lambda>u. \<not> gu_is_spent u) (concat (map (block_utxos sha256 pub_keys []) blocks))"
proof -
  have "\<not> gu_is_spent u" if "u \<in> set (received_utxos sha256 pub_keys txn)" for u txn
    using that by (auto simp: received_utxos_iff)
  moreover have "spent_utxos [] txn = []" for txn by (auto simp: spent_utxos_def)
  ultimately show ?thesis by (auto simp: list_all_iff block_utxos_def)
qed

end
