(* ===== verification/Node_Correct.thy ===== *)
theory Node_Correct
  imports Node Chain_Correct
begin

text \<open>
  The node as a whole: what it saves can be read back, what it restores is what it saved, and
  what it reports as the balance.
\<close>

section \<open>Several insertions in a row\<close>

text \<open>An insertion reads the monotonic clock at most twice.\<close>

lemma fresh_ids_cong:
  assumes "fresh_ids n (ss, fs)" and "\<And>i. mono_id ss' i = mono_id ss i"
    and "\<And>i. seg_at ss i = None \<Longrightarrow> seg_at ss' i = None"
    and "ss_directory ss' = ss_directory ss" and "fs_names fs' = fs_names fs"
  shows "fresh_ids n (ss', fs')"
  using assms by (simp add: fresh_ids_def inj_on_def)

lemma fresh_ids_keep: "fresh_ids (Suc n) (ss, fs) \<Longrightarrow> fresh_ids n (ss, fs)"
  by (erule fresh_ids_mono) simp

lemma append_active_fresh:
  assumes "append_active env e (ss, fs) = (r, (ss', fs'))" and "fresh_ids (Suc n) (ss, fs)"
  shows "fresh_ids n (ss', fs')"
proof -
  obtain now ss1 where now: "entry_now e (ss, fs) = (Ok now, (ss1, fs))" "ss1 = ss \<or> ss1 = tick ss"
    using entry_now_tick by blast
  have f: "fresh_ids n (ss1, fs)" using now(2) assms(2) fresh_ids_tick fresh_ids_keep by blast
  obtain q fs1 where q: "segment_append (ke_faults env) (ke_serialize env) now (ss_active ss1) e fs = (q, fs1)"
    by (cases "segment_append (ke_faults env) (ke_serialize env) now (ss_active ss1) e fs")
  then have names: "fs_names fs1 = fs_names fs"
    by (auto simp: segment_append_def store_append_def Let_def sbind_def split: if_splits res.splits)
  show ?thesis
  proof (cases q)
    case (Ok x)
    obtain resp seg where x: "x = (resp, seg)" by (cases x)
    have "sg_file_id seg = sg_file_id (ss_active ss1)"
      using q by (auto simp: Ok x segment_append_def store_append_def Let_def sbind_def split: if_splits res.splits)
    moreover have "ss' = ss1\<lparr>ss_active := seg\<rparr>" "fs' = fs1"
      using assms(1) now(1) q by (simp_all add: Ok x append_active_def on_files_def)
    ultimately show ?thesis
      by (intro fresh_ids_cong [OF f]) (auto simp: names seg_at_def split: if_splits)
  next
    case (Err e)
    then have "ss' = ss1" "fs' = fs1" using assms(1) now(1) q by (simp_all add: append_active_def on_files_def)
    then show ?thesis using f names by (simp add: fresh_ids_files)
  next
    case Panic
    then have "ss' = ss1" "fs' = fs1" using assms(1) now(1) q by (simp_all add: append_active_def on_files_def)
    then show ?thesis using f names by (simp add: fresh_ids_files)
  qed
qed

lemma rollover_fresh:
  assumes "maybe_rollover_active_segment faults (ss, fs) = (r, (ss', fs'))" and "hm_ok (ss_inactive ss)"
    and "fresh_ids (Suc n) (ss, fs)"
  shows "fresh_ids n (ss', fs')"
proof -
  have t: "ss\<lparr>ss_clock := snd (next_file_id (ss_clock ss))\<rparr> = tick ss" "fst (next_file_id (ss_clock ss)) = mono_id ss 0"
    by (simp_all add: next_file_id_def monotonic_now_def tick_def mono_id_def)
  from assms(1) show ?thesis
  proof (cases rule: rollover_cases)
    case 1
    then show ?thesis using assms(3) fresh_ids_keep by blast
  next
    case (2 seg fs1)
    have free: "seg_at ss (mono_id ss 0) = None"
      "map_of (fs_names fs) (ss_directory ss, segment_name (mono_id ss 0)) = None"
      using assms(3) by (auto simp: fresh_ids_def)
    have seg: "sg_file_id seg = mono_id ss 0" using segment_new_cases [OF 2(1)] t(2) by auto
    have names: "fs_names fs1 = fs_names fs @ [((ss_directory ss, segment_name (mono_id ss 0)), length (fs_content fs))]"
      using 2(1) free(2) unfolding t(2)
      by (auto simp: segment_new_def store_open_def sbind_def Let_def split: if_splits)
    have ss': "ss' = (tick ss)\<lparr>ss_inactive := hm_insert (sg_file_id (ss_active ss)) (ss_active ss) (ss_inactive ss),
        ss_active := seg\<rparr>" "fs' = fs1"
      using 2(3) by (simp_all add: t(1) [symmetric])
    have "seg_at ss' = (seg_at ss)(mono_id ss 0 \<mapsto> seg)"
      using assms(2) free(1) seg by (auto simp: fun_eq_iff ss' seg_at_def hm.get_ins)
    then show ?thesis
      by (rule fresh_ids_insert [OF assms(3)]) (simp_all add: ss' names fun_eq_iff)
  next
    case (3 e fs1)
    then have "fs1 = fs" using segment_new_cases by blast
    with 3 show ?thesis using fresh_ids_tick [OF assms(3)] t(1) by simp
  next
    case (4 fs1)
    then have "fs1 = fs" using segment_new_cases by blast
    with 4 show ?thesis using fresh_ids_tick [OF assms(3)] t(1) by simp
  qed
qed

text \<open>\<open>n\<close> insertions can follow without a merge.\<close>

definition ready_for :: "nat \<Rightarrow> 'k KVStore \<times> files \<Rightarrow> bool" where
  "ready_for n = (\<lambda>(s, fs). fresh_ids (2 * n) (kv_segments s, fs)
     \<and> unat (kv_counter s) + n \<le> unat (mc_run_merge_every (kv_merge_config s)))"

lemma ready_for_ready: "ready_for (Suc n) st \<Longrightarrow> kv_ready st"
  by (cases st) (auto simp: ready_for_def kv_ready_def fresh_def fresh_ids_def mono_id_def Let_def word_less_nat_alt)

lemma kv_put_ready_for:
  assumes "kv_put env k v st = (r, st')" and "kv_ok st" and "ready_for (Suc n) st"
  shows "ready_for n st'"
proof -
  obtain s fs where st: "st = (s, fs)" by (cases st)
  have ok: "hm_ok (ss_inactive (kv_segments s))" using assms(2) by (simp add: st kv_ok_def segs_ok_def)
  have "kv_counter s < mc_run_merge_every (kv_merge_config s)"
    and f: "fresh_ids (Suc (Suc (2 * n))) (kv_segments s, fs)"
    and c: "unat (kv_counter s) + Suc n \<le> unat (mc_run_merge_every (kv_merge_config s))"
    using assms(3) by (auto simp: st ready_for_def word_less_nat_alt)
  with assms(1) obtain q ss' fs' where
    app: "segments_append env k v (kv_segments s, fs) = (q, (ss', fs'))" and
    st': "\<exists>d. st' = (s\<lparr>kv_segments := ss', kv_key_directory := d, kv_counter := kv_counter s + 1\<rparr>, fs')
       \<or> st' = (s\<lparr>kv_segments := ss'\<rparr>, fs')"
    unfolding st by (elim kv_put_step) auto
  obtain q1 ss1 fs1 where q1: "maybe_rollover_active_segment (ke_faults env) (kv_segments s, fs) = (q1, (ss1, fs1))"
    by (cases "maybe_rollover_active_segment (ke_faults env) (kv_segments s, fs)") auto
  have f1: "fresh_ids (Suc (2 * n)) (ss1, fs1)" by (rule rollover_fresh [OF q1 ok f])
  have "fresh_ids (2 * n) (ss', fs')"
  proof (cases q1)
    case (Ok u)
    with app q1 have "append_active env (entry_new k v) (ss1, fs1) = (q, (ss', fs'))"
      by (simp add: segments_append_def)
    then show ?thesis by (rule append_active_fresh [OF _ f1])
  qed (use app q1 f1 fresh_ids_keep in \<open>auto simp: segments_append_def\<close>)
  moreover have "unat (kv_counter s + 1) \<le> Suc (unat (kv_counter s))"
    by (metis Suc_eq_plus1 mod_less_eq_dividend unat_1 unat_word_ariths(1))
  ultimately show ?thesis using st' c by (auto simp: ready_for_def)
qed

section \<open>Saving\<close>

lemma db_insert_step:
  assumes "ready_for (Suc n) st" and "kv_ok st" and "ke_faults env = no_faults"
    and "13 + length (ke_serialize env k) + length v < 2 ^ 32"
  obtains db fs where "db_insert env k v st = (Ok (), (db, fs))" and "kv_ok (db, fs)" and "ready_for n (db, fs)"
    and "kv_get no_faults (db, fs) = (kv_get no_faults st)(k := Ok v)"
proof -
  note ready = ready_for_ready [OF assms(1)]
  obtain st' where st': "kv_put env k v st = (Ok (), st')"
    using kv_put_no_faults [OF assms(3,4), of st] ready by (auto simp: kv_ready_def split: prod.splits)
  have "db_insert env k v st = (Ok (), st')"
    using st' by (simp add: db_insert_def guest_kv_insert_def kv_update_def smap_err_def)
  with kv.put_law [OF st' assms(2) ready] kv_put_ready_for [OF st' assms(2,1)] show thesis
    using that by (cases st') simp
qed

lemma db_get_eq: "db_get no_faults st k = Ok v \<longleftrightarrow> kv_get no_faults st k = Ok v"
  by (simp add: db_get_def guest_kv_get_def)

lemma on_db_step:
  "c (nd_db n, fs) = (r, (db, fs')) \<Longrightarrow> on_db c ((n, fs), h) = (r, ((n\<lparr>nd_db := db\<rparr>, fs'), h))"
  by (simp add: on_db_def)

lemma keys_distinct: "distinct [CHAIN_STATE_KEY, WALLET_STATE_KEY, SIGNER_STATE_KEY, NODE_STATE_KEY]"
  by code_simp

text \<open>A value that an entry of the store can hold under any of the keys.\<close>

definition storable :: "UUIDWasiKey kv_env \<Rightarrow> bytes \<Rightarrow> bool" where
  "storable env v \<longleftrightarrow> (\<forall>k \<in> {CHAIN_STATE_KEY, WALLET_STATE_KEY, SIGNER_STATE_KEY, NODE_STATE_KEY}.
     13 + length (ke_serialize env k) + length v < 2 ^ 32)"

lemma store_state_writes:
  assumes "kv_ok (nd_db n, fs)" and "ready_for 4 (nd_db n, fs)" and "ke_faults (ne_kv env) = no_faults"
    and "ne_save_chain env (cc_chain_state (nd_chain n)) = Some b1"
    and "ne_save_wallet env (cc_wallet (nd_chain n)) = Some b2"
    and "sv_serialize (ne_signer env) (nd_signer n) = Some b3" and "ne_save_node env (nd_node_state n) = Some b4"
    and "list_all (storable (ne_kv env)) [b1, b2, b3, b4]"
  shows "\<exists>db fs'. store_state env ((n, fs), h) = (Ok (), ((n\<lparr>nd_db := db\<rparr>, fs'), h)) \<and> kv_ok (db, fs')
    \<and> kv_get no_faults (db, fs') = (kv_get no_faults (nd_db n, fs))(CHAIN_STATE_KEY := Ok b1,
        WALLET_STATE_KEY := Ok b2, SIGNER_STATE_KEY := Ok b3, NODE_STATE_KEY := Ok b4)"
proof -
  have size: "13 + length (ke_serialize (ne_kv env) CHAIN_STATE_KEY) + length b1 < 2 ^ 32"
    "13 + length (ke_serialize (ne_kv env) WALLET_STATE_KEY) + length b2 < 2 ^ 32"
    "13 + length (ke_serialize (ne_kv env) SIGNER_STATE_KEY) + length b3 < 2 ^ 32"
    "13 + length (ke_serialize (ne_kv env) NODE_STATE_KEY) + length b4 < 2 ^ 32"
    using assms(8) by (simp_all add: storable_def)
  have r: "ready_for (Suc (Suc (Suc (Suc 0)))) (nd_db n, fs)" using assms(2) by (simp add: numeral_eq_Suc)
  obtain db1 fs1 where 1: "db_insert (ne_kv env) CHAIN_STATE_KEY b1 (nd_db n, fs) = (Ok (), (db1, fs1))"
    "kv_ok (db1, fs1)" "ready_for (Suc (Suc (Suc 0))) (db1, fs1)"
    "kv_get no_faults (db1, fs1) = (kv_get no_faults (nd_db n, fs))(CHAIN_STATE_KEY := Ok b1)"
    by (rule db_insert_step [OF r assms(1) assms(3) size(1)])
  obtain db2 fs2 where 2: "db_insert (ne_kv env) WALLET_STATE_KEY b2 (db1, fs1) = (Ok (), (db2, fs2))"
    "kv_ok (db2, fs2)" "ready_for (Suc (Suc 0)) (db2, fs2)"
    "kv_get no_faults (db2, fs2) = (kv_get no_faults (db1, fs1))(WALLET_STATE_KEY := Ok b2)"
    by (rule db_insert_step [OF 1(3) 1(2) assms(3) size(2)])
  obtain db3 fs3 where 3: "db_insert (ne_kv env) SIGNER_STATE_KEY b3 (db2, fs2) = (Ok (), (db3, fs3))"
    "kv_ok (db3, fs3)" "ready_for (Suc 0) (db3, fs3)"
    "kv_get no_faults (db3, fs3) = (kv_get no_faults (db2, fs2))(SIGNER_STATE_KEY := Ok b3)"
    by (rule db_insert_step [OF 2(3) 2(2) assms(3) size(3)])
  obtain db4 fs4 where 4: "db_insert (ne_kv env) NODE_STATE_KEY b4 (db3, fs3) = (Ok (), (db4, fs4))"
    "kv_ok (db4, fs4)" "ready_for 0 (db4, fs4)"
    "kv_get no_faults (db4, fs4) = (kv_get no_faults (db3, fs3))(NODE_STATE_KEY := Ok b4)"
    by (rule db_insert_step [OF 3(3) 3(2) assms(3) size(4)])
  have "store_state env ((n, fs), h) = (Ok (), ((n\<lparr>nd_db := db4\<rparr>, fs4), h))"
    using 1(1) 2(1) 3(1) 4(1) assms(4-7)
    by (simp add: store_state_def sbind_def sunwrap_def on_db_def of_opt_def chain_get_state_def get_state_def
        guest_signer_get_state_def signer_get_state_def)
  with 4(2,4) 3(4) 2(4) 1(4) show ?thesis by auto
qed

section \<open>The balance\<close>

lemma on_db_chain: "on_db c ((n, fs), h) = (r, ((n', fs'), h')) \<Longrightarrow> nd_chain n' = nd_chain n"
  by (auto simp: on_db_def split: prod.splits)

lemma store_state_chain:
  "store_state env ((n, fs), h) = (Ok (), ((n', fs'), h')) \<Longrightarrow> nd_chain n' = nd_chain n"
  unfolding store_state_def by (auto simp: sbind_eq_Ok dest!: on_db_chain)

lemma on_chain_Ok:
  "on_chain c ((n, fs), h) = (Ok x, ((n', fs'), h')) \<Longrightarrow>
     c (nd_chain n, h) = (Ok x, (nd_chain n', h')) \<and> fs' = fs"
  by (auto simp: on_chain_def split: prod.splits)

lemma node_balance_Ok:
  assumes "node_balance env ((n, fs), h) = (Ok b, ((n', fs'), h'))"
  shows "\<exists>h1. sync_state (ne_sha256 env) (ne_siphash env) (nd_chain n, h) = (Ok (), (nd_chain n', h1))
    \<and> guest_balance (cc_wallet (nd_chain n')) = Ok b"
proof -
  from assms obtain n1 fs1 h1 where
    1: "on_chain (sync_state (ne_sha256 env) (ne_siphash env)) ((n, fs), h) = (Ok (), ((n1, fs1), h1))" and
    2: "store_state env ((n1, fs1), h1) = (Ok (), ((n', fs'), h'))" and
    3: "guest_balance (cc_wallet (nd_chain n')) = Ok b"
    by (auto simp: node_balance_def sbind_eq_Ok)
  from on_chain_Ok [OF 1] store_state_chain [OF 2] 3 show ?thesis by auto
qed

section \<open>Properties\<close>

definition sample_signer_env :: "(unit, u32 list, unit) signer_env" where
  "sample_signer_env = \<lparr>sv_parse_xpriv = (\<lambda>_. Some ()), sv_from_priv = (\<lambda>_. []), sv_into_derivation_path = (\<lambda>_. Inr []),
     sv_derive_priv = (\<lambda>_ _. Inr ()), sv_fingerprint = (\<lambda>_. []), sv_show_xpub = (\<lambda>_. []), sv_show_fingerprint = (\<lambda>_. []),
     sv_show_path = (\<lambda>_. []), sv_parse_psbt = (\<lambda>_. Some ()), sv_sign = (\<lambda>_ _. Some ()), sv_serialize_psbt = (\<lambda>_. []),
     sv_serialize = (\<lambda>_. Some [3]), sv_deserialize = (\<lambda>_. Some \<lparr>ks_master_xpriv = (), ks_master_xpub = []\<rparr>)\<rparr>"

definition sample_node_env :: "(u32 list, unit, unit) node_env" where
  "sample_node_env = \<lparr>ne_sha256 = sample_sha, ne_siphash = (\<lambda>_ _ _. 0), ne_hex_decode = (\<lambda>_. Panic), ne_raw_socket = None,
     ne_kv = sample_env, ne_kv_clock = sample_clock 0, ne_signer = sample_signer_env, ne_wallet = path_env,
     ne_parse_xpub = (\<lambda>_. None), ne_parse_path = (\<lambda>_. None), ne_parse_fingerprint = (\<lambda>_. None),
     ne_from_sat_per_vb = (\<lambda>_. None), ne_parse_signed = (\<lambda>_. None), ne_save_wallet = (\<lambda>_. Some [2]),
     ne_load_wallet = (\<lambda>_. None), ne_save_chain = (\<lambda>_. Some [1]), ne_load_chain = (\<lambda>_. None),
     ne_save_node = (\<lambda>_. Some [4]), ne_load_node = (\<lambda>_. None)\<rparr>"

text \<open>The store of a first start, with the configuration of the component.\<close>

definition sample_db :: kv_store where
  "sample_db = \<lparr>kv_segments = \<lparr>ss_active = \<lparr>sg_file_id = 1, sg_file_path = segment_name 1,
        sg_store = \<lparr>ws_file_descriptor = 0, ws_current_write_offset = 0, ws_directory_path = ''bitcoin-wasm'',
          ws_file_name = segment_name 1\<rparr>\<rparr>,
      ss_inactive = [], ss_clock = sample_clock 1, ss_max_segment_size_bytes = 1048576, ss_directory = ''bitcoin-wasm''\<rparr>,
     kv_key_directory = [], kv_merge_config = new_with_all_segments_to_read, kv_counter = 0\<rparr>"

definition sample_db_files :: files where
  "sample_db_files = \<lparr>fs_names = [((''bitcoin-wasm'', segment_name 1), 0)], fs_content = [[]]\<rparr>"

lemma sample_db_started: "guest_kv_new sample_env (sample_clock 0) no_files = (Ok sample_db, sample_db_files)"
  by (simp add: guest_kv_new_def kv_new_def guest_kv_config_def segments_new_def segment_new_def store_open_def
      next_file_id_def monotonic_now_def sample_clock_def no_files_def sample_env_def segments_reload_def get_files_def
      segment_name_recognised [simplified] sbind_def Let_def sample_db_def sample_db_files_def)

lemma sample_db_ok: "kv_ok (sample_db, sample_db_files)"
proof -
  have "kv_new sample_env (guest_kv_config (sample_clock 0)) no_files = (Ok sample_db, sample_db_files)"
    using sample_db_started by (auto simp: guest_kv_new_def split: prod.splits)
  then show ?thesis
    by (rule kv_new_establishes) (simp_all add: fs_ok_def no_files_def sample_env_def)
qed

lemma sample_db_ready: "ready_for 4 (sample_db, sample_db_files)"
proof -
  have ids: "mono_id (kv_segments sample_db) = (\<lambda>i. of_nat i + 2)"
    by (simp add: mono_id_def sample_db_def sample_clock_def fun_eq_iff)
  have "{..<8 :: nat} = {0, 1, 2, 3, 4, 5, 6, 7}" by auto
  then have "inj_on (\<lambda>i. of_nat i + 2 :: u64) {..<8}"
    and "\<forall>i \<in> {..<8}. (of_nat i + 2 :: u64) \<noteq> 1" by (simp_all add: inj_on_insert)
  moreover have "seg_at (kv_segments sample_db) i = None" if "i \<noteq> 1" for i
    using that by (simp add: seg_at_def sample_db_def hm_get_def)
  moreover have "map_of (fs_names sample_db_files) (ss_directory (kv_segments sample_db), segment_name i) = None"
    if "i \<noteq> 1" for i using that by (simp add: sample_db_def sample_db_files_def)
  ultimately have "fresh_ids 8 (kv_segments sample_db, sample_db_files)"
    by (simp only: fresh_ids_def ids prod.case) auto
  then show ?thesis by (simp add: ready_for_def sample_db_def new_with_all_segments_to_read_def)
qed

definition sample_node :: "u32 list CompactChain \<Rightarrow> (u32 list, unit) Node" where
  "sample_node cc = \<lparr>nd_chain = cc, nd_signer = \<lparr>ks_master_xpriv = (), ks_master_xpub = []\<rparr>,
     nd_node_state = \<lparr>ns_socket_address = \<lparr>sa_ip = (127, 0, 0, 1), sa_port = 18744\<rparr>, ns_network = Regtest\<rparr>,
     nd_db = sample_db\<rparr>"

lemma sample_node_stores:
  "\<exists>db fs'. store_state sample_node_env ((sample_node cc, sample_db_files), h) = (Ok (), (((sample_node cc)\<lparr>nd_db := db\<rparr>, fs'), h))"
proof -
  have size: "list_all (storable sample_env) [[1], [2], [3], [4]]"
    by (simp add: storable_def sample_env_def uuid_serialize_def) code_simp
  show ?thesis
    using store_state_writes [of "sample_node cc" sample_db_files sample_node_env "[1]" "[2]" "[3]" "[4]" h]
      sample_db_ok sample_db_ready size
    by (auto simp: sample_node_def sample_node_env_def sample_signer_env_def sample_env_def [THEN arg_cong, of ke_faults])
qed

text \<open>
  Saving the node's state works and loses nothing. On a store that keeps its invariant,
  has no merge due for four insertions and a host whose file operations succeed, the state is
  saved without a panic, and afterwards the store reads, under the four keys, the encodings of
  the chain's position, the wallet, the signer and the node; every other key reads as before.
\<close>

lemma store_state_saves:
  assumes "kv_ok (nd_db n, fs)" and "ready_for 4 (nd_db n, fs)" and "ke_faults (ne_kv env) = no_faults"
    and "ne_save_chain env (cc_chain_state (nd_chain n)) = Some b1"
    and "ne_save_wallet env (cc_wallet (nd_chain n)) = Some b2"
    and "sv_serialize (ne_signer env) (nd_signer n) = Some b3" and "ne_save_node env (nd_node_state n) = Some b4"
    and "list_all (storable (ne_kv env)) [b1, b2, b3, b4]"
  shows "\<exists>db fs'. store_state env ((n, fs), h) = (Ok (), ((n\<lparr>nd_db := db\<rparr>, fs'), h))
    \<and> db_get no_faults (db, fs') CHAIN_STATE_KEY = Ok b1 \<and> db_get no_faults (db, fs') WALLET_STATE_KEY = Ok b2
    \<and> db_get no_faults (db, fs') SIGNER_STATE_KEY = Ok b3 \<and> db_get no_faults (db, fs') NODE_STATE_KEY = Ok b4
    \<and> (\<forall>k. k \<notin> {CHAIN_STATE_KEY, WALLET_STATE_KEY, SIGNER_STATE_KEY, NODE_STATE_KEY} \<longrightarrow>
          db_get no_faults (db, fs') k = db_get no_faults (nd_db n, fs) k)"
proof -
  obtain db fs' where s: "store_state env ((n, fs), h) = (Ok (), ((n\<lparr>nd_db := db\<rparr>, fs'), h))"
    "kv_get no_faults (db, fs') = (kv_get no_faults (nd_db n, fs))(CHAIN_STATE_KEY := Ok b1,
        WALLET_STATE_KEY := Ok b2, SIGNER_STATE_KEY := Ok b3, NODE_STATE_KEY := Ok b4)"
    using store_state_writes [OF assms] by blast
  with keys_distinct show ?thesis
    by (intro exI [of _ db] exI [of _ fs']) (simp add: db_get_def guest_kv_get_def)
qed

lemma store_state_saves_witness:
  "\<exists>db fs'. store_state sample_node_env ((sample_node sample_chain, sample_db_files), sample_host)
       = (Ok (), (((sample_node sample_chain)\<lparr>nd_db := db\<rparr>, fs'), sample_host))
     \<and> db_get no_faults (db, fs') WALLET_STATE_KEY = Ok [2]"
proof -
  have size: "list_all (storable sample_env) [[1], [2], [3], [4]]"
    by (simp add: storable_def sample_env_def uuid_serialize_def) code_simp
  show ?thesis
    using store_state_saves [of "sample_node sample_chain" sample_db_files sample_node_env "[1]" "[2]" "[3]" "[4]" sample_host]
      sample_db_ok sample_db_ready size
    by (auto simp: sample_node_def sample_node_env_def sample_signer_env_def sample_env_def [THEN arg_cong, of ke_faults])
qed

text \<open>
  C38: The balance the client reports. When the call succeeds, the amount is the sum of the
  unspent outputs of the wallet as the synchronisation left it, the wallet is well formed if
  it was before, and the recorded height has not gone back.
\<close>

theorem node_balance_correct:
  assumes "node_balance env ((n, fs), h) = (Ok b, ((n', fs'), h'))"
    and "wf_wallet (cc_wallet (nd_chain n))" and "unspent_total (cc_wallet (nd_chain n')) < 2 ^ 64"
  shows "unat b = unspent_total (cc_wallet (nd_chain n')) \<and> wf_wallet (cc_wallet (nd_chain n'))
    \<and> unat (cs_last_block_height (cc_chain_state (nd_chain n)))
        \<le> unat (cs_last_block_height (cc_chain_state (nd_chain n')))"
proof -
  from node_balance_Ok [OF assms(1)] obtain h1 where
    s: "sync_state (ne_sha256 env) (ne_siphash env) (nd_chain n, h) = (Ok (), (nd_chain n', h1))" and
    g: "guest_balance (cc_wallet (nd_chain n')) = Ok b" by blast
  have "b = of_nat (unspent_total (cc_wallet (nd_chain n')))"
    using g balance_total [OF assms(3)] by (simp add: guest_balance_def)
  then have "unat b = unspent_total (cc_wallet (nd_chain n'))" using unat_of_nat_u64 [OF assms(3)] by simp
  moreover have "wf_wallet (cc_wallet (nd_chain n'))" using wf_sync.sync_keeps [OF s] assms(2) by simp
  ultimately show ?thesis using sync_state_Ok [OF s] by auto
qed

definition sample_balance ::
    "(Error, u64) res \<times> ((u32 list, unit) Node \<times> files) \<times> host" where
  "sample_balance = node_balance sample_node_env
     ((sample_node (chain_with (sample_peer (wire sample_sha [1, 2, 3, 4] (Pong \<lparr>ping_nonce = 7\<rparr>)
        @ wire sample_sha [1, 2, 3, 4] (MHeaders \<lparr>headers_inner = []\<rparr>))) sample_chain), sample_db_files),
      sample_host\<lparr>ho_monotonic := [5, 6, 7, 8]\<rparr>)"

theorem node_balance_correct_witness:
  "\<exists>n fs h. sample_balance = (Ok 0, ((n, fs), h)) \<and> unat (0 :: u64) = unspent_total (cc_wallet (nd_chain n))"
proof -
  obtain p h where "sample_sync = (Ok (), (chain_with p sample_chain, h))" using sample_sync_Ok by blast
  then have 1: "on_chain (sync_state (ne_sha256 sample_node_env) (ne_siphash sample_node_env))
      ((sample_node (chain_with (sample_peer (wire sample_sha [1, 2, 3, 4] (Pong \<lparr>ping_nonce = 7\<rparr>)
        @ wire sample_sha [1, 2, 3, 4] (MHeaders \<lparr>headers_inner = []\<rparr>))) sample_chain), sample_db_files),
      sample_host\<lparr>ho_monotonic := [5, 6, 7, 8]\<rparr>) =
      (Ok (), ((sample_node (chain_with p sample_chain), sample_db_files), h))"
    by (simp add: on_chain_def sample_node_def sample_sync_def sample_node_env_def)
  obtain db fs' where 2: "store_state sample_node_env ((sample_node (chain_with p sample_chain), sample_db_files), h)
      = (Ok (), (((sample_node (chain_with p sample_chain))\<lparr>nd_db := db\<rparr>, fs'), h))"
    using sample_node_stores by blast
  let ?n = "(sample_node (chain_with p sample_chain))\<lparr>nd_db := db\<rparr>"
  have w: "cc_wallet (nd_chain ?n) = path_wallet" by (simp add: sample_node_def chain_with_def sample_chain_def)
  have wf: "wf_wallet path_wallet" by (simp add: wf_wallet_def path_defs bt_ok_def)
  have u: "unspent_total path_wallet = 0" by (simp add: unspent_total_def path_defs bt_values_def)
  then have "guest_balance path_wallet = Ok 0" using balance_total [of path_wallet] by (simp add: guest_balance_def)
  then have b: "sample_balance = (Ok 0, ((?n, fs'), h))"
    unfolding sample_balance_def node_balance_def using 1 2 w by simp
  have wf': "wf_wallet (cc_wallet (nd_chain (sample_node (chain_with q sample_chain))))" for q
    using wf by (simp add: sample_node_def chain_with_def sample_chain_def)
  have "unspent_total (cc_wallet (nd_chain ?n)) < 2 ^ 64" unfolding w u by simp
  from node_balance_correct [OF b [unfolded sample_balance_def] wf' this] b show ?thesis by blast
qed

end
