(* ===== verification/Ledger.thy ===== *)
theory Ledger
  imports Chain_Correct
begin

text \<open>
  What the wallet should know after blocks have been read: an abstract ledger, a map from
  outpoints to coins, and the step that a list of blocks takes on it. The outputs that
  \<^verbatim>\<open>fetch_and_save_utxos\<close> of \<^verbatim>\<open>node/src/chain.rs\<close> collects from the blocks and inserts into the
  wallet implement this step, when the blocks create no output that is known already and spend
  none that they create. (The code reads the known outputs once, before the first block.)
\<close>

section \<open>The ledger\<close>

record Coin =
  coin_value :: nat
  coin_script :: bytes
  coin_spent :: bool

type_synonym ledger = "outpoint \<Rightarrow> Coin option"

definition coin_of :: "outpoint WeightedUtxo \<Rightarrow> Coin" where
  "coin_of u = \<lparr>coin_value = utxo_value (wu_utxo u), coin_script = utxo_script_pubkey (wu_utxo u),
     coin_spent = utxo_is_spent (wu_utxo u)\<rparr>"

definition coins :: "'x wallet \<Rightarrow> ledger" where
  "coins w op = map_option coin_of (bt_get (wo_utxo_map w) op)"

text \<open>The outputs of a transaction and the outputs its inputs name, coinbase inputs left out.\<close>

definition outputs_of :: "sha \<Rightarrow> Tx \<Rightarrow> (outpoint \<times> Coin) list" where
  "outputs_of sha256 t = map (\<lambda>(i, out). ((hash_bytes (tx_hash sha256 t), of_nat i),
     \<lparr>coin_value = unat (txout_satoshis out), coin_script = txout_lock_script out, coin_spent = False\<rparr>))
     (enumerate 0 (tx_outputs t))"

definition inputs_of :: "Tx \<Rightarrow> outpoint list" where
  "inputs_of t = map (\<lambda>input. (hash_bytes (op_hash (txin_prev_output input)), op_index (txin_prev_output input)))
     (filter (\<lambda>input. op_hash (txin_prev_output input) \<noteq> NO_HASH_STOP) (tx_inputs t))"

definition block_list_txns :: "Block list \<Rightarrow> Tx list" where
  "block_list_txns blocks = concat (map block_txns blocks)"

definition paid :: "sha \<Rightarrow> bytes list \<Rightarrow> Block list \<Rightarrow> (outpoint \<times> Coin) list" where
  "paid sha256 keys blocks =
     filter (\<lambda>(_, c). coin_script c \<in> set keys) (concat (map (outputs_of sha256) (block_list_txns blocks)))"

definition consumed :: "Block list \<Rightarrow> outpoint list" where
  "consumed blocks = concat (map inputs_of (block_list_txns blocks))"

definition ledger_step :: "sha \<Rightarrow> bytes list \<Rightarrow> Block list \<Rightarrow> ledger \<Rightarrow> ledger" where
  "ledger_step sha256 keys blocks L op =
     (let spend = (\<lambda>c. c\<lparr>coin_spent := coin_spent c \<or> op \<in> set (consumed blocks)\<rparr>) in
      case L op of
        Some c \<Rightarrow> Some (spend c)
      | None \<Rightarrow> map_option spend (map_of (paid sha256 keys blocks) op))"

text \<open>The blocks create only new outputs and do not spend what they create.\<close>

definition apart :: "sha \<Rightarrow> bytes list \<Rightarrow> Block list \<Rightarrow> ledger \<Rightarrow> bool" where
  "apart sha256 keys blocks L \<longleftrightarrow>
     list_all (\<lambda>(op, _). L op = None \<and> op \<notin> set (consumed blocks)) (paid sha256 keys blocks)"

lemma ledger_step_Nil [simp]: "ledger_step sha256 keys [] L = L"
  by (rule ext) (simp add: ledger_step_def paid_def consumed_def block_list_txns_def Let_def split: option.splits)

section \<open>What the code collects\<close>

definition gu_outpoint :: "GuestUtxo \<Rightarrow> outpoint" where
  "gu_outpoint u = (gu_txid u, gu_vout u)"

definition as_guest :: "outpoint \<times> Coin \<Rightarrow> GuestUtxo" where
  "as_guest = (\<lambda>(op, c). \<lparr>gu_txid = fst op, gu_vout = snd op, gu_amount = of_nat (coin_value c),
     gu_script = coin_script c, gu_is_spent = coin_spent c\<rparr>)"

lemma received_utxos_outputs:
  "received_utxos sha256 keys t = map as_guest (filter (\<lambda>(_, c). coin_script c \<in> set keys) (outputs_of sha256 t))"
proof -
  have "concat (map (\<lambda>(i, out). if txout_lock_script out \<in> set keys
       then [\<lparr>gu_txid = x, gu_vout = of_nat i, gu_amount = txout_satoshis out,
              gu_script = txout_lock_script out, gu_is_spent = False\<rparr>] else []) os)
     = map as_guest (filter (\<lambda>(_, c). coin_script c \<in> set keys) (map (\<lambda>(i, out). ((x, of_nat i),
     \<lparr>coin_value = unat (txout_satoshis out), coin_script = txout_lock_script out, coin_spent = False\<rparr>)) os))"
    for x and os :: "(nat \<times> TxOut) list"
    by (induction os) (auto simp: as_guest_def)
  then show ?thesis by (simp add: received_utxos_def outputs_of_def)
qed

definition known :: "'x wallet \<Rightarrow> GuestUtxo list" where
  "known w = map (\<lambda>u. guest_utxo_into (to_partial (wu_utxo u))) (bt_values (wo_utxo_map w))"

lemma guest_get_utxos_known [simp]: "guest_get_utxos w = Ok (known w)"
  by (simp add: guest_get_utxos_def get_utxos_def known_def)

definition found :: "sha \<Rightarrow> bytes list \<Rightarrow> GuestUtxo list \<Rightarrow> Block list \<Rightarrow> GuestUtxo list" where
  "found sha256 keys utxos blocks = concat (map (block_utxos sha256 keys utxos) blocks)"

lemma found_txns:
  "found sha256 keys utxos blocks =
     concat (map (\<lambda>t. received_utxos sha256 keys t @ spent_utxos utxos t) (block_list_txns blocks))"
  by (induction blocks) (simp_all add: found_def block_list_txns_def block_utxos_def)

lemma filter_received:
  "filter (\<lambda>u. gu_outpoint u = op) (received_utxos sha256 keys t)
     = map as_guest (filter (\<lambda>x. coin_script (snd x) \<in> set keys \<and> fst x = op) (outputs_of sha256 t))"
  by (simp add: received_utxos_outputs filter_map o_def case_prod_beta gu_outpoint_def as_guest_def prod_eq_iff
      cong: filter_cong)

lemma spent_utxos_inputs:
  "u \<in> set (spent_utxos utxos t) \<longleftrightarrow>
     (\<exists>k \<in> set utxos. gu_outpoint k \<in> set (inputs_of t) \<and> u = k\<lparr>gu_is_spent := True\<rparr>)"
  by (auto simp: spent_utxos_iff inputs_of_def gu_outpoint_def)

text \<open>The entries for an outpoint the wallet does not know, and for one it knows.\<close>

lemma found_unknown:
  assumes "\<forall>k \<in> set utxos. gu_outpoint k \<noteq> op"
  shows "filter (\<lambda>u. gu_outpoint u = op) (found sha256 keys utxos blocks)
     = map as_guest (filter (\<lambda>(o', _). o' = op) (paid sha256 keys blocks))"
proof -
  have "filter (\<lambda>u. gu_outpoint u = op) (spent_utxos utxos t) = []" for t
    using assms by (fastforce simp: filter_empty_conv spent_utxos_inputs gu_outpoint_def)
  then show ?thesis
    unfolding found_txns paid_def
    by (simp add: filter_concat map_concat o_def filter_received case_prod_beta)
qed

lemma found_known:
  assumes "\<forall>(o', _) \<in> set (paid sha256 keys blocks). o' \<noteq> op"
    and "u \<in> set (filter (\<lambda>u. gu_outpoint u = op) (found sha256 keys utxos blocks))"
  shows "gu_is_spent u \<and> op \<in> set (consumed blocks)"
proof -
  from assms(2) obtain t where t: "t \<in> set (block_list_txns blocks)" "gu_outpoint u = op"
    "u \<in> set (received_utxos sha256 keys t) \<or> u \<in> set (spent_utxos utxos t)"
    by (auto simp: found_txns)
  have "u \<notin> set (received_utxos sha256 keys t)"
  proof
    assume "u \<in> set (received_utxos sha256 keys t)"
    with t(2) have "u \<in> set (filter (\<lambda>u. gu_outpoint u = op) (received_utxos sha256 keys t))" by simp
    then obtain c where "(op, c) \<in> set (outputs_of sha256 t)" "coin_script c \<in> set keys"
      unfolding filter_received by auto
    with t(1) have "(op, c) \<in> set (paid sha256 keys blocks)" by (auto simp: paid_def)
    with assms(1) show False by auto
  qed
  with t show ?thesis by (auto simp: spent_utxos_inputs consumed_def gu_outpoint_def)
qed

lemma found_known_nonempty:
  assumes "k \<in> set utxos" and "gu_outpoint k = op" and "op \<in> set (consumed blocks)"
  shows "filter (\<lambda>u. gu_outpoint u = op) (found sha256 keys utxos blocks) \<noteq> []"
proof -
  from assms(3) obtain t where t: "t \<in> set (block_list_txns blocks)" "op \<in> set (inputs_of t)" by (auto simp: consumed_def)
  with assms have "k\<lparr>gu_is_spent := True\<rparr> \<in> set (spent_utxos utxos t)" by (auto simp: spent_utxos_inputs)
  with t(1) have "k\<lparr>gu_is_spent := True\<rparr> \<in> set (found sha256 keys utxos blocks)" by (auto simp: found_txns)
  moreover have "gu_outpoint (k\<lparr>gu_is_spent := True\<rparr>) = op" using assms(2) by (simp add: gu_outpoint_def)
  ultimately show ?thesis unfolding filter_empty_conv by blast
qed

section \<open>The wallet implements the ledger\<close>

text \<open>The transaction ids of the wallet's outputs have 32 bytes, as their type in the crate \<^verbatim>\<open>bitcoin\<close> says.\<close>

definition txids_ok :: "'x wallet \<Rightarrow> bool" where
  "txids_ok w \<longleftrightarrow> list_all (\<lambda>(op, _). length (fst op) = 32) (wo_utxo_map w)"

definition guest_partial :: "GuestUtxo \<Rightarrow> outpoint PartialUtxo" where
  "guest_partial g = \<lparr>pu_outpoint = gu_outpoint g, pu_amount = unat (gu_amount g),
     pu_script = gu_script g, pu_is_spent = gu_is_spent g\<rparr>"

lemma guest_insert_utxos_partial:
  assumes "\<forall>g \<in> set us. length (gu_txid g) = 32"
  shows "guest_insert_utxos w us =
    (case insert_utxos w (map guest_partial us) of (r, w') \<Rightarrow> (rmap_err guest_wallet_error_from r, w'))"
proof -
  have "mapR guest_utxo_from us = (Ok (map guest_partial us) :: (unit, outpoint PartialUtxo list) res)"
    using assms unfolding mapR_Ok list_all2_map2
    by (intro list_all2I) (auto simp: guest_utxo_from_def guest_partial_def gu_outpoint_def set_zip)
  then show ?thesis by (simp add: guest_insert_utxos_def)
qed

lemma insert_utxos_succeed:
  assumes "wf_wallet w" and "\<forall>p \<in> set ps. bt_get (wo_utxo_map w) (pu_outpoint p) \<noteq> None
      \<or> bt_get (wo_pubkey_map w) (pu_script p) \<noteq> None"
  shows "\<exists>w'. insert_utxos w ps = (Ok (), w')"
  using assms
proof (induction ps arbitrary: w)
  case (Cons p ps)
  have "\<exists>w1. insert_utxo w p = Ok w1"
    using Cons.prems(2) by (cases "bt_get (wo_utxo_map w) (pu_outpoint p)") (auto simp: insert_utxo_eq)
  then obtain w1 where w1: "insert_utxo w p = Ok w1" by blast
  note step = utxo_after_step [OF Cons.prems(1) w1]
  have "bt_get (wo_utxo_map w1) op \<noteq> None" if "bt_get (wo_utxo_map w) op \<noteq> None" for op
    using that w1 Cons.prems(1) by (auto simp: insert_utxo_eq wf_wallet_def bt_get_insert split: option.splits if_splits)
  with Cons.prems(2) step(2) have "\<forall>q \<in> set ps. bt_get (wo_utxo_map w1) (pu_outpoint q) \<noteq> None
      \<or> bt_get (wo_pubkey_map w1) (pu_script q) \<noteq> None" by auto
  from Cons.IH [OF insert_utxo_wf [OF Cons.prems(1) w1] this] w1 show ?case by simp
qed simp

lemma known_iff:
  assumes "wf_wallet w"
  shows "(\<exists>k \<in> set (known w). gu_outpoint k = op) \<longleftrightarrow> coins w op \<noteq> None"
proof -
  have eq: "gu_outpoint (guest_utxo_into (to_partial (wu_utxo (snd x)))) = fst x" if "x \<in> set (wo_utxo_map w)" for x
    using assms that by (cases x) (auto simp: wf_wallet_def list_all_iff gu_outpoint_def guest_utxo_into_def to_partial_def)
  have "(\<exists>k \<in> set (known w). gu_outpoint k = op)
      \<longleftrightarrow> (\<exists>x \<in> set (wo_utxo_map w). gu_outpoint (guest_utxo_into (to_partial (wu_utxo (snd x)))) = op)"
    by (simp add: known_def bt_values_def)
  also have "\<dots> \<longleftrightarrow> (\<exists>x \<in> set (wo_utxo_map w). fst x = op)" by (intro bex_cong refl) (simp add: eq)
  also have "\<dots> \<longleftrightarrow> (\<exists>u. (op, u) \<in> set (wo_utxo_map w))" by force
  also have "\<dots> \<longleftrightarrow> coins w op \<noteq> None"
    using assms by (auto simp: coins_def wf_wallet_def bt_get_Some [symmetric])
  finally show ?thesis .
qed

lemma known_txids: "wf_wallet w \<Longrightarrow> txids_ok w \<Longrightarrow> k \<in> set (known w) \<Longrightarrow> length (gu_txid k) = 32"
  unfolding known_def bt_values_def
  by (fastforce simp: wf_wallet_def txids_ok_def list_all_iff guest_utxo_into_def to_partial_def)

lemma found_source:
  assumes "u \<in> set (found sha256 keys utxos blocks)"
  shows "(\<exists>t. gu_txid u = hash_bytes (tx_hash sha256 t) \<and> gu_script u \<in> set keys)
    \<or> (\<exists>k \<in> set utxos. gu_outpoint u = gu_outpoint k)"
  using assms by (auto simp: found_txns received_utxos_iff spent_utxos_inputs gu_outpoint_def)

lemma set_spent_coin: "coin_of (set_spent b u) = (coin_of u)\<lparr>coin_spent := b\<rparr>"
  by (simp add: coin_of_def set_spent_def)

lemma guest_partial_as_guest:
  "coin_value c < 2 ^ 64 \<Longrightarrow> coin_of (new_utxo d (guest_partial (as_guest (op, c)))) = c"
  by (simp add: coin_of_def new_utxo_def guest_partial_def as_guest_def unat_of_nat)

lemma paid_coin:
  assumes "(op, c) \<in> set (paid sha256 keys blocks)"
  shows "coin_value c < 2 ^ 64" and "\<not> coin_spent c" and "coin_script c \<in> set keys"
proof -
  have "unat x < 2 ^ 64" for x :: u64 using unsigned_less [of x] by simp
  with assms show "coin_value c < 2 ^ 64" by (auto simp: paid_def outputs_of_def)
  from assms show "\<not> coin_spent c" "coin_script c \<in> set keys" by (auto simp: paid_def outputs_of_def)
qed

lemma map_of_filter_key: "map_of (filter (\<lambda>(k', _). k' = k) xs) k = map_of xs k"
  by (induction xs) auto

text \<open>One outpoint: what inserting the collected entries makes of what the wallet had.\<close>

lemma step_unknown:
  assumes "coins w op = None" and "wf_wallet w" and "keys = bt_keys (wo_pubkey_map w)"
    and "op \<notin> set (consumed blocks) \<or> map_of (paid sha256 keys blocks) op = None"
  shows "map_option coin_of (utxo_after (wo_pubkey_map w) None
      (map guest_partial (filter (\<lambda>u. gu_outpoint u = op) (found sha256 keys (known w) blocks))))
    = ledger_step sha256 keys blocks (coins w) op"
proof -
  have f: "filter (\<lambda>u. gu_outpoint u = op) (found sha256 keys (known w) blocks)
     = map as_guest (filter (\<lambda>(o', _). o' = op) (paid sha256 keys blocks))"
    using known_iff [OF assms(2), of op] assms(1) by (intro found_unknown) auto
  note first = map_of_filter_key [of op "paid sha256 keys blocks"]
  show ?thesis
  proof (cases "filter (\<lambda>(o', _). o' = op) (paid sha256 keys blocks)")
    case Nil
    with first f assms(1) show ?thesis by (simp add: ledger_step_def)
  next
    case (Cons x xs)
    have in_paid: "set (x # xs) \<subseteq> set (paid sha256 keys blocks)" unfolding Cons [symmetric] by auto
    have "x \<in> set (filter (\<lambda>(o', _). o' = op) (paid sha256 keys blocks))" by (simp add: Cons)
    then obtain c where x: "x = (op, c)" by auto
    with first Cons have m: "map_of (paid sha256 keys blocks) op = Some c" by simp
    note c = paid_coin [of op c sha256 keys blocks]
    have "\<not> gu_is_spent (as_guest y)" if "y \<in> set (x # xs)" for y
    proof -
      from that in_paid have "y \<in> set (paid sha256 keys blocks)" by blast
      then show ?thesis using paid_coin(2) [of "fst y" "snd y" sha256 keys blocks] by (simp add: as_guest_def case_prod_beta)
    qed
    then have last: "\<not> gu_is_spent (as_guest (last (x # xs)))" using last_in_set [of "x # xs"] by blast
    have "bt_get (wo_pubkey_map w) (coin_script c) \<noteq> None"
      using c(3) in_paid assms(3) by (auto simp: x bt_get_def bt_keys_def map_of_eq_None_iff)
    then obtain d where d: "bt_get (wo_pubkey_map w) (coin_script c) = Some d" by blast
    have "coin_of (set_spent False (new_utxo d (guest_partial (as_guest (op, c))))) = c"
      using c(1,2) in_paid by (simp add: x set_spent_coin guest_partial_as_guest)
    moreover have "pu_is_spent (last (map guest_partial (map as_guest (x # xs)))) = False"
      using last last_map [of "x # xs" "guest_partial \<circ> as_guest"] by (simp add: guest_partial_def)
    moreover have "pu_script (guest_partial (as_guest (op, c))) = coin_script c"
      by (simp add: guest_partial_def as_guest_def)
    ultimately have "map_option coin_of (utxo_after (wo_pubkey_map w) None (map guest_partial (map as_guest (x # xs)))) = Some c"
      using d by (simp add: x)
    moreover have "ledger_step sha256 keys blocks (coins w) op = Some c"
      using assms(1,4) m c(2) in_paid by (auto simp: ledger_step_def Let_def x)
    ultimately show ?thesis by (simp add: f Cons)
  qed
qed

lemma step_known:
  assumes "bt_get (wo_utxo_map w) op = Some u" and "wf_wallet w"
    and "\<forall>(o', _) \<in> set (paid sha256 keys blocks). o' \<noteq> op"
  shows "map_option coin_of (utxo_after (wo_pubkey_map w) (Some u)
      (map guest_partial (filter (\<lambda>u. gu_outpoint u = op) (found sha256 keys (known w) blocks))))
    = ledger_step sha256 keys blocks (coins w) op"
proof -
  let ?es = "filter (\<lambda>u. gu_outpoint u = op) (found sha256 keys (known w) blocks)"
  have L: "coins w op = Some (coin_of u)" by (simp add: coins_def assms(1))
  have spent: "gu_is_spent e \<and> op \<in> set (consumed blocks)" if "e \<in> set ?es" for e
    by (rule found_known [OF assms(3) that])
  show ?thesis
  proof (cases "?es")
    case Nil
    have "op \<notin> set (consumed blocks)"
    proof
      assume "op \<in> set (consumed blocks)"
      moreover obtain k where "k \<in> set (known w)" "gu_outpoint k = op"
        using known_iff [OF assms(2), of op] L by auto
      ultimately show False using found_known_nonempty Nil by metis
    qed
    with Nil L show ?thesis by (simp add: ledger_step_def)
  next
    case (Cons e es)
    have l: "gu_is_spent (last ?es)" and c: "op \<in> set (consumed blocks)"
      using spent [of "last ?es"] Cons by auto
    have "pu_is_spent (guest_partial (last ?es))" using l by (simp add: guest_partial_def)
    then have "pu_is_spent (last (map guest_partial ?es))" using last_map [of ?es guest_partial] Cons by simp
    then have "utxo_after (wo_pubkey_map w) (Some u) (map guest_partial ?es) = Some (set_spent True u)"
      by (simp add: Cons del: filter.simps)
    with L c show ?thesis by (simp add: ledger_step_def set_spent_coin)
  qed
qed

text \<open>Inserting what was found takes the step of the ledger.\<close>

lemma insert_utxos_txids:
  assumes "txids_ok w" and "\<forall>p \<in> set ps. length (fst (pu_outpoint p)) = 32"
  shows "txids_ok (snd (insert_utxos w ps))"
  using assms
proof (induction ps arbitrary: w)
  case (Cons p ps)
  show ?case
  proof (cases "insert_utxo w p")
    case (Ok w1)
    have "txids_ok w1"
      using Ok Cons.prems by (auto simp: insert_utxo_eq txids_ok_def intro!: list_all_bt_insert split: option.splits)
    with Cons Ok show ?thesis by simp
  qed (use Cons in simp_all)
qed simp

lemma insert_found:
  assumes "wf_wallet w" and "txids_ok w" and "keys = bt_keys (wo_pubkey_map w)"
    and "\<And>bs. length (sha256 bs) = 32" and "apart sha256 keys blocks (coins w)"
  obtains w' where "guest_insert_utxos w (found sha256 keys (known w) blocks) = (Ok (), w')"
    and "wf_wallet w'" and "txids_ok w'" and "wo_pubkey_map w' = wo_pubkey_map w"
    and "coins w' = ledger_step sha256 keys blocks (coins w)"
proof -
  define us where "us = found sha256 keys (known w) blocks"
  have ids: "length (gu_txid u) = 32" if "u \<in> set us" for u
    using found_source [OF that [unfolded us_def]] sha256d_wf [of sha256, OF assms(4)] known_txids [OF assms(1,2)]
    by (auto simp: tx_hash_def wf_hash_def gu_outpoint_def)
  have insertable: "bt_get (wo_utxo_map w) (pu_outpoint p) \<noteq> None \<or> bt_get (wo_pubkey_map w) (pu_script p) \<noteq> None"
    if "p \<in> set (map guest_partial us)" for p
  proof -
    from that obtain u where u: "u \<in> set us" "p = guest_partial u" by auto
    from found_source [OF u(1) [unfolded us_def]] show ?thesis
    proof
      assume "\<exists>t. gu_txid u = hash_bytes (tx_hash sha256 t) \<and> gu_script u \<in> set keys"
      then show ?thesis using assms(3) u(2) by (auto simp: guest_partial_def bt_get_def bt_keys_def map_of_eq_None_iff)
    next
      assume "\<exists>k \<in> set (known w). gu_outpoint u = gu_outpoint k"
      then have "coins w (gu_outpoint u) \<noteq> None" using known_iff [OF assms(1), of "gu_outpoint u"] by metis
      then show ?thesis by (simp add: u(2) guest_partial_def coins_def)
    qed
  qed
  then obtain w' where w': "insert_utxos w (map guest_partial us) = (Ok (), w')"
    using insert_utxos_succeed [OF assms(1), of "map guest_partial us"] by blast
  have "coins w' op = ledger_step sha256 keys blocks (coins w) op" for op
  proof -
    have at: "filter (\<lambda>p. pu_outpoint p = op) (map guest_partial us) = map guest_partial (filter (\<lambda>u. gu_outpoint u = op) us)"
      by (simp add: filter_map o_def guest_partial_def)
    have new: "coins w o' = None \<and> o' \<notin> set (consumed blocks)" if "(o', c) \<in> set (paid sha256 keys blocks)" for o' c
      using assms(5) that by (auto simp: apart_def list_all_iff)
    show ?thesis
    proof (cases "bt_get (wo_utxo_map w) op")
      case None
      then have "coins w op = None" by (simp add: coins_def)
      moreover have "op \<notin> set (consumed blocks) \<or> map_of (paid sha256 keys blocks) op = None"
        using new by (metis map_of_SomeD not_None_eq)
      ultimately show ?thesis
        using step_unknown [OF _ assms(1,3)] None
        by (simp add: coins_def [of w'] insert_utxos_pointwise [OF assms(1) w'] at [unfolded us_def] us_def)
    next
      case (Some u)
      then have "\<forall>(o', _) \<in> set (paid sha256 keys blocks). o' \<noteq> op" using new by (auto simp: coins_def)
      from step_known [OF Some assms(1) this] Some show ?thesis
        by (simp add: coins_def [of w'] insert_utxos_pointwise [OF assms(1) w'] at [unfolded us_def] us_def)
    qed
  qed
  moreover have "guest_insert_utxos w us = (Ok (), w')"
    using guest_insert_utxos_partial [of us w] ids w' by simp
  moreover have "wf_wallet w'" "txids_ok w'" "wo_pubkey_map w' = wo_pubkey_map w"
    using insert_utxos_wf [OF assms(1), of "map guest_partial us"] insert_utxos_txids [OF assms(2), of "map guest_partial us"]
      insert_utxos_pubkeys [of w "map guest_partial us"] w' ids
    by (auto simp: guest_partial_def gu_outpoint_def)
  ultimately show thesis using that us_def by blast
qed

section \<open>The total of a ledger\<close>

definition ledger_total :: "ledger \<Rightarrow> nat" where
  "ledger_total L = (\<Sum>op | \<exists>c. L op = Some c \<and> \<not> coin_spent c. coin_value (the (L op)))"

lemma unspent_total_ledger:
  assumes "wf_wallet w"
  shows "unspent_total w = ledger_total (coins w)"
proof -
  let ?m = "wo_utxo_map w"
  define xs where "xs = filter (\<lambda>x. \<not> utxo_is_spent (wu_utxo (snd x))) ?m"
  have d: "distinct (map fst ?m)" using assms by (auto simp: wf_wallet_def dest: bt_ok_distinct)
  then have dx: "distinct (map fst xs)" unfolding xs_def by (rule distinct_map_filter)
  have get: "coins w (fst x) = Some (coin_of (snd x))" if "x \<in> set ?m" for x
    using map_of_is_SomeI [OF d, of "fst x" "snd x"] that by (simp add: coins_def bt_get_def)
  have keys: "fst ` set xs = {op. \<exists>c. coins w op = Some c \<and> \<not> coin_spent c}"
  proof (intro set_eqI iffI)
    fix op assume "op \<in> fst ` set xs"
    with get show "op \<in> {op. \<exists>c. coins w op = Some c \<and> \<not> coin_spent c}"
      by (fastforce simp: xs_def coin_of_def)
  next
    fix op assume "op \<in> {op. \<exists>c. coins w op = Some c \<and> \<not> coin_spent c}"
    then obtain u where "map_of ?m op = Some u" "\<not> utxo_is_spent (wu_utxo u)"
      by (auto simp: coins_def bt_get_def coin_of_def)
    then have "(op, u) \<in> set xs" by (auto simp: xs_def dest: map_of_SomeD)
    then show "op \<in> fst ` set xs" by force
  qed
  have "unspent_total w = sum_list (map (\<lambda>x. utxo_value (wu_utxo (snd x))) xs)"
    by (simp add: unspent_total_def bt_values_def filter_map o_def xs_def)
  also have "\<dots> = (\<Sum>x \<in> set xs. utxo_value (wu_utxo (snd x)))"
    using dx by (intro sum_list_distinct_conv_sum_set) (simp add: distinct_map)
  also have "\<dots> = (\<Sum>x \<in> set xs. coin_value (the (coins w (fst x))))"
    by (intro sum.cong refl) (auto simp: get coin_of_def xs_def)
  also have "\<dots> = (\<Sum>op \<in> fst ` set xs. coin_value (the (coins w op)))"
    using dx by (subst sum.reindex) (simp_all add: distinct_map o_def)
  finally show ?thesis unfolding keys ledger_total_def .
qed

end
