(* ===== verification/Chain_Follow.thy ===== *)
theory Chain_Follow
  imports Ledger
begin

text \<open>
  Following a peer to the tip of the chain: when the peer answers every request within a second,
  \<^verbatim>\<open>sync_state\<close> of \<^verbatim>\<open>node/src/chain.rs\<close> succeeds, and the wallet holds the ledger of the blocks
  it was sent (theory \<open>Ledger\<close>). A conversation is described by the messages of the peer: for
  every batch of headers the answers to the requests for its ranges of filters, each followed by
  the blocks whose filters match.
\<close>

section \<open>A peer that answers in time\<close>

text \<open>Each message is there within a second from the reading of the clock that starts the wait.\<close>

fun timely :: "u64 list \<Rightarrow> nat \<Rightarrow> bool" where
  "timely ts 0 \<longleftrightarrow> True"
| "timely (now # t # ts) (Suc n) \<longleftrightarrow> unat now + 1000000000 < 2 ^ 64 \<and> t < now + 1000000000 \<and> timely ts n"
| "timely _ (Suc n) \<longleftrightarrow> False"

definition delivers :: "sha \<Rightarrow> bytes \<Rightarrow> Message list \<Rightarrow> Peer \<times> host \<Rightarrow> bool" where
  "delivers sha256 magic ms = (\<lambda>(p, h). length magic = 4 \<and> timely (ho_monotonic h) (length ms) \<and> sending h
     \<and> readable (ho_wall h) ms \<and> \<not> ho_exhausted h
     \<and> (\<exists>rest eof segs. pe_input p = (concat (map (wire sha256 magic) ms) @ rest, eof) # segs))"

lemma timelyE:
  assumes "timely ts (Suc n)"
  obtains now t ts' where "ts = now # t # ts'" and "unat now + 1000000000 < 2 ^ 64" and "t < now + 1000000000"
    and "timely ts' n"
  using assms that by (cases "(ts, Suc n)" rule: timely.cases) auto

lemma delivers_receive:
  assumes "delivers sha256 magic (m # ms) st" and "message_command m = c"
  obtains st' where "receive sha256 c st = (Ok m, st')" and "delivers sha256 magic ms st'"
proof -
  obtain p h where st: "st = (p, h)" by (cases st)
  from assms(1) obtain rest eof segs where
    inp: "pe_input p = (concat (map (wire sha256 magic) ([] @ [m])) @ concat (map (wire sha256 magic) ms) @ rest, eof) # segs"
    and r: "readable (ho_wall h) ([] @ [m])" "readable (tl (ho_wall h)) ms" and magic: "length magic = 4"
    and t: "timely (ho_monotonic h) (Suc (length ms))" and s: "sending h" and e: "\<not> ho_exhausted h"
    by (auto simp: delivers_def st)
  from t obtain now t ts where ts: "ho_monotonic h = now # [t] @ ts" "unat now + 1000000000 < 2 ^ 64"
    "t < now + 1000000000" "timely ts (length ms)" by (rule timelyE) auto
  let ?p = "p\<lparr>pe_input := (concat (map (wire sha256 magic) ms) @ rest, eof) # segs\<rparr>"
  let ?h = "h\<lparr>ho_monotonic := ts, ho_wall := drop (Suc (length ([] :: Message list))) (ho_wall h)\<rparr>"
  have "receive sha256 c st = (Ok m, (?p, ?h))"
    unfolding st by (rule receive_wire [OF r(1) magic inp _ assms(2) ts(1)]) (use ts in simp_all)
  moreover have "delivers sha256 magic ms (?p, ?h)"
    using r(2) magic s e ts(4) by (auto simp: delivers_def drop_Suc sending_def)
  ultimately show thesis by (rule that)
qed

lemma delivers_send:
  assumes "delivers sha256 magic ms st" and "writable m"
  obtains st' where "peer_send sha256 m st = (Ok (), st')" and "delivers sha256 magic ms st'"
proof -
  obtain p h where st: "st = (p, h)" by (cases st)
  have s: "sending h" using assms(1) by (simp add: st delivers_def)
  have "delivers sha256 magic ms (p\<lparr>pe_output := out\<rparr>, h\<lparr>ho_sends := tl (ho_sends h)\<rparr>)" for out
    using assms(1) by (cases "ho_sends h") (auto simp: st delivers_def sending_def)
  with peer_send_wire [OF s assms(2), of sha256 p] st that show thesis by blast
qed

lemma delivers_random:
  assumes "delivers sha256 magic ms st"
  obtains nonce st' where "on_host take_random st = (Ok nonce, st')" and "delivers sha256 magic ms st'"
proof -
  obtain p h where st: "st = (p, h)" by (cases st)
  show thesis
    using assms that by (cases "ho_random h") (auto simp: st on_host_def take_random_def delivers_def sending_def)
qed

section \<open>Requests\<close>

lemma delivers_keep_alive:
  assumes "delivers sha256 magic (Pong q # ms) st"
  shows "\<exists>st'. keep_alive sha256 st = (Ok (), st') \<and> delivers sha256 magic ms st'"
proof -
  from assms obtain nonce st1 where 1: "on_host take_random st = (Ok nonce, st1)" "delivers sha256 magic (Pong q # ms) st1"
    by (rule delivers_random)
  have "writable (MPing \<lparr>ping_nonce = nonce\<rparr>)" by simp
  with 1(2) obtain st2 where 2: "peer_send sha256 (MPing \<lparr>ping_nonce = nonce\<rparr>) st1 = (Ok (), st2)"
    "delivers sha256 magic (Pong q # ms) st2" by (rule delivers_send)
  have "message_command (Pong q) = PONG" by simp
  with 2(2) obtain st3 where 3: "receive sha256 PONG st2 = (Ok (Pong q), st3)" "delivers sha256 magic ms st3"
    by (rule delivers_receive)
  from 3(2) show ?thesis by (simp add: keep_alive_def 1 2 3)
qed

lemma delivers_headers:
  assumes "delivers sha256 magic (MHeaders hs # ms) st"
  shows "\<exists>st'. peer_fetch_headers sha256 hash st = (Ok (headers_inner hs), st') \<and> delivers sha256 magic ms st'"
proof -
  let ?m = "GetHeaders \<lparr>bl_version = PROTOCOL_VERSION, bl_block_locator_hashes = [hash], bl_hash_stop = NO_HASH_STOP\<rparr>"
  have "writable ?m" by simp
  with assms obtain st1 where 1: "peer_send sha256 ?m st = (Ok (), st1)" "delivers sha256 magic (MHeaders hs # ms) st1"
    by (rule delivers_send)
  have "message_command (MHeaders hs) = HEADERS" by simp
  with 1(2) obtain st2 where 2: "receive sha256 HEADERS st1 = (Ok (MHeaders hs), st2)" "delivers sha256 magic ms st2"
    by (rule delivers_receive)
  from 2(2) show ?thesis by (simp add: peer_fetch_headers_def Let_def 1 2)
qed

lemma delivers_filter_headers:
  assumes "delivers sha256 magic (CFHeaders header # ms) st"
  shows "\<exists>st'. fetch_compact_filter_headers sha256 n hash_stop st = (Ok header, st') \<and> delivers sha256 magic ms st'"
proof -
  let ?m = "GetCFHeaders \<lparr>fl_filter_type = 0, fl_start_height = n, fl_hash_stop = hash_stop\<rparr>"
  have "writable ?m" by simp
  with assms obtain st1 where 1: "peer_send sha256 ?m st = (Ok (), st1)" "delivers sha256 magic (CFHeaders header # ms) st1"
    by (rule delivers_send)
  have "message_command (CFHeaders header) = CFHEADERS" by simp
  with 1(2) obtain st2 where 2: "receive sha256 CFHEADERS st1 = (Ok (CFHeaders header), st2)" "delivers sha256 magic ms st2"
    by (rule delivers_receive)
  from 2(2) show ?thesis by (simp add: fetch_compact_filter_headers_def Let_def 1 2)
qed

text \<open>The filters up to the one of the block to stop at.\<close>

definition ends_at :: "Hash256 \<Rightarrow> CompactFilter list \<Rightarrow> bool" where
  "ends_at hash_stop fs \<longleftrightarrow> fs \<noteq> [] \<and> cf_block_hash (last fs) = hash_stop
     \<and> list_all (\<lambda>f. cf_block_hash f \<noteq> hash_stop) (butlast fs)"

lemma ends_at_Cons: "ends_at hash_stop (f # fs) \<longleftrightarrow>
   (if fs = [] then cf_block_hash f = hash_stop else cf_block_hash f \<noteq> hash_stop \<and> ends_at hash_stop fs)"
  by (auto simp: ends_at_def)

lemma delivers_filters_loop:
  assumes "delivers sha256 magic (map CFilters fs @ ms) st" and "ends_at hash_stop fs"
  shows "\<exists>st'. filters_loop sha256 hash_stop acc st = (Ok (acc @ fs), st') \<and> delivers sha256 magic ms st'"
  using assms
proof (induction fs arbitrary: acc st)
  case Nil
  then show ?case by (simp add: ends_at_def)
next
  case (Cons f fs)
  have "delivers sha256 magic (CFilters f # map CFilters fs @ ms) st" "message_command (CFilters f) = CFILTERS"
    using Cons.prems(1) by simp_all
  then obtain st1 where 1: "receive sha256 CFILTERS st = (Ok (CFilters f), st1)"
    "delivers sha256 magic (map CFilters fs @ ms) st1" by (rule delivers_receive)
  show ?case
  proof (cases "fs = []")
    case True
    with Cons.prems(2) 1 show ?thesis by (simp add: filters_loop.simps [of _ _ _ st] ends_at_Cons)
  next
    case False
    with Cons.prems(2) have e: "cf_block_hash f \<noteq> hash_stop" "ends_at hash_stop fs" by (simp_all add: ends_at_Cons)
    from Cons.IH [OF 1(2) e(2), of "acc @ [f]"] e(1) 1(1) show ?thesis
      by (simp add: filters_loop.simps [of _ _ _ st] Let_def)
  qed
qed

lemma delivers_filters:
  assumes "delivers sha256 magic (map CFilters fs @ ms) st" and "ends_at hash_stop fs"
  shows "\<exists>st'. fetch_compact_filters sha256 n hash_stop st = (Ok fs, st') \<and> delivers sha256 magic ms st'"
proof -
  let ?m = "GetCFilters \<lparr>fl_filter_type = 0, fl_start_height = n, fl_hash_stop = hash_stop\<rparr>"
  have "writable ?m" by simp
  with assms(1) obtain st1 where 1: "peer_send sha256 ?m st = (Ok (), st1)"
    "delivers sha256 magic (map CFilters fs @ ms) st1" by (rule delivers_send)
  from delivers_filters_loop [OF 1(2) assms(2), of "[]"] 1(1) show ?thesis
    by (auto simp: fetch_compact_filters_def)
qed

lemma delivers_blocks_loop:
  assumes "delivers sha256 magic (map MBlock bs @ ms) st" and "bs \<noteq> []" and "n = length acc + length bs"
  shows "\<exists>st'. blocks_loop sha256 n acc st = (Ok (acc @ bs), st') \<and> delivers sha256 magic ms st'"
  using assms
proof (induction bs arbitrary: acc st)
  case (Cons b bs)
  have "delivers sha256 magic (MBlock b # map MBlock bs @ ms) st" "message_command (MBlock b) = BLOCK"
    using Cons.prems(1) by simp_all
  then obtain st1 where 1: "receive sha256 BLOCK st = (Ok (MBlock b), st1)"
    "delivers sha256 magic (map MBlock bs @ ms) st1" by (rule delivers_receive)
  show ?case
  proof (cases "bs = []")
    case True
    with Cons.prems(3) 1 show ?thesis by (simp add: blocks_loop.simps [of _ _ _ st])
  next
    case False
    from Cons.IH [OF 1(2) False, of "acc @ [b]"] Cons.prems(3) False 1(1) show ?thesis
      by (simp add: blocks_loop.simps [of _ _ _ st] Let_def)
  qed
qed simp

lemma delivers_blocks:
  assumes "delivers sha256 magic (map MBlock bs @ ms) st" and "bs \<noteq> []" and "length (inv_objects request) = length bs"
  shows "\<exists>st'. fetch_blocks sha256 request st = (Ok bs, st') \<and> delivers sha256 magic ms st'"
proof -
  have "writable (GetData request)" by simp
  with assms(1) obtain st1 where 1: "peer_send sha256 (GetData request) st = (Ok (), st1)"
    "delivers sha256 magic (map MBlock bs @ ms) st1" by (rule delivers_send)
  from delivers_blocks_loop [OF 1(2) assms(2), of "length bs" "[]"] 1(1) assms(3) show ?thesis
    by (auto simp: fetch_blocks_def)
qed

section \<open>The chain in such a conversation\<close>

definition chain_delivers :: "sha \<Rightarrow> bytes \<Rightarrow> Message list \<Rightarrow> 'x CompactChain \<Rightarrow> 'x CompactChain \<times> host \<Rightarrow> bool" where
  "chain_delivers sha256 magic ms cc st \<longleftrightarrow> (\<exists>p h. st = (chain_with p cc, h) \<and> delivers sha256 magic ms (p, h))"

lemma chain_delivers_p2p:
  assumes "chain_delivers sha256 magic ms cc st"
    and "\<forall>st. delivers sha256 magic ms st \<longrightarrow> (\<exists>st'. c st = (Ok x, st') \<and> delivers sha256 magic ms' st')"
  shows "\<exists>st'. on_p2p (with_peer c) st = (Ok x, st') \<and> chain_delivers sha256 magic ms' cc st'"
proof -
  from assms(1) obtain p h where st: "st = (chain_with p cc, h)" and d: "delivers sha256 magic ms (p, h)"
    by (auto simp: chain_delivers_def)
  from assms(2) d obtain st1 where "c (p, h) = (Ok x, st1)" "delivers sha256 magic ms' st1" by blast
  then obtain p' h' where "c (p, h) = (Ok x, (p', h'))" "delivers sha256 magic ms' (p', h')" by (cases st1) blast
  with on_p2p_with_peer [where c = c, of p h _ p' h' cc] st show ?thesis unfolding chain_delivers_def by blast
qed

text \<open>What the peer answers for one range of filters, and when the client is content with it.\<close>

record range_answer =
  ra_header :: CompactFilterHeader
  ra_filters :: "CompactFilter list"
  ra_blocks :: "Block list"

definition range_messages :: "range_answer \<Rightarrow> Message list" where
  "range_messages a = CFHeaders (ra_header a) # map CFilters (ra_filters a) @ map MBlock (ra_blocks a)"

definition filter_result :: "siphash \<Rightarrow> bytes list \<Rightarrow> CompactFilter \<Rightarrow> (Error, bool) res" where
  "filter_result siphash keys f =
     unwrap (match_any siphash \<lparr>bf_content = cf_filter_bytes f\<rparr> (cf_block_hash f) keys)"

definition matched :: "siphash \<Rightarrow> bytes list \<Rightarrow> CompactFilter list \<Rightarrow> CompactFilter list" where
  "matched siphash keys fs = filter (\<lambda>f. filter_result siphash keys f = Ok True) fs"

definition range_ok :: "sha \<Rightarrow> siphash \<Rightarrow> bytes list \<Rightarrow> Hash256 \<Rightarrow> range_answer \<Rightarrow> bool" where
  "range_ok sha256 siphash keys hash_stop a \<longleftrightarrow> ends_at hash_stop (ra_filters a)
     \<and> check_filters sha256 (cfh_filter_hashes (ra_header a)) (ra_filters a) = Ok ()
     \<and> list_all (\<lambda>f. filter_result siphash keys f \<in> {Ok True, Ok False}) (ra_filters a)
     \<and> length (ra_blocks a) = length (matched siphash keys (ra_filters a))"

lemma matching_blocks_matched:
  assumes "list_all (\<lambda>f. filter_result siphash keys f \<in> {Ok True, Ok False}) fs"
  shows "matching_blocks siphash keys fs = Ok (map cf_block_hash (matched siphash keys fs))"
  using assms by (induction fs) (auto simp: matched_def filter_result_def)

lemma delivers_verify:
  assumes "chain_delivers sha256 magic (range_messages a @ ms) cc st" and "range_ok sha256 siphash keys hash_stop a"
  obtains st' where "get_and_verify_compact_filters sha256 n hash_stop st = (Ok (ra_filters a), st')"
    and "chain_delivers sha256 magic (map MBlock (ra_blocks a) @ ms) cc st'"
proof -
  have "chain_delivers sha256 magic (CFHeaders (ra_header a) # map CFilters (ra_filters a) @ map MBlock (ra_blocks a) @ ms) cc st"
    using assms(1) by (simp add: range_messages_def)
  from chain_delivers_p2p [OF this, of "fetch_compact_filter_headers sha256 n hash_stop"] delivers_filter_headers obtain st1 where
    1: "on_p2p (with_peer (fetch_compact_filter_headers sha256 n hash_stop)) st = (Ok (ra_header a), st1)"
    "chain_delivers sha256 magic (map CFilters (ra_filters a) @ map MBlock (ra_blocks a) @ ms) cc st1" by blast
  have e: "ends_at hash_stop (ra_filters a)" using assms(2) by (simp add: range_ok_def)
  from chain_delivers_p2p [OF 1(2), of "fetch_compact_filters sha256 n hash_stop"] delivers_filters [OF _ e] obtain st2 where
    2: "on_p2p (with_peer (fetch_compact_filters sha256 n hash_stop)) st1 = (Ok (ra_filters a), st2)"
    "chain_delivers sha256 magic (map MBlock (ra_blocks a) @ ms) cc st2" by blast
  show thesis
    by (rule that [OF _ 2(2)])
      (use assms(2) 1(1) 2(1) in \<open>simp add: get_and_verify_compact_filters_def get_compact_filter_headers_def
         get_compact_filters_def range_ok_def sbind_def smap_err_def\<close>)
qed

text \<open>The wallets for which the blocks take the step of the ledger.\<close>

definition good_wallet :: "bytes list \<Rightarrow> 'x wallet \<Rightarrow> bool" where
  "good_wallet keys w \<longleftrightarrow> wf_wallet w \<and> txids_ok w \<and> bt_keys (wo_pubkey_map w) = keys"

lemma guest_get_pubkeys_keys: "good_wallet keys w \<Longrightarrow> guest_get_pubkeys w = Ok keys"
  by (simp add: guest_get_pubkeys_def get_pubkeys_def good_wallet_def)

lemma chain_delivers_wallet:
  assumes "chain_delivers sha256 magic ms cc st"
  shows "with_wallet f st = (rmap_err (\<lambda>_. WalletError 1) (f (cc_wallet cc)), st)"
    and "guest_insert_utxos (cc_wallet cc) us = (Ok (), w) \<Longrightarrow>
      \<exists>st'. save_utxos us st = (Ok (), st') \<and> chain_delivers sha256 magic ms (cc\<lparr>cc_wallet := w\<rparr>) st'"
proof -
  from assms obtain p h where st: "st = (chain_with p cc, h)" and d: "delivers sha256 magic ms (p, h)"
    by (auto simp: chain_delivers_def)
  show "with_wallet f st = (rmap_err (\<lambda>_. WalletError 1) (f (cc_wallet cc)), st)"
    by (simp add: st with_wallet_def chain_with_def)
  assume "guest_insert_utxos (cc_wallet cc) us = (Ok (), w)"
  then have "save_utxos us st = (Ok (), (chain_with p (cc\<lparr>cc_wallet := w\<rparr>), h))"
    by (simp add: st save_utxos_def chain_with_def)
  with d show "\<exists>st'. save_utxos us st = (Ok (), st') \<and> chain_delivers sha256 magic ms (cc\<lparr>cc_wallet := w\<rparr>) st'"
    by (auto simp: chain_delivers_def)
qed

lemma delivers_fetch_and_save:
  assumes "chain_delivers sha256 magic (map MBlock (ra_blocks a) @ ms) cc st" and "range_ok sha256 siphash keys hash_stop a"
    and "good_wallet keys (cc_wallet cc)" and "\<And>bs. length (sha256 bs) = 32"
    and "apart sha256 keys (ra_blocks a) (coins (cc_wallet cc))"
  obtains w st' where "fetch_and_save_utxos sha256 siphash (ra_filters a) st = (Ok (), st')"
    and "chain_delivers sha256 magic ms (cc\<lparr>cc_wallet := w\<rparr>) st'" and "good_wallet keys w"
    and "coins w = ledger_step sha256 keys (ra_blocks a) (coins (cc_wallet cc))"
proof -
  let ?hashes = "map cf_block_hash (matched siphash keys (ra_filters a))"
  have m: "matching_blocks siphash keys (ra_filters a) = Ok ?hashes"
    using assms(2) by (intro matching_blocks_matched) (simp add: range_ok_def)
  have len: "length (ra_blocks a) = length ?hashes" using assms(2) by (simp add: range_ok_def)
  note keys = guest_get_pubkeys_keys [OF assms(3)]
  show thesis
  proof (cases "ra_blocks a = []")
    case True
    with len have "?hashes = []" by simp
    with m keys chain_delivers_wallet(1) [OF assms(1), of guest_get_pubkeys]
    have "fetch_and_save_utxos sha256 siphash (ra_filters a) st = (Ok (), st)" by (simp add: fetch_and_save_utxos_def)
    with that [of st "cc_wallet cc"] assms(1,3) True show thesis by simp
  next
    case False
    with len have ne: "?hashes \<noteq> []" by auto
    let ?inv = "\<lparr>inv_objects = map (\<lambda>hash. \<lparr>iv_obj_type = 2, iv_hash = hash\<rparr>) ?hashes\<rparr>"
    have l: "length (inv_objects ?inv) = length (ra_blocks a)" using len by simp
    from chain_delivers_p2p [OF assms(1), of "fetch_blocks sha256 ?inv"] delivers_blocks [OF _ False l] obtain st1 where
      1: "on_p2p (with_peer (fetch_blocks sha256 ?inv)) st = (Ok (ra_blocks a), st1)"
      "chain_delivers sha256 magic ms cc st1" by blast
    from assms(3) have w: "wf_wallet (cc_wallet cc)" "txids_ok (cc_wallet cc)" "keys = bt_keys (wo_pubkey_map (cc_wallet cc))"
      by (simp_all add: good_wallet_def)
    obtain w' where w': "guest_insert_utxos (cc_wallet cc) (found sha256 keys (known (cc_wallet cc)) (ra_blocks a)) = (Ok (), w')"
      "good_wallet keys w'" "coins w' = ledger_step sha256 keys (ra_blocks a) (coins (cc_wallet cc))"
      by (rule insert_found [OF w assms(4,5)]) (auto simp: good_wallet_def w(3))
    from chain_delivers_wallet(2) [OF 1(2) w'(1)] obtain st2 where
      2: "save_utxos (found sha256 keys (known (cc_wallet cc)) (ra_blocks a)) st1 = (Ok (), st2)"
      "chain_delivers sha256 magic ms (cc\<lparr>cc_wallet := w'\<rparr>) st2" by blast
    have "fetch_and_save_utxos sha256 siphash (ra_filters a) st = (Ok (), st2)"
      using m keys ne 1(1) 2(1) chain_delivers_wallet(1) [OF assms(1), of guest_get_pubkeys]
        chain_delivers_wallet(1) [OF 1(2), of guest_get_utxos]
      by (simp add: fetch_and_save_utxos_def get_block_def found_def Let_def sbind_def smap_err_def o_def)
    with that 2(2) w' show thesis by blast
  qed
qed

section \<open>Batches\<close>

text \<open>The ledger after the blocks of several ranges, and that each of them is apart from what came before.\<close>

definition ledger_run :: "sha \<Rightarrow> bytes list \<Rightarrow> range_answer list \<Rightarrow> ledger \<Rightarrow> ledger" where
  "ledger_run sha256 keys as L = fold (\<lambda>a. ledger_step sha256 keys (ra_blocks a)) as L"

fun apart_run :: "sha \<Rightarrow> bytes list \<Rightarrow> range_answer list \<Rightarrow> ledger \<Rightarrow> bool" where
  "apart_run sha256 keys [] L \<longleftrightarrow> True"
| "apart_run sha256 keys (a # as) L \<longleftrightarrow> apart sha256 keys (ra_blocks a) L
     \<and> apart_run sha256 keys as (ledger_step sha256 keys (ra_blocks a) L)"

lemma ledger_run_simps [simp]:
  "ledger_run sha256 keys [] L = L"
  "ledger_run sha256 keys (a # as) L = ledger_run sha256 keys as (ledger_step sha256 keys (ra_blocks a) L)"
  "ledger_run sha256 keys (as @ bs) L = ledger_run sha256 keys bs (ledger_run sha256 keys as L)"
  by (simp_all add: ledger_run_def)

lemma apart_run_append [simp]:
  "apart_run sha256 keys (as @ bs) L \<longleftrightarrow> apart_run sha256 keys as L \<and> apart_run sha256 keys bs (ledger_run sha256 keys as L)"
  by (induction as arbitrary: L) auto

lemma delivers_sync_filters:
  assumes "list_all2 (\<lambda>(_, hash_stop) a. range_ok sha256 siphash keys hash_stop a) requests as"
    and "chain_delivers sha256 magic (concat (map range_messages as) @ ms) cc st"
    and "good_wallet keys (cc_wallet cc)" and "\<And>bs. length (sha256 bs) = 32"
    and "apart_run sha256 keys as (coins (cc_wallet cc))"
  shows "\<exists>w st'. sync_filters sha256 siphash requests st = (Ok (), st')
    \<and> chain_delivers sha256 magic ms (cc\<lparr>cc_wallet := w\<rparr>) st' \<and> good_wallet keys w
    \<and> coins w = ledger_run sha256 keys as (coins (cc_wallet cc))"
  using assms(1-3,5)
proof (induction arbitrary: cc st rule: list_all2_induct)
  case Nil
  then show ?case by (intro exI [of _ "cc_wallet cc"]) simp
next
  case (Cons r requests a as)
  obtain n hash_stop where r: "r = (n, hash_stop)" by (cases r)
  have ok: "range_ok sha256 siphash keys hash_stop a" using Cons.hyps(1) by (simp add: r)
  have "chain_delivers sha256 magic (range_messages a @ concat (map range_messages as) @ ms) cc st"
    using Cons.prems(1) by simp
  from delivers_verify [OF this ok, of n] obtain st1 where
    1: "get_and_verify_compact_filters sha256 n hash_stop st = (Ok (ra_filters a), st1)"
    "chain_delivers sha256 magic (map MBlock (ra_blocks a) @ concat (map range_messages as) @ ms) cc st1" by blast
  have ap: "apart sha256 keys (ra_blocks a) (coins (cc_wallet cc))"
    "apart_run sha256 keys as (ledger_step sha256 keys (ra_blocks a) (coins (cc_wallet cc)))"
    using Cons.prems(3) by simp_all
  from delivers_fetch_and_save [OF 1(2) ok Cons.prems(2) assms(4) ap(1)] obtain w1 st2 where
    2: "fetch_and_save_utxos sha256 siphash (ra_filters a) st1 = (Ok (), st2)"
    "chain_delivers sha256 magic (concat (map range_messages as) @ ms) (cc\<lparr>cc_wallet := w1\<rparr>) st2" "good_wallet keys w1"
    "coins w1 = ledger_step sha256 keys (ra_blocks a) (coins (cc_wallet cc))" by blast
  from Cons.IH [OF 2(2)] 2(3,4) ap(2) obtain w st3 where
    3: "sync_filters sha256 siphash requests st2 = (Ok (), st3)"
    "chain_delivers sha256 magic ms (cc\<lparr>cc_wallet := w\<rparr>) st3" "good_wallet keys w"
    "coins w = ledger_run sha256 keys as (coins w1)" by auto
  have "ra_filters a \<noteq> []" using ok by (simp add: range_ok_def ends_at_def)
  then have "sync_filters sha256 siphash (r # requests) st = (Ok (), st3)"
    by (simp add: r sbind_def 1 2 3)
  with 2(4) 3 show ?case by auto
qed

record batch =
  ba_headers :: "BlockHeader list"
  ba_ranges :: "range_answer list"

definition batch_messages :: "batch \<Rightarrow> Message list" where
  "batch_messages b = MHeaders \<lparr>headers_inner = ba_headers b\<rparr> # concat (map range_messages (ba_ranges b))"

text \<open>The answers for a batch of headers above a height: one for each range of filters the client asks for.\<close>

definition batch_ok :: "sha \<Rightarrow> siphash \<Rightarrow> bytes list \<Rightarrow> nat \<Rightarrow> batch \<Rightarrow> bool" where
  "batch_ok sha256 siphash keys height b \<longleftrightarrow> height + length (ba_headers b) < 2 ^ 64
     \<and> list_all2 (\<lambda>(_, hash_stop) a. range_ok sha256 siphash keys hash_stop a)
         (if ba_headers b = [] then [] else filter_requests sha256 (height + 1) (ba_headers b)) (ba_ranges b)"

lemma advance_height:
  assumes "unat (cs_last_block_height s) + length headers < 2 ^ 64"
  shows "unat (cs_last_block_height (advance sha256 headers s)) = unat (cs_last_block_height s) + length headers"
  using assms by (auto simp: advance_def unat_word_ariths unat_of_nat)

lemma delivers_round:
  assumes "batch_ok sha256 siphash keys (unat (cs_last_block_height (cc_chain_state cc))) b"
    and "chain_delivers sha256 magic (batch_messages b @ ms) cc st"
    and "good_wallet keys (cc_wallet cc)" and "\<And>bs. length (sha256 bs) = 32"
    and "apart_run sha256 keys (ba_ranges b) (coins (cc_wallet cc))"
  shows "\<exists>w st'. sync_round sha256 siphash st = (Ok (MAX_HEADER_LEN \<le> length (ba_headers b)), st')
    \<and> chain_delivers sha256 magic ms
        (cc\<lparr>cc_wallet := w, cc_chain_state := advance sha256 (ba_headers b) (cc_chain_state cc)\<rparr>) st'
    \<and> good_wallet keys w \<and> coins w = ledger_run sha256 keys (ba_ranges b) (coins (cc_wallet cc))"
proof -
  let ?s = "cc_chain_state cc"
  let ?n = "unat (cs_last_block_height ?s)"
  let ?hs = "ba_headers b"
  from assms(2) obtain p h where st: "st = (chain_with p cc, h)" by (auto simp: chain_delivers_def)
  have s: "cc_chain_state (fst st) = ?s" by (simp add: st chain_with_def)
  let ?ms = "concat (map range_messages (ba_ranges b)) @ ms"
  have ask: "\<forall>st. delivers sha256 magic (MHeaders \<lparr>headers_inner = ?hs\<rparr> # ?ms) st \<longrightarrow>
      (\<exists>st'. peer_fetch_headers sha256 (cs_last_block_hash ?s) st = (Ok ?hs, st') \<and> delivers sha256 magic ?ms st')"
    using delivers_headers [of sha256 magic "\<lparr>headers_inner = ?hs\<rparr>"] by simp
  have "chain_delivers sha256 magic (MHeaders \<lparr>headers_inner = ?hs\<rparr> # ?ms) cc st"
    using assms(2) by (simp add: batch_messages_def)
  from chain_delivers_p2p [OF this ask] obtain st1 where
    1: "on_p2p (with_peer (peer_fetch_headers sha256 (cs_last_block_hash ?s))) st = (Ok ?hs, st1)"
    "chain_delivers sha256 magic ?ms cc st1" by blast
  show ?thesis
  proof (cases "?hs = []")
    case True
    with assms(1) have "ba_ranges b = []" by (simp add: batch_ok_def)
    moreover have "sync_round sha256 siphash st = (Ok False, st1)"
      using 1(1) True s by (simp add: st sync_round_def fetch_headers_def sbind_def smap_err_def)
    ultimately show ?thesis using 1(2) assms(3) True
      by (intro exI [of _ "cc_wallet cc"] exI [of _ st1]) (simp add: MAX_HEADER_LEN_def advance_def)
  next
    case False
    with assms(1) have f: "list_all2 (\<lambda>(_, hash_stop) a. range_ok sha256 siphash keys hash_stop a)
        (filter_requests sha256 (?n + 1) ?hs) (ba_ranges b)" and len: "?n + length ?hs < 2 ^ 64"
      by (simp_all add: batch_ok_def)
    from delivers_sync_filters [OF f 1(2) assms(3,4,5)] obtain w st2 where
      2: "sync_filters sha256 siphash (filter_requests sha256 (?n + 1) ?hs) st1 = (Ok (), st2)"
      "chain_delivers sha256 magic ms (cc\<lparr>cc_wallet := w\<rparr>) st2" "good_wallet keys w"
      "coins w = ledger_run sha256 keys (ba_ranges b) (coins (cc_wallet cc))" by blast
    from 2(2) obtain p2 h2 where st2: "st2 = (chain_with p2 (cc\<lparr>cc_wallet := w\<rparr>), h2)"
      and d: "delivers sha256 magic ms (p2, h2)" by (auto simp: chain_delivers_def)
    let ?cc = "cc\<lparr>cc_wallet := w, cc_chain_state := advance sha256 ?hs ?s\<rparr>"
    obtain k where k: "length ?hs = Suc k" using False by (cases ?hs) auto
    have adv: "advance sha256 ?hs ?s = \<lparr>cs_last_block_hash = block_header_hash sha256 (last ?hs),
        cs_last_block_height = of_nat (?n + 1 + k)\<rparr>"
      using False k by (simp add: advance_def)
    have "sync_round sha256 siphash st = (Ok (MAX_HEADER_LEN \<le> length ?hs), (chain_with p2 ?cc, h2))"
      using 1(1) 2(1) False s len
      by (simp add: st sync_round_def fetch_headers_def sbind_def smap_err_def Let_def k adv st2 chain_with_def)
    with d 2(3,4) show ?thesis by (auto simp: chain_delivers_def)
  qed
qed

section \<open>Whole conversations\<close>

text \<open>Full batches of headers until a shorter one, each with the answers for its ranges.\<close>

fun conversation_ok :: "sha \<Rightarrow> siphash \<Rightarrow> bytes list \<Rightarrow> nat \<Rightarrow> batch list \<Rightarrow> bool" where
  "conversation_ok sha256 siphash keys height [] \<longleftrightarrow> False"
| "conversation_ok sha256 siphash keys height (b # bs) \<longleftrightarrow> batch_ok sha256 siphash keys height b
     \<and> (if bs = [] then length (ba_headers b) < MAX_HEADER_LEN
        else MAX_HEADER_LEN \<le> length (ba_headers b)
          \<and> conversation_ok sha256 siphash keys (height + length (ba_headers b)) bs)"

definition conversation :: "batch list \<Rightarrow> Message list" where
  "conversation bs = concat (map batch_messages bs)"

definition conversation_ranges :: "batch list \<Rightarrow> range_answer list" where
  "conversation_ranges bs = concat (map ba_ranges bs)"

definition position_after :: "sha \<Rightarrow> batch list \<Rightarrow> ChainState \<Rightarrow> ChainState" where
  "position_after sha256 bs = fold (\<lambda>b. advance sha256 (ba_headers b)) bs"

lemma delivers_loop:
  assumes "conversation_ok sha256 siphash keys (unat (cs_last_block_height (cc_chain_state cc))) bs"
    and "chain_delivers sha256 magic (conversation bs @ ms) cc st"
    and "good_wallet keys (cc_wallet cc)" and "\<And>bs. length (sha256 bs) = 32"
    and "apart_run sha256 keys (conversation_ranges bs) (coins (cc_wallet cc))"
  shows "\<exists>w st'. sync_loop sha256 siphash st = (Ok (), st')
    \<and> chain_delivers sha256 magic ms
        (cc\<lparr>cc_wallet := w, cc_chain_state := position_after sha256 bs (cc_chain_state cc)\<rparr>) st'
    \<and> good_wallet keys w \<and> coins w = ledger_run sha256 keys (conversation_ranges bs) (coins (cc_wallet cc))"
  using assms(1-3,5)
proof (induction bs arbitrary: cc st)
  case (Cons b bs)
  let ?s = "cc_chain_state cc"
  have ok: "batch_ok sha256 siphash keys (unat (cs_last_block_height ?s)) b" using Cons.prems(1) by simp
  have d: "chain_delivers sha256 magic (batch_messages b @ conversation bs @ ms) cc st"
    using Cons.prems(2) by (simp add: conversation_def)
  have ap: "apart_run sha256 keys (ba_ranges b) (coins (cc_wallet cc))"
    "apart_run sha256 keys (conversation_ranges bs) (ledger_run sha256 keys (ba_ranges b) (coins (cc_wallet cc)))"
    using Cons.prems(4) by (simp_all add: conversation_ranges_def)
  from delivers_round [OF ok d Cons.prems(3) assms(4) ap(1)] obtain w1 st1 where
    1: "sync_round sha256 siphash st = (Ok (MAX_HEADER_LEN \<le> length (ba_headers b)), st1)"
    "chain_delivers sha256 magic (conversation bs @ ms)
       (cc\<lparr>cc_wallet := w1, cc_chain_state := advance sha256 (ba_headers b) ?s\<rparr>) st1" "good_wallet keys w1"
    "coins w1 = ledger_run sha256 keys (ba_ranges b) (coins (cc_wallet cc))" by blast
  show ?case
  proof (cases "bs = []")
    case True
    with Cons.prems(1) 1 show ?thesis
      by (intro exI [of _ w1] exI [of _ st1])
        (simp add: sync_loop.simps [of _ _ st] conversation_def conversation_ranges_def position_after_def)
  next
    case False
    let ?cc = "cc\<lparr>cc_wallet := w1, cc_chain_state := advance sha256 (ba_headers b) ?s\<rparr>"
    have "unat (cs_last_block_height ?s) + length (ba_headers b) < 2 ^ 64" using ok by (simp add: batch_ok_def)
    from advance_height [OF this, of sha256] have
      "conversation_ok sha256 siphash keys (unat (cs_last_block_height (cc_chain_state ?cc))) bs"
      using Cons.prems(1) False by simp
    from Cons.IH [OF this 1(2)] 1(3,4) ap(2) obtain w st2 where
      2: "sync_loop sha256 siphash st1 = (Ok (), st2)"
      "chain_delivers sha256 magic ms
        (?cc\<lparr>cc_wallet := w, cc_chain_state := position_after sha256 bs (cc_chain_state ?cc)\<rparr>) st2"
      "good_wallet keys w" "coins w = ledger_run sha256 keys (conversation_ranges bs) (coins w1)" by auto
    have "sync_loop sha256 siphash st = (Ok (), st2)"
      using Cons.prems(1) False 1(1) 2(1) by (simp add: sync_loop.simps [of _ _ st])
    with 1(4) 2 show ?thesis
      by (intro exI [of _ w] exI [of _ st2]) (simp add: conversation_ranges_def position_after_def)
  qed
qed simp

lemma delivers_sync:
  assumes "conversation_ok sha256 siphash keys (unat (cs_last_block_height (cc_chain_state cc))) bs"
    and "delivers sha256 magic (Pong q # conversation bs) (p, h)"
    and "good_wallet keys (cc_wallet cc)" and "\<And>bs. length (sha256 bs) = 32"
    and "apart_run sha256 keys (conversation_ranges bs) (coins (cc_wallet cc))"
  shows "\<exists>w p' h'. sync_state sha256 siphash (chain_with p cc, h) =
      (Ok (), (chain_with p' (cc\<lparr>cc_wallet := w, cc_chain_state := position_after sha256 bs (cc_chain_state cc)\<rparr>), h'))
    \<and> \<not> ho_exhausted h' \<and> good_wallet keys w
    \<and> coins w = ledger_run sha256 keys (conversation_ranges bs) (coins (cc_wallet cc))"
proof -
  have "chain_delivers sha256 magic (Pong q # conversation bs) cc (chain_with p cc, h)"
    using assms(2) by (auto simp: chain_delivers_def)
  from chain_delivers_p2p [OF this, of "keep_alive sha256"] delivers_keep_alive obtain st1 where
    1: "on_p2p (with_peer (keep_alive sha256)) (chain_with p cc, h) = (Ok (), st1)"
    "chain_delivers sha256 magic (conversation bs) cc st1" by blast
  from 1(2) have "chain_delivers sha256 magic (conversation bs @ []) cc st1" by simp
  from delivers_loop [OF assms(1) this assms(3-5)] obtain w st2 where
    2: "sync_loop sha256 siphash st1 = (Ok (), st2)"
    "chain_delivers sha256 magic [] (cc\<lparr>cc_wallet := w, cc_chain_state := position_after sha256 bs (cc_chain_state cc)\<rparr>) st2"
    "good_wallet keys w" "coins w = ledger_run sha256 keys (conversation_ranges bs) (coins (cc_wallet cc))" by blast
  have "sync_state sha256 siphash (chain_with p cc, h) = (Ok (), st2)"
    using 1(1) 2(1) by (simp add: sync_state_def p2p_keep_alive_def sbind_def smap_err_def)
  with 2 show ?thesis by (auto simp: chain_delivers_def delivers_def)
qed


text \<open>A conversation: one header, one filter that matches, one block that spends a known output and pays a new one.\<close>

definition spend_tx :: Tx where
  "spend_tx = \<lparr>tx_version = 2, tx_flag = None,
     tx_inputs = [\<lparr>txin_prev_output = \<lparr>op_hash = Hash256 (replicate 32 9), op_index = 0\<rparr>, txin_unlock_script = [], txin_sequence = 0\<rparr>],
     tx_outputs = [\<lparr>txout_satoshis = 1000, txout_lock_script = [1]\<rparr>], tx_witnesses = None, tx_lock_time = 0\<rparr>"

definition spend_block :: Block where
  "spend_block = \<lparr>block_header = sample_header, block_txns = [spend_tx]\<rparr>"

definition spend_filter :: CompactFilter where
  "spend_filter = \<lparr>cf_filter_type = 0, cf_block_hash = Hash256 (replicate 32 7), cf_filter_bytes = sample_filter\<rparr>"

definition spend_answer :: range_answer where
  "spend_answer = \<lparr>ra_header = sample_filter_header,
     ra_filters = [spend_filter],
     ra_blocks = [spend_block]\<rparr>"

definition spend_batch :: batch where
  "spend_batch = \<lparr>ba_headers = [sample_header], ba_ranges = [spend_answer]\<rparr>"

definition owner_wallet :: "u32 list wallet" where
  "owner_wallet = path_wallet\<lparr>wo_pubkey_map := [([1], \<lparr>pd_key_type = External, pd_key_depth = 0\<rparr>)],
     wo_utxo_map := [((replicate 32 9, 0), new_utxo \<lparr>pd_key_type = External, pd_key_depth = 0\<rparr>
       \<lparr>pu_outpoint = (replicate 32 9, 0), pu_amount = 500, pu_script = [1], pu_is_spent = False\<rparr>)]\<rparr>"

lemma spend_filter_matches: "filter_result sample_siphash [[1]] spend_filter = Ok True"
proof -
  have "query_values sample_siphash (Hash256 (replicate 32 7)) (Suc 0) [[1]] = {5}"
    by (simp add: query_values_def gcs_hash_def sample_siphash_def map_to_range_def M_def)
  then show ?thesis
    by (simp add: filter_result_def spend_filter_def match_any_members [OF sample_filter_encodes] word_list_def unwrap_def)
qed

lemma spend_filter_hash: "cf_block_hash spend_filter = Hash256 (replicate 32 7)"
  by (simp add: spend_filter_def)

lemma spend_conversation_ok: "conversation_ok sample_sha sample_siphash [[1]] 7 [spend_batch]"
proof -
  have "filter_requests sample_sha 8 [sample_header] = [(8, Hash256 (replicate 32 7))]"
    by (simp add: filter_requests_def block_numbers_def block_header_hash_def sha256d_def sample_sha_def FILTER_SIZE_def)
  moreover have "range_ok sample_sha sample_siphash [[1]] (Hash256 (replicate 32 7)) spend_answer"
    using spend_filter_matches spend_filter_hash
    by (simp add: range_ok_def spend_answer_def ends_at_def matched_def sample_filter_header_def sha256d_def sample_sha_def)
  ultimately show ?thesis
    by (simp add: spend_batch_def batch_ok_def MAX_HEADER_LEN_def)
qed

lemma spend_messages_readable: "readable [] (Pong q # conversation [spend_batch])"
proof -
  have b: "transferable now (MBlock spend_block)" for now
  proof -
    have wf: "wf_block spend_block"
      by (simp add: wf_block_def wf_tx_def wf_defs fits_def spend_block_def spend_tx_def sample_header_def)
    then have "length (block_write spend_block) < 2 ^ 32"
      by (simp only: block_codec.wr_size)
        (simp add: block_size_def tx_size_def tx_in_size_def tx_out_size_def out_point_size_def spend_block_def spend_tx_def
          var_int_size_def len_u64_def)
    with wf show ?thesis by (simp add: fits_def)
  qed
  have f: "transferable now (CFilters spend_filter)" for now
  proof -
    have wf: "wf_compact_filter spend_filter"
      by (simp add: wf_compact_filter_def spend_filter_def wf_hash_def fits_def sample_filter_def)
    then have "length (compact_filter_write spend_filter) < 2 ^ 32"
      by (simp only: compact_filter_codec.wr_size)
        (simp add: spend_filter_def sample_filter_def compact_filter_size_def var_int_size_def len_u64_def)
    with wf show ?thesis by (simp add: fits_def)
  qed
  have h: "transferable now (MHeaders \<lparr>headers_inner = [sample_header]\<rparr>)" for now
  proof -
    have wf: "wf_headers \<lparr>headers_inner = [sample_header]\<rparr>"
      by (simp add: wf_defs fits_def sample_header_def)
    then have "length (headers_write \<lparr>headers_inner = [sample_header]\<rparr>) < 2 ^ 32"
      by (simp only: headers_codec.wr_size) (simp add: headers_size_def var_int_size_def len_u64_def)
    with wf show ?thesis by (simp add: fits_def)
  qed
  from b f h sample_filter_header_readable show ?thesis
    by (simp add: conversation_def spend_batch_def batch_messages_def range_messages_def spend_answer_def
        del: transferable.simps(1-8,11,12))
qed

definition spend_host :: host where
  "spend_host = sample_host\<lparr>ho_monotonic := [5, 6, 7, 8, 2000000000, 2000000001, 3000000000, 3000000001, 9000000000, 9000000001]\<rparr>"

definition spend_peer :: Peer where
  "spend_peer = sample_peer (concat (map (wire sample_sha [1, 2, 3, 4]) (Pong \<lparr>ping_nonce = 7\<rparr> # conversation [spend_batch])))"

lemma spend_delivers: "delivers sample_sha [1, 2, 3, 4] (Pong \<lparr>ping_nonce = 7\<rparr> # conversation [spend_batch]) (spend_peer, spend_host)"
proof -
  have "length (Pong \<lparr>ping_nonce = 7\<rparr> # conversation [spend_batch]) = Suc (Suc (Suc (Suc (Suc 0))))"
    by (simp add: conversation_def batch_messages_def range_messages_def spend_batch_def spend_answer_def)
  then have "timely (ho_monotonic spend_host) (length (Pong \<lparr>ping_nonce = 7\<rparr> # conversation [spend_batch]))"
    by (simp add: spend_host_def del: list.size)
  moreover have "length ([1, 2, 3, 4] :: bytes) = 4" by simp
  ultimately show ?thesis using spend_messages_readable [of "\<lparr>ping_nonce = 7\<rparr>"]
    by (simp add: delivers_def sending_def spend_host_def sample_host_def spend_peer_def sample_peer_def del: list.size readable.simps)
qed

lemma owner_wallet_good: "good_wallet [[1]] owner_wallet"
  by (simp add: good_wallet_def owner_wallet_def wf_wallet_def txids_ok_def bt_ok_def bt_keys_def path_wallet_def watch_only_new_def
      new_utxo_def)

lemmas spend_ledger_defs = conversation_ranges_def spend_batch_def spend_answer_def ledger_step_def paid_def
  consumed_def block_list_txns_def spend_block_def spend_tx_def outputs_of_def inputs_of_def coins_def owner_wallet_def
  bt_get_def tx_hash_def sha256d_def sample_sha_def NO_HASH_STOP_def Let_def coin_of_def new_utxo_def

lemma spend_apart: "apart_run sample_sha [[1]] (conversation_ranges [spend_batch]) (coins owner_wallet)"
  by (simp add: spend_ledger_defs apart_def)


end
