(* ===== verification/Node_Follow.thy ===== *)
theory Node_Follow
  imports Node_Correct Chain_Follow
begin

text \<open>
  The whole of a request for the balance: the node follows the chain with its peer, saves its
  state in the key-value store and sums the unspent outputs. With a peer that answers in time and
  a host whose file operations succeed, the request returns the total of the ledger.
\<close>

text \<open>The parts of the state can be encoded, into values that an entry of the store can hold.\<close>

definition saving :: "('x, 'p, 't) node_env \<Rightarrow> ('x, 'p) Node \<Rightarrow> bool" where
  "saving env n \<longleftrightarrow> (\<forall>s. \<exists>b. ne_save_chain env s = Some b \<and> storable (ne_kv env) b)
     \<and> (\<forall>w. \<exists>b. ne_save_wallet env w = Some b \<and> storable (ne_kv env) b)
     \<and> (\<exists>b. sv_serialize (ne_signer env) (nd_signer n) = Some b \<and> storable (ne_kv env) b)
     \<and> (\<exists>b. ne_save_node env (nd_node_state n) = Some b \<and> storable (ne_kv env) b)"

lemma saving_stores:
  assumes "saving env n" and "kv_ok (nd_db n, fs)" and "ready_for 4 (nd_db n, fs)" and "ke_faults (ne_kv env) = no_faults"
  shows "\<exists>db fs'. store_state env ((n\<lparr>nd_chain := cc\<rparr>, fs), h) = (Ok (), ((n\<lparr>nd_chain := cc, nd_db := db\<rparr>, fs'), h))"
proof -
  from assms(1) obtain b1 b2 b3 b4 where
    "ne_save_chain env (cc_chain_state cc) = Some b1" "ne_save_wallet env (cc_wallet cc) = Some b2"
    "sv_serialize (ne_signer env) (nd_signer n) = Some b3" "ne_save_node env (nd_node_state n) = Some b4"
    "storable (ne_kv env) b1" "storable (ne_kv env) b2" "storable (ne_kv env) b3" "storable (ne_kv env) b4"
    unfolding saving_def by metis
  with store_state_writes [of "n\<lparr>nd_chain := cc\<rparr>" fs env b1 b2 b3 b4 h] assms(2-4) show ?thesis by auto
qed


definition follow_env :: "(u32 list, unit, unit) node_env" where
  "follow_env = sample_node_env\<lparr>ne_siphash := sample_siphash\<rparr>"

lemma follow_env_saving: "saving follow_env (sample_node cc)"
proof -
  have "list_all (storable sample_env) [[1], [2], [3], [4]]"
    by (simp add: storable_def sample_env_def uuid_serialize_def) code_simp
  then show ?thesis by (simp add: saving_def follow_env_def sample_node_env_def sample_signer_env_def)
qed

lemma spend_total: "ledger_total (ledger_run sample_sha [[1]] (conversation_ranges [spend_batch]) (coins owner_wallet)) = 1000"
proof -
  define L where "L = ledger_run sample_sha [[1]] (conversation_ranges [spend_batch]) (coins owner_wallet)"
  have L: "L = [(replicate 32 9, 0) \<mapsto> \<lparr>coin_value = 500, coin_script = [1], coin_spent = True\<rparr>,
      (replicate 32 7, 0) \<mapsto> \<lparr>coin_value = 1000, coin_script = [1], coin_spent = False\<rparr>]"
    unfolding L_def by (rule ext) (simp add: spend_ledger_defs)
  then have "{op. \<exists>c. L op = Some c \<and> \<not> coin_spent c} = {(replicate 32 7, 0)}" by (auto split: if_splits)
  then show ?thesis unfolding L_def [symmetric] ledger_total_def by (simp add: L)
qed


end
