(* ===== verification/Node_Send.thy ===== *)
theory Node_Send
  imports Node_Follow
begin

text \<open>
  A payment: \<^verbatim>\<open>send_to_address\<close> of \<^verbatim>\<open>node/src/node.rs\<close> synchronises, has the wallet build a
  transaction, the signer sign it and the wallet finalise it, and sends it to the peer. Whenever it
  succeeds, what was built pays the recipient and creates no value, and what the peer was sent last
  is the transaction that was finalised. The outputs it spends stay in the wallet as unspent.
\<close>

section \<open>What is sent\<close>

lemma peer_send_Ok:
  assumes "peer_send sha256 m (p, h) = (Ok (), (p', h'))"
  shows "\<exists>bs. message_write sha256 m (pe_magic p) = Ok bs \<and> pe_output p' = pe_output p @ bs \<and> pe_magic p' = pe_magic p"
  using assms by (auto simp: peer_send_def split: res.splits prod.splits send_outcome.splits)

text \<open>The transaction is the last thing written, under the magic bytes of the connection.\<close>

definition ends_with_tx :: "sha \<Rightarrow> Tx \<Rightarrow> Peer \<Rightarrow> bool" where
  "ends_with_tx sha256 t p \<longleftrightarrow> (\<exists>before bs. message_write sha256 (MTx t) (pe_magic p) = Ok bs \<and> pe_output p = before @ bs)"

lemma peer_send_transaction_Ok:
  assumes "peer_send_transaction sha256 t st = (Ok (), (p', h'))"
  shows "ends_with_tx sha256 t p'"
proof -
  from assms obtain m st1 where
    "(case m of
        GetData request \<Rightarrow>
          (case inv_objects request of
             [] \<Rightarrow> slift Panic
           | inv_object # _ \<Rightarrow>
               if iv_hash inv_object = tx_hash sha256 t then peer_send sha256 (MTx t) else slift (Err WrongP2PMessage))
      | _ \<Rightarrow> slift (Err WrongP2PMessage)) st1 = (Ok (), (p', h'))"
    unfolding peer_send_transaction_def Let_def sbind_eq_Ok by blast
  then have "peer_send sha256 (MTx t) st1 = (Ok (), (p', h'))" by (cases m) (auto split: list.splits if_splits)
  then obtain p1 h1 where "peer_send sha256 (MTx t) (p1, h1) = (Ok (), (p', h'))" by (cases st1) auto
  from peer_send_Ok [OF this] show ?thesis by (auto simp: ends_with_tx_def)
qed

lemma chain_send_transaction_Ok:
  assumes "chain_send_transaction sha256 t (cc, h) = (Ok (), (cc', h'))"
  shows "(\<exists>p. pp_peer (cc_p2p cc') = Some p \<and> ends_with_tx sha256 t p) \<and> cc_wallet cc' = cc_wallet cc
    \<and> cc_chain_state cc' = cc_chain_state cc"
proof -
  from assms obtain cc1 h1 where
    1: "on_p2p (p2p_keep_alive sha256) (cc, h) = (Ok (), (cc1, h1))" and
    2: "on_p2p (p2p_send_transaction sha256 t) (cc1, h1) = (Ok (), (cc', h'))"
    by (auto simp: chain_send_transaction_def sbind_eq_Ok)
  from 1 have "cc_wallet cc1 = cc_wallet cc \<and> cc_chain_state cc1 = cc_chain_state cc"
    by (auto simp: on_p2p_def split: prod.splits)
  moreover from 2 have "cc_wallet cc' = cc_wallet cc1 \<and> cc_chain_state cc' = cc_chain_state cc1"
    by (auto simp: on_p2p_def split: prod.splits)
  moreover from 2 obtain st p h2 where "peer_send_transaction sha256 t st = (Ok (), (p, h2))" "pp_peer (cc_p2p cc') = Some p"
    by (auto simp: on_p2p_def p2p_send_transaction_def with_peer_def split: prod.splits option.splits)
  ultimately show ?thesis using peer_send_transaction_Ok by metis
qed

section \<open>What is built\<close>

lemma guest_create_transaction_Ok:
  assumes "guest_create_transaction env rate w recipient amount fee_rate rnd = (Ok psbt, w')"
  shows "\<exists>fe script tx ins. rate fee_rate = Some fe \<and> get_change_script env w = (Ok script, w')
    \<and> build_tx env w' script recipient fe (unat amount) rnd = Ok (tx, ins) \<and> psbt = we_serialize env tx ins"
  using assms
  by (auto simp: guest_create_transaction_def create_psbt_tx_def rbind_eq_Ok rmap_err_eq_Ok split: option.splits prod.splits res.splits)

lemma get_change_script_utxos: "wo_utxo_map (snd (get_change_script env w)) = wo_utxo_map w"
  by (simp add: get_change_script_def Let_def split: res.splits)

lemma guest_finalise_state: "snd (guest_finalise_transaction parse w bs) = w"
  by (simp add: guest_finalise_transaction_def split: option.splits prod.splits)

section \<open>The payment\<close>

lemma send_to_address_Ok:
  assumes "send_to_address env rnd recipient amount fee_rate ((n, fs), h) = (Ok (), ((n', fs'), h'))"
  shows "\<exists>cc h1 w psbt signed raw t. sync_state (ne_sha256 env) (ne_siphash env) (nd_chain n, h) = (Ok (), (cc, h1))
    \<and> guest_create_transaction (ne_wallet env) (ne_from_sat_per_vb env) (cc_wallet cc) recipient amount fee_rate rnd = (Ok psbt, w)
    \<and> guest_sign_psbt (ne_signer env) (nd_signer n) psbt = Ok signed
    \<and> fst (guest_finalise_transaction (ne_parse_signed env) w signed) = Ok raw \<and> parse_all tx_read raw = Ok t
    \<and> (\<exists>p. pp_peer (cc_p2p (nd_chain n')) = Some p \<and> ends_with_tx (ne_sha256 env) t p)
    \<and> cc_wallet (nd_chain n') = w \<and> cc_chain_state (nd_chain n') = cc_chain_state cc"
proof -
  from assms obtain n1 fs1 h1 psbt n2 fs2 h2 signed raw n3 fs3 h3 t n4 fs4 h4 where
    1: "on_chain (sync_state (ne_sha256 env) (ne_siphash env)) ((n, fs), h) = (Ok (), ((n1, fs1), h1))" and
    2: "on_wallet (\<lambda>w. guest_create_transaction (ne_wallet env) (ne_from_sat_per_vb env) w recipient amount fee_rate rnd)
          ((n1, fs1), h1) = (Ok psbt, ((n2, fs2), h2))" and
    3: "guest_sign_psbt (ne_signer env) (nd_signer n2) psbt = Ok signed" and
    4: "on_wallet (\<lambda>w. guest_finalise_transaction (ne_parse_signed env) w signed) ((n2, fs2), h2) = (Ok raw, ((n3, fs3), h3))" and
    5: "parse_all tx_read raw = Ok t" and
    6: "on_chain (chain_send_transaction (ne_sha256 env) t) ((n3, fs3), h3) = (Ok (), ((n4, fs4), h4))" and
    7: "store_state env ((n4, fs4), h4) = (Ok (), ((n', fs'), h'))"
    by (auto simp: send_to_address_def sbind_eq_Ok)
  obtain w where w: "guest_create_transaction (ne_wallet env) (ne_from_sat_per_vb env) (cc_wallet (nd_chain n1))
      recipient amount fee_rate rnd = (Ok psbt, w)" and n2: "n2 = n1\<lparr>nd_chain := (nd_chain n1)\<lparr>cc_wallet := w\<rparr>\<rparr>"
    using 2 by (auto simp: on_wallet_def split: prod.splits)
  have signer: "nd_signer n2 = nd_signer n" using 1 by (auto simp: n2 on_chain_def split: prod.splits)
  have w2: "cc_wallet (nd_chain n2) = w" "cc_chain_state (nd_chain n2) = cc_chain_state (nd_chain n1)" by (simp_all add: n2)
  have f: "fst (guest_finalise_transaction (ne_parse_signed env) w signed) = Ok raw"
    and n3: "n3 = n2\<lparr>nd_chain := (nd_chain n2)\<lparr>cc_wallet := w\<rparr>\<rparr>"
    using 4 guest_finalise_state [of "ne_parse_signed env" w signed] by (auto simp: w2 on_wallet_def split: prod.splits)
  from chain_send_transaction_Ok [OF on_chain_Ok [OF 6, THEN conjunct1]] store_state_chain [OF 7] n3 w2
  have "(\<exists>p. pp_peer (cc_p2p (nd_chain n')) = Some p \<and> ends_with_tx (ne_sha256 env) t p)
    \<and> cc_wallet (nd_chain n') = w \<and> cc_chain_state (nd_chain n') = cc_chain_state (nd_chain n1)" by simp
  with on_chain_Ok [OF 1] w 3 f 5 signer show ?thesis by auto
qed

text \<open>
  C5: A payment that succeeds is the one that was asked for. After the synchronisation the wallet
  built a transaction whose first output pays the recipient the amount, which spends outputs of
  the wallet only and none twice, and whose outputs with the fees for its inputs do not exceed its
  inputs; its PSBT was signed and finalised, and the transaction read from the result is the last
  message the peer was sent. The outputs of the wallet, spent marks included, are what they were
  before the payment, so that until a block confirms it the same outputs are offered again.
\<close>

theorem send_to_address_pays:
  assumes "send_to_address env rnd recipient amount fee_rate ((n, fs), h) = (Ok (), ((n', fs'), h'))"
    and "wf_wallet (cc_wallet (nd_chain n))" and "\<forall>xs. mset (we_usort (ne_wallet env) xs) = mset xs"
    and "\<forall>script. 0 < ds_minimal_non_dust (we_drain (ne_wallet env) script)"
  shows "\<exists>cc h1 fe tx ins signed raw t p.
      sync_state (ne_sha256 env) (ne_siphash env) (nd_chain n, h) = (Ok (), (cc, h1))
    \<and> ne_from_sat_per_vb env fee_rate = Some fe \<and> hd (ut_output tx) = (unat amount, recipient)
    \<and> distinct (ut_input tx) \<and> set (ut_input tx) \<subseteq> set (bt_keys (wo_utxo_map (cc_wallet cc)))
    \<and> output_total tx + length ins * the (fe_mul fe (fe_txin_weight fe)) \<le> input_total ins
    \<and> guest_sign_psbt (ne_signer env) (nd_signer n) (we_serialize (ne_wallet env) tx ins) = Ok signed
    \<and> fst (guest_finalise_transaction (ne_parse_signed env) (cc_wallet (nd_chain n')) signed) = Ok raw
    \<and> parse_all tx_read raw = Ok t \<and> pp_peer (cc_p2p (nd_chain n')) = Some p \<and> ends_with_tx (ne_sha256 env) t p
    \<and> wo_utxo_map (cc_wallet (nd_chain n')) = wo_utxo_map (cc_wallet cc)"
proof -
  from send_to_address_Ok [OF assms(1)] obtain cc h1 w psbt signed raw t p where
    1: "sync_state (ne_sha256 env) (ne_siphash env) (nd_chain n, h) = (Ok (), (cc, h1))" and
    2: "guest_create_transaction (ne_wallet env) (ne_from_sat_per_vb env) (cc_wallet cc) recipient amount fee_rate rnd = (Ok psbt, w)" and
    3: "guest_sign_psbt (ne_signer env) (nd_signer n) psbt = Ok signed"
      "fst (guest_finalise_transaction (ne_parse_signed env) w signed) = Ok raw" "parse_all tx_read raw = Ok t"
      "pp_peer (cc_p2p (nd_chain n')) = Some p" "ends_with_tx (ne_sha256 env) t p" "cc_wallet (nd_chain n') = w"
    by blast
  from guest_create_transaction_Ok [OF 2] obtain fe script tx ins where
    4: "ne_from_sat_per_vb env fee_rate = Some fe" "get_change_script (ne_wallet env) (cc_wallet cc) = (Ok script, w)"
      "build_tx (ne_wallet env) w script recipient fe (unat amount) rnd = Ok (tx, ins)" "psbt = we_serialize (ne_wallet env) tx ins"
    by blast
  have "wf_wallet (cc_wallet cc)" using wf_sync.sync_keeps [OF 1] assms(2) by simp
  from get_change_script_wf [OF this, of "ne_wallet env"] have wf: "wf_wallet w" by (simp add: 4(2))
  have u: "wo_utxo_map w = wo_utxo_map (cc_wallet cc)"
    using get_change_script_utxos [of "ne_wallet env" "cc_wallet cc"] by (simp add: 4(2))
  have "hd (ut_output tx) = (unat amount, recipient)
    \<and> distinct (ut_input tx) \<and> set (ut_input tx) \<subseteq> set (bt_keys (wo_utxo_map w))
    \<and> length ins = length (ut_input tx)
    \<and> output_total tx + length ins * the (fe_mul fe (fe_txin_weight fe)) \<le> input_total ins"
    by (rule build_tx_accounting [OF wf _ _ 4(3)]) (use assms(3,4) in simp_all)
  with 1 3 4 u have "sync_state (ne_sha256 env) (ne_siphash env) (nd_chain n, h) = (Ok (), (cc, h1))
    \<and> ne_from_sat_per_vb env fee_rate = Some fe \<and> hd (ut_output tx) = (unat amount, recipient)
    \<and> distinct (ut_input tx) \<and> set (ut_input tx) \<subseteq> set (bt_keys (wo_utxo_map (cc_wallet cc)))
    \<and> output_total tx + length ins * the (fe_mul fe (fe_txin_weight fe)) \<le> input_total ins
    \<and> guest_sign_psbt (ne_signer env) (nd_signer n) (we_serialize (ne_wallet env) tx ins) = Ok signed
    \<and> fst (guest_finalise_transaction (ne_parse_signed env) (cc_wallet (nd_chain n')) signed) = Ok raw
    \<and> parse_all tx_read raw = Ok t \<and> pp_peer (cc_p2p (nd_chain n')) = Some p \<and> ends_with_tx (ne_sha256 env) t p
    \<and> wo_utxo_map (cc_wallet (nd_chain n')) = wo_utxo_map (cc_wallet cc)"
    by auto
  then show ?thesis by blast
qed

text \<open>
  A payment the wallet refuses, for example for lack of funds, panics, although the operation can
  return errors.
\<close>

lemma refused_payment_panics:
  assumes "sync_state (ne_sha256 env) (ne_siphash env) (nd_chain n, h) = (Ok (), (cc, h1))"
    and "fst (guest_create_transaction (ne_wallet env) (ne_from_sat_per_vb env) (cc_wallet cc) recipient amount fee_rate rnd) = Err e"
  shows "fst (send_to_address env rnd recipient amount fee_rate ((n, fs), h)) = Panic"
proof -
  let ?create = "\<lambda>w. guest_create_transaction (ne_wallet env) (ne_from_sat_per_vb env) w recipient amount fee_rate rnd"
  have 1: "on_chain (sync_state (ne_sha256 env) (ne_siphash env)) ((n, fs), h) = (Ok (), ((n\<lparr>nd_chain := cc\<rparr>, fs), h1))"
    using assms(1) by (simp add: on_chain_def)
  obtain w where "?create (cc_wallet cc) = (Err e, w)" using assms(2) by (cases "?create (cc_wallet cc)") auto
  then have 2: "on_wallet ?create ((n\<lparr>nd_chain := cc\<rparr>, fs), h1) = (Err e, ((n\<lparr>nd_chain := cc\<lparr>cc_wallet := w\<rparr>\<rparr>, fs), h1))"
    by (simp add: on_wallet_def)
  show ?thesis
    unfolding send_to_address_def by (simp only: sbind_def sunwrap_def 1 2 prod.case res.case unwrap_simps fst_conv)
qed

section \<open>An example\<close>

text \<open>The peer has no new headers, answers two pings and asks for the transaction.\<close>

lemma delivers_idle_sync:
  assumes "chain_delivers sha256 magic (Pong q # MHeaders \<lparr>headers_inner = []\<rparr> # ms) cc st"
  shows "\<exists>st'. sync_state sha256 siphash st = (Ok (), st') \<and> chain_delivers sha256 magic ms cc st'"
proof -
  from chain_delivers_p2p [OF assms, of "keep_alive sha256"] delivers_keep_alive obtain st1 where
    1: "on_p2p (with_peer (keep_alive sha256)) st = (Ok (), st1)"
    "chain_delivers sha256 magic (MHeaders \<lparr>headers_inner = []\<rparr> # ms) cc st1" by blast
  let ?hash = "cs_last_block_hash (cc_chain_state (fst st1))"
  have "\<forall>st. delivers sha256 magic (MHeaders \<lparr>headers_inner = []\<rparr> # ms) st \<longrightarrow>
      (\<exists>st'. peer_fetch_headers sha256 ?hash st = (Ok [], st') \<and> delivers sha256 magic ms st')"
    using delivers_headers [of sha256 magic "\<lparr>headers_inner = []\<rparr>"] by simp
  from chain_delivers_p2p [OF 1(2) this] obtain st2 where
    2: "on_p2p (with_peer (peer_fetch_headers sha256 ?hash)) st1 = (Ok [], st2)" "chain_delivers sha256 magic ms cc st2" by blast
  have "sync_round sha256 siphash st1 = (Ok False, st2)"
    using 2(1) by (cases st1) (simp add: sync_round_def fetch_headers_def sbind_def smap_err_def)
  then have "sync_loop sha256 siphash st1 = (Ok (), st2)" by (simp add: sync_loop.simps)
  with 1(1) 2(2) show ?thesis by (simp add: sync_state_def p2p_keep_alive_def sbind_def smap_err_def)
qed

lemma delivers_chain_send:
  assumes "chain_delivers sha256 magic (Pong q # GetData request # ms) cc st"
    and "\<exists>v vs. inv_objects request = v # vs \<and> iv_hash v = tx_hash sha256 t"
  shows "\<exists>st'. chain_send_transaction sha256 t st = (Ok (), st') \<and> chain_delivers sha256 magic ms cc st'"
proof -
  from chain_delivers_p2p [OF assms(1), of "keep_alive sha256"] delivers_keep_alive obtain st1 where
    1: "on_p2p (with_peer (keep_alive sha256)) st = (Ok (), st1)"
    "chain_delivers sha256 magic (GetData request # ms) cc st1" by blast
  have "\<exists>st'. peer_send_transaction sha256 t s = (Ok (), st') \<and> delivers sha256 magic ms st'"
    if d: "delivers sha256 magic (GetData request # ms) s" for s
  proof -
    let ?inv = "MInv \<lparr>inv_objects = [\<lparr>iv_obj_type = 1, iv_hash = tx_hash sha256 t\<rparr>]\<rparr>"
    have w: "writable ?inv" "writable (MTx t)" "message_command (GetData request) = GETDATA" by simp_all
    obtain s1 where 1: "peer_send sha256 ?inv s = (Ok (), s1)" "delivers sha256 magic (GetData request # ms) s1"
      by (rule delivers_send [OF d w(1)])
    obtain s2 where 2: "receive sha256 GETDATA s1 = (Ok (GetData request), s2)" "delivers sha256 magic ms s2"
      by (rule delivers_receive [OF 1(2) w(3)])
    obtain s3 where 3: "peer_send sha256 (MTx t) s2 = (Ok (), s3)" "delivers sha256 magic ms s3"
      by (rule delivers_send [OF 2(2) w(2)])
    from assms(2) 1(1) 2(1) 3 show ?thesis by (cases s3) (auto simp: peer_send_transaction_def Let_def)
  qed
  then have "\<forall>s. delivers sha256 magic (GetData request # ms) s \<longrightarrow>
      (\<exists>st'. peer_send_transaction sha256 t s = (Ok (), st') \<and> delivers sha256 magic ms st')" by blast
  from chain_delivers_p2p [OF 1(2) this] 1(1) show ?thesis
    by (auto simp: chain_send_transaction_def p2p_keep_alive_def p2p_send_transaction_def sbind_def smap_err_def)
qed

definition pay_env :: "(u32 list, unit, unit) node_env" where
  "pay_env = sample_node_env\<lparr>ne_from_sat_per_vb := (\<lambda>_. Some sample_fees),
     ne_parse_signed := (\<lambda>_. Some ([\<lparr>si_partial_sigs = [([2], [3])], si_sighash_type = None, si_redeem_script = None,
       si_witness_script = None, si_bip32_derivation = [], si_final_script_witness = None\<rparr>], \<lambda>_. Inr (tx_write spend_tx)))\<rparr>"

definition pay_inv :: Inv where
  "pay_inv = \<lparr>inv_objects = [\<lparr>iv_obj_type = 1, iv_hash = Hash256 (replicate 32 7)\<rparr>]\<rparr>"

definition pay_messages :: "Message list" where
  "pay_messages = [Pong \<lparr>ping_nonce = 7\<rparr>, MHeaders \<lparr>headers_inner = []\<rparr>, Pong \<lparr>ping_nonce = 8\<rparr>, GetData pay_inv]"

definition pay_host :: host where
  "pay_host = sample_host\<lparr>ho_monotonic := [5, 6, 7, 8, 9, 10, 11, 12]\<rparr>"

definition pay_node :: "(u32 list, unit) Node" where
  "pay_node = (sample_node sample_chain)\<lparr>nd_chain :=
     chain_with (sample_peer (concat (map (wire sample_sha [1, 2, 3, 4]) pay_messages)))
       (sample_chain\<lparr>cc_wallet := funded_wallet False\<rparr>)\<rparr>"

lemma pay_delivers: "chain_delivers sample_sha [1, 2, 3, 4] pay_messages (sample_chain\<lparr>cc_wallet := funded_wallet False\<rparr>) (nd_chain pay_node, pay_host)"
proof -
  have h: "transferable now (MHeaders \<lparr>headers_inner = []\<rparr>)" for now
  proof -
    have wf: "wf_headers \<lparr>headers_inner = []\<rparr>" by (simp add: wf_headers_def fits_def)
    then have "length (headers_write \<lparr>headers_inner = []\<rparr>) < 2 ^ 32"
      by (simp only: headers_codec.wr_size) (simp add: headers_size_def var_int_size_def len_u64_def)
    with wf show ?thesis by (simp add: fits_def)
  qed
  have d: "transferable now (GetData pay_inv)" for now
  proof -
    have wf: "wf_inv pay_inv" by (simp add: pay_inv_def wf_inv_def wf_inv_vect_def wf_hash_def fits_def MAX_INV_ENTRIES_def)
    then have "length (inv_write pay_inv) < 2 ^ 32"
      by (simp only: inv_codec.wr_size) (simp add: inv_size_def inv_vect_size_def pay_inv_def var_int_size_def len_u64_def)
    with wf show ?thesis by (simp add: fits_def)
  qed
  have "readable [] pay_messages" using h d by (simp add: pay_messages_def del: transferable.simps(1-8,11,12))
  moreover have "length pay_messages = Suc (Suc (Suc (Suc 0)))" by (simp add: pay_messages_def)
  ultimately have "delivers sample_sha [1, 2, 3, 4] pay_messages
      (sample_peer (concat (map (wire sample_sha [1, 2, 3, 4]) pay_messages)), pay_host)"
    by (simp add: delivers_def sending_def pay_host_def sample_host_def sample_peer_def)
  then show ?thesis by (auto simp: chain_delivers_def pay_node_def)
qed

lemma pay_env_simps [simp]:
  "ne_sha256 pay_env = sample_sha" "ne_wallet pay_env = path_env" "ne_kv pay_env = sample_env" "ne_signer pay_env = sample_signer_env"
  "ne_from_sat_per_vb pay_env x = Some sample_fees"
  by (simp_all add: pay_env_def sample_node_env_def)

lemma pay_created:
  "guest_create_transaction path_env (ne_from_sat_per_vb pay_env) (funded_wallet False) [4] 1000 1 (\<lambda>_. 0)
     = (Ok (we_serialize path_env path_tx [path_psbt_input]), spending_wallet False)"
  using path_build [of False]
  by (simp add: guest_create_transaction_def create_psbt_tx_def path_change [folded spending_wallet_def] spending_wallet_def)

lemma pay_signed: "guest_sign_psbt sample_signer_env s psbt = Ok []"
  by (simp add: guest_sign_psbt_def sign_psbt_def sample_signer_env_def of_opt_def)

lemma pay_finalised: "guest_finalise_transaction (ne_parse_signed pay_env) w psbt = (Ok (tx_write spend_tx), w)"
  by (simp add: guest_finalise_transaction_def pay_env_def finalise_psbt_tx_def finalise_input_def)

lemma pay_parsed: "parse_all tx_read (tx_write spend_tx) = Ok spend_tx"
proof -
  have "wf_tx spend_tx" by (simp add: wf_tx_def wf_defs fits_def spend_tx_def)
  from tx_codec.rd_wr [OF this, of "[]"] show ?thesis by (simp add: parse_all_def)
qed

lemma pay_env_saving: "saving pay_env (sample_node cc)"
  using follow_env_saving [of cc] by (simp add: saving_def follow_env_def pay_env_def)

lemma pay_succeeds:
  "\<exists>n fs h. send_to_address pay_env (\<lambda>_. 0) [4] 1000 1 ((pay_node, sample_db_files), pay_host) = (Ok (), ((n, fs), h))"
proof -
  let ?cc = "sample_chain\<lparr>cc_wallet := funded_wallet False\<rparr>"
  let ?cc' = "?cc\<lparr>cc_wallet := spending_wallet False\<rparr>"
  let ?n = "sample_node sample_chain"
  from delivers_idle_sync [OF pay_delivers [unfolded pay_messages_def], of "ne_siphash pay_env"] obtain p1 h1 where
    1: "sync_state sample_sha (ne_siphash pay_env) (nd_chain pay_node, pay_host) = (Ok (), (chain_with p1 ?cc, h1))"
    and d: "delivers sample_sha [1, 2, 3, 4] [Pong \<lparr>ping_nonce = 8\<rparr>, GetData pay_inv] (p1, h1)"
    by (auto simp: chain_delivers_def)
  have w1: "cc_wallet (chain_with p1 ?cc) = funded_wallet False" by (simp add: chain_with_def)
  have set_wallet: "(chain_with p1 ?cc)\<lparr>cc_wallet := w\<rparr> = chain_with p1 (?cc\<lparr>cc_wallet := w\<rparr>)" for w
    by (simp add: chain_with_def)
  have d': "chain_delivers sample_sha [1, 2, 3, 4] [Pong \<lparr>ping_nonce = 8\<rparr>, GetData pay_inv] ?cc' (chain_with p1 ?cc', h1)"
    using d unfolding chain_delivers_def by blast
  have "\<exists>v vs. inv_objects pay_inv = v # vs \<and> iv_hash v = tx_hash sample_sha spend_tx"
    by (simp add: pay_inv_def tx_hash_def sha256d_def sample_sha_def)
  from delivers_chain_send [OF d' this] obtain p2 h2 where
    2: "chain_send_transaction sample_sha spend_tx (chain_with p1 ?cc', h1) = (Ok (), (chain_with p2 ?cc', h2))"
    unfolding chain_delivers_def by blast
  have ok: "kv_ok (nd_db ?n, sample_db_files)" "ready_for 4 (nd_db ?n, sample_db_files)" "ke_faults (ne_kv pay_env) = no_faults"
    using sample_db_ok sample_db_ready by (simp_all add: sample_node_def sample_env_def)
  obtain db fs where
    3: "store_state pay_env ((?n\<lparr>nd_chain := chain_with p2 ?cc'\<rparr>, sample_db_files), h2)
      = (Ok (), ((?n\<lparr>nd_chain := chain_with p2 ?cc', nd_db := db\<rparr>, fs), h2))"
    using saving_stores [OF pay_env_saving ok] by blast
  have s1: "on_chain (sync_state sample_sha (ne_siphash pay_env)) ((pay_node, sample_db_files), pay_host)
      = (Ok (), ((?n\<lparr>nd_chain := chain_with p1 ?cc\<rparr>, sample_db_files), h1))"
    using 1 by (simp add: on_chain_def pay_node_def)
  have s2: "on_wallet (\<lambda>w. guest_create_transaction path_env (ne_from_sat_per_vb pay_env) w [4] 1000 1 (\<lambda>_. 0))
      ((?n\<lparr>nd_chain := chain_with p1 ?cc\<rparr>, sample_db_files), h1)
    = (Ok (we_serialize path_env path_tx [path_psbt_input]), ((?n\<lparr>nd_chain := chain_with p1 ?cc'\<rparr>, sample_db_files), h1))"
    using pay_created by (simp add: on_wallet_def w1 set_wallet)
  have s3: "on_wallet (\<lambda>w. guest_finalise_transaction (ne_parse_signed pay_env) w psbt)
      ((?n\<lparr>nd_chain := chain_with p1 ?cc'\<rparr>, sample_db_files), h1)
    = (Ok (tx_write spend_tx), ((?n\<lparr>nd_chain := chain_with p1 ?cc'\<rparr>, sample_db_files), h1))" for psbt
    by (simp add: on_wallet_def pay_finalised)
  have s4: "on_chain (chain_send_transaction sample_sha spend_tx) ((?n\<lparr>nd_chain := chain_with p1 ?cc'\<rparr>, sample_db_files), h1)
    = (Ok (), ((?n\<lparr>nd_chain := chain_with p2 ?cc'\<rparr>, sample_db_files), h2))"
    using 2 by (simp add: on_chain_def)
  have "send_to_address pay_env (\<lambda>_. 0) [4] 1000 1 ((pay_node, sample_db_files), pay_host)
      = (Ok (), ((?n\<lparr>nd_chain := chain_with p2 ?cc', nd_db := db\<rparr>, fs), h2))"
    unfolding send_to_address_def pay_env_simps(1-4)
    by (simp only: sbind_def sunwrap_def s1 s2 s3 s4 3 pay_signed pay_parsed sget_apply slift_apply prod.case res.case unwrap_simps)
  then show ?thesis by blast
qed

theorem send_to_address_pays_witness:
  "\<exists>n fs h t p. send_to_address pay_env (\<lambda>_. 0) [4] 1000 1 ((pay_node, sample_db_files), pay_host) = (Ok (), ((n, fs), h))
     \<and> pp_peer (cc_p2p (nd_chain n)) = Some p \<and> ends_with_tx sample_sha t p"
proof -
  obtain n fs h where s: "send_to_address pay_env (\<lambda>_. 0) [4] 1000 1 ((pay_node, sample_db_files), pay_host) = (Ok (), ((n, fs), h))"
    using pay_succeeds by blast
  have "wf_wallet (cc_wallet (nd_chain pay_node))"
    using reachable_wf [OF funded_wallet_reachable] by (simp add: pay_node_def chain_with_def)
  moreover have "\<forall>xs. mset (we_usort (ne_wallet pay_env) xs) = mset xs" by (simp add: path_env_def)
  moreover have "\<forall>script. 0 < ds_minimal_non_dust (we_drain (ne_wallet pay_env) script)" by (simp add: path_env_def sample_drain_def)
  ultimately show ?thesis using send_to_address_pays [OF s] s by auto
qed

end
