(* ===== verification/KV_Durable.thy ===== *)
theory KV_Durable
  imports KV_Write_Back
begin

text \<open>
  What survives a restart. The files of a store are described by the journal of what was written
  to them: the segments in the order of their creation, each with the entries appended to it. An
  insertion appends one entry to the journal; a store that starts on the files reads what the
  journal says, and goes on with it, when the hash map of segments is traversed in the order of
  the segments' identifiers. (The traversal order of a hash map is not fixed; the last section
  shows what another order does.)
\<close>

section \<open>Journals\<close>

type_synonym 'k journal = "(u64 \<times> (u64 \<times> 'k Entry) list) list"

text \<open>What a key reads as after a sequence of entries.\<close>

definition log_map :: "(u64 \<times> 'k Entry) list \<Rightarrow> 'k \<Rightarrow> (KvError, bytes) res" where
  "log_map es = fold (\<lambda>(now, e) m. m(en_key e := Ok (en_value e))) es (\<lambda>_. Err EntryNotFound)"

definition entries_of :: "'k journal \<Rightarrow> (u64 \<times> 'k Entry) list" where
  "entries_of L = concat (map snd L)"

definition file_of :: "string \<Rightarrow> files \<Rightarrow> u64 \<Rightarrow> nat option" where
  "file_of dir fs file_id = map_of (fs_names fs) (dir, segment_name file_id)"

definition holds_entries :: "('k \<Rightarrow> bytes) \<Rightarrow> string \<Rightarrow> files \<Rightarrow> u64 \<Rightarrow> (u64 \<times> 'k Entry) list \<Rightarrow> bool" where
  "holds_entries ser dir fs file_id es \<longleftrightarrow>
     (\<exists>fd. file_of dir fs file_id = Some fd \<and> file_content fs fd = concat (map (entry_image ser) es)
        \<and> length (file_content fs fd) < 2 ^ 32)"

definition journal :: "('k \<Rightarrow> bytes) \<Rightarrow> string \<Rightarrow> 'k journal \<Rightarrow> files \<Rightarrow> bool" where
  "journal ser dir L fs \<longleftrightarrow> sorted_wrt (<) (map fst L) \<and> fs_ok fs
     \<and> (\<forall>name fd. ((dir, name), fd) \<in> set (fs_names fs) \<longrightarrow> name \<in> segment_name ` fst ` set L)
     \<and> (\<forall>(file_id, es) \<in> set L. holds_entries ser dir fs file_id es)
     \<and> inj_on (file_of dir fs) (fst ` set L)"

lemma log_map_append: "log_map (es @ [(now, e)]) = (log_map es)(en_key e := Ok (en_value e))"
  by (simp add: log_map_def)

lemma entries_of_append [simp]: "entries_of (L @ L') = entries_of L @ entries_of L'"
  by (simp add: entries_of_def)

lemma entries_of_simps [simp]: "entries_of [] = []" "entries_of ((i, es) # L) = es @ entries_of L"
  by (simp_all add: entries_of_def)

section \<open>A new segment, a new entry\<close>

lemma file_of_append:
  "file_of dir (fs\<lparr>fs_names := fs_names fs @ [((dir, segment_name i), fd)], fs_content := c\<rparr>) j
     = (case file_of dir fs j of None \<Rightarrow> if j = i then Some fd else None | Some x \<Rightarrow> Some x)"
  by (simp add: file_of_def map_add_def split: option.splits)

lemma segment_new_new_file:
  assumes "file_of dir fs i = None"
  shows "segment_new no_faults i dir fs =
    (Ok \<lparr>sg_file_id = i, sg_file_path = segment_name i, sg_store = \<lparr>ws_file_descriptor = length (fs_content fs),
        ws_current_write_offset = 0, ws_directory_path = dir, ws_file_name = segment_name i\<rparr>\<rparr>,
     fs\<lparr>fs_names := fs_names fs @ [((dir, segment_name i), length (fs_content fs))], fs_content := fs_content fs @ [[]]\<rparr>)"
  using assms by (simp add: segment_new_def store_open_def sbind_def Let_def file_of_def)

lemma holds_entries_new_file:
  assumes "holds_entries ser dir fs j es" and "fs_ok fs" and "j \<noteq> i"
  shows "holds_entries ser dir (fs\<lparr>fs_names := fs_names fs @ [((dir, segment_name i), length (fs_content fs))],
     fs_content := fs_content fs @ [[]]\<rparr>) j es"
proof -
  from assms(1) obtain fd where fd: "file_of dir fs j = Some fd" "file_content fs fd = concat (map (entry_image ser) es)"
    "length (file_content fs fd) < 2 ^ 32" by (auto simp: holds_entries_def)
  have "fd < length (fs_content fs)" using fd(1) assms(2) by (auto simp: fs_ok_def file_of_def)
  with fd show ?thesis by (simp add: holds_entries_def file_of_append)
qed

lemma file_of_bound: "journal ser dir L fs \<Longrightarrow> file_of dir fs i = Some fd \<Longrightarrow> fd < length (fs_content fs)"
  by (auto simp: journal_def fs_ok_def file_of_def)

lemma file_of_None:
  assumes "journal ser dir L fs" and "i \<notin> fst ` set L"
  shows "file_of dir fs i = None"
proof (rule ccontr)
  assume "file_of dir fs i \<noteq> None"
  then obtain fd where "map_of (fs_names fs) (dir, segment_name i) = Some fd" by (auto simp: file_of_def)
  from map_of_SomeD [OF this] assms show False by (force simp: journal_def)
qed

lemma journal_new_segment:
  assumes "journal ser dir L fs" and "\<forall>j \<in> fst ` set L. j < i"
  shows "journal ser dir (L @ [(i, [])]) (fs\<lparr>fs_names := fs_names fs @ [((dir, segment_name i), length (fs_content fs))],
     fs_content := fs_content fs @ [[]]\<rparr>)" (is "journal ser dir ?L ?fs")
proof -
  note j = assms(1) [unfolded journal_def]
  have ni: "i \<notin> fst ` set L" using assms(2) by auto
  have none: "file_of dir fs i = None" by (rule file_of_None [OF assms(1) ni])
  have old: "file_of dir ?fs k = file_of dir fs k" if "k \<noteq> i" for k
    using that by (simp add: file_of_append split: option.splits)
  have new: "file_of dir ?fs i = Some (length (fs_content fs))" using none by (simp add: file_of_append)
  have "holds_entries ser dir ?fs i []"
    using new by (simp add: holds_entries_def file_content_def)
  then have "\<forall>(file_id, es) \<in> set ?L. holds_entries ser dir ?fs file_id es"
    using j ni holds_entries_new_file [of ser dir fs _ _ i] by force
  moreover have "inj_on (file_of dir ?fs) (fst ` set ?L)"
  proof -
    have "file_of dir ?fs k = file_of dir fs k" if "k \<in> fst ` set L" for k
      using that ni old by metis
    then have "inj_on (file_of dir ?fs) (fst ` set L) \<longleftrightarrow> inj_on (file_of dir fs) (fst ` set L)"
      by (rule inj_on_cong)
    then have "inj_on (file_of dir ?fs) (fst ` set L)" using j by simp
    moreover have "file_of dir ?fs i \<notin> file_of dir ?fs ` fst ` set L"
    proof
      assume "file_of dir ?fs i \<in> file_of dir ?fs ` fst ` set L"
      then obtain k where k: "file_of dir ?fs i = file_of dir ?fs k" "k \<in> fst ` set L" by (rule imageE)
      from k(2) ni have "k \<noteq> i" by blast
      with k(1) have "file_of dir fs k = Some (length (fs_content fs))" unfolding new old [OF \<open>k \<noteq> i\<close>] by simp
      from file_of_bound [OF assms(1) this] show False by simp
    qed
    ultimately show ?thesis using ni by simp
  qed
  moreover have "fs_ok ?fs"
    using j by (auto simp: fs_ok_def map_add_def less_Suc_eq split: option.splits if_splits)
  ultimately show ?thesis
    using j assms(2) by (auto simp: journal_def sorted_wrt_append)
qed

lemma journal_append_entry:
  assumes "journal ser dir (L @ [(i, es)]) fs" and "file_of dir fs i = Some fd"
    and "length (file_content fs fd @ entry_image ser x) < 2 ^ 32"
  shows "journal ser dir (L @ [(i, es @ [x])])
    (fs\<lparr>fs_content := (fs_content fs)[fd := file_content fs fd @ entry_image ser x]\<rparr>)"
proof -
  define fs' where "fs' = fs\<lparr>fs_content := (fs_content fs)[fd := file_content fs fd @ entry_image ser x]\<rparr>"
  note j = assms(1) [unfolded journal_def]
  have fd: "fd < length (fs_content fs)" by (rule file_of_bound [OF assms(1,2)])
  have names: "file_of dir fs' = file_of dir fs" by (simp add: file_of_def fun_eq_iff fs'_def)
  have content: "file_content fs' f = (if f = fd then file_content fs fd @ entry_image ser x else file_content fs f)" for f
    using fd by (simp add: file_content_def fs'_def)
  have "i \<notin> fst ` set L" using j by (auto simp: sorted_wrt_append)
  have "holds_entries ser dir fs' k ks" if "(k, ks) \<in> set L" for k ks
  proof -
    have "file_of dir fs k \<noteq> Some fd"
    proof
      assume "file_of dir fs k = Some fd"
      with j assms(2) that have "k = i" by (force simp: inj_on_def)
      with that \<open>i \<notin> fst ` set L\<close> show False by force
    qed
    moreover have "holds_entries ser dir fs k ks" using j that by auto
    ultimately show ?thesis by (auto simp: holds_entries_def names content)
  qed
  moreover have "holds_entries ser dir fs' i (es @ [x])"
  proof -
    have "file_content fs fd = concat (map (entry_image ser) es)" using j assms(2) by (auto simp: holds_entries_def)
    then show ?thesis using assms(2,3) by (simp add: holds_entries_def names content)
  qed
  moreover have "fs_ok fs'" using j by (simp add: fs_ok_def fs'_def)
  ultimately have "journal ser dir (L @ [(i, es @ [x])]) fs'" using j by (auto simp: journal_def names fs'_def [THEN arg_cong, of fs_names])
  then show ?thesis by (simp add: fs'_def)
qed

section \<open>Stores that match their journal\<close>

definition entry_good :: "'k kv_env \<Rightarrow> u64 \<times> 'k Entry \<Rightarrow> bool" where
  "entry_good env x \<longleftrightarrow> ke_key_mapper env (ke_serialize env (en_key (snd x))) = Ok (en_key (snd x))"

definition seg_tracks :: "('k \<Rightarrow> bytes) \<Rightarrow> 'k journal \<Rightarrow> Segments \<times> files \<Rightarrow> bool" where
  "seg_tracks ser L = (\<lambda>(ss, fs).
     segs_ok (ss, fs) \<and> L \<noteq> [] \<and> journal ser (ss_directory ss) L fs
     \<and> sg_file_id (ss_active ss) = fst (last L)
     \<and> file_of (ss_directory ss) fs (fst (last L)) = Some (seg_fd (ss_active ss))
     \<and> (\<forall>i. seg_at ss i \<noteq> None \<longrightarrow> i \<in> fst ` set L))"

definition tracks :: "'k kv_env \<Rightarrow> 'k journal \<Rightarrow> 'k KVStore \<times> files \<Rightarrow> bool" where
  "tracks env L = (\<lambda>(s, fs).
     kv_ok (s, fs) \<and> seg_tracks (ke_serialize env) L (kv_segments s, fs)
     \<and> (\<forall>x \<in> set (entries_of L). entry_good env x)
     \<and> kv_get no_faults (s, fs) = log_map (entries_of L))"

text \<open>The next \<open>n\<close> readings of the clock increase, from above the identifier of the active segment.\<close>

definition later :: "nat \<Rightarrow> Segments \<Rightarrow> bool" where
  "later n ss \<longleftrightarrow> (\<forall>i<n. sg_file_id (ss_active ss) < mono_id ss i)
     \<and> (\<forall>i j. i < j \<and> j < n \<longrightarrow> mono_id ss i < mono_id ss j)"

lemma journal_below_last:
  "journal ser dir L fs \<Longrightarrow> L \<noteq> [] \<Longrightarrow> i \<in> fst ` set L \<Longrightarrow> i \<le> fst (last L)"
  by (cases L rule: rev_cases) (auto simp: journal_def sorted_wrt_append)

lemma seg_tracks_fresh_ids:
  assumes "seg_tracks ser L (ss, fs)" and "later n ss"
  shows "fresh_ids n (ss, fs)"
proof -
  have j: "journal ser (ss_directory ss) L fs" "L \<noteq> []" using assms(1) by (simp_all add: seg_tracks_def)
  have above: "mono_id ss i \<notin> fst ` set L" if "i < n" for i
  proof
    assume "mono_id ss i \<in> fst ` set L"
    with j have "mono_id ss i \<le> fst (last L)" using journal_below_last by blast
    moreover have "fst (last L) < mono_id ss i" using assms that by (simp add: seg_tracks_def later_def)
    ultimately show False by simp
  qed
  have "inj_on (mono_id ss) {..<n}"
  proof (rule linorder_inj_onI)
    fix i j assume "i < j" "i \<in> {..<n}" "j \<in> {..<n}"
    then have "mono_id ss i < mono_id ss j" using assms(2) by (simp add: later_def)
    then show "mono_id ss i \<noteq> mono_id ss j" by simp
  qed auto
  moreover have "seg_at ss (mono_id ss i) = None" if "i < n" for i
    using assms(1) above [OF that] by (auto simp: seg_tracks_def)
  moreover have "map_of (fs_names fs) (ss_directory ss, segment_name (mono_id ss i)) = None" if "i < n" for i
    using file_of_None [OF j(1) above [OF that]] by (simp add: file_of_def)
  ultimately show ?thesis by (simp add: fresh_ids_def)
qed

lemma later_less: "later n ss \<Longrightarrow> m \<le> n \<Longrightarrow> later m ss"
  by (auto simp: later_def)

lemma later_tick: "later (Suc n) ss \<Longrightarrow> later n (tick ss)"
  by (auto simp: later_def)

lemma fresh_of_ids: "fresh_ids (Suc n) st \<Longrightarrow> fresh st"
  by (cases st) (auto simp: fresh_ids_def fresh_def mono_id_def Let_def)

section \<open>Insertions\<close>

lemma rollover_tracks:
  assumes "seg_tracks ser L (ss, fs)" and "later (Suc n) ss"
  shows "\<exists>L' ss' fs'. maybe_rollover_active_segment no_faults (ss, fs) = (Ok (), (ss', fs'))
    \<and> seg_tracks ser L' (ss', fs') \<and> entries_of L' = entries_of L \<and> later n ss'
    \<and> ws_current_write_offset (sg_store (ss_active ss')) \<le> nat (sint (ss_max_segment_size_bytes ss))
    \<and> ss_max_segment_size_bytes ss' = ss_max_segment_size_bytes ss \<and> ss_directory ss' = ss_directory ss"
proof (cases "int (size_in_bytes (sg_store (ss_active ss))) \<ge> sint (ss_max_segment_size_bytes ss)")
  case False
  then have "maybe_rollover_active_segment no_faults (ss, fs) = (Ok (), (ss, fs))"
    by (simp add: maybe_rollover_active_segment_def maybe_rollover_segment_def sbind_def)
  then show ?thesis using assms False later_less [OF assms(2), of n] by (auto simp: size_in_bytes_def)
next
  case True
  define i where "i = mono_id ss 0"
  have i: "i = ck_monotonic (ss_clock ss) (ck_ticks (ss_clock ss))" by (simp add: i_def mono_id_def)
  note t = assms(1) [unfolded seg_tracks_def prod.case]
  have above: "\<forall>j \<in> fst ` set L. j < i"
  proof
    fix j assume "j \<in> fst ` set L"
    with t have "j \<le> fst (last L)" using journal_below_last by blast
    also have "\<dots> < i" using t assms(2) by (simp add: later_def i_def)
    finally show "j < i" .
  qed
  then have "i \<notin> fst ` set L" by auto
  then have none: "file_of (ss_directory ss) fs i = None" using t by (intro file_of_None [of ser _ L]) simp_all
  define seg where "seg = \<lparr>sg_file_id = i, sg_file_path = segment_name i, sg_store =
      \<lparr>ws_file_descriptor = length (fs_content fs), ws_current_write_offset = 0, ws_directory_path = ss_directory ss,
       ws_file_name = segment_name i\<rparr>\<rparr>"
  define fs' where "fs' = fs\<lparr>fs_names := fs_names fs @ [((ss_directory ss, segment_name i), length (fs_content fs))],
      fs_content := fs_content fs @ [[]]\<rparr>"
  define ss' where "ss' = (insert_inactive (ss_active ss) (tick ss))\<lparr>ss_active := seg\<rparr>"
  have r: "maybe_rollover_active_segment no_faults (ss, fs) = (Ok (), (ss', fs'))"
    using True segment_new_new_file [OF none]
    by (simp add: maybe_rollover_active_segment_def maybe_rollover_segment_def sbind_def fresh_file_id_def on_files_def
        next_file_id_def monotonic_now_def i [symmetric] seg_def fs'_def ss'_def tick_def insert_inactive_def)
  have f: "fresh (ss, fs)" by (rule fresh_of_ids [OF seg_tracks_fresh_ids [OF assms]])
  have ok: "segs_ok (ss', fs')" using rollover_ok [OF r _ f] t by simp
  have "journal ser (ss_directory ss) (L @ [(i, [])]) fs'"
    unfolding fs'_def by (rule journal_new_segment) (use t above in auto)
  moreover have "seg_at ss' k \<noteq> None \<longrightarrow> k \<in> fst ` set (L @ [(i, [])])" for k
  proof -
    have "hm_ok (ss_inactive ss)" using t by (simp add: segs_ok_def)
    then have "seg_at ss' k \<noteq> None \<longrightarrow> k = i \<or> seg_at ss k \<noteq> None"
      by (auto simp: seg_at_def ss'_def seg_def insert_inactive_def hm.get_ins)
    then show ?thesis using t by auto
  qed
  moreover have "file_of (ss_directory ss) fs' i = Some (length (fs_content fs))"
    using none by (simp add: fs'_def file_of_append)
  ultimately have "seg_tracks ser (L @ [(i, [])]) (ss', fs')"
    using ok by (simp add: seg_tracks_def) (simp add: ss'_def insert_inactive_def seg_def)
  moreover have "later n ss'"
    using assms(2) by (auto simp: later_def ss'_def insert_inactive_def seg_def i_def)
  ultimately show ?thesis using r
    by (intro exI [of _ "L @ [(i, [])]"] exI [of _ ss'] exI [of _ fs'])
      (simp, simp add: ss'_def insert_inactive_def seg_def)
qed

lemma append_tracks:
  assumes "seg_tracks (ke_serialize env) L (ss, fs)" and "later (Suc n) ss" and "ke_faults env = no_faults"
    and "ws_current_write_offset (sg_store (ss_active ss)) + 13 + length (ke_serialize env k) + length v < 2 ^ 32"
  shows "\<exists>L' now resp ss' fs'. append_active env (entry_new k v) (ss, fs) = (Ok resp, (ss', fs'))
    \<and> seg_tracks (ke_serialize env) L' (ss', fs') \<and> entries_of L' = entries_of L @ [(now, entry_new k v)] \<and> later n ss'
    \<and> ss_max_segment_size_bytes ss' = ss_max_segment_size_bytes ss \<and> ss_directory ss' = ss_directory ss"
proof -
  note t = assms(1) [unfolded seg_tracks_def prod.case]
  define now where "now = ck_wall (ss_clock ss) (ck_ticks (ss_clock ss))"
  define x where "x = (now, entry_new k v)"
  define fd where "fd = seg_fd (ss_active ss)"
  define img where "img = entry_image (ke_serialize env) x"
  obtain L0 i es where L: "L = L0 @ [(i, es)]" using t by (cases L rule: rev_cases) auto
  have enc: "encode (ke_serialize env) now (entry_new k v) = (Ok img :: (KvError, bytes) res)"
    using assms(4) by (simp add: encode_def Let_def entry_new_def img_def x_def entry_image_def)
  have off: "ws_current_write_offset (sg_store (ss_active ss)) = length (file_content fs fd)"
    using t by (simp add: segs_ok_def fd_def)
  define ss' where "ss' = (tick ss)\<lparr>ss_active := (ss_active ss)\<lparr>sg_store := (sg_store (ss_active ss))
      \<lparr>ws_current_write_offset := length (file_content fs fd) + length img\<rparr>\<rparr>\<rparr>"
  define fs' where "fs' = fs\<lparr>fs_content := (fs_content fs)[fd := file_content fs fd @ img]\<rparr>"
  have "append_active env (entry_new k v) (ss, fs) = (Ok \<lparr>ar_file_id = sg_file_id (ss_active ss),
      ar_offset = length (file_content fs fd), ar_entry_length = length img\<rparr>, (ss', fs'))"
    using enc off assms(3)
    by (simp add: append_active_def entry_now_def clock_now_def entry_new_def on_files_def segment_append_def
        store_append_def sbind_def Let_def ss'_def fs'_def now_def tick_def fd_def [symmetric])
  moreover from append_active_ok [OF this] t have "segs_ok (ss', fs')" by blast
  moreover have "journal (ke_serialize env) (ss_directory ss) (L0 @ [(i, es @ [x])]) fs'"
    unfolding fs'_def img_def
  proof (rule journal_append_entry)
    show "journal (ke_serialize env) (ss_directory ss) (L0 @ [(i, es)]) fs" using t L by simp
    show "file_of (ss_directory ss) fs i = Some fd" using t by (simp add: L fd_def)
    have "length img = 13 + length (ke_serialize env k) + length v"
      by (simp add: img_def x_def entry_image_def entry_new_def)
    then show "length (file_content fs fd @ entry_image (ke_serialize env) x) < 2 ^ 32"
      using assms(4) off by (simp add: img_def)
  qed
  moreover have "seg_at ss' j = None \<longleftrightarrow> seg_at ss j = None" for j by (simp add: seg_at_def ss'_def)
  then have "\<forall>j. seg_at ss' j \<noteq> None \<longrightarrow> j \<in> fst ` set (L0 @ [(i, es @ [x])])"
    using t by (simp add: L)
  moreover have "ss_directory ss' = ss_directory ss" "sg_file_id (ss_active ss') = i"
    "file_of (ss_directory ss) fs' i = Some (seg_fd (ss_active ss'))"
    using t by (simp_all add: ss'_def fs'_def file_of_def L)
  ultimately have "seg_tracks (ke_serialize env) (L0 @ [(i, es @ [x])]) (ss', fs')"
    unfolding seg_tracks_def prod.case by simp
  moreover have "later n ss'" using later_tick [OF assms(2)] by (simp add: later_def ss'_def)
  moreover have "entries_of (L0 @ [(i, es @ [x])]) = entries_of L @ [x]" by (simp add: L)
  ultimately show ?thesis
    using \<open>append_active env (entry_new k v) (ss, fs) = _\<close> unfolding x_def
    by (intro exI [of _ "L0 @ [(i, es @ [x])]"] exI [of _ now] exI [of _ ss'] exI [of _ fs']) (auto simp: ss'_def x_def)
qed

lemma tracks_put:
  assumes "tracks env L (s, fs)" and "later (Suc (Suc n)) (kv_segments s)" and "ke_faults env = no_faults"
    and "kv_counter s < mc_run_merge_every (kv_merge_config s)"
    and "nat (sint (ss_max_segment_size_bytes (kv_segments s))) + 13 + length (ke_serialize env k) + length v < 2 ^ 32"
    and "ke_key_mapper env (ke_serialize env k) = Ok k"
  shows "\<exists>L' now s' fs'. kv_put env k v (s, fs) = (Ok (), (s', fs')) \<and> tracks env L' (s', fs')
    \<and> entries_of L' = entries_of L @ [(now, entry_new k v)] \<and> later n (kv_segments s')
    \<and> ss_max_segment_size_bytes (kv_segments s') = ss_max_segment_size_bytes (kv_segments s)
    \<and> ss_directory (kv_segments s') = ss_directory (kv_segments s)
    \<and> kv_counter s' = kv_counter s + 1 \<and> kv_merge_config s' = kv_merge_config s"
proof -
  let ?ser = "ke_serialize env"
  have kv: "kv_ok (s, fs)" and st: "seg_tracks ?ser L (kv_segments s, fs)" using assms(1) by (simp_all add: tracks_def)
  obtain L1 ss1 fs1 where r: "maybe_rollover_active_segment no_faults (kv_segments s, fs) = (Ok (), (ss1, fs1))"
    "seg_tracks ?ser L1 (ss1, fs1)" "entries_of L1 = entries_of L" "later (Suc n) ss1"
    "ws_current_write_offset (sg_store (ss_active ss1)) \<le> nat (sint (ss_max_segment_size_bytes (kv_segments s)))"
    "ss_max_segment_size_bytes ss1 = ss_max_segment_size_bytes (kv_segments s)" "ss_directory ss1 = ss_directory (kv_segments s)"
    using rollover_tracks [OF st assms(2)] by blast
  have "ws_current_write_offset (sg_store (ss_active ss1)) + 13 + length (?ser k) + length v < 2 ^ 32"
    using r(5) assms(5) by linarith
  from append_tracks [OF r(2,4) assms(3) this] obtain L' now resp ss' fs' where
    a: "append_active env (entry_new k v) (ss1, fs1) = (Ok resp, (ss', fs'))"
    "seg_tracks ?ser L' (ss', fs')" "entries_of L' = entries_of L @ [(now, entry_new k v)]" "later n ss'"
    "ss_max_segment_size_bytes ss' = ss_max_segment_size_bytes (kv_segments s)" "ss_directory ss' = ss_directory (kv_segments s)"
    using r(3,6,7) by metis
  define s' where "s' = s\<lparr>kv_segments := ss', kv_key_directory := hm_insert k (key_entry_from resp) (kv_key_directory s),
      kv_counter := kv_counter s + 1\<rparr>"
  have put: "kv_put env k v (s, fs) = (Ok (), (s', fs'))"
  proof -
    have "segments_append env k v (kv_segments s, fs) = (Ok resp, (ss', fs'))"
      using r(1) a(1) assms(3) by (simp add: segments_append_def)
    moreover have "\<not> mc_run_merge_every (kv_merge_config s) \<le> kv_counter s" using assms(4) by simp
    ultimately show ?thesis by (simp add: kv_put_def on_segments_def upd_def s'_def sbind_def)
  qed
  have "fresh (kv_segments s, fs)" by (rule fresh_of_ids [OF seg_tracks_fresh_ids [OF st assms(2)]])
  then have "kv_ready (s, fs)" using assms(4) by (simp add: kv_ready_def)
  from kv_put_ok [OF put kv this] have ok: "kv_ok (s', fs')"
    and get: "kv_get no_faults (s', fs') = (kv_get no_faults (s, fs))(k := Ok v)" by simp_all
  have "tracks env L' (s', fs')"
    unfolding tracks_def prod.case
  proof (intro conjI)
    show "seg_tracks ?ser L' (kv_segments s', fs')" using a(2) by (simp add: s'_def)
    show "\<forall>x\<in>set (entries_of L'). entry_good env x"
      using assms(1,6) by (auto simp: a(3) tracks_def entry_good_def entry_new_def)
    show "kv_get no_faults (s', fs') = log_map (entries_of L')"
      using assms(1) by (simp add: get a(3) log_map_append tracks_def entry_new_def)
  qed (rule ok)
  with put a show ?thesis
    by (intro exI [of _ L'] exI [of _ now] exI [of _ s'] exI [of _ fs']) (simp add: s'_def)
qed

section \<open>Restarts\<close>

definition loaded :: "string \<Rightarrow> files \<Rightarrow> u64 \<Rightarrow> Segment" where
  "loaded dir fs i = \<lparr>sg_file_id = i, sg_file_path = segment_name i, sg_store =
     \<lparr>ws_file_descriptor = the (file_of dir fs i), ws_current_write_offset = 0, ws_directory_path = dir,
      ws_file_name = segment_name i\<rparr>\<rparr>"

lemma reload_inactive_segment_loads:
  "file_of dir fs i \<noteq> None \<Longrightarrow> reload_inactive_segment no_faults i dir fs = (Ok (loaded dir fs i), fs)"
  by (auto simp: reload_inactive_segment_def store_open_def sbind_def Let_def file_of_def loaded_def)

lemma reload_files_loads:
  assumes "\<forall>name \<in> set names. \<exists>i. name = segment_name i \<and> file_of (ss_directory ss) fs i \<noteq> None"
    and "hm_ok (ss_inactive ss)"
  shows "\<exists>inact. reload_files no_faults names (ss, fs) = (Ok (), (ss\<lparr>ss_inactive := inact\<rparr>, fs)) \<and> hm_ok inact
    \<and> (\<forall>i. hm_get inact i = (if segment_name i \<in> set names \<and> i \<noteq> sg_file_id (ss_active ss)
          then Some (loaded (ss_directory ss) fs i) else hm_get (ss_inactive ss) i))"
  using assms
proof (induction names arbitrary: ss)
  case Nil
  then show ?case by (intro exI [of _ "ss_inactive ss"]) simp
next
  case (Cons name names)
  from Cons.prems(1) obtain i where i: "name = segment_name i" "file_of (ss_directory ss) fs i \<noteq> None" by auto
  show ?case
  proof (cases "i = sg_file_id (ss_active ss)")
    case True
    then have "reload_files no_faults (name # names) (ss, fs) = reload_files no_faults names (ss, fs)"
      using segment_name_recognised [of i] by (simp add: i(1))
    moreover obtain inact where "reload_files no_faults names (ss, fs) = (Ok (), (ss\<lparr>ss_inactive := inact\<rparr>, fs))" "hm_ok inact"
      "\<forall>j. hm_get inact j = (if segment_name j \<in> set names \<and> j \<noteq> sg_file_id (ss_active ss)
          then Some (loaded (ss_directory ss) fs j) else hm_get (ss_inactive ss) j)"
      using Cons.IH [of ss] Cons.prems by auto
    ultimately show ?thesis using True by (intro exI [of _ inact]) (auto simp: i(1))
  next
    case False
    define ss1 where "ss1 = ss\<lparr>ss_inactive := hm_insert i (loaded (ss_directory ss) fs i) (ss_inactive ss)\<rparr>"
    have "reload_files no_faults (name # names) (ss, fs) = reload_files no_faults names (ss1, fs)"
      using segment_name_recognised [of i] False reload_inactive_segment_loads [OF i(2)]
      by (simp add: i(1) on_files_def ss1_def)
    moreover obtain inact where "reload_files no_faults names (ss1, fs) = (Ok (), (ss1\<lparr>ss_inactive := inact\<rparr>, fs))" "hm_ok inact"
      "\<forall>j. hm_get inact j = (if segment_name j \<in> set names \<and> j \<noteq> sg_file_id (ss_active ss1)
          then Some (loaded (ss_directory ss1) fs j) else hm_get (ss_inactive ss1) j)"
      using Cons.IH [of ss1] Cons.prems by (auto simp: ss1_def hm.ok_ins)
    ultimately show ?thesis using False Cons.prems(2)
      by (intro exI [of _ inact]) (auto simp: i(1) ss1_def hm.get_ins)
  qed
qed

subsection \<open>The directory of keys after a restart\<close>

definition dir_read :: "Segments \<Rightarrow> files \<Rightarrow> 'k KeyDirectory \<Rightarrow> 'k \<Rightarrow> (KvError, bytes) res" where
  "dir_read ss fs d k = (case hm_get d k of
     None \<Rightarrow> Err EntryNotFound
   | Some e \<Rightarrow> rbind (segments_read no_faults (ss, fs) (kd_file_id e) (kd_offset e) (kd_entry_length e))
       (\<lambda>stored. Ok (se_value stored)))"

lemma kv_get_dir_read: "kv_get no_faults (s, fs) = dir_read (kv_segments s) fs (kv_key_directory s)"
  by (simp add: fun_eq_iff kv_get_def dir_read_def split: option.splits)

lemma decode_image:
  assumes "length (entry_image ser (now, e)) < 2 ^ 32"
  shows "decode (entry_image ser (now, e)) = Ok (stored_of ser now e)"
proof -
  have "encode ser now e = (Ok (entry_image ser (now, e)) :: (KvError, bytes) res)"
    using assms by (simp add: encode_def entry_image_def Let_def)
  then show ?thesis by (rule decode_encode)
qed

lemma directory_reload_reads:
  assumes "seg_at ss i = Some seg" and "file_content fs (seg_fd seg) = concat (map (entry_image ser) (pre @ xs))"
    and "length (concat (map (entry_image ser) (pre @ xs))) < 2 ^ 32" and "hm_ok d" and "dir_read ss fs d = log_map es"
  shows "hm_ok (directory_reload i (layout ser (length (concat (map (entry_image ser) pre))) xs) d)
    \<and> dir_read ss fs (directory_reload i (layout ser (length (concat (map (entry_image ser) pre))) xs) d) = log_map (es @ xs)"
  using assms(2-)
proof (induction xs arbitrary: pre d es)
  case (Cons x xs)
  obtain now e where x: "x = (now, e)" by (cases x)
  define off where "off = length (concat (map (entry_image ser) pre))"
  define img where "img = entry_image ser (now, e)"
  have len: "length img = 13 + length (ser (en_key e)) + length (en_value e)" by (simp add: img_def entry_image_def)
  define loc where "loc = \<lparr>kd_file_id = i, kd_offset = off, kd_entry_length = length img\<rparr>"
  define d1 where "d1 = hm_insert (en_key e) loc d"
  have step: "directory_reload i (layout ser off (x # xs)) d = directory_reload i (layout ser (off + length img) xs) d1"
    by (simp add: directory_reload_def x d1_def loc_def len add.assoc)
  have "take (length img) (drop off (file_content fs (seg_fd seg))) = img"
    using Cons.prems(1) by (simp add: x off_def img_def)
  moreover have "decode img = Ok (stored_of ser now e)"
    unfolding img_def by (rule decode_image) (use Cons.prems(2) x in simp)
  ultimately have "segments_read no_faults (ss, fs) i off (length img) = Ok (stored_of ser now e)"
    using assms(1) by (simp add: segments_read_seg_at segment_read_def store_read_def)
  then have "dir_read ss fs d1 = (dir_read ss fs d)(en_key e := Ok (en_value e))"
    using Cons.prems(3) by (auto simp: fun_eq_iff dir_read_def d1_def loc_def hm.get_ins stored_of_def)
  then have r: "dir_read ss fs d1 = log_map (es @ [x])" using Cons.prems(4) by (simp add: x log_map_append)
  have o: "off + length img = length (concat (map (entry_image ser) (pre @ [x])))" by (simp add: off_def img_def x)
  have "hm_ok d1" using Cons.prems(3) by (simp add: d1_def hm.ok_ins)
  from Cons.IH [of "pre @ [x]" d1 "es @ [x]", OF _ _ this r] Cons.prems(1,2) show ?case
    unfolding off_def [symmetric] step o by simp
qed (simp add: directory_reload_def)

lemma reload_segments_reads:
  assumes "\<forall>(i, es) \<in> set L. seg_at ss i = Some (sg i) \<and> file_content fs (seg_fd (sg i)) = concat (map (entry_image ser) es)
      \<and> length (concat (map (entry_image ser) es)) < 2 ^ 32"
    and "\<forall>x \<in> set (entries_of L). key_mapper (ser (en_key (snd x))) = Ok (en_key (snd x))"
    and "hm_ok d" and "dir_read ss fs d = log_map acc"
  shows "\<exists>d'. reload_segments no_faults fs key_mapper (map (\<lambda>(i, es). (i, sg i)) L) d = Ok d'
    \<and> dir_read ss fs d' = log_map (acc @ entries_of L)"
  using assms
proof (induction L arbitrary: d acc)
  case (Cons x L)
  obtain i es where x: "x = (i, es)" by (cases x)
  have seg: "seg_at ss i = Some (sg i)" "file_content fs (seg_fd (sg i)) = concat (map (entry_image ser) es)"
    "length (concat (map (entry_image ser) es)) < 2 ^ 32" using Cons.prems(1) by (auto simp: x)
  have "segment_read_full no_faults fs key_mapper (sg i) = Ok (layout ser 0 es)"
    using decode_multi_images [OF seg(3), of key_mapper] Cons.prems(2)
    by (force simp: segment_read_full_def store_read_full_def seg(2) x)
  moreover have d1: "hm_ok (directory_reload i (layout ser 0 es) d)"
    "dir_read ss fs (directory_reload i (layout ser 0 es) d) = log_map (acc @ es)"
    using directory_reload_reads [OF seg(1), where pre = "[]" and xs = es and d = d and es = acc] seg(2,3) Cons.prems(3,4)
    by simp_all
  moreover obtain d' where "reload_segments no_faults fs key_mapper (map (\<lambda>(i, es). (i, sg i)) L)
      (directory_reload i (layout ser 0 es) d) = Ok d'" "dir_read ss fs d' = log_map ((acc @ es) @ entries_of L)"
    using Cons.IH [OF _ _ d1] Cons.prems(1,2) by (auto simp: x)
  ultimately show ?case by (simp add: x)
qed auto

subsection \<open>Starting\<close>

text \<open>The hash map of segments is traversed in the order of the identifiers.\<close>

definition id_order :: "'k kv_env \<Rightarrow> bool" where
  "id_order env \<longleftrightarrow> (\<forall>segs. mset (ke_segment_order env segs) = mset segs \<and> sorted (map fst (ke_segment_order env segs)))"

lemma ordered_segments:
  assumes "id_order env" and "hm_ok segs" and "sorted_wrt (<) (map fst L)"
    and "\<forall>i. hm_get segs i = (if i \<in> fst ` set L then Some (sg i) else None)"
  shows "ke_segment_order env segs = map (\<lambda>(i, es). (i, sg i)) L"
proof -
  define os where "os = ke_segment_order env segs"
  have m: "mset os = mset segs" and so: "sorted (map fst os)" using assms(1) by (simp_all add: id_order_def os_def)
  have set: "set os = set segs" using m by (rule mset_eq_setD)
  have dist: "distinct (map fst os)"
    using assms(2) m by (simp add: hm_ok_def) (metis mset_eq_imp_distinct_iff mset_map)
  have el: "(i, x) \<in> set os \<longleftrightarrow> i \<in> fst ` set L \<and> x = sg i" for i x
    using assms(4) hm_get_Some [OF assms(2), of i x] by (auto simp: set split: if_splits)
  then have "set (map fst os) = set (map fst L)" by force
  moreover have "sorted (map fst L)" "distinct (map fst L)"
    using assms(3) by (simp_all add: strict_sorted_iff)
  ultimately have ids: "map fst os = map fst L" using so dist by (intro sorted_distinct_set_unique)
  have "os = map (\<lambda>i. (i, sg i)) (map fst os)"
    using el by (auto intro!: map_idI [symmetric] simp: comp_def)
  also have "\<dots> = map (\<lambda>(i, es). (i, sg i)) L" unfolding ids by (simp add: case_prod_beta)
  finally show ?thesis by (simp add: os_def)
qed

lemma listed_names:
  "set (map (\<lambda>((_, name), _). name) (filter (\<lambda>((dir', _), _). dir' = dir) (fs_names fs))) = {name. \<exists>fd. ((dir, name), fd) \<in> set (fs_names fs)}"
  by force

lemma read_entries_no_faults [simp]: "read_entries no_faults n names = names"
  by (induction names arbitrary: n) auto

text \<open>The identifier of the segment a store starts with.\<close>

definition first_id :: "KvConfig \<Rightarrow> u64" where
  "first_id config = ck_monotonic (cf_clock config) (ck_ticks (cf_clock config))"

lemma kv_new_tracks:
  assumes i: "i = first_id config" and "journal (ke_serialize env) (cf_directory config) L fs" and "\<forall>x \<in> set (entries_of L). entry_good env x"
    and "ke_faults env = no_faults" and "id_order env" and "\<forall>j \<in> fst ` set L. j < i"
    and "cf_merge_config config = Some mc"
  shows "\<exists>s fs'. kv_new env config fs = (Ok s, fs') \<and> tracks env (L @ [(i, [])]) (s, fs')
    \<and> ss_clock (kv_segments s) = snd (next_file_id (cf_clock config)) \<and> ss_directory (kv_segments s) = cf_directory config
    \<and> ss_max_segment_size_bytes (kv_segments s) = cf_max_segment_size_bytes config
    \<and> kv_merge_config s = mc \<and> kv_counter s = 0"
proof -
  let ?dir = "cf_directory config" and ?ser = "ke_serialize env"
  note i_eq = i [unfolded first_id_def]
  have ni: "i \<notin> fst ` set L" using assms(6) by auto
  have none: "file_of ?dir fs i = None" by (rule file_of_None [OF assms(2) ni])
  define seg where "seg = \<lparr>sg_file_id = i, sg_file_path = segment_name i, sg_store =
      \<lparr>ws_file_descriptor = length (fs_content fs), ws_current_write_offset = 0, ws_directory_path = ?dir,
       ws_file_name = segment_name i\<rparr>\<rparr>"
  define fs' where "fs' = fs\<lparr>fs_names := fs_names fs @ [((?dir, segment_name i), length (fs_content fs))],
      fs_content := fs_content fs @ [[]]\<rparr>"
  have new: "segment_new no_faults i ?dir fs = (Ok seg, fs')"
    using segment_new_new_file [OF none] by (simp add: seg_def fs'_def)
  have j: "journal ?ser ?dir (L @ [(i, [])]) fs'"
    unfolding fs'_def by (rule journal_new_segment [OF assms(2,6)])
  have fi: "file_of ?dir fs' i = Some (length (fs_content fs))"
    using none by (simp add: fs'_def file_of_append)
  define ss0 where "ss0 = \<lparr>ss_active = seg, ss_inactive = [], ss_clock = snd (next_file_id (cf_clock config)),
      ss_max_segment_size_bytes = cf_max_segment_size_bytes config, ss_directory = ?dir\<rparr>"
  define names where "names = map (\<lambda>((_, name), _). name) (filter (\<lambda>((dir', _), _). dir' = ?dir) (fs_names fs'))"
  have there: "file_of ?dir fs' k \<noteq> None" if "k \<in> fst ` set (L @ [(i, [])])" for k
    using j that by (force simp: journal_def holds_entries_def)
  have nm: "segment_name k \<in> set names \<longleftrightarrow> k \<in> fst ` set (L @ [(i, [])])" for k
  proof
    assume "segment_name k \<in> set names"
    then obtain fd where "((?dir, segment_name k), fd) \<in> set (fs_names fs')" unfolding names_def listed_names by blast
    then have "segment_name k \<in> segment_name ` fst ` set (L @ [(i, [])])" using j unfolding journal_def by blast
    then obtain k' where "segment_name k = segment_name k'" "k' \<in> fst ` set (L @ [(i, [])])" by (rule imageE)
    then show "k \<in> fst ` set (L @ [(i, [])])" unfolding segment_name_inject by blast
  next
    assume "k \<in> fst ` set (L @ [(i, [])])"
    from there [OF this] obtain fd where "map_of (fs_names fs') (?dir, segment_name k) = Some fd" by (auto simp: file_of_def)
    from map_of_SomeD [OF this] show "segment_name k \<in> set names" unfolding names_def listed_names by blast
  qed
  have known: "\<forall>name \<in> set names. \<exists>k. name = segment_name k \<and> file_of (ss_directory ss0) fs' k \<noteq> None"
  proof
    fix name assume n: "name \<in> set names"
    then obtain fd where "((?dir, name), fd) \<in> set (fs_names fs')" unfolding names_def listed_names by blast
    then obtain k where "name = segment_name k" using j unfolding journal_def by blast
    with n nm there show "\<exists>k. name = segment_name k \<and> file_of (ss_directory ss0) fs' k \<noteq> None"
      by (auto simp: ss0_def)
  qed
  obtain inact where rl: "reload_files no_faults names (ss0, fs') = (Ok (), (ss0\<lparr>ss_inactive := inact\<rparr>, fs'))"
    and ok: "hm_ok inact" and get: "\<forall>k. hm_get inact k = (if segment_name k \<in> set names \<and> k \<noteq> sg_file_id (ss_active ss0)
          then Some (loaded (ss_directory ss0) fs' k) else hm_get (ss_inactive ss0) k)"
    using reload_files_loads [OF known] by (auto simp: ss0_def)
  have get': "\<forall>k. hm_get inact k = (if k \<in> fst ` set L then Some (loaded ?dir fs' k) else None)"
    using get nm ni by (auto simp: ss0_def seg_def hm_get_def)
  define ss where "ss = ss0\<lparr>ss_inactive := inact\<rparr>"
  have segs: "segments_new no_faults ?dir (cf_max_segment_size_bytes config) (cf_clock config) fs = (Ok ss, fs')"
    using new rl
    by (simp add: segments_new_def next_file_id_def monotonic_now_def i_eq [symmetric] segments_reload_def get_files_def
        names_def [symmetric] ss0_def ss_def)
  have order: "ke_segment_order env inact = map (\<lambda>(k, es). (k, loaded ?dir fs' k)) L"
    using ordered_segments [OF assms(5) ok _ get'] assms(2) by (simp add: journal_def)
  have at: "seg_at ss k = Some (loaded ?dir fs' k)" if "k \<in> fst ` set L" for k
    using that ni get' by (auto simp: seg_at_def ss_def ss0_def seg_def)
  have held: "seg_at ss k = Some (loaded ?dir fs' k) \<and> file_content fs' (seg_fd (loaded ?dir fs' k)) = concat (map (entry_image ?ser) es)
      \<and> length (concat (map (entry_image ?ser) es)) < 2 ^ 32" if "(k, es) \<in> set L" for k es
  proof -
    have "holds_entries ?ser ?dir fs' k es" using j that by (auto simp: journal_def)
    moreover have "k \<in> fst ` set L" using that by force
    ultimately show ?thesis using at by (auto simp: holds_entries_def loaded_def)
  qed
  obtain d where d: "reload_segments no_faults fs' (ke_key_mapper env) (ke_segment_order env inact) [] = Ok d"
    "dir_read ss fs' d = log_map ([] @ entries_of L)"
    unfolding order
    using reload_segments_reads [of L ss "loaded ?dir fs'" fs' ?ser "ke_key_mapper env" "[]" "[]"] held assms(3)
    by (auto simp: entry_good_def dir_read_def hm_get_def log_map_def fun_eq_iff)
  define s where "s = \<lparr>kv_segments = ss, kv_key_directory = d, kv_merge_config = mc, kv_counter = 0\<rparr>"
  have kv: "kv_new env config fs = (Ok s, fs')"
    using segs d(1) by (simp add: kv_new_def assms(4,7) s_def) (simp add: ss_def)
  have mo: "set (ke_segment_order env segs) = set segs" for segs
    using assms(5) mset_eq_setD unfolding id_order_def by blast
  have kvok: "kv_ok (s, fs')"
    using assms(2) none
    by (intro kv_new_establishes [OF kv]) (auto simp: journal_def file_of_def i_eq [symmetric] mo)
  moreover have "seg_tracks ?ser (L @ [(i, [])]) (ss, fs')"
    unfolding seg_tracks_def prod.case
  proof (intro conjI allI impI)
    show "segs_ok (ss, fs')" using kvok by (simp add: kv_ok_def s_def)
    show "journal ?ser (ss_directory ss) (L @ [(i, [])]) fs'" using j by (simp add: ss_def ss0_def)
    show "file_of (ss_directory ss) fs' (fst (last (L @ [(i, [])]))) = Some (seg_fd (ss_active ss))"
      using fi by (simp add: ss_def ss0_def seg_def)
    show "sg_file_id (ss_active ss) = fst (last (L @ [(i, [])]))" by (simp add: ss_def ss0_def seg_def)
    fix k assume "seg_at ss k \<noteq> None"
    then show "k \<in> fst ` set (L @ [(i, [])])"
      using get' by (auto simp: seg_at_def ss_def ss0_def seg_def split: if_splits)
  qed simp
  moreover have "kv_get no_faults (s, fs') = log_map (entries_of (L @ [(i, [])]))"
    using d(2) by (simp add: kv_get_dir_read s_def)
  ultimately have "tracks env (L @ [(i, [])]) (s, fs')"
    using assms(3) by (simp add: tracks_def s_def)
  with kv show ?thesis by (intro exI [of _ s] exI [of _ fs']) (simp add: s_def ss_def ss0_def)
qed

section \<open>Properties\<close>

fun kv_puts :: "'k kv_env \<Rightarrow> ('k \<times> bytes) list \<Rightarrow> ('k, unit) kv_call" where
  "kv_puts env [] = slift (Ok ())"
| "kv_puts env ((k, v) # kvs) = sbind (kv_put env k v) (\<lambda>_. kv_puts env kvs)"

fun puts_map :: "('k \<times> bytes) list \<Rightarrow> ('k \<Rightarrow> (KvError, bytes) res) \<Rightarrow> 'k \<Rightarrow> (KvError, bytes) res" where
  "puts_map [] m = m"
| "puts_map ((k, v) # kvs) m = puts_map kvs (m(k := Ok v))"

text \<open>Entries whose keys are read back and which leave a segment within the reader's 32-bit offsets.\<close>

definition puttable :: "'k kv_env \<Rightarrow> u64 \<Rightarrow> 'k \<times> bytes \<Rightarrow> bool" where
  "puttable env max_size = (\<lambda>(k, v). nat (sint max_size) + 13 + length (ke_serialize env k) + length v < 2 ^ 32
     \<and> ke_key_mapper env (ke_serialize env k) = Ok k)"

lemma unat_counter_less:
  "unat (c :: u64) + Suc n \<le> unat (m :: u64) \<Longrightarrow> c < m \<and> unat (c + 1) + n \<le> unat m"
proof -
  assume a: "unat c + Suc n \<le> unat m"
  then have "unat c + 1 < 2 ^ 64" using unsigned_less [of m, where 'a = nat] by simp
  then have "unat (c + 1) = unat c + 1" by (simp add: unat_add_lem [of c 1, simplified, THEN iffD1])
  with a show ?thesis by (simp add: word_less_nat_alt)
qed

lemma tracks_puts:
  assumes "tracks env L (s, fs)" and "later (2 * length kvs) (kv_segments s)" and "ke_faults env = no_faults"
    and "unat (kv_counter s) + length kvs \<le> unat (mc_run_merge_every (kv_merge_config s))"
    and "list_all (puttable env (ss_max_segment_size_bytes (kv_segments s))) kvs"
  shows "\<exists>L' s' fs'. kv_puts env kvs (s, fs) = (Ok (), (s', fs')) \<and> tracks env L' (s', fs')
    \<and> ss_directory (kv_segments s') = ss_directory (kv_segments s)
    \<and> kv_get no_faults (s', fs') = puts_map kvs (kv_get no_faults (s, fs))"
  using assms
proof (induction kvs arbitrary: L s fs)
  case (Cons x kvs)
  obtain k v where x: "x = (k, v)" by (cases x)
  have c: "kv_counter s < mc_run_merge_every (kv_merge_config s)"
    "unat (kv_counter s + 1) + length kvs \<le> unat (mc_run_merge_every (kv_merge_config s))"
    using unat_counter_less [of "kv_counter s" "length kvs"] Cons.prems(4) by auto
  have l: "later (Suc (Suc (2 * length kvs))) (kv_segments s)" using Cons.prems(2) by simp
  have p: "nat (sint (ss_max_segment_size_bytes (kv_segments s))) + 13 + length (ke_serialize env k) + length v < 2 ^ 32"
    "ke_key_mapper env (ke_serialize env k) = Ok k" using Cons.prems(5) by (simp_all add: x puttable_def)
  from tracks_put [OF Cons.prems(1) l Cons.prems(3) c(1) p] obtain L1 now s1 fs1 where
    1: "kv_put env k v (s, fs) = (Ok (), (s1, fs1))" "tracks env L1 (s1, fs1)"
    "entries_of L1 = entries_of L @ [(now, entry_new k v)]" "later (2 * length kvs) (kv_segments s1)"
    "ss_max_segment_size_bytes (kv_segments s1) = ss_max_segment_size_bytes (kv_segments s)"
    "ss_directory (kv_segments s1) = ss_directory (kv_segments s)"
    "kv_counter s1 = kv_counter s + 1" "kv_merge_config s1 = kv_merge_config s" by blast
  have "kv_get no_faults (s1, fs1) = (kv_get no_faults (s, fs))(k := Ok v)"
    using 1(2) Cons.prems(1) by (simp add: tracks_def 1(3) log_map_append entry_new_def)
  moreover obtain L' s' fs' where "kv_puts env kvs (s1, fs1) = (Ok (), (s', fs'))" "tracks env L' (s', fs')"
    "ss_directory (kv_segments s') = ss_directory (kv_segments s1)"
    "kv_get no_faults (s', fs') = puts_map kvs (kv_get no_faults (s1, fs1))"
  proof -
    have "unat (kv_counter s1) + length kvs \<le> unat (mc_run_merge_every (kv_merge_config s1))"
      "list_all (puttable env (ss_max_segment_size_bytes (kv_segments s1))) kvs"
      using c(2) Cons.prems(5) 1(5,7,8) by (simp_all add: x)
    from Cons.IH [OF 1(2,4) Cons.prems(3) this] show thesis using that by blast
  qed
  ultimately show ?case using 1(1,6) by (auto simp: x)
qed auto

lemma fold_puts:
  "puts_map kvs (\<lambda>_. Err EntryNotFound)
     = (\<lambda>k. case map_of (rev kvs) k of Some v \<Rightarrow> Ok v | None \<Rightarrow> Err EntryNotFound)"
proof
  fix k
  have "puts_map kvs m k = (case map_of (rev kvs) k of Some v \<Rightarrow> Ok v | None \<Rightarrow> m k)" for m :: "'a \<Rightarrow> (KvError, bytes) res"
  proof (induction kvs arbitrary: m)
    case (Cons x kvs)
    show ?case by (cases x) (simp add: Cons.IH map_add_def split: option.splits)
  qed simp
  then show "puts_map kvs (\<lambda>_. Err EntryNotFound) k = (case map_of (rev kvs) k of Some v \<Rightarrow> Ok v | None \<Rightarrow> Err EntryNotFound)"
    by simp
qed

text \<open>A store on the files of one that matches its journal reads what that one read.\<close>

lemma restart_tracks:
  assumes "tracks env L (s, fs)" and "ke_faults env = no_faults" and "id_order env"
    and "cf_directory config = ss_directory (kv_segments s)" and "cf_merge_config config = Some mc"
    and "sg_file_id (ss_active (kv_segments s)) < first_id config"
  shows "\<exists>s' fs'. kv_new env config fs = (Ok s', fs') \<and> tracks env (L @ [(first_id config, [])]) (s', fs')
    \<and> ss_clock (kv_segments s') = snd (next_file_id (cf_clock config)) \<and> ss_directory (kv_segments s') = cf_directory config
    \<and> ss_max_segment_size_bytes (kv_segments s') = cf_max_segment_size_bytes config
    \<and> kv_merge_config s' = mc \<and> kv_counter s' = 0"
proof -
  note t = assms(1) [unfolded tracks_def seg_tracks_def prod.case]
  have "\<forall>j \<in> fst ` set L. j < first_id config"
  proof
    fix j assume "j \<in> fst ` set L"
    with t have "j \<le> fst (last L)" using journal_below_last by blast
    also have "\<dots> < first_id config" using t assms(6) by simp
    finally show "j < first_id config" .
  qed
  with t assms(4) show ?thesis
    by (intro kv_new_tracks [OF refl _ _ assms(2,3) _ assms(5)]) simp_all
qed

lemma restart_reads:
  assumes "tracks env L (s, fs)" and "ke_faults env = no_faults" and "id_order env"
    and "cf_directory config = ss_directory (kv_segments s)" and "cf_merge_config config = Some mc"
    and "sg_file_id (ss_active (kv_segments s)) < first_id config"
  shows "\<exists>s' fs'. kv_new env config fs = (Ok s', fs') \<and> kv_get no_faults (s', fs') = kv_get no_faults (s, fs)"
  using restart_tracks [OF assms] assms(1) by (auto simp: tracks_def)


text \<open>A store that changes its segment with every entry; the order of traversal is an argument.\<close>

definition ordered_env :: "((u64 \<times> Segment) list \<Rightarrow> (u64 \<times> Segment) list) \<Rightarrow> UUIDWasiKey kv_env" where
  "ordered_env order = sample_env\<lparr>ke_segment_order := order\<rparr>"

definition two_values :: "(UUIDWasiKey \<times> bytes) list" where
  "two_values = [([107], [1]), ([107], [2])]"

lemma id_order_sort: "id_order (ordered_env (sort_key fst))"
  by (simp add: id_order_def ordered_env_def sample_env_def)

text \<open>The store after the two insertions, and what a restart on its files reads.\<close>

definition after_two :: "((u64 \<times> Segment) list \<Rightarrow> (u64 \<times> Segment) list) \<Rightarrow> (UUIDWasiKey KVStore \<times> files) option" where
  "after_two order = (case kv_new (ordered_env order) (sample_config 0) no_files of
     (Ok s, fs) \<Rightarrow> (case kv_puts (ordered_env order) two_values (s, fs) of (Ok _, st) \<Rightarrow> Some st | _ \<Rightarrow> None)
   | _ \<Rightarrow> None)"

definition read_after_restart :: "((u64 \<times> Segment) list \<Rightarrow> (u64 \<times> Segment) list) \<Rightarrow> (KvError, bytes) res option" where
  "read_after_restart order = (case after_two order of
     None \<Rightarrow> None
   | Some (s, fs) \<Rightarrow> (case kv_new (ordered_env order) (sample_config 9) fs of
       (Ok s', fs') \<Rightarrow> Some (kv_get no_faults (s', fs') [107]) | _ \<Rightarrow> None))"

lemma after_two_active:
  "case after_two (sort_key fst) of None \<Rightarrow> False | Some (s, fs) \<Rightarrow> sg_file_id (ss_active (kv_segments s)) < 10"
  by code_simp



end
