(* ===== verification/Node_Restore.thy ===== *)
theory Node_Restore
  imports Node_Correct KV_Durable
begin

text \<open>
  Saving and restoring the node (\<^verbatim>\<open>Node::store_state\<close> and \<^verbatim>\<open>Node::restore\<close> in
  \<^verbatim>\<open>node/src/node.rs\<close>) across two runs of the component: the second run starts on the files the
  first left behind. The result composes the journal of the key-value store (theory
  \<^verbatim>\<open>KV_Durable\<close>) with the node's four saved parts; that \<^verbatim>\<open>bincode\<close> decodes what it encoded is a
  hypothesis.
\<close>

section \<open>Saving\<close>

definition guest_env :: "UUIDWasiKey kv_env \<Rightarrow> bool" where
  "guest_env env \<longleftrightarrow> ke_faults env = no_faults \<and> ke_serialize env = uuid_serialize \<and> ke_key_mapper env = uuid_key_from
     \<and> id_order env"

text \<open>
  The store of the component (\<^verbatim>\<open>crates/kv/src/lib.rs\<close>) with its journal, before \<open>n\<close> more
  insertions: no merge is due and the clock increases.
\<close>

definition guest_store :: "nat \<Rightarrow> UUIDWasiKey kv_env \<Rightarrow> UUIDWasiKey journal \<Rightarrow> kv_store \<times> files \<Rightarrow> bool" where
  "guest_store n env L = (\<lambda>(s, fs). tracks env L (s, fs) \<and> later (2 * n) (kv_segments s)
     \<and> unat (kv_counter s) + n \<le> unat (mc_run_merge_every (kv_merge_config s))
     \<and> ss_max_segment_size_bytes (kv_segments s) = 1048576 \<and> ss_directory (kv_segments s) = ''bitcoin-wasm'')"

abbreviation state_keys :: "UUIDWasiKey list" where
  "state_keys \<equiv> [CHAIN_STATE_KEY, WALLET_STATE_KEY, SIGNER_STATE_KEY, NODE_STATE_KEY]"

lemma state_keys_ok: "list_all (\<lambda>k. utf8_valid k \<and> length k < 16) state_keys"
  by code_simp

lemma db_insert_tracks:
  assumes "guest_store (Suc n) env L st" and "guest_env env" and "k \<in> set state_keys" and "length v < 2 ^ 31"
  obtains L' db fs where "db_insert env k v st = (Ok (), (db, fs))" and "guest_store n env L' (db, fs)"
    and "kv_get no_faults (db, fs) = (kv_get no_faults st)(k := Ok v)"
proof -
  obtain s fs where st: "st = (s, fs)" by (cases st)
  note g = assms(1) [unfolded guest_store_def st prod.case]
  have c: "kv_counter s < mc_run_merge_every (kv_merge_config s)"
    "unat (kv_counter s + 1) + n \<le> unat (mc_run_merge_every (kv_merge_config s))"
    using unat_counter_less [of "kv_counter s" n] g by auto
  have k: "utf8_valid k" "length k < 16" using state_keys_ok assms(3) by (auto simp: list_all_iff)
  have m: "ke_key_mapper env (ke_serialize env k) = Ok k"
    using assms(2) uuid.key_mapper_serialize [OF k(1)] by (simp add: guest_env_def)
  have z: "nat (sint (ss_max_segment_size_bytes (kv_segments s))) + 13 + length (ke_serialize env k) + length v < 2 ^ 32"
    using assms(2,4) k(2) g by (simp add: guest_env_def uuid_serialize_def)
  have t: "tracks env L (s, fs)" and l: "later (Suc (Suc (2 * n))) (kv_segments s)" using g by simp_all
  have f: "ke_faults env = no_faults" using assms(2) by (simp add: guest_env_def)
  from tracks_put [OF t l f c(1) z m] obtain L' now s' fs' where
    p: "kv_put env k v (s, fs) = (Ok (), (s', fs'))" "tracks env L' (s', fs')"
    "entries_of L' = entries_of L @ [(now, entry_new k v)]" "later (2 * n) (kv_segments s')"
    "ss_max_segment_size_bytes (kv_segments s') = ss_max_segment_size_bytes (kv_segments s)"
    "ss_directory (kv_segments s') = ss_directory (kv_segments s)"
    "kv_counter s' = kv_counter s + 1" "kv_merge_config s' = kv_merge_config s"
    by blast
  have "db_insert env k v st = (Ok (), (s', fs'))"
    using p(1) by (simp add: st db_insert_def guest_kv_insert_def kv_update_def smap_err_def)
  moreover have "guest_store n env L' (s', fs')" using p c(2) g by (simp add: guest_store_def)
  moreover have "kv_get no_faults (s', fs') = (kv_get no_faults st)(k := Ok v)"
    using p(2) g by (simp add: st tracks_def p(3) log_map_append entry_new_def)
  ultimately show thesis by (rule that)
qed

lemma store_state_tracks:
  assumes "guest_store 4 (ne_kv env) L (nd_db n, fs)" and "guest_env (ne_kv env)"
    and "ne_save_chain env (cc_chain_state (nd_chain n)) = Some b1"
    and "ne_save_wallet env (cc_wallet (nd_chain n)) = Some b2"
    and "sv_serialize (ne_signer env) (nd_signer n) = Some b3" and "ne_save_node env (nd_node_state n) = Some b4"
    and "list_all (\<lambda>b. length b < 2 ^ 31) [b1, b2, b3, b4]"
  shows "\<exists>L' db fs'. store_state env ((n, fs), h) = (Ok (), ((n\<lparr>nd_db := db\<rparr>, fs'), h))
    \<and> guest_store 0 (ne_kv env) L' (db, fs')
    \<and> kv_get no_faults (db, fs') = (kv_get no_faults (nd_db n, fs))(CHAIN_STATE_KEY := Ok b1,
        WALLET_STATE_KEY := Ok b2, SIGNER_STATE_KEY := Ok b3, NODE_STATE_KEY := Ok b4)"
proof -
  have size: "length b1 < 2 ^ 31" "length b2 < 2 ^ 31" "length b3 < 2 ^ 31" "length b4 < 2 ^ 31"
    using assms(7) by simp_all
  have g: "guest_store (Suc (Suc (Suc (Suc 0)))) (ne_kv env) L (nd_db n, fs)" using assms(1) by (simp add: numeral_eq_Suc)
  have k: "CHAIN_STATE_KEY \<in> set state_keys" "WALLET_STATE_KEY \<in> set state_keys" "SIGNER_STATE_KEY \<in> set state_keys"
    "NODE_STATE_KEY \<in> set state_keys" by simp_all
  obtain L1 db1 fs1 where 1: "db_insert (ne_kv env) CHAIN_STATE_KEY b1 (nd_db n, fs) = (Ok (), (db1, fs1))"
    "guest_store (Suc (Suc (Suc 0))) (ne_kv env) L1 (db1, fs1)"
    "kv_get no_faults (db1, fs1) = (kv_get no_faults (nd_db n, fs))(CHAIN_STATE_KEY := Ok b1)"
    by (rule db_insert_tracks [OF g assms(2) k(1) size(1)])
  obtain L2 db2 fs2 where 2: "db_insert (ne_kv env) WALLET_STATE_KEY b2 (db1, fs1) = (Ok (), (db2, fs2))"
    "guest_store (Suc (Suc 0)) (ne_kv env) L2 (db2, fs2)"
    "kv_get no_faults (db2, fs2) = (kv_get no_faults (db1, fs1))(WALLET_STATE_KEY := Ok b2)"
    by (rule db_insert_tracks [OF 1(2) assms(2) k(2) size(2)])
  obtain L3 db3 fs3 where 3: "db_insert (ne_kv env) SIGNER_STATE_KEY b3 (db2, fs2) = (Ok (), (db3, fs3))"
    "guest_store (Suc 0) (ne_kv env) L3 (db3, fs3)"
    "kv_get no_faults (db3, fs3) = (kv_get no_faults (db2, fs2))(SIGNER_STATE_KEY := Ok b3)"
    by (rule db_insert_tracks [OF 2(2) assms(2) k(3) size(3)])
  obtain L4 db4 fs4 where 4: "db_insert (ne_kv env) NODE_STATE_KEY b4 (db3, fs3) = (Ok (), (db4, fs4))"
    "guest_store 0 (ne_kv env) L4 (db4, fs4)"
    "kv_get no_faults (db4, fs4) = (kv_get no_faults (db3, fs3))(NODE_STATE_KEY := Ok b4)"
    by (rule db_insert_tracks [OF 3(2) assms(2) k(4) size(4)])
  have "store_state env ((n, fs), h) = (Ok (), ((n\<lparr>nd_db := db4\<rparr>, fs4), h))"
    using 1(1) 2(1) 3(1) 4(1) assms(3-6)
    by (simp add: store_state_def sbind_def sunwrap_def on_db_def of_opt_def chain_get_state_def get_state_def
        guest_signer_get_state_def signer_get_state_def)
  with 4(2,3) 3(3) 2(3) 1(3) show ?thesis by auto
qed

section \<open>Restoring\<close>

lemma node_restore_eq:
  assumes "guest_kv_new (ne_kv env) (ne_kv_clock env) fs = (Ok db, fs')"
    and "db_get (ke_faults (ne_kv env)) (db, fs') WALLET_STATE_KEY = Ok b2" and "ne_load_wallet env b2 = Some w"
    and "db_get (ke_faults (ne_kv env)) (db, fs') SIGNER_STATE_KEY = Ok b3" and "sv_deserialize (ne_signer env) b3 = Some sg"
    and "db_get (ke_faults (ne_kv env)) (db, fs') NODE_STATE_KEY = Ok b4" and "ne_load_node env b4 = Some ns"
    and "db_get (ke_faults (ne_kv env)) (db, fs') CHAIN_STATE_KEY = Ok b1" and "ne_load_chain env b1 = Some cs"
  shows "node_restore env (fs, h) =
    (case chain_connect (ne_sha256 env) (ne_raw_socket env) (ns_socket_address ns) (ns_network ns) h of
       (r, h') \<Rightarrow> (rbind r (\<lambda>p2p. Ok \<lparr>nd_chain = \<lparr>cc_p2p = p2p, cc_chain_state = cs, cc_wallet = w\<rparr>, nd_signer = sg,
          nd_node_state = ns, nd_db = db\<rparr>), (fs', h')))"
  using assms
  by (simp add: node_restore_def fst_call_def snd_call_def load_def sbind_def sunwrap_def of_opt_def guest_new_def
      watch_only_from_def guest_signer_new_def simple_signer_from_def chain_restore_def split: prod.splits res.splits)

section \<open>Properties\<close>

lemma guest_kv_restart:
  assumes "guest_store m env L (s, fs)" and "guest_env env"
    and "sg_file_id (ss_active (kv_segments s)) < ck_monotonic clk (ck_ticks clk)"
  shows "\<exists>s' fs'. guest_kv_new env clk fs = (Ok s', fs') \<and> kv_get no_faults (s', fs') = kv_get no_faults (s, fs)"
proof -
  have "\<exists>s' fs'. kv_new env (guest_kv_config clk) fs = (Ok s', fs') \<and> kv_get no_faults (s', fs') = kv_get no_faults (s, fs)"
    by (rule restart_reads [of env L]) (use assms in \<open>auto simp: guest_store_def guest_env_def guest_kv_config_def first_id_def\<close>)
  then show ?thesis by (auto simp: guest_kv_new_def)
qed


text \<open>A node on a store that was just started, with encodings that are decoded to what they came from.\<close>

definition restoring_env :: "clock \<Rightarrow> (u32 list, unit, unit) node_env" where
  "restoring_env clk = sample_node_env\<lparr>ne_kv := ordered_env (sort_key fst), ne_kv_clock := clk,
     ne_load_chain := (\<lambda>_. Some (cc_chain_state sample_chain)), ne_load_wallet := (\<lambda>_. Some (cc_wallet sample_chain)),
     ne_load_node := (\<lambda>_. Some (nd_node_state (sample_node sample_chain)))\<rparr>"

lemma started_guest_store:
  "\<exists>db fs. guest_kv_new (ordered_env (sort_key fst)) (sample_clock 0) no_files = (Ok db, fs)
     \<and> guest_store 4 (ordered_env (sort_key fst)) [(1, [])] (db, fs)"
proof -
  let ?env = "ordered_env (sort_key fst)" and ?config = "guest_kv_config (sample_clock 0)"
  have f: "ke_faults ?env = no_faults" by (simp add: ordered_env_def sample_env_def)
  have "journal (ke_serialize ?env) (cf_directory ?config) [] no_files"
    by (simp add: journal_def no_files_def fs_ok_def)
  from kv_new_tracks [OF refl this _ f id_order_sort, where mc = new_with_all_segments_to_read]
  obtain s fs' where s: "kv_new ?env ?config no_files = (Ok s, fs')" "tracks ?env [(first_id ?config, [])] (s, fs')"
    "ss_clock (kv_segments s) = snd (next_file_id (cf_clock ?config))" "ss_directory (kv_segments s) = cf_directory ?config"
    "ss_max_segment_size_bytes (kv_segments s) = cf_max_segment_size_bytes ?config"
    "kv_merge_config s = new_with_all_segments_to_read" "kv_counter s = 0"
    by (auto simp: guest_kv_config_def)
  have i: "first_id ?config = 1" by (simp add: first_id_def guest_kv_config_def sample_clock_def)
  have m: "mono_id (kv_segments s) k = of_nat k + 2" for k
    by (simp add: mono_id_def s(3) next_file_id_def monotonic_now_def guest_kv_config_def sample_clock_def)
  have u: "unat (of_nat k + 2 :: u64) = k + 2" if "k < 8" for k
    using that by (simp add: unat_of_nat unat_add_lem [THEN iffD1])
  have "sg_file_id (ss_active (kv_segments s)) = 1" using s(2) by (simp add: tracks_def seg_tracks_def i)
  then have "later 8 (kv_segments s)" by (auto simp: later_def m word_less_nat_alt u)
  then have "guest_store 4 ?env [(1, [])] (s, fs')"
    using s(2) [unfolded i] s(4-7) by (simp add: guest_store_def guest_kv_config_def new_with_all_segments_to_read_def)
  with s(1) show ?thesis by (auto simp: guest_kv_new_def)
qed


end
