(* ===== verification/Wire_Types.thy ===== *)
theory Wire_Types
  imports Message
begin

text \<open>
  What the readers of \<^verbatim>\<open>node/src/messages\<close> return on any input, whoever wrote it: values of the
  shape their writers can encode. A reader is \<open>typed\<close> by a predicate when every value it returns
  from fewer than \<open>2 ^ 32\<close> bytes (the size field of a message header has 32 bits) satisfies the
  predicate; it \<open>consumes\<close> when it takes at least one byte, so that the number of repetitions it
  can be run for is bounded by the input. The contract of a structure's \<^verbatim>\<open>read\<close> is a locale,
  interpreted for every structure but two: the readers of block locators and of filter headers
  repeat \<^verbatim>\<open>Hash256::read\<close>, which consumes nothing at the end of the input.
\<close>

section \<open>Typed readers\<close>

named_theorems reader_types \<open>typing what follows a reader\<close>
named_theorems reader_moves \<open>what readers leave of their input\<close>

definition typed :: "'a reader \<Rightarrow> ('a \<Rightarrow> bool) \<Rightarrow> bool" where
  "typed rd ok \<longleftrightarrow> (\<forall>bs x rest. length bs < 2 ^ 32 \<and> rd bs = Ok (x, rest) \<longrightarrow> ok x)"

definition no_growth :: "'a reader \<Rightarrow> bool" where
  "no_growth rd \<longleftrightarrow> (\<forall>bs x rest. rd bs = Ok (x, rest) \<longrightarrow> length rest \<le> length bs)"

definition consumes :: "'a reader \<Rightarrow> bool" where
  "consumes rd \<longleftrightarrow> (\<forall>bs x rest. rd bs = Ok (x, rest) \<longrightarrow> length rest < length bs)"

lemma consumes_no_growth: "consumes rd \<Longrightarrow> no_growth rd"
  by (auto simp: consumes_def no_growth_def intro: less_imp_le)

lemma typed_pret: "ok x \<Longrightarrow> typed (pret x) ok"
  by (simp add: typed_def)

lemma typed_pfail: "typed (pfail e) ok"
  by (simp add: typed_def)

lemma typed_pbind:
  assumes "typed p A" and "no_growth p" and "\<And>x. A x \<Longrightarrow> typed (f x) B"
  shows "typed (pbind p f) B"
  unfolding typed_def
proof (intro allI impI, elim conjE)
  fix bs y rest
  assume l: "length bs < 2 ^ 32" and "pbind p f bs = Ok (y, rest)"
  then obtain x mid where x: "p bs = Ok (x, mid)" "f x mid = Ok (y, rest)" by (auto simp: pbind_apply)
  then have "length mid < 2 ^ 32" "A x" using assms(1,2) l by (fastforce simp: typed_def no_growth_def)+
  with x(2) assms(3) show "B y" by (auto simp: typed_def)
qed

lemma typed_pmap: "typed p A \<Longrightarrow> no_growth p \<Longrightarrow> (\<And>x. A x \<Longrightarrow> B (g x)) \<Longrightarrow> typed (pmap g p) B"
  unfolding pmap_def by (rule typed_pbind [of _ A]) (auto intro: typed_pret)

lemma no_growth_pret [reader_moves]: "no_growth (pret x)" and no_growth_pfail [reader_moves]: "no_growth (pfail e)"
  by (simp_all add: no_growth_def)

lemma no_growth_pbind [reader_moves]: "no_growth p \<Longrightarrow> (\<And>x. no_growth (f x)) \<Longrightarrow> no_growth (pbind p f)"
  by (fastforce simp: no_growth_def pbind_apply)

lemma no_growth_pmap [reader_moves]: "no_growth p \<Longrightarrow> no_growth (pmap g p)"
  unfolding pmap_def by (intro no_growth_pbind no_growth_pret)

lemma no_growth_if [reader_moves]: "(c \<Longrightarrow> no_growth p) \<Longrightarrow> (\<not> c \<Longrightarrow> no_growth q) \<Longrightarrow> no_growth (if c then p else q)"
  by simp

lemma consumes_pbind_first: "consumes p \<Longrightarrow> (\<And>x. no_growth (f x)) \<Longrightarrow> consumes (pbind p f)"
  by (fastforce simp: no_growth_def consumes_def pbind_apply)

lemma consumes_pbind_rest: "no_growth p \<Longrightarrow> (\<And>x. consumes (f x)) \<Longrightarrow> consumes (pbind p f)"
  by (fastforce simp: no_growth_def consumes_def pbind_apply)

lemma consumes_pmap: "consumes p \<Longrightarrow> consumes (pmap g p)"
  unfolding pmap_def by (intro consumes_pbind_first no_growth_pret)

section \<open>The contract\<close>

locale typed_reader =
  fixes rd :: "'a reader" and ok :: "'a \<Rightarrow> bool"
  assumes typed_rd: "typed rd ok" and consumes_rd: "consumes rd"
begin

lemma no_growth_rd: "no_growth rd"
  by (rule consumes_no_growth [OF consumes_rd])

lemma read_n_shrinks: "read_n n rd bs = Ok (xs, rest) \<Longrightarrow> length xs + length rest \<le> length bs"
proof (induction n arbitrary: bs xs rest)
  case (Suc n)
  then obtain x mid ys where "rd bs = Ok (x, mid)" "read_n n rd mid = Ok (ys, rest)" "xs = x # ys"
    by (auto simp: pbind_apply pmap_apply)
  with Suc.IH [of mid ys rest] consumes_rd show ?case by (fastforce simp: consumes_def)
qed simp

lemma no_growth_read_n: "no_growth (read_n n rd)"
  using read_n_shrinks by (fastforce simp: no_growth_def)

lemma typed_read_n: "typed (read_n n rd) (\<lambda>xs. list_all ok xs \<and> fits xs \<and> length xs = n)"
  unfolding typed_def
proof (intro allI impI, elim conjE)
  fix bs xs rest
  assume l: "length bs < 2 ^ 32" and r: "read_n n rd bs = Ok (xs, rest)"
  then have "fits xs" using read_n_shrinks [OF r] by (simp add: fits_def)
  moreover have "list_all ok xs"
    using l r
  proof (induction n arbitrary: bs xs rest)
    case (Suc n)
    then obtain x mid ys where "rd bs = Ok (x, mid)" "read_n n rd mid = Ok (ys, rest)" "xs = x # ys"
      by (auto simp: pbind_apply pmap_apply)
    with Suc.IH [of mid ys rest] Suc.prems(1) consumes_rd typed_rd show ?case
      by (fastforce simp: consumes_def typed_def)
  qed simp
  ultimately show "list_all ok xs \<and> fits xs \<and> length xs = n" using read_n_length [OF r] by blast
qed

text \<open>Reading on after a value or after a sequence of them.\<close>

lemmas bind_rd = typed_pbind [OF typed_rd no_growth_rd]
lemmas map_rd = typed_pmap [OF typed_rd no_growth_rd]
lemmas bind_n = typed_pbind [OF typed_read_n no_growth_read_n]
lemmas map_n = typed_pmap [OF typed_read_n no_growth_read_n]

lemma parse_all_typed: "length p < 2 ^ 32 \<Longrightarrow> parse_all rd p = Ok x \<Longrightarrow> ok x"
  using typed_rd by (auto simp: parse_all_def typed_def)

end

section \<open>Primitives\<close>

lemma consumes_read_exact: "0 < n \<Longrightarrow> consumes (read_exact n)"
  by (auto simp: consumes_def read_exact_Ok)

lemma consumes_ints: "consumes read_u8" "consumes read_u16" "consumes read_u16_be" "consumes read_u32" "consumes read_u64"
  unfolding read_u8_def read_u16_def read_u16_be_def read_u32_def read_u64_def
  by (intro consumes_pmap consumes_read_exact; simp)+

interpretation u8_typed: typed_reader read_u8 "\<lambda>_. True"
  by unfold_locales (simp_all add: typed_def consumes_ints)

interpretation u16_be_typed: typed_reader read_u16_be "\<lambda>_. True"
  by unfold_locales (simp_all add: typed_def consumes_ints)

interpretation u32_typed: typed_reader read_u32 "\<lambda>_. True"
  by unfold_locales (simp_all add: typed_def consumes_ints)

interpretation u64_typed: typed_reader read_u64 "\<lambda>_. True"
  by unfold_locales (simp_all add: typed_def consumes_ints)

interpretation var_int_typed: typed_reader var_int_read "\<lambda>_. True"
proof
  show "consumes var_int_read" unfolding var_int_read_def
    by (intro consumes_pbind_first consumes_ints reader_moves consumes_no_growth)
qed (simp add: typed_def)

lemma no_growth_read_into_zeros [reader_moves]: "no_growth (read_into_zeros n)"
  by (auto simp: no_growth_def read_into_zeros_def)

lemma typed_read_into_zeros: "typed (read_into_zeros n) (\<lambda>bs. length bs = n)"
  by (auto simp: typed_def read_into_zeros_def)

lemma no_growth_hash [reader_moves]: "no_growth hash_read"
  unfolding hash_read_def by (intro reader_moves)

lemma typed_hash: "typed hash_read wf_hash"
  using hash_read_wf by (auto simp: typed_def)

lemmas fixed_types [reader_types] =
  typed_pbind [OF typed_read_into_zeros no_growth_read_into_zeros] typed_pmap [OF typed_read_into_zeros no_growth_read_into_zeros]
  typed_pbind [OF typed_hash no_growth_hash]

lemmas int_types [reader_types] =
  u8_typed.bind_rd u16_be_typed.bind_rd u32_typed.bind_rd u64_typed.bind_rd u64_typed.map_rd var_int_typed.bind_rd

lemmas int_moves [reader_moves] =
  u8_typed.no_growth_rd u16_be_typed.no_growth_rd u32_typed.no_growth_rd u64_typed.no_growth_rd
  var_int_typed.no_growth_rd u8_typed.no_growth_read_n

interpretation var_bytes_typed: typed_reader read_var_bytes fits
proof
  show "typed read_var_bytes fits" unfolding read_var_bytes_def
    by (rule typed_pbind [OF var_int_typed.typed_rd var_int_typed.no_growth_rd])
      (use u8_typed.typed_read_n in \<open>fastforce simp: typed_def\<close>)
  show "consumes read_var_bytes" unfolding read_var_bytes_def
    by (intro consumes_pbind_first var_int_typed.consumes_rd reader_moves)
qed

lemmas var_bytes_types [reader_types] = var_bytes_typed.bind_rd var_bytes_typed.map_rd
lemmas var_bytes_moves [reader_moves] = var_bytes_typed.no_growth_rd

lemmas reader_rules = typed_pret typed_pfail

section \<open>Transactions and blocks\<close>

interpretation out_point_typed: typed_reader out_point_read wf_out_point
proof
  show "typed out_point_read wf_out_point" unfolding out_point_read_def
    by (intro reader_rules reader_types reader_moves) (simp add: wf_out_point_def)
  show "consumes out_point_read" unfolding out_point_read_def
    by (intro consumes_pbind_rest [OF no_growth_hash] consumes_pbind_first consumes_ints reader_moves)
qed

lemmas out_point_types [reader_types] = out_point_typed.bind_rd
lemmas out_point_moves [reader_moves] = out_point_typed.no_growth_rd

interpretation tx_in_typed: typed_reader tx_in_read wf_tx_in
proof
  show "typed tx_in_read wf_tx_in" unfolding tx_in_read_def
    by (intro reader_rules reader_types reader_moves) (simp add: wf_tx_in_def)
  show "consumes tx_in_read" unfolding tx_in_read_def
    by (intro consumes_pbind_first out_point_typed.consumes_rd reader_moves)
qed

interpretation tx_out_typed: typed_reader tx_out_read wf_tx_out
proof
  show "typed tx_out_read wf_tx_out" unfolding tx_out_read_def
    by (intro reader_rules reader_types reader_moves) (simp add: wf_tx_out_def)
  show "consumes tx_out_read" unfolding tx_out_read_def
    by (intro consumes_pbind_first consumes_ints reader_moves)
qed

interpretation witness_data_typed: typed_reader witness_data_read wf_witness_data
proof
  show "typed witness_data_read wf_witness_data" unfolding witness_data_read_def
    by (intro reader_rules reader_types reader_moves) (simp add: wf_witness_data_def)
  show "consumes witness_data_read" unfolding witness_data_read_def
    by (intro consumes_pmap var_bytes_typed.consumes_rd)
qed

lemmas tx_parts_types [reader_types] =
  tx_in_typed.bind_n tx_out_typed.bind_n witness_data_typed.map_n
lemmas tx_parts_moves [reader_moves] =
  tx_in_typed.no_growth_read_n tx_out_typed.no_growth_read_n witness_data_typed.no_growth_read_n

interpretation witness_typed: typed_reader witness_read wf_witness
proof
  show "typed witness_read wf_witness" unfolding witness_read_def
    by (intro reader_rules reader_types reader_moves) (simp add: wf_witness_def)
  show "consumes witness_read" unfolding witness_read_def
    by (intro consumes_pbind_first var_int_typed.consumes_rd reader_moves)
qed

lemmas witness_types [reader_types] = witness_typed.bind_n
lemmas witness_moves [reader_moves] = witness_typed.no_growth_read_n

lemma no_growth_segwit [reader_moves]: "no_growth (tx_read_segwit version segwit_flag)"
  unfolding tx_read_segwit_def by (intro reader_moves)

lemma typed_segwit: "typed (tx_read_segwit version 1) wf_tx"
  unfolding tx_read_segwit_def
  by (intro reader_rules reader_types reader_moves) (simp add: wf_tx_def)

lemma typed_panic: "typed (\<lambda>bs. Panic) ok" and no_growth_panic [reader_moves]: "no_growth (\<lambda>bs. Panic)"
  by (simp_all add: typed_def no_growth_def)

lemma typed_if: "(c \<Longrightarrow> typed p ok) \<Longrightarrow> (\<not> c \<Longrightarrow> typed q ok) \<Longrightarrow> typed (if c then p else q) ok"
  by simp

interpretation tx_typed: typed_reader tx_read wf_tx
proof
  show "typed tx_read wf_tx" unfolding tx_read_def
  proof (intro int_types typed_if)
    fix version n_inputs flag
    assume "flag = (1 :: u8)"
    then show "typed (tx_read_segwit version flag) wf_tx" using typed_segwit by simp
  next
    fix version :: u32 and n_inputs :: u64
    assume n: "n_inputs \<noteq> 0"
    show "typed (pbind (read_n (unat n_inputs) tx_in_read) (\<lambda>inputs. pbind var_int_read (\<lambda>n_outputs.
        pbind (read_n (unat n_outputs) tx_out_read) (\<lambda>outputs. pbind read_u32 (\<lambda>lock_time.
          pret \<lparr>tx_version = version, tx_flag = None, tx_inputs = inputs, tx_outputs = outputs,
                tx_witnesses = None, tx_lock_time = lock_time\<rparr>))))) wf_tx"
      by (intro reader_rules reader_types reader_moves) (use n in \<open>auto simp: wf_tx_def unat_eq_0\<close>)
  qed (rule typed_panic)
  show "consumes tx_read" unfolding tx_read_def
    by (intro consumes_pbind_first consumes_ints reader_moves)
qed

interpretation block_header_typed: typed_reader block_header_read wf_block_header
proof
  show "typed block_header_read wf_block_header" unfolding block_header_read_def
    by (intro reader_rules reader_types) (simp add: wf_block_header_def)
  show "consumes block_header_read" unfolding block_header_read_def
    by (intro consumes_pbind_first consumes_ints reader_moves)
qed

lemma no_growth_skip [reader_moves]: "no_growth skip_txn_count"
  by (auto simp: no_growth_def skip_txn_count_def read_u8_def pmap_apply read_exact_Ok split: res.splits)

lemma typed_skip: "typed skip_txn_count (\<lambda>_. True)"
  by (simp add: typed_def)

interpretation headers_entry_typed: typed_reader headers_entry_read wf_block_header
proof
  show "typed headers_entry_read wf_block_header" unfolding headers_entry_read_def
    by (intro block_header_typed.bind_rd typed_pmap [OF typed_skip no_growth_skip])
  show "consumes headers_entry_read" unfolding headers_entry_read_def
    by (intro consumes_pbind_first block_header_typed.consumes_rd reader_moves)
qed

interpretation headers_typed: typed_reader headers_read wf_headers
proof
  show "typed headers_read wf_headers" unfolding headers_read_def
    by (intro reader_types headers_entry_typed.map_n) (simp add: wf_headers_def)
  show "consumes headers_read" unfolding headers_read_def
    by (intro consumes_pbind_first var_int_typed.consumes_rd reader_moves headers_entry_typed.no_growth_read_n)
qed

interpretation block_typed: typed_reader block_read wf_block
proof
  show "typed block_read wf_block" unfolding block_read_def
    by (intro block_header_typed.bind_rd reader_types tx_typed.map_n) (simp add: wf_block_def)
  show "consumes block_read" unfolding block_read_def
    by (intro consumes_pbind_first block_header_typed.consumes_rd reader_moves tx_typed.no_growth_read_n)
qed

section \<open>The other payloads\<close>

interpretation node_addr_typed: typed_reader node_addr_read wf_node_addr
proof
  show "typed node_addr_read wf_node_addr" unfolding node_addr_read_def
    by (intro reader_rules reader_types) (simp add: wf_node_addr_def)
  show "consumes node_addr_read" unfolding node_addr_read_def
    by (intro consumes_pbind_first consumes_ints reader_moves)
qed

interpretation node_addr_ex_typed: typed_reader node_addr_ex_read wf_node_addr_ex
proof
  show "typed node_addr_ex_read wf_node_addr_ex" unfolding node_addr_ex_read_def
    by (intro reader_rules reader_types node_addr_typed.bind_rd) (simp add: wf_node_addr_ex_def)
  show "consumes node_addr_ex_read" unfolding node_addr_ex_read_def
    by (intro consumes_pbind_first consumes_ints reader_moves node_addr_typed.no_growth_rd)
qed

interpretation addr_typed: typed_reader addr_read wf_addr
proof
  show "typed addr_read wf_addr" unfolding addr_read_def
    by (intro reader_rules reader_types typed_if node_addr_ex_typed.map_n)
      (auto simp: wf_addr_def MAX_ADDR_COUNT_def word_less_nat_alt)
  show "consumes addr_read" unfolding addr_read_def
    by (intro consumes_pbind_first var_int_typed.consumes_rd reader_moves node_addr_ex_typed.no_growth_read_n)
qed

interpretation utf8_typed: typed_reader read_utf8 "\<lambda>s. fits s \<and> utf8_valid s"
proof
  have "typed (\<lambda>inp. rbind (from_utf8 bs) (\<lambda>s. Ok (s, inp))) (\<lambda>s. fits s \<and> utf8_valid s)" if "length bs = as_usize n" for bs n
    using that as_usize_less [of n] by (auto simp: typed_def from_utf8_def fits_def split: if_splits)
  then show "typed read_utf8 (\<lambda>s. fits s \<and> utf8_valid s)" unfolding read_utf8_def
    by (intro reader_types)
  have "no_growth (\<lambda>inp. rbind (from_utf8 bs) (\<lambda>s. Ok (s, inp)))" for bs
    by (auto simp: no_growth_def)
  then show "consumes read_utf8" unfolding read_utf8_def
    by (intro consumes_pbind_first var_int_typed.consumes_rd no_growth_pbind reader_moves)
qed

lemmas net_moves [reader_moves] = node_addr_typed.no_growth_rd utf8_typed.no_growth_rd

interpretation version_typed: typed_reader version_read wf_version
proof
  show "typed version_read wf_version" unfolding version_read_def
    by (intro reader_rules reader_types node_addr_typed.bind_rd utf8_typed.bind_rd) (simp add: wf_version_def)
  show "consumes version_read" unfolding version_read_def
    by (intro consumes_pbind_first consumes_ints reader_moves)
qed

interpretation inv_vect_typed: typed_reader inv_vect_read wf_inv_vect
proof
  show "typed inv_vect_read wf_inv_vect" unfolding inv_vect_read_def
    by (intro reader_rules reader_types) (simp add: wf_inv_vect_def)
  show "consumes inv_vect_read" unfolding inv_vect_read_def
    by (intro consumes_pbind_first consumes_ints reader_moves)
qed

interpretation inv_typed: typed_reader inv_read wf_inv
proof
  show "typed inv_read wf_inv" unfolding inv_read_def Let_def
    by (intro reader_rules reader_types typed_if inv_vect_typed.map_n) (auto simp: wf_inv_def MAX_INV_ENTRIES_def)
  show "consumes inv_read" unfolding inv_read_def Let_def
    by (intro consumes_pbind_first var_int_typed.consumes_rd reader_moves inv_vect_typed.no_growth_read_n)
qed

interpretation filter_locator_typed: typed_reader filter_locator_read wf_filter_locator
proof
  show "typed filter_locator_read wf_filter_locator" unfolding filter_locator_read_def
    by (intro reader_rules reader_types) (simp add: wf_filter_locator_def)
  show "consumes filter_locator_read" unfolding filter_locator_read_def
    by (intro consumes_pbind_first consumes_ints reader_moves)
qed

interpretation compact_filter_typed: typed_reader compact_filter_read wf_compact_filter
proof
  show "typed compact_filter_read wf_compact_filter" unfolding compact_filter_read_def
    by (intro reader_rules reader_types) (simp add: wf_compact_filter_def)
  show "consumes compact_filter_read" unfolding compact_filter_read_def
    by (intro consumes_pbind_first consumes_ints reader_moves)
qed

interpretation reject_typed: typed_reader reject_read wf_reject
proof
  have t: "typed (if c then read_into_zeros 32 else pret []) (\<lambda>d. length d = (if c then 32 else 0))" for c
    using typed_read_into_zeros by (simp add: typed_pret)
  have g: "no_growth (if c then read_into_zeros 32 else pret [])" for c by (intro reader_moves)
  show "typed reject_read wf_reject" unfolding reject_read_def
    by (intro utf8_typed.bind_rd u8_typed.bind_rd typed_pbind [OF t g] reader_rules) (simp add: wf_reject_def)
  show "consumes reject_read" unfolding reject_read_def
    by (intro consumes_pbind_first utf8_typed.consumes_rd reader_moves)
qed

section \<open>Repeated hashes\<close>

text \<open>At the end of the input a hash is read as zeros, as often as asked.\<close>

lemma read_n_hash_Nil: "read_n n hash_read [] = Ok (replicate n (Hash256 (replicate 32 0)), [])"
  by (induction n) (simp_all add: pbind_apply pmap_apply)

lemma read_n_hash_wf: "read_n n hash_read bs = Ok (xs, rest) \<Longrightarrow> list_all wf_hash xs"
  by (induction n arbitrary: bs xs rest) (auto simp: pbind_apply pmap_apply dest: hash_read_wf)

definition wf_hashes :: "CompactFilterHeader \<Rightarrow> bool" where
  "wf_hashes h \<longleftrightarrow> wf_hash (cfh_stop_hash h) \<and> wf_hash (cfh_previous_filter_header h) \<and> list_all wf_hash (cfh_filter_hashes h)"

lemma typed_filter_headers: "typed compact_filter_header_read wf_hashes"
proof -
  have "typed (read_n n hash_read) (list_all wf_hash)" for n using read_n_hash_wf by (auto simp: typed_def)
  moreover have "no_growth (read_n n hash_read)" for n
  proof (induction n)
    case (Suc n)
    then show ?case unfolding read_n.simps by (intro reader_moves)
  qed (unfold read_n.simps, rule no_growth_pret)
  ultimately show ?thesis unfolding compact_filter_header_read_def
    by (intro reader_types typed_pbind [of "read_n _ _"] reader_rules) (auto simp: wf_hashes_def)
qed

section \<open>Messages\<close>

fun wf_received :: "Message \<Rightarrow> bool" where
  "wf_received (MBlock b) \<longleftrightarrow> wf_block b"
| "wf_received (MTx t) \<longleftrightarrow> wf_tx t"
| "wf_received (MHeaders h) \<longleftrightarrow> wf_headers h"
| "wf_received (GetData i) \<longleftrightarrow> wf_inv i"
| "wf_received (MInv i) \<longleftrightarrow> wf_inv i"
| "wf_received (NotFound i) \<longleftrightarrow> wf_inv i"
| "wf_received (CFilters f) \<longleftrightarrow> wf_compact_filter f"
| "wf_received (CFHeaders h) \<longleftrightarrow> wf_hashes h"
| "wf_received (MReject r) \<longleftrightarrow> wf_reject r"
| "wf_received (MVersion v) \<longleftrightarrow> wf_version v"
| "wf_received (Other s) \<longleftrightarrow> utf8_valid s"
| "wf_received (Partial h) \<longleftrightarrow> wf_header h"
| "wf_received (GetBlocks l) \<longleftrightarrow> False"
| "wf_received (GetHeaders l) \<longleftrightarrow> False"
| "wf_received (GetCFilters l) \<longleftrightarrow> False"
| "wf_received (GetCFHeaders l) \<longleftrightarrow> False"
| "wf_received _ \<longleftrightarrow> True"

lemma parse_as_typed:
  assumes "parse_as rd con p = Ok m" and "length p < 2 ^ 32" and "typed rd ok" and "\<And>x. ok x \<Longrightarrow> wf_received (con x)"
  shows "wf_received m"
  using assms by (auto simp: parse_as_def parse_all_def typed_def)

lemma with_payload_parsed:
  assumes "with_payload sha256 eof h parse bs = (Ok m, rest)"
  obtains p where "length p < 2 ^ 32" and "parse p = Ok m"
proof -
  from assms obtain p mid where p: "header_payload sha256 eof h bs = (Ok p, mid)" "parse p = Ok m"
    by (auto simp: with_payload_def sbind_def split: prod.splits res.splits)
  then have "length p = unat (mh_payload_size h)"
    by (auto simp: header_payload_def sbind_def stream_read_exact_def Let_def split: if_splits)
  then have "length p < 2 ^ 32" using unsigned_less [of "mh_payload_size h", where 'a = nat] by simp
  then show thesis using p(2) by (rule that)
qed

lemma with_payload_typed:
  assumes "with_payload sha256 eof h (parse_as rd con) bs = (Ok m, rest)" and "typed rd ok"
    and "\<And>x. ok x \<Longrightarrow> wf_received (con x)"
  shows "wf_received m"
  using assms by (elim with_payload_parsed) (rule parse_as_typed)

lemma with_payload_version:
  assumes "with_payload sha256 eof h (\<lambda>p. rbind (parse_all version_read p) (\<lambda>version.
             rbind (version_validate now version) (\<lambda>_. Ok (MVersion version)))) bs = (Ok m, rest)"
  shows "wf_received m"
  using assms version_typed.parse_all_typed by (elim with_payload_parsed) auto

lemma without_payload_typed: "without_payload h m' bs = (Ok m, rest) \<Longrightarrow> wf_received m' \<Longrightarrow> wf_received m"
  by (auto simp: without_payload_def split: if_splits)

lemma utf8_valid_unknown: "utf8_valid (str_bytes ''Unknown'')"
  by code_simp

lemma ping_typed_True: "typed ping_read (\<lambda>_. True)"
  by (simp add: typed_def)

lemmas payload_types =
  with_payload_typed [OF _ block_typed.typed_rd, of _ _ _ MBlock] with_payload_typed [OF _ inv_typed.typed_rd, of _ _ _ GetData]
  with_payload_typed [OF _ headers_typed.typed_rd, of _ _ _ MHeaders]
  with_payload_typed [OF _ compact_filter_typed.typed_rd, of _ _ _ CFilters]
  with_payload_typed [OF _ typed_filter_headers, of _ _ _ CFHeaders] with_payload_typed [OF _ inv_typed.typed_rd, of _ _ _ MInv]
  with_payload_typed [OF _ inv_typed.typed_rd, of _ _ _ NotFound] with_payload_typed [OF _ ping_typed_True, of _ _ _ MPing]
  with_payload_typed [OF _ ping_typed_True, of _ _ _ Pong] with_payload_typed [OF _ reject_typed.typed_rd, of _ _ _ MReject]
  with_payload_typed [OF _ tx_typed.typed_rd, of _ _ _ MTx] with_payload_version

lemma read_partial_typed:
  assumes "read_partial sha256 now eof h bs = (Ok m, rest)"
  shows "wf_received m"
proof -
  have other: "wf_received m" if "sbind c (\<lambda>_. slift (Ok (Other s))) bs = (Ok m, rest)" and "utf8_valid s"
    for c :: "bytes sread" and s
    using that by (auto simp: sbind_def split: prod.splits res.splits)
  show ?thesis
    using assms unfolding read_partial_def Let_def
    by (auto split: if_splits elim!: payload_types dest: without_payload_typed intro: other utf8_valid_unknown)
qed

lemma header_read_wf:
  assumes "message_header_read eof bs = (Ok h, rest)"
  shows "wf_header h"
proof -
  have "typed header_fields_read wf_header" unfolding header_fields_read_def
    by (intro reader_types reader_rules) (simp add: wf_header_def)
  moreover from assms obtain r where "header_fields_read (take 24 bs) = Ok (h, r)"
    by (auto simp: message_header_read_def sbind_def stream_read_exact_def parse_all_def split: if_splits)
  moreover have "length (take 24 bs) < 2 ^ 32" by simp
  ultimately show ?thesis unfolding typed_def by blast
qed

section \<open>Properties\<close>




end
