(* ===== verification/Error_Text.thy ===== *)
theory Error_Text
  imports Node_Error
begin

text \<open>
  The texts of the node's errors (\<^verbatim>\<open>node/src/util/result.rs\<close>): \<^verbatim>\<open>Display\<close>, which puts the payload
  behind a prefix, and \<^verbatim>\<open>description\<close>, which names the kind of error. The errors of the key-value
  component (generated bindings) and of \<^verbatim>\<open>std::io\<close> are printed by functions given as arguments.

  What is shown: the description and the error code of an error determine each other, so that no
  two kinds share either; and the text of an error with a number determines the number.
\<close>

section \<open>Numbers\<close>

definition show_u32 :: "u32 \<Rightarrow> string" where
  "show_u32 w = show_nat (unat w)"

lemma show_u32_eq_iff [simp]: "show_u32 v = show_u32 w \<longleftrightarrow> v = w"
proof
  have bound: "unat x < 2 ^ 64" for x :: u32
  proof -
    have "unat x < 2 ^ LENGTH(32)" by (rule unsigned_less)
    then show ?thesis by simp
  qed
  assume "show_u32 v = show_u32 w"
  then have "Some (unat v) = Some (unat w)"
    unfolding show_u32_def by (metis bound parse_digits_show_nat)
  then show "v = w" by (auto dest: unsigned_word_eqI)
qed simp

section \<open>The texts\<close>

fun error_display :: "(GuestError \<Rightarrow> string) \<Rightarrow> (io_error \<Rightarrow> string) \<Rightarrow> Error \<Rightarrow> string" where
  "error_display kv io (BadArgument s) = ''Bad argument: '' @ s"
| "error_display kv io (BadData s) = ''Bad data: '' @ s"
| "error_display kv io (FromBase58Error e) = ''Base58 decoding error: '' @ ''base58''"
| "error_display kv io (FromHexError e) = ''Hex decoding error: '' @ e"
| "error_display kv io (FromUtf8Error e) = ''Utf8 parsing error: '' @ e"
| "error_display kv io (IllegalState s) = ''Illegal state: '' @ s"
| "error_display kv io (InvalidOperation s) = ''Invalid operation: '' @ s"
| "error_display kv io (IOError e) = ''IO error: '' @ io e"
| "error_display kv io (ParseIntError e) = ''ParseIntError: '' @ e"
| "error_display kv io (ScriptError s) = ''Script error: '' @ s"
| "error_display kv io (Secp256k1Error e) = ''Secp256k1 error: '' @ e"
| "error_display kv io Timeout = ''Timeout''"
| "error_display kv io WrongP2PMessage = ''Wrong P2P message gotten''"
| "error_display kv io UnspecifiedRingError = ''Unspecified ring error''"
| "error_display kv io (StreamingError s) = ''Srreaming Error: '' @ s"
| "error_display kv io (Unsupported s) = ''Unsuppored: '' @ s"
| "error_display kv io (TCPError c) = ''TCP socket Error: '' @ c"
| "error_display kv io (SliceError c) = ''Slice Error: '' @ c"
| "error_display kv io PeerNotFound = ''P2P peer not found''"
| "error_display kv io (DBError e) = ''DBError: '' @ kv e"
| "error_display kv io (SerializationError e) = ''Serialization: '' @ e"
| "error_display kv io (FetchCompactFilter e) = ''Fetching Compact Filter Error: '' @ show_u32 e"
| "error_display kv io (FetchCompactFilterHeader e) = ''Fetching Compact Filter Header Error: '' @ show_u32 e"
| "error_display kv io (FetchBlock e) = ''Fetching Block Error: '' @ show_u32 e"
| "error_display kv io FilterMatchEror = ''Filter Match Error''"
| "error_display kv io NetworkError = ''Network Error''"
| "error_display kv io (FetchHeader e) = ''Fetching Header Error: '' @ show_u32 e"
| "error_display kv io (WalletError _) = ''Wallet Error''"

fun error_description :: "Error \<Rightarrow> string" where
  "error_description (BadArgument _) = ''Bad argument''"
| "error_description (BadData _) = ''Bad data''"
| "error_description (FromBase58Error _) = ''Base58 decoding error''"
| "error_description (FromHexError _) = ''Hex decoding error''"
| "error_description (FromUtf8Error _) = ''Utf8 parsing error''"
| "error_description (IllegalState _) = ''Illegal state''"
| "error_description (InvalidOperation _) = ''Invalid operation''"
| "error_description (IOError _) = ''IO error''"
| "error_description (ParseIntError _) = ''Parse int error''"
| "error_description (ScriptError _) = ''Script error''"
| "error_description (Secp256k1Error _) = ''Secp256k1 error''"
| "error_description Timeout = ''Timeout''"
| "error_description UnspecifiedRingError = ''Unspecified ring error''"
| "error_description (Unsupported _) = ''Unsupported''"
| "error_description (StreamingError _) = ''P2P Streaming Error''"
| "error_description WrongP2PMessage = ''Wrong P2P message gotten Error''"
| "error_description (TCPError _) = ''TCP error''"
| "error_description (SliceError _) = ''Slice error''"
| "error_description PeerNotFound = ''P2P Peer Not Found''"
| "error_description (DBError _) = ''DB Error''"
| "error_description (SerializationError _) = ''Serialization Error''"
| "error_description (FetchCompactFilter _) = ''Fetch Compact Filter Error''"
| "error_description (FetchCompactFilterHeader _) = ''Fetch Compact Filter Header Error''"
| "error_description (FetchBlock _) = ''Fetch Block Error''"
| "error_description FilterMatchEror = ''Filter Match Error''"
| "error_description NetworkError = ''Network Error''"
| "error_description (FetchHeader _) = ''Fetch Header Error''"
| "error_description (WalletError _) = ''Wallet Error''"

text \<open>
  The description of every code, as a table: the description of an error is the entry of its
  code, and the entries are distinct.
\<close>

definition descriptions :: "string list" where
  "descriptions = [''Bad argument'', ''Bad data'', ''Base58 decoding error'', ''Hex decoding error'',
     ''Utf8 parsing error'', ''Illegal state'', ''Invalid operation'', ''IO error'', ''Parse int error'',
     ''Script error'', ''Secp256k1 error'', ''Timeout'', ''Unspecified ring error'', ''Unsupported'',
     ''P2P Streaming Error'', ''Wrong P2P message gotten Error'', ''TCP error'', ''Slice error'',
     ''P2P Peer Not Found'', ''DB Error'', ''Serialization Error'', ''Fetch Compact Filter Error'',
     ''Fetch Compact Filter Header Error'', ''Fetch Block Error'', ''Filter Match Error'', ''Network Error'',
     ''Fetch Header Error'', ''Wallet Error'']"

lemma description_by_code: "error_description e = descriptions ! (unat (to_error_code e) - 1)"
  by (cases e) (simp_all add: descriptions_def)

lemma distinct_descriptions: "distinct descriptions"
  by code_simp

lemma code_index: "unat (to_error_code e) - 1 < length descriptions"
  by (cases e) (simp_all add: descriptions_def)

text \<open>Description and code identify the same kind of error.\<close>

lemma description_iff_code: "error_description e = error_description e' \<longleftrightarrow> to_error_code e = to_error_code e'"
proof
  assume "error_description e = error_description e'"
  then have i: "unat (to_error_code e) - 1 = unat (to_error_code e') - 1"
    unfolding description_by_code nth_eq_iff_index_eq [OF distinct_descriptions code_index code_index] .
  have pos: "0 < unat (to_error_code x)" for x by (cases x) simp_all
  from i pos [of e] pos [of e'] show "to_error_code e = to_error_code e'"
    by (metis Suc_diff_1 unsigned_word_eqI)
qed (simp add: description_by_code)

text \<open>The base 58 error is the one whose payload is not printed, beside that of the wallet.\<close>

lemma display_hides_payload:
  "error_display kv io (FromBase58Error a) = error_display kv io (FromBase58Error b)"
  "error_display kv io (WalletError v) = error_display kv io (WalletError w)"
  by simp_all

lemma display_shows_number:
  "error_display kv io (FetchBlock v) = error_display kv io (FetchBlock w) \<longleftrightarrow> v = w"
  "error_display kv io (FetchHeader v) = error_display kv io (FetchHeader w) \<longleftrightarrow> v = w"
  "error_display kv io (FetchCompactFilter v) = error_display kv io (FetchCompactFilter w) \<longleftrightarrow> v = w"
  "error_display kv io (FetchCompactFilterHeader v) = error_display kv io (FetchCompactFilterHeader w) \<longleftrightarrow> v = w"
  by simp_all

end
