(* ===== verification/Wallet_Util.thy ===== *)
theory Wallet_Util
  imports Wallet Error_Text
begin

unbundle bit_operations_syntax

text \<open>
  The smaller parts of the wallet crate: the check of relative lock times and the records beside
  it (\<^verbatim>\<open>utils.rs\<close>), the byte tag of a keychain (\<^verbatim>\<open>types.rs\<close>), the random source the coin selection
  is given and the network of the configuration (\<^verbatim>\<open>lib.rs\<close>), and the texts of the wallet's errors
  (\<^verbatim>\<open>errors.rs\<close>, \<^verbatim>\<open>coin_selection.rs\<close>).

  What is shown: on sequence numbers that use only the bits consensus gives a meaning, the check
  accepts exactly the lock times of the same unit that are at least as long; on others it
  compares bits that consensus ignores. Filling a buffer with random bytes never reads past what
  the host returned and panics exactly when the host returns too many.
\<close>

section \<open>Relative lock times\<close>

text \<open>
  Sequence numbers are those of the \<^verbatim>\<open>bitcoin\<close> crate, 32-bit words compared as numbers; the two
  tests the check makes of them are arguments.
\<close>

record After =
  af_current_height :: "u32 option"
  af_assume_height_reached :: bool

definition after_new :: "u32 option \<Rightarrow> bool \<Rightarrow> After" where
  "after_new current_height assume_height_reached =
     \<lparr>af_current_height = current_height, af_assume_height_reached = assume_height_reached\<rparr>"

record Older =
  ol_current_height :: "u32 option"
  ol_create_height :: "u32 option"
  ol_assume_height_reached :: bool

definition older_new :: "u32 option \<Rightarrow> u32 option \<Rightarrow> bool \<Rightarrow> Older" where
  "older_new current_height create_height assume_height_reached =
     \<lparr>ol_current_height = current_height, ol_create_height = create_height,
      ol_assume_height_reached = assume_height_reached\<rparr>"

definition check_nsequence_rbf :: "(u32 \<Rightarrow> bool) \<Rightarrow> (u32 \<Rightarrow> bool) \<Rightarrow> u32 \<Rightarrow> u32 \<Rightarrow> bool" where
  "check_nsequence_rbf is_relative_lock_time is_time_locked sequence csv =
     (if \<not> is_relative_lock_time sequence then False
      else if is_time_locked sequence \<noteq> is_time_locked csv then False
      else if sequence < csv then False
      else True)"

text \<open>
  What the crate documents of the two tests: the highest bit disables relative lock times, bit 22
  selects time instead of blocks.
\<close>

definition bip68_relative :: "u32 \<Rightarrow> bool" where
  "bip68_relative s \<longleftrightarrow> \<not> bit s 31"

definition bip68_time :: "u32 \<Rightarrow> bool" where
  "bip68_time s \<longleftrightarrow> bip68_relative s \<and> bit s 22"

text \<open>The sequence number of a lock of \<open>v\<close> units.\<close>

definition lock_seq :: "bool \<Rightarrow> 16 word \<Rightarrow> u32" where
  "lock_seq timed v = (if timed then push_bit 22 1 else 0) OR ucast v"

lemma time_flag_bit: "bit (4194304 :: int) n \<longleftrightarrow> n = 22"
proof -
  have "(4194304 :: int) = push_bit 22 1" by simp
  then show ?thesis by (simp only: bit_push_bit_iff_int bit_1_iff) auto
qed

lemma bit_lock_seq: "bit (lock_seq timed v) n \<longleftrightarrow> (timed \<and> n = 22) \<or> bit v n"
  by (auto simp: lock_seq_def bit_simps time_flag_bit dest: bit_imp_le_length)

lemma lock_seq_tests [simp]: "bip68_relative (lock_seq timed v)" "bip68_time (lock_seq timed v) \<longleftrightarrow> timed"
  by (auto simp: bip68_time_def bip68_relative_def bit_lock_seq dest: bit_imp_le_length)

lemma lock_seq_value: "uint (lock_seq timed v) = (if timed then 2 ^ 22 else 0) + uint v"
proof -
  have "(push_bit 22 1 :: u32) AND ucast v = 0"
    by (rule bit_word_eqI) (auto simp: bit_simps time_flag_bit dest: bit_imp_le_length)
  then have "lock_seq timed v = (if timed then push_bit 22 1 else 0) + ucast v"
    by (simp add: lock_seq_def disjunctive_add_eq_or)
  moreover have "uint v < 2 ^ 16" using uint_lt2p [of v] by simp
  ultimately show ?thesis
    by (simp add: uint_word_ariths unsigned_ucast_eq take_bit_eq_mod uint_word_of_int_eq push_bit_eq_mult)
qed

lemma check_lock_seq:
  "check_nsequence_rbf bip68_relative bip68_time (lock_seq timed v) (lock_seq timed' v')
     \<longleftrightarrow> timed = timed' \<and> v' \<le> v"
  by (auto simp: check_nsequence_rbf_def word_less_def word_le_def lock_seq_value)

text \<open>Bit 16 has no meaning, but the comparison sees it: a lock of no blocks passes for one of 5000.\<close>

lemma check_counts_ignored_bits:
  "check_nsequence_rbf bip68_relative bip68_time 0x10000 5000 \<and> (ucast (0x10000 :: u32) :: 16 word) = 0"
  by (simp add: check_nsequence_rbf_def bip68_relative_def bip68_time_def)

section \<open>Keychains, networks, random numbers\<close>

fun keychain_as_ref :: "KeychainKind \<Rightarrow> bytes" where
  "keychain_as_ref External = [101]"
| "keychain_as_ref Internal = [105]"

datatype ConfigNetwork = CBitcoin | CTestnet | CTestnet4 | CSignet | CRegtest

fun config_network_into :: "ConfigNetwork \<Rightarrow> Network" where
  "config_network_into CBitcoin = Bitcoin"
| "config_network_into CTestnet = Testnet"
| "config_network_into CTestnet4 = Testnet4"
| "config_network_into CSignet = Signet"
| "config_network_into CRegtest = Regtest"

lemma config_network_into_inj: "config_network_into a = config_network_into b \<longleftrightarrow> a = b"
  by (cases a; cases b) simp_all

text \<open>The host's random numbers, by the number of the call.\<close>

definition next_u32 :: "(nat \<Rightarrow> u64) \<Rightarrow> nat \<Rightarrow> u32" where
  "next_u32 get_random_u64 k = ucast (get_random_u64 k)"

definition next_u64 :: "(nat \<Rightarrow> u64) \<Rightarrow> nat \<Rightarrow> u64" where
  "next_u64 get_random_u64 k = get_random_u64 k"

definition fill_bytes :: "(u64 \<Rightarrow> bytes) \<Rightarrow> bytes \<Rightarrow> (unit, bytes) res" where
  "fill_bytes get_random_bytes dest =
     (let source = get_random_bytes (of_nat (length dest)) in
      if length dest < length source then Panic
      else Ok (source @ drop (length source) dest))"

lemma fill_bytes_fills:
  assumes "\<forall>n. length (get_random_bytes n) = unat n" and "length dest < 2 ^ 32"
  shows "fill_bytes get_random_bytes dest = Ok (get_random_bytes (of_nat (length dest)))"
  using assms by (simp add: fill_bytes_def unat_of_nat)

lemma fill_bytes_length: "fill_bytes get_random_bytes dest = Ok dest' \<Longrightarrow> length dest' = length dest"
  by (auto simp: fill_bytes_def Let_def split: if_splits)

text \<open>With the host's numbers cut to 32 bits the shuffle of the coin selection permutes as before.\<close>

lemma shuffle_with_host_permutes: "mset (shuffle_slice (next_u32 get_random_u64) xs) = mset xs"
  by simp

section \<open>Texts of the errors\<close>

text \<open>Amounts, outpoints and the errors of the \<^verbatim>\<open>bitcoin\<close> crate are printed by that crate.\<close>

definition insufficient_display :: "(nat \<Rightarrow> string) \<Rightarrow> InsufficientFunds \<Rightarrow> string" where
  "insufficient_display show_amount e =
     ''Insufficient funds: '' @ show_amount (available e) @ '' available of '' @ show_amount (needed e) @ '' needed''"

fun wallet_error_display :: "(nat \<Rightarrow> string) \<Rightarrow> ('op \<Rightarrow> string) \<Rightarrow> 'op wallet_error \<Rightarrow> string" where
  "wallet_error_display show_amount show_outpoint (CoinSelectionError e) = insufficient_display show_amount e"
| "wallet_error_display show_amount show_outpoint (PsbtError e) = e"
| "wallet_error_display show_amount show_outpoint (MissingNonWitnessUtxo outpoint) =
     ''Missing non_witness_utxo on foreign utxo '' @ show_outpoint outpoint"
| "wallet_error_display show_amount show_outpoint (PubKeyError error) = error"
| "wallet_error_display show_amount show_outpoint NoPubKey = ''Cannot find PubKey''"

end
