(* ===== verification/Bits.thy ===== *)
theory Bits
  imports Block_Filter
begin

text \<open>
  \<^verbatim>\<open>node/src/util/bits.rs\<close>: arrays of bits in bytes, most significant bit first, and shifts of
  byte arrays. The theory models every operation, with the panics of a checked build on a target
  with a 32-bit \<^verbatim>\<open>usize\<close>, and relates them to lists of bits (\<^const>\<open>byte_bits\<close>).
\<close>

section \<open>Checked operations on sizes and arrays\<close>

definition usize_ok :: "nat \<Rightarrow> ('e, nat) res" where
  "usize_ok n = (if n < 2 ^ 32 then Ok n else Panic)"

definition sub_usize :: "nat \<Rightarrow> nat \<Rightarrow> ('e, nat) res" where
  "sub_usize a b = (if b \<le> a then Ok (a - b) else Panic)"

definition byte_at :: "bytes \<Rightarrow> nat \<Rightarrow> ('e, u8) res" where
  "byte_at bs i = (if i < length bs then Ok (bs ! i) else Panic)"

text \<open>\<^verbatim>\<open>v[i] |= x\<close> and \<^verbatim>\<open>v[i] &= x\<close>.\<close>

definition or_at :: "nat \<Rightarrow> u8 \<Rightarrow> bytes \<Rightarrow> ('e, bytes) res" where
  "or_at i x bs = rbind (byte_at bs i) (\<lambda>b. Ok (bs[i := b OR x]))"

definition and_at :: "nat \<Rightarrow> u8 \<Rightarrow> bytes \<Rightarrow> ('e, bytes) res" where
  "and_at i x bs = rbind (byte_at bs i) (\<lambda>b. Ok (bs[i := b AND x]))"

section \<open>Bit arrays\<close>

record Bits =
  bi_data :: bytes
  bi_len :: nat

definition bits_new :: Bits where
  "bits_new = \<lparr>bi_data = [], bi_len = 0\<rparr>"

text \<open>The capacity reserved has no effect on the value.\<close>

definition bits_with_capacity :: "nat \<Rightarrow> Bits" where
  "bits_with_capacity capacity = \<lparr>bi_data = [], bi_len = 0\<rparr>"

definition from_slice :: "bytes \<Rightarrow> nat \<Rightarrow> (Error, Bits) res" where
  "from_slice data len =
     rbind (usize_ok (length data * 8)) (\<lambda>avail.
       let len = min avail len;
           vec = (if length data * 8 < len then take ((len + 7) div 8) data else data);
           rem = len mod 8
       in if rem = 0 then Ok \<lparr>bi_data = vec, bi_len = len\<rparr>
          else rbind (sub_usize (length vec) 1) (\<lambda>last.
            rbind (and_at last (NOT (push_bit (8 - rem) 1 - 1)) vec) (\<lambda>vec.
              Ok \<lparr>bi_data = vec, bi_len = len\<rparr>)))"

definition append_byte :: "u8 \<Rightarrow> nat \<Rightarrow> Bits \<Rightarrow> (Error, Bits) res" where
  "append_byte byte len b =
     (let k = bi_len b mod 8 in
      if k = 0
      then rbind (usize_ok (bi_len b + len)) (\<lambda>l. Ok \<lparr>bi_data = bi_data b @ [byte], bi_len = l\<rparr>)
      else rbind (sub_usize (length (bi_data b)) 1) (\<lambda>last.
        rbind (or_at last (drop_bit k byte) (bi_data b)) (\<lambda>data.
          let data = (if len > 8 - k then data @ [push_bit (8 - k) byte] else data) in
          rbind (usize_ok (bi_len b + len)) (\<lambda>l. Ok \<lparr>bi_data = data, bi_len = l\<rparr>))))"

text \<open>The loop of \<^verbatim>\<open>append\<close>, with the index it has reached.\<close>

function append_loop :: "nat \<Rightarrow> Bits \<Rightarrow> Bits \<Rightarrow> (Error, nat \<times> Bits) res" where
  "append_loop i other b =
     (if i < bi_len other div 8
      then rbind (byte_at (bi_data other) i) (\<lambda>x.
        rbind (append_byte x 8 b) (\<lambda>b. append_loop (i + 1) other b))
      else Ok (i, b))"
  by pat_completeness auto
termination by (relation "measure (\<lambda>(i, other, _). bi_len other div 8 - i)") auto

declare append_loop.simps [simp del]

definition bits_append :: "Bits \<Rightarrow> Bits \<Rightarrow> (Error, Bits) res" where
  "bits_append other b =
     rbind (append_loop 0 other b) (\<lambda>(i, b).
       let rem = bi_len other mod 8 in
       if rem \<noteq> 0
       then rbind (byte_at (bi_data other) i) (\<lambda>x. append_byte x rem b)
       else Ok b)"

definition extract_byte :: "nat \<Rightarrow> nat \<Rightarrow> Bits \<Rightarrow> (Error, u8) res" where
  "extract_byte i len b =
     rbind (byte_at (bi_data b) (i div 8)) (\<lambda>x.
       rbind (sub_usize (8 - i mod 8) len) (\<lambda>sh.
         if sh < 8
         then Ok (ucast ((ucast (drop_bit sh x) :: u16) AND (push_bit len 1 - 1)))
         else Panic))"

fun extract_loop :: "nat list \<Rightarrow> nat \<Rightarrow> nat \<Rightarrow> u64 \<Rightarrow> Bits \<Rightarrow> (Error, u64) res" where
  "extract_loop [] stop i acc b = Ok acc"
| "extract_loop (j # js) stop i acc b =
     rbind (sub_usize stop i) (\<lambda>d. rbind (sub_usize i (j * 8)) (\<lambda>o'. rbind (sub_usize 8 o') (\<lambda>r.
       let b_len = min d r in
       rbind (extract_byte i b_len b) (\<lambda>x.
         extract_loop js stop (i + b_len) (push_bit b_len acc OR ucast x) b))))"

definition bits_extract :: "nat \<Rightarrow> nat \<Rightarrow> Bits \<Rightarrow> (Error, u64) res" where
  "bits_extract i len b =
     rbind (usize_ok (i + len)) (\<lambda>stop. rbind (usize_ok (stop + 7)) (\<lambda>up.
       extract_loop [i div 8..<up div 8] stop i 0 b))"

section \<open>Shifts of byte arrays\<close>

definition LSHIFT_MASK :: bytes where
  "LSHIFT_MASK = [0xff, 0x7f, 0x3f, 0x1f, 0x0f, 0x07, 0x03, 0x01]"

definition RSHIFT_MASK :: bytes where
  "RSHIFT_MASK = [0xff, 0xfe, 0xfc, 0xf8, 0xf0, 0xe0, 0xc0, 0x80]"

fun lshift_loop :: "bytes \<Rightarrow> nat \<Rightarrow> nat \<Rightarrow> u8 \<Rightarrow> nat list \<Rightarrow> bytes \<Rightarrow> (Error, bytes) res" where
  "lshift_loop v bit_shift byte_shift msk [] result = Ok result"
| "lshift_loop v bit_shift byte_shift msk (i # is) result =
     (let k = int i - int byte_shift in
      rbind (if 0 \<le> k then rbind (byte_at v i) (\<lambda>x. or_at (nat k) (push_bit bit_shift (x AND msk)) result)
             else Ok result) (\<lambda>result.
      rbind (if 0 < k then rbind (byte_at v i) (\<lambda>x.
               or_at (nat (k - 1)) (drop_bit ((8 - bit_shift) mod 8) (x AND NOT msk)) result)
             else Ok result) (\<lambda>result.
        lshift_loop v bit_shift byte_shift msk is result)))"

definition lshift :: "bytes \<Rightarrow> nat \<Rightarrow> (Error, bytes) res" where
  "lshift v n =
     lshift_loop v (n mod 8) (n div 8) (LSHIFT_MASK ! (n mod 8)) (rev [0..<length v])
       (replicate (length v) 0)"

fun rshift_loop :: "bytes \<Rightarrow> nat \<Rightarrow> nat \<Rightarrow> u8 \<Rightarrow> nat list \<Rightarrow> bytes \<Rightarrow> (Error, bytes) res" where
  "rshift_loop v bit_shift byte_shift msk [] result = Ok result"
| "rshift_loop v bit_shift byte_shift msk (i # is) result =
     rbind (usize_ok (i + byte_shift)) (\<lambda>k.
      rbind (if k < length v
             then rbind (byte_at v i) (\<lambda>x. or_at k (drop_bit bit_shift (x AND msk)) result)
             else Ok result) (\<lambda>result.
      rbind (usize_ok (k + 1)) (\<lambda>k1.
      rbind (if k1 < length v
             then rbind (byte_at v i) (\<lambda>x.
               or_at k1 (push_bit ((8 - bit_shift) mod 8) (x AND NOT msk)) result)
             else Ok result) (\<lambda>result.
        rshift_loop v bit_shift byte_shift msk is result))))"

definition rshift :: "bytes \<Rightarrow> nat \<Rightarrow> (Error, bytes) res" where
  "rshift v n =
     rshift_loop v (n mod 8) (n div 8) (RSHIFT_MASK ! (n mod 8)) [0..<length v]
       (replicate (length v) 0)"

section \<open>Bytes as bits\<close>

lemma nth_nat_bits: "q < w \<Longrightarrow> nat_bits w v ! q = bit v (w - 1 - q)"
proof (induction w arbitrary: q)
  case (Suc w)
  then show ?case by (cases q) (auto simp: bit_iff_odd)
qed simp

lemma byte_bits_Cons [simp]: "byte_bits (b # bs) = nat_bits 8 (unat b) @ byte_bits bs"
  by (simp add: byte_bits_def)

lemma byte_bits_Nil [simp]: "byte_bits [] = []"
  by (simp add: byte_bits_def)

lemma byte_bits_append [simp]: "byte_bits (xs @ ys) = byte_bits xs @ byte_bits ys"
  by (simp add: byte_bits_def)

lemma length_byte_bits [simp]: "length (byte_bits bs) = 8 * length bs"
  by (induction bs) auto

lemma nth_byte_bits: "p < 8 * length bs \<Longrightarrow> byte_bits bs ! p = bit (bs ! (p div 8)) (7 - p mod 8)"
proof (induction bs arbitrary: p)
  case (Cons b bs)
  show ?case
  proof (cases "p < 8")
    case True
    then show ?thesis by (simp add: nth_append nth_nat_bits bit_simps)
  next
    case False
    then obtain q where "p = 8 + q" by (metis le_add_diff_inverse not_less)
    moreover have "(8 + q) div 8 = Suc (q div 8)" by simp
    ultimately show ?thesis using Cons by (simp add: nth_append)
  qed
qed simp

lemma nth_byte_bits_at: "j < length v \<Longrightarrow> q < 8 \<Longrightarrow> byte_bits v ! (8 * j + q) = bit (v ! j) (7 - q)"
  by (simp add: nth_byte_bits)

lemma bit_index_less: "q < 8 \<Longrightarrow> 8 * j + q < 8 * l \<longleftrightarrow> j < (l :: nat)"
  by linarith

text \<open>Two byte arrays of the same length are equal to the bits of each other's.\<close>

lemma byte_bits_eqI:
  assumes "length ys = 8 * length xs"
    and "\<And>j q. j < length xs \<Longrightarrow> q < 8 \<Longrightarrow> bit (xs ! j) (7 - q) = ys ! (8 * j + q)"
  shows "byte_bits xs = ys"
proof (rule nth_equalityI)
  fix p assume "p < length (byte_bits xs)"
  then have p: "p < 8 * length xs" by simp
  then have "p div 8 < length xs" by (simp add: less_mult_imp_div_less mult.commute)
  from assms(2) [OF this, of "p mod 8"] p show "byte_bits xs ! p = ys ! p"
    by (simp add: nth_byte_bits)
qed (use assms in simp)


section \<open>The shifts are shifts of the bits\<close>

lemma or_at_Ok: "i < length bs \<Longrightarrow> or_at i x bs = Ok (bs[i := bs ! i OR x])"
  by (simp add: or_at_def byte_at_def)

lemma or_at_last: "or_at (length d) x (d @ [y]) = Ok (d @ [y OR x])"
  by (simp add: or_at_def byte_at_def)

lemma and_at_last: "and_at (length d) x (d @ [y]) = Ok (d @ [y AND x])"
  by (simp add: and_at_def byte_at_def)

lemma or_at_bits:
  assumes "j < length (r :: bytes)"
  shows "bit ((if c then r[k := r ! k OR x] else r) ! j) b \<longleftrightarrow> bit (r ! j) b \<or> c \<and> j = k \<and> bit x b"
  using assms by (cases "j = k") (auto simp: bit_or_iff)

lemma bit_u8_bound: "bit (x :: u8) k \<Longrightarrow> k < 8"
  using bit_imp_le_length by fastforce

lemma shift_masks:
  assumes "s < 8" and "k < 8"
  shows "bit (LSHIFT_MASK ! s) k \<longleftrightarrow> k < 8 - s" and "bit (RSHIFT_MASK ! s) k \<longleftrightarrow> s \<le> k"
proof -
  have "\<forall>s<8. \<forall>k<8. (bit (LSHIFT_MASK ! s) k \<longleftrightarrow> k < 8 - s) \<and> (bit (RSHIFT_MASK ! s) k \<longleftrightarrow> s \<le> k)"
    unfolding LSHIFT_MASK_def RSHIFT_MASK_def by code_simp
  with assms show "bit (LSHIFT_MASK ! s) k \<longleftrightarrow> k < 8 - s" "bit (RSHIFT_MASK ! s) k \<longleftrightarrow> s \<le> k" by auto
qed

text \<open>What the loops have or-ed into each byte of the result.\<close>

lemma lshift_loop_bits:
  assumes "set is \<subseteq> {..<length v}" and "length r = length v"
  shows "\<exists>r'. lshift_loop v s B m is r = Ok r' \<and> length r' = length v
    \<and> (\<forall>j<length v. \<forall>b. bit (r' ! j) b \<longleftrightarrow> bit (r ! j) b
        \<or> j + B \<in> set is \<and> bit (push_bit s (v ! (j + B) AND m)) b
        \<or> j + B + 1 \<in> set is \<and> bit (drop_bit ((8 - s) mod 8) (v ! (j + B + 1) AND NOT m)) b)"
  using assms
proof (induction "is" arbitrary: r)
  case (Cons i "is")
  let ?x = "push_bit s (v ! i AND m)" and ?y = "drop_bit ((8 - s) mod 8) (v ! i AND NOT m)"
  define r1 where "r1 = (if B \<le> i then r[i - B := r ! (i - B) OR ?x] else r)"
  define r2 where "r2 = (if B < i then r1[i - B - 1 := r1 ! (i - B - 1) OR ?y] else r1)"
  from Cons.prems have i: "i < length v" and r: "length r = length v" by auto
  have l: "length r1 = length v" "length r2 = length v" using r by (simp_all add: r1_def r2_def)
  have n: "nat (int i - int B) = i - B" "nat (int i - int B - 1) = i - B - 1" by linarith+
  have o: "or_at (i - B) x r = (Ok (r[i - B := r ! (i - B) OR x]) :: (Error, bytes) res)"
    "or_at (i - B - 1) x r1 = (Ok (r1[i - B - 1 := r1 ! (i - B - 1) OR x]) :: (Error, bytes) res)" for x
    using i r l by (simp_all add: or_at_Ok)
  have "(if 0 \<le> int i - int B then rbind (byte_at v i) (\<lambda>x. or_at (nat (int i - int B)) (push_bit s (x AND m)) r)
      else Ok r) = (Ok r1 :: (Error, bytes) res)"
    unfolding n byte_at_def by (simp only: o i if_True rbind_simps r1_def split: if_split) simp
  moreover have "(if 0 < int i - int B then rbind (byte_at v i) (\<lambda>x.
        or_at (nat (int i - int B - 1)) (drop_bit ((8 - s) mod 8) (x AND NOT m)) r1)
      else Ok r1) = (Ok r2 :: (Error, bytes) res)"
    unfolding n byte_at_def by (simp only: o i if_True rbind_simps r2_def split: if_split) simp
  ultimately have "lshift_loop v s B m (i # is) r = lshift_loop v s B m is r2"
    by (simp only: lshift_loop.simps Let_def rbind_simps)
  moreover have "bit (r2 ! j) b \<longleftrightarrow> bit (r ! j) b \<or> j + B = i \<and> bit ?x b \<or> j + B + 1 = i \<and> bit ?y b"
    if "j < length v" for j b
    using or_at_bits [OF that [folded l(1)], of "B < i" "i - B - 1" ?y b]
      or_at_bits [OF that [folded r], of "B \<le> i" "i - B" ?x b]
    unfolding r2_def r1_def by linarith
  moreover obtain r' where "lshift_loop v s B m is r2 = Ok r'" "length r' = length v"
    "\<forall>j<length v. \<forall>b. bit (r' ! j) b \<longleftrightarrow> bit (r2 ! j) b
        \<or> j + B \<in> set is \<and> bit (push_bit s (v ! (j + B) AND m)) b
        \<or> j + B + 1 \<in> set is \<and> bit (drop_bit ((8 - s) mod 8) (v ! (j + B + 1) AND NOT m)) b"
    using Cons.IH [of r2] Cons.prems(1) l(2) by auto
  ultimately show ?case by (intro exI [of _ r']) auto
qed auto

lemma rshift_loop_bits:
  assumes "set is \<subseteq> {..<length v}" and "length r = length v" and "length v + B < 2 ^ 32"
  shows "\<exists>r'. rshift_loop v s B m is r = Ok r' \<and> length r' = length v
    \<and> (\<forall>j<length v. \<forall>b. bit (r' ! j) b \<longleftrightarrow> bit (r ! j) b
        \<or> (\<exists>i\<in>set is. j = i + B \<and> bit (drop_bit s (v ! i AND m)) b)
        \<or> (\<exists>i\<in>set is. j = i + B + 1 \<and> bit (push_bit ((8 - s) mod 8) (v ! i AND NOT m)) b))"
  using assms
proof (induction "is" arbitrary: r)
  case (Cons i "is")
  let ?x = "drop_bit s (v ! i AND m)" and ?y = "push_bit ((8 - s) mod 8) (v ! i AND NOT m)"
  define r1 where "r1 = (if i + B < length v then r[i + B := r ! (i + B) OR ?x] else r)"
  define r2 where "r2 = (if i + B + 1 < length v then r1[i + B + 1 := r1 ! (i + B + 1) OR ?y] else r1)"
  from Cons.prems have i: "i < length v" and r: "length r = length v" by auto
  have l: "length r1 = length v" "length r2 = length v" using r by (simp_all add: r1_def r2_def)
  have "rshift_loop v s B m (i # is) r = rshift_loop v s B m is r2"
    using i r l Cons.prems(3) by (auto simp: byte_at_def or_at_Ok r1_def r2_def usize_ok_def)
  moreover have "bit (r2 ! j) b \<longleftrightarrow> bit (r ! j) b \<or> j = i + B \<and> bit ?x b \<or> j = i + B + 1 \<and> bit ?y b"
    if "j < length v" for j b
    using or_at_bits [OF that [folded l(1)], of "i + B + 1 < length v" "i + B + 1" ?y b]
      or_at_bits [OF that [folded r], of "i + B < length v" "i + B" ?x b] that
    unfolding r2_def r1_def by auto
  moreover obtain r' where "rshift_loop v s B m is r2 = Ok r'" "length r' = length v"
    "\<forall>j<length v. \<forall>b. bit (r' ! j) b \<longleftrightarrow> bit (r2 ! j) b
        \<or> (\<exists>i\<in>set is. j = i + B \<and> bit (drop_bit s (v ! i AND m)) b)
        \<or> (\<exists>i\<in>set is. j = i + B + 1 \<and> bit (push_bit ((8 - s) mod 8) (v ! i AND NOT m)) b)"
    using Cons.IH [of r2] Cons.prems(1,3) l(2) by auto
  ultimately show ?case by (intro exI [of _ r']) auto
qed auto

text \<open>The two parts of a shifted byte: what stays and what is carried to the neighbour.\<close>

lemma lshift_parts:
  assumes "s < 8" and "q < 8"
  shows "bit (push_bit s (x AND LSHIFT_MASK ! s)) (7 - q) \<longleftrightarrow> q + s < 8 \<and> bit (x :: u8) (7 - q - s)"
    and "bit (drop_bit ((8 - s) mod 8) (x AND NOT (LSHIFT_MASK ! s))) (7 - q)
      \<longleftrightarrow> 8 \<le> q + s \<and> bit x (15 - q - s)"
proof -
  show "bit (push_bit s (x AND LSHIFT_MASK ! s)) (7 - q) \<longleftrightarrow> q + s < 8 \<and> bit x (7 - q - s)"
    using assms shift_masks(1) [of s "7 - q - s"] by (auto simp: bit_push_bit_iff bit_and_iff)
  show "bit (drop_bit ((8 - s) mod 8) (x AND NOT (LSHIFT_MASK ! s))) (7 - q)
      \<longleftrightarrow> 8 \<le> q + s \<and> bit x (15 - q - s)"
  proof (cases "s = 0")
    case True
    then show ?thesis using assms shift_masks(1) [of 0 "7 - q"]
      by (auto simp: bit_drop_bit_eq bit_and_iff bit_not_iff)
  next
    case False
    then have "(8 - s) mod 8 + (7 - q) = 15 - q - s" using assms by auto
    then show ?thesis using assms shift_masks(1) [of s "15 - q - s"] bit_u8_bound [of x "15 - q - s"]
      by (auto simp: bit_drop_bit_eq bit_and_iff bit_not_iff)
  qed
qed

lemma rshift_parts:
  assumes "s < 8" and "q < 8"
  shows "bit (drop_bit s (x AND RSHIFT_MASK ! s)) (7 - q) \<longleftrightarrow> s \<le> q \<and> bit (x :: u8) (7 - (q - s))"
    and "bit (push_bit ((8 - s) mod 8) (x AND NOT (RSHIFT_MASK ! s))) (7 - q) \<longleftrightarrow> q < s \<and> bit x (s - q - 1)"
proof -
  show "bit (drop_bit s (x AND RSHIFT_MASK ! s)) (7 - q) \<longleftrightarrow> s \<le> q \<and> bit x (7 - (q - s))"
  proof (cases "s \<le> q")
    case True
    then have "s + (7 - q) = 7 - (q - s)" using assms by auto
    then show ?thesis using True assms shift_masks(2) [of s "7 - (q - s)"]
      by (auto simp: bit_drop_bit_eq bit_and_iff)
  next
    case False
    then have "\<not> s + (7 - q) < 8" using assms by auto
    then show ?thesis using False bit_u8_bound [of x "s + (7 - q)"]
      by (auto simp: bit_drop_bit_eq bit_and_iff)
  qed
  show "bit (push_bit ((8 - s) mod 8) (x AND NOT (RSHIFT_MASK ! s))) (7 - q) \<longleftrightarrow> q < s \<and> bit x (s - q - 1)"
  proof (cases "s = 0")
    case True
    then show ?thesis using assms shift_masks(2) [of 0 "7 - q"]
      by (auto simp: bit_push_bit_iff bit_and_iff bit_not_iff)
  next
    case False
    then have "7 - q - (8 - s) mod 8 = s - q - 1" using assms by auto
    then show ?thesis using False assms shift_masks(2) [of s "s - q - 1"]
      by (auto simp: bit_push_bit_iff bit_and_iff bit_not_iff)
  qed
qed

lemma all_indices: "set [0..<length v] \<subseteq> {..<length v}" "set (rev [0..<length v]) \<subseteq> {..<length v}"
  by auto

text \<open>
  Shifting a byte array to the left by any number of bits never panics, keeps its length, and
  drops that many bits at the front and fills up with zeros behind.
\<close>

lemma lshift_shifts_bits:
  "\<exists>r. lshift v n = Ok r \<and> byte_bits r = drop n (byte_bits v) @ replicate (min n (8 * length v)) False"
proof -
  define s B where "s = n mod 8" and "B = n div 8"
  have s: "s < 8" and n: "n = 8 * B + s" by (simp_all add: s_def B_def)
  obtain r where r: "lshift v n = Ok r" "length r = length v"
    and b: "\<forall>j<length v. \<forall>b. bit (r ! j) b \<longleftrightarrow> bit (replicate (length v) 0 ! j :: u8) b
        \<or> j + B \<in> set (rev [0..<length v]) \<and> bit (push_bit s (v ! (j + B) AND LSHIFT_MASK ! s)) b
        \<or> j + B + 1 \<in> set (rev [0..<length v])
          \<and> bit (drop_bit ((8 - s) mod 8) (v ! (j + B + 1) AND NOT (LSHIFT_MASK ! s))) b"
    using lshift_loop_bits [where v = v and r = "replicate (length v) 0" and s = s and B = B
        and m = "LSHIFT_MASK ! s", OF all_indices(2) length_replicate]
    unfolding lshift_def s_def [symmetric] B_def [symmetric] by blast
  have "byte_bits r = drop n (byte_bits v) @ replicate (min n (8 * length v)) False"
  proof (rule byte_bits_eqI)
    fix j q :: nat assume j: "j < length r" and q: "q < 8"
    have k: "8 * j + q - (8 * length v - n) < min n (8 * length v)" if "\<not> 8 * j + q < 8 * length v - n"
      using that j q r(2) by auto
    have "bit (r ! j) (7 - q) \<longleftrightarrow> j + B < length v \<and> q + s < 8 \<and> bit (v ! (j + B)) (7 - q - s)
        \<or> j + B + 1 < length v \<and> 8 \<le> q + s \<and> bit (v ! (j + B + 1)) (15 - q - s)"
      unfolding b [rule_format, OF j [unfolded r(2)]] lshift_parts [OF s q] using j r(2) by simp
    also have "\<dots> \<longleftrightarrow> n + (8 * j + q) < 8 * length v \<and> byte_bits v ! (n + (8 * j + q))"
    proof (cases "q + s < 8")
      case True
      have e: "n + (8 * j + q) = 8 * (j + B) + (q + s)" using n by simp
      show ?thesis unfolding e using True bit_index_less [OF True] nth_byte_bits_at [of "j + B" v "q + s"] by auto
    next
      case False
      then have e: "n + (8 * j + q) = 8 * (j + B + 1) + (q + s - 8)" and f: "15 - q - s = 7 - (q + s - 8)"
        and "q + s - 8 < 8" using n q s by auto
      then show ?thesis unfolding e f using False bit_index_less [of "q + s - 8" "j + B + 1"]
          nth_byte_bits_at [of "j + B + 1" v "q + s - 8"] by auto
    qed
    finally show "bit (r ! j) (7 - q) = (drop n (byte_bits v) @ replicate (min n (8 * length v)) False) ! (8 * j + q)"
      using k j q r(2) by (cases "8 * j + q < 8 * length v - n") (auto simp: nth_append nth_drop)
  qed (use r(2) in auto)
  with r show ?thesis by blast
qed

text \<open>
  Shifting a byte array to the right never panics (within the address space), keeps its length,
  and puts that many zeros in front and drops as many bits behind.
\<close>

lemma rshift_shifts_bits:
  assumes "length v + n div 8 < 2 ^ 32"
  shows "\<exists>r. rshift v n = Ok r
    \<and> byte_bits r = replicate (min n (8 * length v)) False @ take (8 * length v - n) (byte_bits v)"
proof -
  define s B where "s = n mod 8" and "B = n div 8"
  have s: "s < 8" and n: "n = 8 * B + s" by (simp_all add: s_def B_def)
  obtain r where r: "rshift v n = Ok r" "length r = length v"
    and b: "\<forall>j<length v. \<forall>b. bit (r ! j) b \<longleftrightarrow> bit (replicate (length v) 0 ! j :: u8) b
        \<or> (\<exists>i\<in>set [0..<length v]. j = i + B \<and> bit (drop_bit s (v ! i AND RSHIFT_MASK ! s)) b)
        \<or> (\<exists>i\<in>set [0..<length v]. j = i + B + 1
            \<and> bit (push_bit ((8 - s) mod 8) (v ! i AND NOT (RSHIFT_MASK ! s))) b)"
    using rshift_loop_bits [where v = v and r = "replicate (length v) 0" and s = s and B = B
        and m = "RSHIFT_MASK ! s", OF all_indices(1) length_replicate] assms
    unfolding rshift_def s_def [symmetric] B_def [symmetric] by blast
  have "byte_bits r = replicate (min n (8 * length v)) False @ take (8 * length v - n) (byte_bits v)"
  proof (rule byte_bits_eqI)
    fix j q :: nat assume j: "j < length r" and q: "q < 8"
    have "bit (r ! j) (7 - q) \<longleftrightarrow> (B \<le> j \<and> s \<le> q \<and> bit (v ! (j - B)) (7 - (q - s)))
        \<or> (B < j \<and> q < s \<and> bit (v ! (j - B - 1)) (s - q - 1))"
      unfolding b [rule_format, OF j [unfolded r(2)]] rshift_parts [OF s q]
      using j r(2) by (cases "s \<le> q") (auto intro: bexI [of _ "j - B"] bexI [of _ "j - B - 1"])
    also have "\<dots> \<longleftrightarrow> n \<le> 8 * j + q \<and> byte_bits v ! (8 * j + q - n)"
    proof (cases "s \<le> q")
      case True
      then have "n \<le> 8 * j + q \<longleftrightarrow> B \<le> j" using n s q by auto
      moreover have "8 * j + q - n = 8 * (j - B) + (q - s)" if "B \<le> j" using that True n by auto
      ultimately show ?thesis using True q j r(2) nth_byte_bits_at [of "j - B" v "q - s"] by auto
    next
      case False
      then have "n \<le> 8 * j + q \<longleftrightarrow> B < j" using n s q by auto
      moreover have "8 * j + q - n = 8 * (j - B - 1) + (8 + q - s)" if "B < j" using that False n s by auto
      moreover have "7 - (8 + q - s) = s - q - 1" "8 + q - s < 8" using False s by auto
      ultimately show ?thesis using False q s j r(2) nth_byte_bits_at [of "j - B - 1" v "8 + q - s"] by auto
    qed
    finally show "bit (r ! j) (7 - q)
        = (replicate (min n (8 * length v)) False @ take (8 * length v - n) (byte_bits v)) ! (8 * j + q)"
      using j q r(2) by (auto simp: nth_append)
  qed (use r(2) in auto)
  with r show ?thesis by blast
qed

lemma rshift_shifts_bits_witness: "\<exists>r. rshift [0x01, 0x23, 0x45] 12 = Ok r \<and> byte_bits r = byte_bits [0x00, 0x00, 0x12]"
proof -
  have "replicate 12 False @ take 12 (byte_bits [0x01, 0x23, 0x45]) = byte_bits [0x00, 0x00, 0x12]"
    by (simp add: byte_bits_def nat_bits_numeral) (simp add: numeral_eq_Suc)
  with rshift_shifts_bits [of "[0x01, 0x23, 0x45]" 12] show ?thesis by simp
qed

section \<open>Extraction\<close>

lemma unat_extracted:
  assumes "len \<le> 8"
  shows "unat (ucast ((ucast (drop_bit sh (x :: u8)) :: u16) AND (push_bit len 1 - 1)) :: u8)
    = unat x div 2 ^ sh mod 2 ^ len"
proof -
  have m: "push_bit len 1 - 1 = (Bit_Operations.mask len :: u16)" by (simp add: mask_eq_exp_minus_1 push_bit_eq_mult)
  have "unat (drop_bit sh x) = drop_bit sh (take_bit 8 (unat x))" by (simp only: unsigned_drop_bit_eq) simp
  also have "\<dots> = unat x div 2 ^ sh"
    using unat_u8_less [of x] by (simp add: drop_bit_eq_div take_bit_eq_mod)
  finally have d: "unat (drop_bit sh x) = unat x div 2 ^ sh" .
  define y where "y = (ucast (drop_bit sh x) :: u16)"
  have y: "unat y = unat x div 2 ^ sh"
    using unat_u8_less [of "drop_bit sh x"] unfolding y_def unsigned_ucast_eq d by (simp add: take_bit_eq_mod)
  have "unat x div 2 ^ sh mod 2 ^ len < 2 ^ 8"
    using assms by (meson mod_less_divisor order_less_le_trans one_le_numeral power_increasing zero_less_numeral zero_less_power)
  moreover have "unat (ucast (take_bit len y) :: u8) = take_bit 8 (take_bit len (unat y))"
    by (simp only: unsigned_ucast_eq unsigned_take_bit_eq) (simp add: min.commute)
  ultimately have "unat (ucast (take_bit len y) :: u8) = unat x div 2 ^ sh mod 2 ^ len"
    unfolding y by (simp add: take_bit_eq_mod)
  then show ?thesis unfolding m y_def [symmetric] take_bit_eq_mask .
qed

text \<open>A range within one byte.\<close>

lemma take_drop_byte_bits:
  assumes "i div 8 < length data" and "i mod 8 + len \<le> 8"
  shows "take len (drop i (byte_bits data)) = take len (drop (i mod 8) (nat_bits 8 (unat (data ! (i div 8)))))"
proof -
  have "byte_bits data = byte_bits (take (i div 8) data) @ nat_bits 8 (unat (data ! (i div 8)))
      @ byte_bits (drop (Suc (i div 8)) data)"
    using assms(1) by (subst id_take_nth_drop [OF assms(1)]) simp
  moreover have "i = 8 * (i div 8) + i mod 8" by simp
  ultimately have "drop i (byte_bits data)
      = drop (i mod 8) (nat_bits 8 (unat (data ! (i div 8))) @ byte_bits (drop (Suc (i div 8)) data))"
    using assms(1) by (metis add.commute append_eq_conv_conj drop_drop length_byte_bits length_take min.absorb4)
  then show ?thesis using assms(2) by simp
qed

lemma extract_byte_bits:
  assumes "i div 8 < length (bi_data b)" and "i mod 8 + len \<le> 8" and "0 < i mod 8 + len"
  shows "\<exists>x. extract_byte i len b = Ok x \<and> unat x = bits_val (take len (drop i (byte_bits (bi_data b))))"
proof -
  let ?x = "bi_data b ! (i div 8)"
  have "len \<le> 8" "len \<le> 8 - i mod 8" "8 - i mod 8 - len < 8" using assms by auto
  moreover have "take len (drop i (byte_bits (bi_data b))) = nat_bits len (unat ?x div 2 ^ (8 - i mod 8 - len))"
    using assms calculation by (simp add: take_drop_byte_bits drop_nat_bits take_nat_bits)
  ultimately show ?thesis
    using assms(1) unat_extracted [of len "8 - i mod 8 - len" ?x]
    by (simp add: extract_byte_def byte_at_def sub_usize_def)
qed

lemma push_or_byte:
  assumes "unat (x :: u8) < 2 ^ k"
  shows "push_bit k (acc :: u64) OR ucast x = acc * 2 ^ k + of_nat (unat x)"
proof -
  have "push_bit k acc OR ucast x = push_bit k acc + ucast x"
    using assms by (intro or_eq_plus_word [where k = k]) (auto simp: bit_simps dest: bit_small_word)
  then show ?thesis by (simp only: push_bit_eq_mult ucast_u8_of_nat)
qed

lemma bits_val_less: "bits_val bs < 2 ^ length bs"
  by (induction bs) auto

lemma extract_loop_bits:
  assumes "i \<le> stop" and "stop \<le> 8 * length (bi_data b)"
    and "js = [i div 8..<(stop + 7) div 8] \<or> i = stop \<and> js = []"
  shows "extract_loop js stop i acc b
    = Ok (acc * 2 ^ (stop - i) + of_nat (bits_val (take (stop - i) (drop i (byte_bits (bi_data b))))))"
  using assms
proof (induction js arbitrary: i acc)
  case Nil
  then have "i = stop \<or> (stop + 7) div 8 \<le> i div 8"
    by (auto dest!: arg_cong [of "[]" _ length])
  with Nil.prems(1) have "i = stop" by linarith
  then show ?case by simp
next
  case (Cons j js)
  let ?bits = "byte_bits (bi_data b)"
  define k where "k = min (stop - i) (8 - i mod 8)"
  from Cons.prems(3) have j: "j = i div 8" "js = [Suc j..<(stop + 7) div 8]" "i div 8 < (stop + 7) div 8"
    by (auto simp: eq_commute [of "j # js"] upt_eq_Cons_conv)
  have d: "i - j * 8 = i mod 8" "j * 8 \<le> i" "8 - (8 - i mod 8) = i mod 8"
    using j(1) by (auto simp: minus_div_mult_eq_mod)
  have lt: "i div 8 < length (bi_data b)" using j(3) Cons.prems(2) by linarith
  have m: "i = 8 * j + i mod 8" using j(1) by simp
  have "0 < i mod 8 \<or> i < stop"
  proof (rule ccontr)
    assume "\<not> ?thesis"
    then have "i mod 8 = 0" "i = stop" using Cons.prems(1) by auto
    with m have "stop = 8 * j" by linarith
    with j(1,3) Cons.prems(1) show False by simp
  qed
  then have k: "i mod 8 + k \<le> 8" "0 < i mod 8 + k" "k \<le> stop - i" by (auto simp: k_def)
  obtain x where x: "extract_byte i k b = Ok x" "unat x = bits_val (take k (drop i ?bits))"
    using extract_byte_bits [OF lt k(1,2)] by blast
  have "js = [(i + k) div 8..<(stop + 7) div 8] \<or> i + k = stop \<and> js = []"
  proof (cases "k = 8 - i mod 8")
    case True
    then have "i mod 8 + k = 8" by simp
    with m have "i + k = 8 * j + 8" by (metis add.assoc)
    with j(2) show ?thesis by simp
  next
    case False
    then have k2: "k = stop - i" "stop - i < 8 - i mod 8" by (auto simp: k_def)
    obtain e where e: "i mod 8 = e" by blast
    have "i + k = stop" using k2(1) Cons.prems(1) by simp
    moreover have "stop + 7 < (j + 2) * 8" using m k2(2) Cons.prems(1) unfolding e by simp
    ultimately
    show ?thesis using j(2) less_mult_imp_div_less [of "stop + 7" "j + 2" 8] by simp
  qed
  then have IH: "extract_loop js stop (i + k) a b = Ok (a * 2 ^ (stop - (i + k))
      + of_nat (bits_val (take (stop - (i + k)) (drop (i + k) ?bits))))" for a
    using Cons.IH [of "i + k"] Cons.prems(1,2) k(3) by auto
  have len: "length (take k (drop i ?bits)) \<le> k" by simp
  then have small: "unat x < 2 ^ k"
    using bits_val_less [of "take k (drop i ?bits)"] x(2)
    by (metis order_less_le_trans one_le_numeral power_increasing)
  have split: "take (stop - i) (drop i ?bits) = take k (drop i ?bits) @ take (stop - (i + k)) (drop (i + k) ?bits)"
    using k(3) by (metis add.commute diff_diff_left drop_drop le_add_diff_inverse take_add)
  have l2: "length (take (stop - (i + k)) (drop (i + k) ?bits)) = stop - (i + k)"
    using Cons.prems(2) by simp
  have pw: "(2 :: u64) ^ (stop - i) = 2 ^ k * 2 ^ (stop - (i + k))"
    unfolding power_add [symmetric] using k(3) by (intro arg_cong [where f = "\<lambda>n. 2 ^ n"]) simp
  show ?case
    unfolding split bits_val_append l2 pw
    using d Cons.prems(1) x k IH
    by (simp add: sub_usize_def Let_def push_or_byte [OF small] algebra_simps flip: k_def)
qed

text \<open>
  Extracting a range of bits that lies within the array never panics and gives the number these
  bits stand for, most significant first (of more than 64 bits the last 64).
\<close>

lemma extract_reads_bits:
  assumes "i + len \<le> 8 * length (bi_data b)" and "8 * length (bi_data b) + 7 < 2 ^ 32"
  shows "bits_extract i len b = Ok (of_nat (bits_val (take len (drop i (byte_bits (bi_data b))))))"
  using assms extract_loop_bits [of i "i + len" b "[i div 8..<(i + len + 7) div 8]" 0]
  by (simp add: bits_extract_def usize_ok_def)

lemma extract_reads_bits_witness:
  "bits_extract 4 13 \<lparr>bi_data = [15, 23, 192], bi_len = 24\<rparr> = Ok 7727"
  using extract_reads_bits [of 4 13 "\<lparr>bi_data = [15, 23, 192], bi_len = 24\<rparr>"]
  by (simp add: nat_bits_numeral)

section \<open>Appending\<close>

text \<open>
  An array represents a list of bits when it has as many bytes as the list needs and zeros behind
  the last bit: the shape \<^verbatim>\<open>append_byte\<close> relies on and keeps.
\<close>

definition bits_rep :: "Bits \<Rightarrow> bool list \<Rightarrow> bool" where
  "bits_rep b bs \<longleftrightarrow> bi_len b = length bs \<and> length (bi_data b) = (length bs + 7) div 8
     \<and> byte_bits (bi_data b) = bs @ replicate (8 * length (bi_data b) - length bs) False"

lemma bits_rep_new: "bits_rep bits_new []" "bits_rep (bits_with_capacity n) []"
  by (simp_all add: bits_rep_def bits_new_def bits_with_capacity_def)

lemma nth_byte_bit: "q < 8 \<Longrightarrow> nat_bits 8 (unat (x :: u8)) ! q = bit x (7 - q)"
  by (simp add: nth_nat_bits bit_simps)

lemma nat_bits_or_drop:
  assumes "nat_bits 8 (unat (y :: u8)) = us @ replicate (8 - k) False" and "length us = k" and "k < 8"
  shows "nat_bits 8 (unat (y OR drop_bit k x)) = us @ take (8 - k) (nat_bits 8 (unat x))"
proof (rule nth_equalityI)
  fix q assume "q < length (nat_bits 8 (unat (y OR drop_bit k x)))"
  then have q: "q < 8" by simp
  have y: "bit y (7 - q) = (us @ replicate (8 - k) False) ! q" using nth_byte_bit [OF q, of y] assms(1) by simp
  have "nat_bits 8 (unat (y OR drop_bit k x)) ! q \<longleftrightarrow> bit y (7 - q) \<or> bit x (k + (7 - q))"
    using q by (simp add: nth_byte_bit bit_or_iff bit_drop_bit_eq)
  also have "\<dots> = (us @ take (8 - k) (nat_bits 8 (unat x))) ! q"
  proof (cases "q < k")
    case True
    then have "\<not> bit x (k + (7 - q))" using q bit_u8_bound [of x "k + (7 - q)"] by auto
    then show ?thesis using True y assms(2) by (simp add: nth_append)
  next
    case False
    then have "k + (7 - q) = 7 - (q - k)" using q assms(3) by simp
    then show ?thesis using False y assms(2,3) q by (simp add: nth_append nth_byte_bit)
  qed
  finally show "nat_bits 8 (unat (y OR drop_bit k x)) ! q = (us @ take (8 - k) (nat_bits 8 (unat x))) ! q" .
qed (use assms in simp)

lemma nat_bits_push:
  assumes "m \<le> 8"
  shows "nat_bits 8 (unat (push_bit m (x :: u8))) = drop m (nat_bits 8 (unat x)) @ replicate m False"
proof (rule nth_equalityI)
  fix q assume "q < length (nat_bits 8 (unat (push_bit m x)))"
  then have q: "q < 8" by simp
  have "nat_bits 8 (unat (push_bit m x)) ! q \<longleftrightarrow> m \<le> 7 - q \<and> bit x (7 - q - m)"
    using q by (simp only: nth_byte_bit bit_push_bit_iff) auto
  also have "\<dots> = (drop m (nat_bits 8 (unat x)) @ replicate m False) ! q"
  proof (cases "q < 8 - m")
    case True
    then have "m \<le> 7 - q" "7 - q - m = 7 - (m + q)" by auto
    then show ?thesis using True by (simp add: nth_append nth_byte_bit)
  next
    case False
    then have "\<not> m \<le> 7 - q" using q by linarith
    then show ?thesis using False q assms by (simp add: nth_append)
  qed
  finally show "nat_bits 8 (unat (push_bit m x)) ! q = (drop m (nat_bits 8 (unat x)) @ replicate m False) ! q" .
qed (use assms in simp)

text \<open>A byte whose bits after the first \<open>len\<close> are zero.\<close>

definition head_of :: "u8 \<Rightarrow> bool list \<Rightarrow> bool" where
  "head_of x ys \<longleftrightarrow> ys \<noteq> [] \<and> length ys \<le> 8 \<and> nat_bits 8 (unat x) = ys @ replicate (8 - length ys) False"

lemma append_byte_rep:
  assumes "bits_rep b xs" and "head_of x ys" and "length xs + length ys < 2 ^ 32"
  shows "\<exists>b'. append_byte x (length ys) b = Ok b' \<and> bits_rep b' (xs @ ys)"
proof (cases "length xs mod 8 = 0")
  case True
  then obtain m where m: "length xs = 8 * m" by auto
  with assms(1) have d: "length (bi_data b) = m" "byte_bits (bi_data b) = xs" "bi_len b = length xs"
    by (auto simp: bits_rep_def)
  have "(8 * m + length ys + 7) div 8 = Suc m"
    using assms(2) by (cases ys) (auto simp: head_of_def)
  then show ?thesis
    using assms(2,3) d m by (simp add: append_byte_def usize_ok_def bits_rep_def head_of_def)
next
  case False
  define k m where "k = length xs mod 8" and "m = length xs div 8"
  have k: "0 < k" "k < 8" and l: "length xs = 8 * m + k" using False by (simp_all add: k_def m_def)
  have "(8 * m + k + 7) div 8 = Suc m" using k by simp
  then have ld: "length (bi_data b) = Suc m" and bl: "bi_len b = length xs"
    and bb: "byte_bits (bi_data b) = xs @ replicate (8 - k) False"
    using assms(1) l k by (auto simp: bits_rep_def)
  obtain d y where dy: "bi_data b = d @ [y]" using ld by (cases "bi_data b" rule: rev_cases) auto
  have d: "length d = m" using dy ld by simp
  define us where "us = drop (8 * m) xs"
  have lus: "length us = k" using l by (simp add: us_def)
  have "byte_bits d @ nat_bits 8 (unat y) = (take (8 * m) xs) @ (us @ replicate (8 - k) False)"
    using bb by (simp add: dy us_def)
  then have "byte_bits d = take (8 * m) xs" and y: "nat_bits 8 (unat y) = us @ replicate (8 - k) False"
    using d l by (auto simp: append_eq_append_conv)
  then have xs: "xs = byte_bits d @ us" by (simp add: us_def)
  define X where "X = nat_bits 8 (unat x)"
  have X: "X = ys @ replicate (8 - length ys) False" "length X = 8" and ys: "0 < length ys" "length ys \<le> 8"
    using assms(2) by (auto simp: head_of_def X_def)
  have y': "nat_bits 8 (unat (y OR drop_bit k x)) = us @ take (8 - k) X"
    using nat_bits_or_drop [OF y lus k(2)] by (simp add: X_def)
  show ?thesis
  proof (cases "length ys \<le> 8 - k")
    case True
    define b' where "b' = \<lparr>bi_data = d @ [y OR drop_bit k x], bi_len = length xs + length ys\<rparr>"
    have "append_byte x (length ys) b = Ok b'"
      using k bl dy assms(3) True
      by (simp add: append_byte_def usize_ok_def sub_usize_def or_at_last b'_def Let_def flip: k_def)
    moreover have "(8 * m + k + length ys + 7) div 8 = Suc m" using k True by simp
    moreover have "8 - (k + length ys) \<le> 8 - length ys" by simp
    ultimately have "bits_rep b' (xs @ ys)"
      using True d l lus ys by (simp add: bits_rep_def b'_def y' X(1) xs min_def add.assoc)
    with \<open>append_byte x (length ys) b = Ok b'\<close> show ?thesis by blast
  next
    case False
    define b' where "b' = \<lparr>bi_data = d @ [y OR drop_bit k x, push_bit (8 - k) x], bi_len = length xs + length ys\<rparr>"
    have "append_byte x (length ys) b = Ok b'"
      using k bl dy assms(3) False
      by (simp add: append_byte_def usize_ok_def sub_usize_def or_at_last b'_def Let_def flip: k_def)
    moreover have "(8 * m + k + length ys + 7) div 8 = m + 2" using k False ys by simp
    moreover have "byte_bits (bi_data b') = byte_bits d @ us @ X @ replicate (8 - k) False"
      by (simp add: b'_def y' nat_bits_push flip: X_def)
    then have "byte_bits (bi_data b') = (xs @ ys) @ replicate ((8 - length ys) + (8 - k)) False"
      by (simp add: X(1) xs replicate_add)
    moreover have "(8 - length ys) + (8 - k) = 8 * (m + 2) - (8 * m + k + length ys)" using ys k by simp
    ultimately have "bits_rep b' (xs @ ys)"
      using d l by (simp add: bits_rep_def) (simp add: b'_def)
    with \<open>append_byte x (length ys) b = Ok b'\<close> show ?thesis by blast
  qed
qed

lemma bits_rep_byte:
  assumes "bits_rep b ys" and "i < length (bi_data b)"
  shows "head_of (bi_data b ! i) (take 8 (drop (8 * i) ys))"
proof -
  let ?zs = "take 8 (drop (8 * i) ys)"
  define w where "w = 8 * length (bi_data b) - length ys"
  have l: "8 * i < length ys" "8 * i + 8 \<le> length ys + w" using assms by (auto simp: bits_rep_def w_def)
  have "nat_bits 8 (unat (bi_data b ! i)) = take 8 (drop (8 * i) (byte_bits (bi_data b)))"
    using take_drop_byte_bits [of "8 * i" "bi_data b" 8] assms(2) by simp
  also have "\<dots> = ?zs @ take (8 - (length ys - 8 * i)) (replicate w False)"
    using assms(1) l(1) by (simp add: bits_rep_def w_def)
  also have "\<dots> = ?zs @ replicate (8 - length ?zs) False"
    using l by (auto simp: min_def)
  finally show ?thesis using l(1) by (simp add: head_of_def)
qed

lemma append_loop_rep:
  assumes "bits_rep other ys" and "bits_rep b (xs @ take (8 * i) ys)" and "i \<le> length ys div 8"
    and "length xs + length ys < 2 ^ 32"
  shows "\<exists>b'. append_loop i other b = Ok (length ys div 8, b') \<and> bits_rep b' (xs @ take (8 * (length ys div 8)) ys)"
  using assms(2,3)
proof (induction "length ys div 8 - i" arbitrary: i b)
  case 0
  then show ?case using assms(1) by (subst append_loop.simps) (auto simp: bits_rep_def)
next
  case (Suc n)
  have i: "i < length ys div 8" "i < length (bi_data other)" "bi_len other = length ys"
    using Suc.hyps(2) assms(1) by (auto simp: bits_rep_def)
  have t: "take (8 * i) ys @ take 8 (drop (8 * i) ys) = take (8 * (i + 1)) ys"
    using take_add [of "8 * i" 8 ys] by (simp add: add.commute)
  have l: "length (take 8 (drop (8 * i) ys)) = 8" using i(1) by simp
  have "length (xs @ take (8 * i) ys) + length (take 8 (drop (8 * i) ys)) < 2 ^ 32"
    using assms(4) i(1) by simp
  from append_byte_rep [OF Suc.prems(1) bits_rep_byte [OF assms(1) i(2)] this]
  obtain b1 where b1: "append_byte (bi_data other ! i) 8 b = Ok b1" "bits_rep b1 (xs @ take (8 * (i + 1)) ys)"
    unfolding l append_assoc t by blast
  have "n = length ys div 8 - (i + 1)" "i + 1 \<le> length ys div 8" using Suc.hyps(2) i(1) by linarith+
  from Suc.hyps(1) [OF this(1) b1(2) this(2)] obtain b' where
    "append_loop (i + 1) other b1 = Ok (length ys div 8, b')" "bits_rep b' (xs @ take (8 * (length ys div 8)) ys)"
    by blast
  then show ?case using i b1(1) by (subst append_loop.simps) (simp add: byte_at_def)
qed

text \<open>
  Appending one bit array to another appends the bits they represent: it never panics while the
  length fits the address space, and the result again has exactly the bytes it needs with zeros
  behind the last bit.
\<close>

lemma bits_append_appends:
  assumes "bits_rep b xs" and "bits_rep other ys" and "length xs + length ys < 2 ^ 32"
  shows "\<exists>b'. bits_append other b = Ok b' \<and> bits_rep b' (xs @ ys)"
proof -
  define m where "m = length ys div 8"
  have ol: "bi_len other = length ys" using assms(2) by (simp add: bits_rep_def)
  obtain b1 where b1: "append_loop 0 other b = Ok (m, b1)" "bits_rep b1 (xs @ take (8 * m) ys)"
    using append_loop_rep [OF assms(2), of b xs 0] assms by (auto simp: m_def)
  show ?thesis
  proof (cases "length ys mod 8 = 0")
    case True
    then have "length ys = 8 * m" using mult_div_mod_eq [of 8 "length ys"] by (simp add: m_def)
    then have "take (8 * m) ys = ys" by simp
    with b1 True ol show ?thesis by (simp add: bits_append_def)
  next
    case False
    have l2: "length ys = 8 * m + length ys mod 8" by (simp add: m_def)
    then have "m < (length ys + 7) div 8" using False by linarith
    with l2 have l: "m < length (bi_data other)" "length ys = 8 * m + length ys mod 8"
      using assms(2) by (auto simp: bits_rep_def)
    then have t: "take 8 (drop (8 * m) ys) = drop (8 * m) ys" and dl: "length (drop (8 * m) ys) = length ys mod 8"
      by auto
    have "length (xs @ take (8 * m) ys) + length (drop (8 * m) ys) < 2 ^ 32" using assms(3) by simp
    from append_byte_rep [OF b1(2) bits_rep_byte [OF assms(2) l(1), unfolded t] this] b1(1) False ol l(1)
    show ?thesis by (simp add: bits_append_def byte_at_def flip: dl)
  qed
qed

text \<open>
  \<^verbatim>\<open>from_slice\<close> gives such an array when the slice has no bytes beyond the length asked for; with more
  of them it keeps all, and clears bits of the last one instead of the last one used.
\<close>

lemma nat_bits_clear:
  assumes "k \<le> 8"
  shows "nat_bits 8 (unat (y AND NOT (push_bit (8 - k) 1 - 1) :: u8)) = take k (nat_bits 8 (unat y)) @ replicate (8 - k) False"
proof (rule nth_equalityI)
  fix q assume "q < length (nat_bits 8 (unat (y AND NOT (push_bit (8 - k) 1 - 1))))"
  then have q: "q < 8" by simp
  have m: "push_bit (8 - k) 1 - 1 = (Bit_Operations.mask (8 - k) :: u8)"
    by (simp add: mask_eq_exp_minus_1 push_bit_eq_mult)
  have "nat_bits 8 (unat (y AND NOT (push_bit (8 - k) 1 - 1))) ! q \<longleftrightarrow> bit y (7 - q) \<and> \<not> 7 - q < 8 - k"
    unfolding m using q by (simp only: nth_byte_bit bit_and_iff bit_not_iff bit_mask_iff) auto
  also have "\<not> 7 - q < 8 - k \<longleftrightarrow> q < k" using q assms by auto
  finally show "nat_bits 8 (unat (y AND NOT (push_bit (8 - k) 1 - 1))) ! q
      = (take k (nat_bits 8 (unat y)) @ replicate (8 - k) False) ! q"
    using q assms by (auto simp: nth_append nth_byte_bit)
qed (use assms in simp)

lemma from_slice_rep:
  assumes "len \<le> 8 * length data" and "8 * length data < len + 8" and "8 * length data < 2 ^ 32"
  shows "\<exists>b. from_slice data len = Ok b \<and> bits_rep b (take len (byte_bits data))"
proof (cases "len mod 8 = 0")
  case True
  then have "len = 8 * length data" using assms by auto
  then show ?thesis using assms by (simp add: from_slice_def usize_ok_def bits_rep_def Let_def mult.commute)
next
  case False
  define k m where "k = len mod 8" and "m = len div 8"
  have k: "0 < k" "k < 8" and l: "len = 8 * m + k" using False by (simp_all add: k_def m_def)
  then have "length data = Suc m" using assms by auto
  then obtain d y where dy: "data = d @ [y]" "length d = m" by (cases data rule: rev_cases) auto
  define b where "b = \<lparr>bi_data = d @ [y AND NOT (push_bit (8 - k) 1 - 1)], bi_len = len\<rparr>"
  have "from_slice data len = Ok b"
    using assms k dy l and_at_last [of d _ y]
    by (simp add: from_slice_def usize_ok_def sub_usize_def b_def Let_def min_def
        mult.commute flip: k_def)
  moreover have "(8 * m + k + 7) div 8 = Suc m" using k by simp
  then have "bits_rep b (take len (byte_bits data))"
    using k l dy nat_bits_clear [of k y] by (simp add: bits_rep_def b_def)
  ultimately show ?thesis by blast
qed

lemma from_slice_keeps_surplus:
  "from_slice [255, 255] 4 = Ok \<lparr>bi_data = [255, 240], bi_len = 4\<rparr>"
  by (simp add: from_slice_def usize_ok_def sub_usize_def and_at_def byte_at_def Let_def)

lemma append_after_surplus_lost:
  "rbind (from_slice [255, 255] 4) (bits_append \<lparr>bi_data = [0], bi_len = 4\<rparr>) = Ok \<lparr>bi_data = [255, 240], bi_len = 8\<rparr>"
  by (simp add: from_slice_keeps_surplus bits_append_def append_loop.simps [of 0] append_byte_def
      sub_usize_def or_at_def byte_at_def usize_ok_def)

lemma bits_append_appends_witness:
  "\<exists>b other b'. from_slice [255] 6 = Ok b \<and> from_slice [63] 4 = Ok other \<and> bits_append other b = Ok b'
     \<and> bits_rep b' (take 6 (byte_bits [255]) @ take 4 (byte_bits [63]))"
proof -
  obtain b other where "from_slice [255] 6 = Ok b" "bits_rep b (take 6 (byte_bits [255]))"
    "from_slice [63] 4 = Ok other" "bits_rep other (take 4 (byte_bits [63]))"
    using from_slice_rep [of 6 "[255]"] from_slice_rep [of 4 "[63]"] by auto
  with bits_append_appends [of b _ other] show ?thesis by fastforce
qed

end
