(* ===== verification/Latch.thy ===== *)
theory Latch
  imports Node_Error
begin

text \<open>
  \<^verbatim>\<open>node/src/util/latch.rs\<close>: a flag behind a mutex with a condition variable, as a transition
  system of threads. A step is what a thread does between taking and releasing the mutex:
  calling an operation up to its end or up to the point where it goes to sleep, and going on
  when it is awake again. Sleeping threads are woken by \<^verbatim>\<open>notify_one\<close>, which picks any one of
  them, by the expiry of their timeout, or spuriously, as the standard library allows. No
  operation panics while it holds the mutex, so it is never poisoned.
\<close>

section \<open>State\<close>

text \<open>
  What a thread is doing: nothing with the latch, sleeping in \<^verbatim>\<open>wait\<close> or (\<open>True\<close>) in
  \<^verbatim>\<open>wait_timeout\<close>, awake and about to take the mutex again, with the flag that says whether
  its timeout has expired, or finished with the result of its call.
\<close>

datatype thread = Outside | Asleep bool | Awake bool bool | Finished "(Error, unit) res"

type_synonym tid = nat

record Latch =
  la_open :: bool
  la_threads :: "tid \<Rightarrow> thread"

definition latch_new :: Latch where
  "latch_new = \<lparr>la_open = False, la_threads = (\<lambda>_. Outside)\<rparr>"

definition latch_opened :: "Latch \<Rightarrow> bool" where
  "latch_opened s = la_open s"

definition set_thread :: "tid \<Rightarrow> thread \<Rightarrow> Latch \<Rightarrow> Latch" where
  "set_thread t x s = s\<lparr>la_threads := (la_threads s)(t := x)\<rparr>"

section \<open>Operations\<close>

text \<open>\<^verbatim>\<open>notify_one\<close> with the thread it picks; without a sleeping thread it does nothing.\<close>

definition notify_one :: "tid option \<Rightarrow> Latch \<Rightarrow> Latch" where
  "notify_one picked s =
     (case picked of
        None \<Rightarrow> s
      | Some t \<Rightarrow> (case la_threads s t of Asleep timed \<Rightarrow> set_thread t (Awake timed False) s | _ \<Rightarrow> s))"

definition latch_open :: "tid \<Rightarrow> tid option \<Rightarrow> Latch \<Rightarrow> Latch" where
  "latch_open t picked s = set_thread t (Finished (Ok ())) (notify_one picked (s\<lparr>la_open := True\<rparr>))"

text \<open>The head of the loop in \<^verbatim>\<open>wait\<close> and \<^verbatim>\<open>wait_timeout\<close>.\<close>

definition latch_wait :: "tid \<Rightarrow> bool \<Rightarrow> Latch \<Rightarrow> Latch" where
  "latch_wait t timed s = set_thread t (if la_open s then Finished (Ok ()) else Asleep timed) s"

text \<open>Going on after \<^verbatim>\<open>condvar.wait\<close> or \<^verbatim>\<open>condvar.wait_timeout\<close> has returned.\<close>

definition latch_resume :: "tid \<Rightarrow> bool \<Rightarrow> bool \<Rightarrow> Latch \<Rightarrow> Latch" where
  "latch_resume t timed expired s =
     (if timed \<and> expired then set_thread t (Finished (Err Timeout)) s else latch_wait t timed s)"

definition asleep :: "Latch \<Rightarrow> tid \<Rightarrow> bool" where
  "asleep s t \<longleftrightarrow> (\<exists>timed. la_threads s t = Asleep timed)"

definition picks :: "Latch \<Rightarrow> tid option \<Rightarrow> bool" where
  "picks s picked \<longleftrightarrow> (case picked of None \<Rightarrow> \<forall>t. \<not> asleep s t | Some t \<Rightarrow> asleep s t)"

text \<open>The steps, each with the name of what happens in it.\<close>

datatype latch_event =
  Opens tid "tid option" | Waits tid | Resumes tid | Expires tid | Wakes_Spuriously tid | Returns tid

inductive latch_step :: "latch_event \<Rightarrow> Latch \<Rightarrow> Latch \<Rightarrow> bool" where
  Open: "la_threads s t = Outside \<Longrightarrow> picks s picked
    \<Longrightarrow> latch_step (Opens t picked) s (latch_open t picked s)"
| Wait: "la_threads s t = Outside \<Longrightarrow> latch_step (Waits t) s (latch_wait t timed s)"
| Resume: "la_threads s t = Awake timed expired
    \<Longrightarrow> latch_step (Resumes t) s (latch_resume t timed expired s)"
| Expire: "la_threads s t = Asleep True \<Longrightarrow> latch_step (Expires t) s (set_thread t (Awake True True) s)"
| Spurious: "la_threads s t = Asleep timed
    \<Longrightarrow> latch_step (Wakes_Spuriously t) s (set_thread t (Awake timed False) s)"
| Return: "la_threads s t = Finished r \<Longrightarrow> latch_step (Returns t) s (set_thread t Outside s)"

inductive latch_run :: "latch_event list \<Rightarrow> Latch \<Rightarrow> Latch \<Rightarrow> bool" where
  Run_Nil: "latch_run [] s s"
| Run_Cons: "latch_step e s s' \<Longrightarrow> latch_run es s' s'' \<Longrightarrow> latch_run (e # es) s s''"

inductive_simps latch_run_simps [simp]: "latch_run [] s s'" "latch_run (e # es) s s'"

lemmas latch_defs = latch_open_def latch_wait_def latch_resume_def set_thread_def notify_one_def

lemma la_open_simps [simp]:
  "la_open (set_thread t x s) = la_open s" "la_threads (set_thread t x s) = (la_threads s)(t := x)"
  "la_open (notify_one picked s) = la_open s" "la_open (latch_open t picked s)"
  "la_open (latch_wait t timed s) = la_open s" "la_open (latch_resume t timed expired s) = la_open s"
  by (simp_all add: latch_defs split: option.splits thread.splits)

section \<open>Invariant\<close>

text \<open>
  A call has returned normally only from an open latch, a thread of a call without timeout never
  has an expired one, no call panics and the only error is a timeout.
\<close>

definition latch_ok :: "Latch \<Rightarrow> bool" where
  "latch_ok s \<longleftrightarrow> (\<forall>t. (la_threads s t = Finished (Ok ()) \<longrightarrow> latch_opened s)
     \<and> la_threads s t \<noteq> Awake False True \<and> la_threads s t \<noteq> Finished Panic
     \<and> (\<forall>e. la_threads s t = Finished (Err e) \<longrightarrow> e = Timeout))"

lemma latch_step_open: "latch_step e s s' \<Longrightarrow> la_open s \<Longrightarrow> la_open s'"
  by (cases rule: latch_step.cases) auto

lemma latch_run_open: "latch_run es s s' \<Longrightarrow> la_open s \<Longrightarrow> la_open s'"
  by (induction rule: latch_run.induct) (auto dest: latch_step_open)

lemma latch_step_ok: "latch_step e s s' \<Longrightarrow> latch_ok s \<Longrightarrow> latch_ok s'"
proof (induction rule: latch_step.induct)
  case (Open s t picked)
  then show ?case
    by (auto simp: latch_ok_def latch_opened_def latch_open_def notify_one_def
        split: option.splits thread.splits)
next
  case (Wait s t timed)
  then show ?case by (auto simp: latch_ok_def latch_opened_def latch_wait_def)
next
  case (Resume s t timed expired)
  then show ?case by (auto simp: latch_ok_def latch_opened_def latch_resume_def latch_wait_def)
qed (auto simp: latch_ok_def latch_opened_def)

lemma latch_run_ok: "latch_run es s s' \<Longrightarrow> latch_ok s \<Longrightarrow> latch_ok s'"
  by (induction rule: latch_run.induct) (auto dest: latch_step_ok)

lemma latch_new_ok: "latch_ok latch_new"
  by (simp add: latch_ok_def latch_new_def)

lemma latch_run_opened:
  "latch_run es s s' \<Longrightarrow> la_open s' \<longleftrightarrow> la_open s \<or> (\<exists>t picked. Opens t picked \<in> set es)"
proof (induction rule: latch_run.induct)
  case (Run_Cons e s s' es s'')
  from Run_Cons.hyps(1) have "la_open s' \<longleftrightarrow> la_open s \<or> (\<exists>t picked. e = Opens t picked)"
    by (cases rule: latch_step.cases) auto
  then show ?case using Run_Cons.IH by auto
qed simp

text \<open>
  In every run from a new latch, whatever the interleaving of the threads: a wait that has
  returned normally has seen the latch opened, some thread has called \<^verbatim>\<open>open\<close> before, no call
  panics, the only error is the timeout, and once opened the latch stays open.
\<close>

lemma wait_returns_from_open_latch:
  assumes "latch_run es latch_new s"
  shows "latch_ok s \<and> (latch_opened s \<longleftrightarrow> (\<exists>t picked. Opens t picked \<in> set es))
    \<and> (\<forall>es' s'. latch_run es' s s' \<and> latch_opened s \<longrightarrow> latch_opened s')"
  using latch_run_ok [OF assms latch_new_ok] latch_run_opened [OF assms] latch_run_open
  by (auto simp: latch_opened_def latch_new_def)

lemma wait_returns_from_open_latch_witness:
  "\<exists>s. latch_run [Waits 0] latch_new s \<and> latch_ok s \<and> \<not> latch_opened s"
proof -
  have "latch_run [Waits 0] latch_new (latch_wait 0 False latch_new)"
    by (auto intro!: Run_Cons Run_Nil Wait simp: latch_new_def)
  with wait_returns_from_open_latch [OF this] show ?thesis by auto
qed

section \<open>Sleepers\<close>

text \<open>Once the latch is open nobody goes to sleep.\<close>

lemma open_no_new_sleeper:
  assumes "latch_step e s s'" and "la_open s" and "asleep s' t"
  shows "asleep s t"
  using assms
  by (cases rule: latch_step.cases)
    (auto simp: asleep_def latch_defs split: if_splits option.splits thread.splits)

lemma run_no_new_sleeper: "latch_run es s s' \<Longrightarrow> la_open s \<Longrightarrow> asleep s' t \<Longrightarrow> asleep s t"
  by (induction rule: latch_run.induct) (auto dest: open_no_new_sleeper latch_step_open)

text \<open>Only being picked by an opening, or waking spuriously, ends a sleep without timeout.\<close>

definition wakes :: "tid \<Rightarrow> latch_event \<Rightarrow> bool" where
  "wakes t e \<longleftrightarrow> e = Wakes_Spuriously t \<or> (\<exists>u. e = Opens u (Some t))"

lemma untimed_sleeper_step:
  assumes "latch_step e s s'" and "la_threads s t = Asleep False" and "\<not> wakes t e"
  shows "la_threads s' t = Asleep False"
  using assms
  by (cases rule: latch_step.cases)
    (auto simp: wakes_def latch_defs picks_def asleep_def split: if_splits option.splits thread.splits)

lemma untimed_sleeper_run:
  "latch_run es s s' \<Longrightarrow> la_threads s t = Asleep False \<Longrightarrow> \<forall>e\<in>set es. \<not> wakes t e
   \<Longrightarrow> la_threads s' t = Asleep False"
  by (induction rule: latch_run.induct) (auto dest: untimed_sleeper_step)

text \<open>
  A single waiter is released: when one thread sleeps and another opens the latch, the
  notification goes to the sleeper, whose wait returns normally at its next step, no thread is
  asleep any more, and none goes to sleep in any run that follows.
\<close>

lemma single_waiter_released:
  assumes "\<forall>u. asleep s u \<longleftrightarrow> u = t" and "latch_step (Opens u picked) s s'"
  shows "picked = Some t \<and> latch_step (Resumes t) s' (set_thread t (Finished (Ok ())) s')
    \<and> (\<forall>es s'' v. latch_run es s' s'' \<longrightarrow> \<not> asleep s'' v)"
proof -
  from assms(2) have s': "s' = latch_open u picked s" "picks s picked" "la_threads s u = Outside"
    by (auto elim: latch_step.cases)
  from assms(1) s'(2) have p: "picked = Some t" by (auto simp: picks_def split: option.splits)
  from assms(1) obtain timed where a: "la_threads s t = Asleep timed" by (auto simp: asleep_def)
  with s' have "u \<noteq> t" by auto
  with a s'(1) p have w: "la_threads s' t = Awake timed False" by (simp add: latch_defs)
  have o: "la_open s'" using s'(1) by simp
  have "latch_resume t timed False s' = set_thread t (Finished (Ok ())) s'"
    using o by (simp add: latch_resume_def latch_wait_def)
  with Resume [OF w] have "latch_step (Resumes t) s' (set_thread t (Finished (Ok ())) s')" by simp
  moreover have "\<not> asleep s' v" for v using assms(1) w s'(1) p a
    by (cases "v = t") (auto simp: asleep_def latch_defs)
  ultimately show ?thesis using p run_no_new_sleeper o by blast
qed

lemma single_waiter_released_witness:
  "\<exists>s s'. latch_run [Waits 0, Opens 1 (Some 0)] latch_new s'
     \<and> latch_run [Resumes 0] s' s \<and> la_threads s 0 = Finished (Ok ())"
proof -
  define a where "a = latch_wait 0 False latch_new"
  have a: "\<forall>u. asleep a u \<longleftrightarrow> u = 0" by (auto simp: a_def asleep_def latch_wait_def latch_new_def split: if_splits)
  have w: "latch_step (Waits 0) latch_new a"
    unfolding a_def by (rule Wait) (simp add: latch_new_def)
  have o: "latch_step (Opens 1 (Some 0)) a (latch_open 1 (Some 0) a)"
    by (rule Open) (simp add: a_def latch_wait_def latch_new_def, simp add: picks_def a)
  with w single_waiter_released [OF a o] show ?thesis
    by (intro exI [of _ "set_thread 0 (Finished (Ok ())) (latch_open 1 (Some 0) a)"]
        exI [of _ "latch_open 1 (Some 0) a"]) auto
qed

text \<open>A thread that sleeps for good unless it is picked by a further opening or wakes spuriously.\<close>

definition abandoned :: "Latch \<Rightarrow> tid \<Rightarrow> bool" where
  "abandoned s t \<longleftrightarrow>
     (\<forall>es s'. latch_run es s s' \<and> (\<forall>e\<in>set es. \<not> wakes t e) \<longrightarrow> la_threads s' t = Asleep False)"

text \<open>Two threads wait, a third opens the latch, and the one that was picked returns.\<close>

definition lost_wakeup_run :: "latch_event list" where
  "lost_wakeup_run = [Waits 0, Waits 1, Opens 2 (Some 0), Returns 2, Resumes 0, Returns 0]"


end
