(* ===== verification/Node_Helpers.thy ===== *)
theory Node_Helpers
  imports Msg_Net Latch
begin

text \<open>
  \<^verbatim>\<open>node/src/util/mod.rs\<close> and \<^verbatim>\<open>hash160.rs\<close>: the clock in seconds that the handshake uses,
  the heights of protocol upgrades, the 160-bit hash, and the printed forms of hashes and
  latches. A \<^verbatim>\<open>SystemTime\<close> is its distance from the epoch in nanoseconds.
\<close>

section \<open>The clock\<close>

text \<open>\<^verbatim>\<open>duration_since\<close> fails, and the \<^verbatim>\<open>unwrap\<close> panics, when the time is later than the clock; the seconds are cut to 32 bits.\<close>

definition secs_since :: "int \<Rightarrow> int \<Rightarrow> ('e, u32) res" where
  "secs_since now time = (if now < time then Panic else Ok (of_int ((now - time) div 1000000000)))"

definition UNIX_EPOCH :: int where
  "UNIX_EPOCH = 0"

definition BITCOIN_CASH_FORK_HEIGHT_MAINNET :: int where
  "BITCOIN_CASH_FORK_HEIGHT_MAINNET = 478558"

definition BITCOIN_CASH_FORK_HEIGHT_TESTNET :: int where
  "BITCOIN_CASH_FORK_HEIGHT_TESTNET = 1155875"

definition GENESIS_UPGRADE_HEIGHT_MAINNET :: int where
  "GENESIS_UPGRADE_HEIGHT_MAINNET = 620538"

definition GENESIS_UPGRADE_HEIGHT_TESTNET :: int where
  "GENESIS_UPGRADE_HEIGHT_TESTNET = 1344302"

section \<open>Printed forms\<close>

datatype Hash160 = Hash160 (hash160_bytes: bytes)

definition hash160_debug :: "(bytes \<Rightarrow> string) \<Rightarrow> Hash160 \<Rightarrow> string" where
  "hash160_debug hex_encode h = hex_encode (hash160_bytes h)"

definition hash256_debug :: "(bytes \<Rightarrow> string) \<Rightarrow> Hash256 \<Rightarrow> string" where
  "hash256_debug hex_encode h = hash_encode hex_encode h"

definition latch_debug :: "Latch \<Rightarrow> string" where
  "latch_debug s = ''Latch('' @ (if latch_opened s then ''opened'' else ''closed'') @ '')''"

section \<open>What the clock means for the handshake\<close>

lemma uint_of_int_u32: "uint (of_int k :: u32) = k mod 2 ^ 32"
  by (simp add: uint_word_of_int)

text \<open>Until the year 2106 the clock gives the seconds since the epoch.\<close>

lemma secs_since_exact:
  assumes "0 \<le> now" and "now div 1000000000 < 2 ^ 32"
  shows "\<exists>t. secs_since now UNIX_EPOCH = Ok t \<and> uint t = now div 1000000000"
  using assms by (simp add: secs_since_def UNIX_EPOCH_def uint_of_int_u32 pos_imp_zdiv_nonneg_iff)

text \<open>
  From then on the time of a peer whose clock is right, a 64-bit number, is compared with a clock
  that has started again from zero: the handshake refuses every such peer.
\<close>

lemma handshake_refused_after_2106:
  assumes "2 ^ 32 \<le> now div 1000000000" and "now div 1000000000 < 2 ^ 63"
    and "sint (ver_timestamp v) = now div 1000000000" and "secs_since now UNIX_EPOCH = Ok t"
    and "MIN_SUPPORTED_PROTOCOL_VERSION \<le> ver_version v"
  shows "\<exists>e. version_validate t v = Err e"
proof -
  let ?s = "now div 1000000000"
  have "uint t = ?s mod 2 ^ 32"
    using assms(4) by (auto simp: secs_since_def UNIX_EPOCH_def uint_of_int_u32 split: if_splits)
  then have "uint t = ?s mod 4294967296" by simp
  moreover have "?s = 4294967296 * (?s div 4294967296) + ?s mod 4294967296" by simp
  moreover have "1 \<le> ?s div 4294967296" using assms(1) by (simp add: pos_imp_zdiv_pos_iff)
  ultimately have "4294967296 \<le> ?s - uint t" by linarith
  then show ?thesis
    using assms(3,5) by (auto simp: version_validate_def Let_def not_less [symmetric])
qed

end
