(* ===== verification/Bnb_Search.thy ===== *)
theory Bnb_Search
  imports Coin_Selection
begin

text \<open>
  What the depth-first loop of \<^verbatim>\<open>BranchAndBoundCoinSelection::bnb\<close> computes. The code walks
  the tree of inclusions and omissions with one mutable selection that it extends, flips and
  shortens; \<open>bnb_search\<close> is the recursion over the pool which that walk unfolds to. The loop
  is shown to be this recursion within \<open>2 ^ (n + 1) - 1\<close> iterations on a pool of \<open>n\<close> outputs, and
  the recursion to return the least value of the window. The \<open>100000\<close> tries of the code
  are therefore enough for every pool of at most fifteen outputs; on larger pools they may
  run out, which is the error \<^verbatim>\<open>TotalTriesExceeded\<close>.
\<close>

section \<open>The search as a recursion over the pool\<close>

type_synonym best = "bool list \<times> int option"

definition improve :: "bool list \<Rightarrow> int \<Rightarrow> best \<Rightarrow> best" where
  "improve sel v b = (if snd b = None \<or> v < the (snd b) then (sel, Some v) else b)"

fun bnb_search ::
    "int \<Rightarrow> int \<Rightarrow> 'op OutputGroup list \<Rightarrow> bool list \<Rightarrow> int \<Rightarrow> best \<Rightarrow> bool \<times> best" where
  "bnb_search target cost rest sel v b =
     (if v + effective_sum rest < target \<or> v > target + cost then (False, b)
      else if v \<ge> target then (v = target, improve sel v b)
      else case rest of
             [] \<Rightarrow> (False, b)
           | u # us \<Rightarrow>
               (case bnb_search target cost us (sel @ [True]) (v + og_effective_value u) b of
                  (True, b') \<Rightarrow> (True, b')
                | (False, b') \<Rightarrow> bnb_search target cost us (sel @ [False]) v b'))"

declare bnb_search.simps [simp del]

section \<open>The states of the loop\<close>

definition node :: "'op OutputGroup list \<Rightarrow> int \<Rightarrow> bool list \<Rightarrow> best \<Rightarrow> bnb_state" where
  "node pool v0 sel b =
     \<lparr>bnb_current = sel, bnb_best = fst b, bnb_best_value = snd b,
      bnb_value = v0 + effective_sum (chosen_groups pool sel),
      bnb_available = effective_sum (drop (length sel) pool)\<rparr>"

lemma node_sel [simp]:
  "bnb_current (node pool v0 sel b) = sel" "bnb_best (node pool v0 sel b) = fst b"
  "bnb_best_value (node pool v0 sel b) = snd b"
  "bnb_value (node pool v0 sel b) = v0 + effective_sum (chosen_groups pool sel)"
  "bnb_available (node pool v0 sel b) = effective_sum (drop (length sel) pool)"
  by (simp_all add: node_def)

lemma bounds_signed:
  assumes "bnb_bounds pool v0 target cost" and "0 \<le> a" and "a \<le> effective_sum pool"
  shows "signed_range a" and "signed_range (v0 + a)"
  using assms by (simp_all add: bnb_bounds_def signed_range_def)

lemma bounds_nonneg: "bnb_bounds pool v0 target cost \<Longrightarrow> list_all (\<lambda>u. 0 \<le> og_effective_value u) pool"
  by (simp add: bnb_bounds_def)

lemma effective_parts:
  assumes "bnb_bounds pool v0 target cost"
  shows "0 \<le> effective_sum (chosen_groups pool sel)" "0 \<le> effective_sum (drop n pool)"
    and "effective_sum (chosen_groups pool sel) + effective_sum (drop (length sel) pool) \<le> effective_sum pool"
  using chosen_groups_bound [OF bounds_nonneg [OF assms], of sel]
    effective_sum_nonneg [OF list_all_drop [OF bounds_nonneg [OF assms]], of n] by simp_all

lemma effective_drop_le:
  assumes "bnb_bounds pool v0 target cost"
  shows "effective_sum (drop n pool) \<le> effective_sum pool"
proof (cases "n \<le> length pool")
  case True
  then show ?thesis
    using effective_parts(1,3) [OF assms, of "replicate n True"] by simp
next
  case False
  then show ?thesis using effective_parts(2) [OF assms, of 0] by simp
qed

text \<open>Backing out of an omission is backing out of its parent; backing out of an inclusion enters the omission.\<close>

lemma backtrack_omission:
  assumes "bnb_bounds pool v0 target cost" and "length sel < length pool"
  shows "bnb_backtrack pool (node pool v0 (sel @ [False]) b) = bnb_backtrack pool (node pool v0 sel b)"
proof -
  have "signed_range (effective_sum (drop (length sel) pool))"
    using bounds_signed(1) [OF assms(1)] effective_parts(2) [OF assms(1)] effective_drop_le [OF assms(1)] by simp
  then have "walk_back pool (sel @ [False]) (effective_sum (drop (Suc (length sel)) pool))
      = walk_back pool sel (effective_sum (drop (length sel) pool))"
    using assms(2) by (simp add: walk_back_snoc og_at_def checked_def effective_drop add.commute)
  then show ?thesis
    using assms(2)
    by (cases "walk_back pool sel (effective_sum (drop (length sel) pool))")
      (auto simp: bnb_backtrack_def node_def chosen_groups_snoc)
qed

lemma backtrack_inclusion:
  assumes "bnb_bounds pool v0 target cost" and "length sel < length pool"
  shows "bnb_backtrack pool (node pool v0 (sel @ [True]) b) = Ok (Continue, node pool v0 (sel @ [False]) b)"
proof -
  have "effective_sum (chosen_groups pool sel) \<le> effective_sum pool"
    using effective_parts(3) [OF assms(1), of sel] effective_parts(2) [OF assms(1), of "length sel"] by simp
  then have "signed_range (v0 + effective_sum (chosen_groups pool sel))"
    using bounds_signed(2) [OF assms(1)] effective_parts(1) [OF assms(1)] by simp
  then show ?thesis
    using assms(2)
    by (simp add: bnb_backtrack_def node_def walk_back_snoc og_at_def checked_def chosen_groups_snoc)
qed

lemma backtrack_root:
  "bnb_backtrack pool (node pool v0 [] b)
   = (if fst b = [] then Err NoExactMatch else Ok (Break, node pool v0 [] b))"
  by (simp add: bnb_backtrack_def walk_back_Nil node_def)

lemma forward_node:
  assumes "bnb_bounds pool v0 target cost" and "length sel < length pool"
  shows "bnb_forward pool (node pool v0 sel b) = Ok (Continue, node pool v0 (sel @ [True]) b)"
proof -
  have len: "length (sel @ [True]) = Suc (length sel)" by simp
  have "effective_sum (chosen_groups pool (sel @ [True])) \<le> effective_sum pool"
    using effective_parts(3) [OF assms(1), of "sel @ [True]"]
      effective_parts(2) [OF assms(1), of "length (sel @ [True])"] by linarith
  then have "signed_range (v0 + effective_sum (chosen_groups pool (sel @ [True])))"
    using bounds_signed(2) [OF assms(1)] effective_parts(1) [OF assms(1)] by blast
  moreover have "signed_range (effective_sum (drop (Suc (length sel)) pool))"
    using bounds_signed(1) [OF assms(1)] effective_parts(2) [OF assms(1)] effective_drop_le [OF assms(1)] by blast
  ultimately show ?thesis
    using assms(2)
    by (simp add: bnb_forward_def node_def og_at_def checked_def chosen_groups_snoc effective_drop add.assoc)
qed

lemma record_node:
  "bnb_record_best (node pool v0 sel b)
   = node pool v0 sel (improve sel (v0 + effective_sum (chosen_groups pool sel)) b)"
  by (simp add: bnb_record_best_def improve_def node_def)

lemma step_node:
  assumes "bnb_bounds pool v0 target cost"
  shows "bnb_step pool target cost (node pool v0 sel b) =
     (let v = v0 + effective_sum (chosen_groups pool sel) in
      if v + effective_sum (drop (length sel) pool) < target \<or> v > target + cost
      then bnb_backtrack pool (node pool v0 sel b)
      else if v \<ge> target
      then (if v = target then Ok (Break, node pool v0 sel (improve sel v b))
            else bnb_backtrack pool (node pool v0 sel (improve sel v b)))
      else bnb_forward pool (node pool v0 sel b))"
proof -
  have "signed_range (v0 + (effective_sum (chosen_groups pool sel) + effective_sum (drop (length sel) pool)))"
    using effective_parts(1,3) [OF assms, of sel] effective_parts(2) [OF assms, of "length sel"]
    by (intro bounds_signed(2) [OF assms]) simp_all
  moreover have "signed_range (target + cost)" using assms by (simp add: bnb_bounds_def signed_range_def)
  ultimately show ?thesis
    by (simp add: bnb_step_def checked_def record_node Let_def add.assoc)
qed

section \<open>The loop is the recursion\<close>

definition resume ::
    "'op OutputGroup list \<Rightarrow> int \<Rightarrow> int \<Rightarrow> nat \<Rightarrow> (BnbError, bnb_flow \<times> bnb_state) res \<Rightarrow> (BnbError, bnb_state) res" where
  "resume pool target cost n r = rbind r (\<lambda>(flow, st).
     case flow of Break \<Rightarrow> Ok st | Continue \<Rightarrow> bnb_loop n pool target cost st)"

lemma loop_step: "bnb_loop (Suc n) pool target cost st = resume pool target cost n (bnb_step pool target cost st)"
  by (simp only: bnb_loop.simps [of "Suc n"] resume_def diff_Suc_1 nat.simps if_False)

lemma resume_simps [simp]:
  "resume pool target cost n (Ok (Continue, st)) = bnb_loop n pool target cost st"
  "resume pool target cost n (Ok (Break, st)) = Ok st"
  "resume pool target cost n (Err e) = Err e"
  by (simp_all add: resume_def)

text \<open>Running the loop from a node either stops at an exact match or leaves the node with the best of its subtree.\<close>

lemma loop_subtree:
  assumes "bnb_bounds pool v0 target cost" and "length sel + d = length pool"
    and "bnb_search target cost (drop (length sel) pool) sel (v0 + effective_sum (chosen_groups pool sel)) b
         = (found, b')"
  shows "\<exists>m < 2 ^ Suc d. \<forall>n. if found
           then \<exists>sel'. bnb_loop (m + n) pool target cost (node pool v0 sel b) = Ok (node pool v0 sel' b')
           else bnb_loop (m + n) pool target cost (node pool v0 sel b)
                = resume pool target cost n (bnb_backtrack pool (node pool v0 sel b'))"
  using assms(2,3)
proof (induction d arbitrary: sel b found b')
  case 0
  then have "bnb_loop (1 + n) pool target cost (node pool v0 sel b)
      = (if found then Ok (node pool v0 sel b') else resume pool target cost n (bnb_backtrack pool (node pool v0 sel b')))" for n
    by (auto simp: loop_step step_node [OF assms(1)] Let_def bnb_search.simps split: if_splits)
  then show ?case by (intro exI [of _ 1]) auto
next
  case (Suc d)
  let ?v = "v0 + effective_sum (chosen_groups pool sel)"
  have len: "length sel < length pool" using Suc.prems(1) by simp
  show ?case
  proof (cases "?v + effective_sum (drop (length sel) pool) < target \<or> ?v > target + cost \<or> ?v \<ge> target")
    case True
    then have "bnb_loop (1 + n) pool target cost (node pool v0 sel b)
        = (if found then Ok (node pool v0 sel b') else resume pool target cost n (bnb_backtrack pool (node pool v0 sel b')))" for n
      using Suc.prems(2)
      by (auto simp: loop_step step_node [OF assms(1)] Let_def bnb_search.simps [of _ _ _ _ ?v] split: if_splits)
    moreover have "(1 :: nat) < 2 ^ Suc (Suc d)" by (metis one_less_numeral_iff one_less_power semiring_norm(76) zero_less_Suc)
    ultimately show ?thesis by (intro exI [of _ 1]) auto
  next
    case False
    have forward: "bnb_loop (Suc k) pool target cost (node pool v0 sel b)
        = bnb_loop k pool target cost (node pool v0 (sel @ [True]) b)" for k
      using False by (simp add: loop_step step_node [OF assms(1)] forward_node [OF assms(1) len] Let_def)
    obtain f1 b1 where s1: "bnb_search target cost (drop (length (sel @ [True])) pool) (sel @ [True])
        (v0 + effective_sum (chosen_groups pool (sel @ [True]))) b = (f1, b1)"
      by (rule prod.exhaust)
    have "bnb_search target cost (drop (length sel) pool) sel ?v b =
        (if f1 then (True, b1)
         else bnb_search target cost (drop (length (sel @ [False])) pool) (sel @ [False])
                (v0 + effective_sum (chosen_groups pool (sel @ [False]))) b1)"
      using False s1 by (subst bnb_search.simps)
        (simp add: Cons_nth_drop_Suc [OF len, symmetric] chosen_groups_snoc [OF len] add.assoc split: prod.splits bool.splits)
    with Suc.prems(2) have s2: "(if f1 then (True, b1)
         else bnb_search target cost (drop (length (sel @ [False])) pool) (sel @ [False])
                (v0 + effective_sum (chosen_groups pool (sel @ [False]))) b1) = (found, b')" by simp
    have depth: "length (sel @ [x]) + d = length pool" for x using Suc.prems(1) by simp
    obtain m1 where m1: "m1 < 2 ^ Suc d" "\<And>n. if f1
           then \<exists>sel'. bnb_loop (m1 + n) pool target cost (node pool v0 (sel @ [True]) b) = Ok (node pool v0 sel' b1)
           else bnb_loop (m1 + n) pool target cost (node pool v0 (sel @ [True]) b)
                = resume pool target cost n (bnb_backtrack pool (node pool v0 (sel @ [True]) b1))"
      using Suc.IH [OF depth s1] by blast
    show ?thesis
    proof (cases f1)
      case True
      with s2 m1 show ?thesis by (intro exI [of _ "Suc m1"]) (auto simp: forward)
    next
      case f1: False
      with s2 have s2': "bnb_search target cost (drop (length (sel @ [False])) pool) (sel @ [False])
                (v0 + effective_sum (chosen_groups pool (sel @ [False]))) b1 = (found, b')" by simp
      obtain m2 where m2: "m2 < 2 ^ Suc d" "\<And>n. if found
           then \<exists>sel'. bnb_loop (m2 + n) pool target cost (node pool v0 (sel @ [False]) b1) = Ok (node pool v0 sel' b')
           else bnb_loop (m2 + n) pool target cost (node pool v0 (sel @ [False]) b1)
                = resume pool target cost n (bnb_backtrack pool (node pool v0 (sel @ [False]) b'))"
        using Suc.IH [OF depth s2'] by blast
      have first: "bnb_loop (Suc (m1 + (m2 + n))) pool target cost (node pool v0 sel b)
          = bnb_loop (m2 + n) pool target cost (node pool v0 (sel @ [False]) b1)" for n
        using m1(2) [of "m2 + n"] f1 by (simp add: forward backtrack_inclusion [OF assms(1) len])
      have "if found
           then \<exists>sel'. bnb_loop (Suc (m1 + m2) + n) pool target cost (node pool v0 sel b) = Ok (node pool v0 sel' b')
           else bnb_loop (Suc (m1 + m2) + n) pool target cost (node pool v0 sel b)
                = resume pool target cost n (bnb_backtrack pool (node pool v0 sel b'))" for n
        using first [of n] m2(2) [of n] by (simp add: add.assoc backtrack_omission [OF assms(1) len])
      moreover have "Suc (m1 + m2) < 2 ^ Suc (Suc d)" using m1(1) m2(1) by simp
      ultimately show ?thesis by blast
    qed
  qed
qed

lemma loop_is_search:
  assumes "bnb_bounds pool v0 target cost" and "2 ^ Suc (length pool) \<le> Suc tries"
    and "bnb_search target cost pool [] v0 ([], None) = (found, b)"
  shows "if found \<or> fst b \<noteq> []
         then \<exists>sel. bnb_loop tries pool target cost (node pool v0 [] ([], None)) = Ok (node pool v0 sel b)
         else bnb_loop tries pool target cost (node pool v0 [] ([], None)) = Err NoExactMatch"
proof -
  have root: "effective_sum (chosen_groups pool []) = 0" by (simp add: chosen_groups_def)
  have "bnb_search target cost (drop (length []) pool) [] (v0 + effective_sum (chosen_groups pool [])) ([], None)
      = (found, b)" using assms(3) root by simp
  from loop_subtree [OF assms(1) _ this, of "length pool"]
  obtain m where m: "m < 2 ^ Suc (length pool)" "\<And>n. if found
       then \<exists>sel'. bnb_loop (m + n) pool target cost (node pool v0 [] ([], None)) = Ok (node pool v0 sel' b)
       else bnb_loop (m + n) pool target cost (node pool v0 [] ([], None))
            = resume pool target cost n (bnb_backtrack pool (node pool v0 [] b))"
    by auto
  have "m \<le> tries" using m(1) assms(2) by linarith
  then obtain n where "tries = m + n" using le_Suc_ex by blast
  with m(2) [of n] show ?thesis by (cases found) (auto simp: backtrack_root)
qed

section \<open>The recursion finds the least value of the window\<close>

lemma chosen_groups_Cons:
  "chosen_groups (u # us) (x # c) = (if x then u # chosen_groups us c else chosen_groups us c)"
  "chosen_groups us [] = []" "chosen_groups [] c = []"
  by (simp_all add: chosen_groups_def)

lemma effective_chosen:
  assumes "list_all (\<lambda>u. 0 \<le> og_effective_value u) us"
  shows "0 \<le> effective_sum (chosen_groups us c)" "effective_sum (chosen_groups us c) \<le> effective_sum us"
  using chosen_groups_bound [OF assms, of c] effective_sum_nonneg [OF list_all_drop [OF assms], of "length c"]
  by simp_all

definition at_most :: "int option \<Rightarrow> int \<Rightarrow> bool" where
  "at_most x v \<longleftrightarrow> (case x of None \<Rightarrow> False | Some w \<Rightarrow> w \<le> v)"

lemma at_most_improve: "at_most (snd (improve sel v b)) w \<longleftrightarrow> v \<le> w \<or> at_most (snd b) w"
  by (auto simp: improve_def at_most_def split: option.splits)

lemma search_keeps:
  "bnb_search target cost rest sel v b = (found, b') \<Longrightarrow> at_most (snd b) w \<Longrightarrow> at_most (snd b') w"
proof (induction rest arbitrary: sel v b found b')
  case Nil
  then show ?case by (auto simp: bnb_search.simps at_most_improve split: if_splits)
next
  case (Cons u us)
  from Cons.prems(1) consider "b' = b" | "b' = improve sel v b"
    | "bnb_search target cost us (sel @ [True]) (v + og_effective_value u) b = (found, b')"
    | b1 where "bnb_search target cost us (sel @ [True]) (v + og_effective_value u) b = (False, b1)"
        "bnb_search target cost us (sel @ [False]) v b1 = (found, b')"
    by (subst (asm) bnb_search.simps) (auto split: if_splits prod.splits bool.splits)
  then show ?case using Cons.IH Cons.prems(2) by cases (auto simp: at_most_improve)
qed

lemma search_found: "bnb_search target cost rest sel v b = (True, b') \<Longrightarrow> at_most (snd b') target"
proof (induction rest arbitrary: sel v b b')
  case Nil
  then show ?case by (auto simp: bnb_search.simps at_most_improve split: if_splits)
next
  case (Cons u us)
  from Cons.prems consider "b' = improve sel target b"
    | sel1 v1 b1 where "bnb_search target cost us sel1 v1 b1 = (True, b')"
    by (subst (asm) bnb_search.simps) (auto split: if_splits prod.splits bool.splits)
  then show ?case using Cons.IH by cases (auto simp: at_most_improve)
qed

lemma search_empty:
  "bnb_search target cost rest sel v b = (found, b') \<Longrightarrow> (fst b = [] \<Longrightarrow> snd b = None) \<Longrightarrow>
     sel \<noteq> [] \<or> v < target \<Longrightarrow> fst b' = [] \<Longrightarrow> snd b' = None"
proof (induction rest arbitrary: sel v b found b')
  case Nil
  then show ?case by (auto simp: bnb_search.simps improve_def split: if_splits)
next
  case (Cons u us)
  from Cons.prems(1,3) consider "b' = b" | "b' = improve sel v b" "sel \<noteq> []"
    | "bnb_search target cost us (sel @ [True]) (v + og_effective_value u) b = (found, b')"
    | b1 where "bnb_search target cost us (sel @ [True]) (v + og_effective_value u) b = (False, b1)"
        "bnb_search target cost us (sel @ [False]) v b1 = (found, b')"
    by (subst (asm) bnb_search.simps) (auto split: if_splits prod.splits bool.splits)
  then show ?case
  proof cases
    case 2
    then show ?thesis using Cons.prems(2,4) by (auto simp: improve_def split: if_splits)
  next
    case 3
    then show ?thesis using Cons.IH Cons.prems(2,4) by blast
  next
    case 4
    then have "fst b1 = [] \<Longrightarrow> snd b1 = None" using Cons.IH Cons.prems(2) by blast
    then show ?thesis using Cons.IH [OF 4(2)] Cons.prems(4) by blast
  qed (use Cons.prems in simp)
qed

lemma search_least:
  "bnb_search target cost rest sel v b = (found, b') \<Longrightarrow>
   list_all (\<lambda>u. 0 \<le> og_effective_value u) rest \<Longrightarrow> target \<le> v + effective_sum (chosen_groups rest c) \<Longrightarrow>
   v + effective_sum (chosen_groups rest c) \<le> target + cost \<Longrightarrow>
   at_most (snd b') (v + effective_sum (chosen_groups rest c))"
proof (induction rest arbitrary: sel v b found b' c)
  case Nil
  then show ?case by (auto simp: bnb_search.simps at_most_improve chosen_groups_Cons split: if_splits)
next
  case (Cons u us)
  note eff = effective_chosen [OF Cons.prems(2), of c]
  show ?case
  proof (cases "v \<ge> target")
    case True
    then have "b' = improve sel v b"
      using Cons.prems eff by (subst (asm) bnb_search.simps) (auto split: if_splits)
    with eff show ?thesis by (simp add: at_most_improve)
  next
    case False
    obtain f1 b1 where s1: "bnb_search target cost us (sel @ [True]) (v + og_effective_value u) b = (f1, b1)"
      by (rule prod.exhaust)
    have s: "(if f1 then (True, b1) else bnb_search target cost us (sel @ [False]) v b1) = (found, b')"
      using Cons.prems eff False s1
      by (subst (asm) bnb_search.simps) (auto split: if_splits prod.splits bool.splits)
    have exact: "at_most (snd b1) target" if f1
      using s1 that by (auto intro: search_found)
    show ?thesis
    proof (cases f1)
      case True
      with s exact Cons.prems(3) show ?thesis by (auto simp: at_most_def split: option.splits)
    next
      case f1: False
      with s have s2: "bnb_search target cost us (sel @ [False]) v b1 = (found, b')" by simp
      show ?thesis
      proof (cases "\<exists>c'. c = True # c'")
        case True
        then obtain c' where c: "c = True # c'" by blast
        have "at_most (snd b1) (v + effective_sum (chosen_groups (u # us) c))"
          using Cons.IH [OF s1, of c'] Cons.prems by (simp add: c chosen_groups_Cons add.assoc)
        then show ?thesis by (rule search_keeps [OF s2])
      next
        case False
        then have "chosen_groups (u # us) c = chosen_groups us (tl c)"
          by (cases c) (auto simp: chosen_groups_Cons)
        then show ?thesis using Cons.IH [OF s2, of "tl c"] Cons.prems by simp
      qed
    qed
  qed
qed

section \<open>Every sub-multiset of the pool is a node\<close>

lemma chosen_groups_exists:
  "mset chosen \<subseteq># mset pool \<Longrightarrow> \<exists>c. mset (chosen_groups pool c) = mset chosen"
proof (induction pool arbitrary: chosen)
  case Nil
  then show ?case by (simp add: chosen_groups_Cons)
next
  case (Cons u us)
  show ?case
  proof (cases "u \<in> set chosen")
    case True
    then have "mset (remove1 u chosen) \<subseteq># mset us"
      using Cons.prems by (simp add: subset_eq_diff_conv)
    then obtain c where "mset (chosen_groups us c) = mset (remove1 u chosen)" using Cons.IH by blast
    with True have "mset (chosen_groups (u # us) (True # c)) = mset chosen" by (simp add: chosen_groups_Cons)
    then show ?thesis by blast
  next
    case False
    then have "count (mset chosen) x \<le> count (mset us) x" for x
      using mset_subset_eq_count [OF Cons.prems, of x] by (cases "x = u") (simp_all add: count_eq_zero_iff [THEN iffD2])
    then have "mset chosen \<subseteq># mset us" by (rule mset_subset_eqI)
    then obtain c where "mset (chosen_groups us c) = mset chosen" using Cons.IH by blast
    then have "mset (chosen_groups (u # us) (False # c)) = mset chosen" by (simp add: chosen_groups_Cons)
    then show ?thesis by blast
  qed
qed

lemma effective_sum_mset: "mset xs = mset ys \<Longrightarrow> effective_sum xs = effective_sum ys"
  by (simp add: effective_sum_def sum_list_map_mset)

text \<open>What the loop ends with on a pool small enough for its tries, for the amounts the wallet meets.\<close>

lemma loop_finds_least:
  assumes "bnb_bounds pool v0 target cost" and "v0 < target" and "2 ^ Suc (length pool) \<le> Suc tries"
  shows "(\<exists>st w. bnb_loop tries pool target cost (node pool v0 [] ([], None)) = Ok st
            \<and> bnb_best st \<noteq> [] \<and> bnb_best_value st = Some w
            \<and> (\<forall>c. target \<le> v0 + effective_sum (chosen_groups pool c)
                   \<longrightarrow> w \<le> v0 + effective_sum (chosen_groups pool c)))
       \<or> bnb_loop tries pool target cost (node pool v0 [] ([], None)) = Err NoExactMatch
         \<and> (\<forall>c. \<not> (target \<le> v0 + effective_sum (chosen_groups pool c)
                  \<and> v0 + effective_sum (chosen_groups pool c) \<le> target + cost))"
proof -
  obtain found b where s: "bnb_search target cost pool [] v0 ([], None) = (found, b)" by (rule prod.exhaust)
  note least = search_least [OF s bounds_nonneg [OF assms(1)]]
  have init: "bnb_inv pool v0 target cost (node pool v0 [] ([], None))"
    by (simp add: bnb_inv_def bnb_best_ok_def)
  show ?thesis
  proof (cases "found \<or> fst b \<noteq> []")
    case True
    with loop_is_search [OF assms(1,3) s] obtain sel where
      l: "bnb_loop tries pool target cost (node pool v0 [] ([], None)) = Ok (node pool v0 sel b)" by auto
    then have ok: "bnb_best_ok pool v0 target cost (fst b) (snd b)"
      using bnb_loop_inv [OF init] by (fastforce simp: bnb_inv_def)
    have "snd b \<noteq> None"
    proof
      assume none: "snd b = None"
      with ok True have found by (simp add: bnb_best_ok_def)
      with s have "bnb_search target cost pool [] v0 ([], None) = (True, b)" by simp
      from search_found [OF this] none show False by (simp add: at_most_def)
    qed
    then obtain w where w: "snd b = Some w" by blast
    with ok have v: "w = v0 + effective_sum (chosen_groups pool (fst b))" "target \<le> w" "w \<le> target + cost"
      by (simp_all add: bnb_best_ok_def)
    with assms(2) have "fst b \<noteq> []" by (auto simp: chosen_groups_Cons)
    moreover have "w \<le> v0 + effective_sum (chosen_groups pool c)"
      if "target \<le> v0 + effective_sum (chosen_groups pool c)" for c
    proof (cases "v0 + effective_sum (chosen_groups pool c) \<le> target + cost")
      case True
      with least [OF that] w show ?thesis by (simp add: at_most_def)
    qed (use v(3) in simp)
    ultimately show ?thesis using l w by auto
  next
    case False
    then have "bnb_loop tries pool target cost (node pool v0 [] ([], None)) = Err NoExactMatch"
      using loop_is_search [OF assms(1,3) s] by auto
    moreover have "snd b = None"
      using False assms(2) search_empty [OF s] by simp
    ultimately show ?thesis using least by (auto simp: at_most_def)
  qed
qed

section \<open>Branch and bound is optimal on small pools\<close>

lemma decide_change_total_on:
  assumes "fe_from_vb fe (ds_serialized_len ds + 8) = Some w" and "fe_mul fe w = Some change"
  shows "\<exists>ex. decide_change a fe ds = (Ok ex :: ('e, Excess) res)"
  using assms by (simp add: decide_change_def of_opt_def Let_def)

lemma bnb_from_loop:
  assumes "\<And>xs. mset (usort xs) = mset xs" and "avail = effective_sum optional"
  shows "bnb usort required optional v0 avail target cost ds fe =
     rbind (bnb_loop BNB_TOTAL_TRIES (rev (usort optional)) target cost
              (node (rev (usort optional)) v0 [] ([], None))) (\<lambda>st.
       if bnb_best st = [] then Err TotalTriesExceeded
       else rbind (of_opt (bnb_best_value st)) (\<lambda>selected_value.
          rbind (checked (selected_value - target)) (\<lambda>d. rbind (to_unsigned d) (\<lambda>remaining.
            rbind (decide_change remaining fe ds) (\<lambda>excess.
              calculate_cs_result (chosen_groups (rev (usort optional)) (bnb_best st)) required excess)))))"
proof -
  have "effective_sum (rev (usort optional)) = avail"
    unfolding assms(2) by (rule effective_sum_mset) (simp add: assms(1))
  then show ?thesis
    unfolding bnb_def chosen_groups_def Let_def node_def by simp
qed

lemma pool_bounds:
  assumes "\<And>xs. mset (usort xs) = mset xs" and "bnb_bounds optional v0 target cost"
  shows "bnb_bounds (rev (usort optional)) v0 target cost" and "length (rev (usort optional)) = length optional"
proof -
  have m: "mset (rev (usort optional)) = mset optional" by (simp add: assms(1))
  then have "set (rev (usort optional)) = set optional" by (metis set_mset_mset)
  with assms(2) effective_sum_mset [OF m] show "bnb_bounds (rev (usort optional)) v0 target cost"
    by (simp add: bnb_bounds_def list_all_iff)
  show "length (rev (usort optional)) = length optional" using m by (metis size_mset)
qed

lemma tries_enough: "n \<le> 15 \<Longrightarrow> 2 ^ Suc n \<le> Suc BNB_TOTAL_TRIES"
proof -
  assume "n \<le> 15"
  then have "(2 :: nat) ^ Suc n \<le> 2 ^ 16" by (intro power_increasing) simp_all
  then show ?thesis by (simp add: BNB_TOTAL_TRIES_def)
qed

lemma bnb_by_search:
  assumes "\<And>xs. mset (usort xs) = mset xs" and "avail = effective_sum optional"
    and "bnb_bounds optional v0 target cost" and "length optional \<le> 15"
    and "bnb_search target cost (rev (usort optional)) [] v0 ([], None) = (found, sel, v)" and "sel \<noteq> []"
  shows "bnb usort required optional v0 avail target cost ds fe =
     rbind (of_opt v) (\<lambda>selected_value. rbind (checked (selected_value - target)) (\<lambda>d. rbind (to_unsigned d) (\<lambda>remaining.
       rbind (decide_change remaining fe ds) (\<lambda>excess.
         calculate_cs_result (chosen_groups (rev (usort optional)) sel) required excess))))"
proof -
  note pool = pool_bounds [OF assms(1,3)]
  have "2 ^ Suc (length (rev (usort optional))) \<le> Suc BNB_TOTAL_TRIES"
    using tries_enough [OF assms(4)] pool(2) by simp
  from loop_is_search [OF pool(1) this assms(5)] assms(6)
  show ?thesis by (auto simp: bnb_from_loop [OF assms(1,2)])
qed

lemma bnb_least:
  assumes "\<forall>xs. mset (usort xs) = mset xs" and "avail = effective_sum optional"
    and "bnb_bounds optional v0 target cost" and "v0 < target" and "length optional \<le> 15"
    and "fe_from_vb fe (ds_serialized_len ds + 8) = Some w" and "fe_mul fe w = Some change"
    and "sum_list (map og_fee (required @ optional)) < 2 ^ 64"
  shows "case bnb usort required optional v0 avail target cost ds fe of
      Ok r \<Rightarrow> \<exists>chosen. mset chosen \<subseteq># mset optional
        \<and> cs_selected r = map (\<lambda>u. wu_utxo (og_weighted_utxo u)) (chosen @ required)
        \<and> target \<le> v0 + effective_sum chosen \<and> v0 + effective_sum chosen \<le> target + cost
        \<and> (\<forall>other. mset other \<subseteq># mset optional \<longrightarrow> target \<le> v0 + effective_sum other
               \<longrightarrow> effective_sum chosen \<le> effective_sum other)
    | Err e \<Rightarrow> e = NoExactMatch \<and> (\<forall>other. mset other \<subseteq># mset optional
        \<longrightarrow> \<not> (target \<le> v0 + effective_sum other \<and> v0 + effective_sum other \<le> target + cost))
    | Panic \<Rightarrow> False"
proof -
  let ?pool = "rev (usort optional)"
  have perm: "mset (usort xs) = mset xs" for xs using assms(1) by blast
  note pool = pool_bounds [OF perm assms(3)]
  have m: "mset ?pool = mset optional" by (simp add: perm)
  have node_of: "\<exists>c. effective_sum (chosen_groups ?pool c) = effective_sum other"
    if "mset other \<subseteq># mset optional" for other
    using chosen_groups_exists [of other ?pool] that m effective_sum_mset by metis
  have tries: "2 ^ Suc (length ?pool) \<le> Suc BNB_TOTAL_TRIES"
    using tries_enough [OF assms(5)] pool(2) by simp
  let ?loop = "bnb_loop BNB_TOTAL_TRIES ?pool target cost (node ?pool v0 [] ([], None))"
  note bnb = bnb_from_loop [OF perm assms(2), of required v0 target cost ds fe]
  have init: "bnb_inv ?pool v0 target cost (node ?pool v0 [] ([], None))"
    by (simp add: bnb_inv_def bnb_best_ok_def)
  from loop_finds_least [OF pool(1) assms(4) tries] show ?thesis
  proof (elim disjE exE conjE)
    fix st v
    assume l: "?loop = Ok st" "bnb_best st \<noteq> []" "bnb_best_value st = Some v"
      and least: "\<forall>c. target \<le> v0 + effective_sum (chosen_groups ?pool c) \<longrightarrow> v \<le> v0 + effective_sum (chosen_groups ?pool c)"
    let ?chosen = "chosen_groups ?pool (bnb_best st)"
    have v: "v = v0 + effective_sum ?chosen" "target \<le> v" "v \<le> target + cost"
      using bnb_loop_inv [OF init l(1)] l(3) by (simp_all add: bnb_inv_def bnb_best_ok_def)
    have sub: "mset ?chosen \<subseteq># mset optional" using chosen_groups_subset [of ?pool "bnb_best st"] m by simp
    obtain ex where ex: "decide_change (nat (v - target)) fe ds = (Ok ex :: (BnbError, Excess) res)"
      using decide_change_total_on [OF assms(6,7)] by blast
    have "sum_list (map og_fee (?chosen @ required)) < 2 ^ 64"
      using sum_list_submset [OF sub, of og_fee] assms(8) by simp
    then have cs: "calculate_cs_result ?chosen required ex = (Ok \<lparr>cs_selected = map (\<lambda>u. wu_utxo (og_weighted_utxo u)) (?chosen @ required),
        cs_fee_amount = sum_list (map og_fee (?chosen @ required)), cs_excess = ex\<rparr> :: (BnbError, _) res)"
      using foldR_amt_add_total [of 0 og_fee "?chosen @ required"] by (simp add: calculate_cs_result_def Let_def)
    have "signed_range (v - target)" using v assms(3) by (simp add: signed_range_def bnb_bounds_def)
    then have "bnb usort required optional v0 avail target cost ds fe
        = Ok \<lparr>cs_selected = map (\<lambda>u. wu_utxo (og_weighted_utxo u)) (?chosen @ required),
              cs_fee_amount = sum_list (map og_fee (?chosen @ required)), cs_excess = ex\<rparr>"
      using l v ex cs by (simp add: bnb of_opt_def checked_def to_unsigned_def)
    moreover have "effective_sum ?chosen \<le> effective_sum other"
      if o: "mset other \<subseteq># mset optional" "target \<le> v0 + effective_sum other" for other
    proof -
      obtain c where "effective_sum (chosen_groups ?pool c) = effective_sum other" using node_of [OF o(1)] by blast
      with least [rule_format, of c] v(1) o(2) show ?thesis by simp
    qed
    ultimately show ?thesis
      using sub v by (simp only: res.case) (intro exI [of _ ?chosen], simp)
  next
    assume l: "?loop = Err NoExactMatch"
      and none: "\<forall>c. \<not> (target \<le> v0 + effective_sum (chosen_groups ?pool c)
                  \<and> v0 + effective_sum (chosen_groups ?pool c) \<le> target + cost)"
    have "\<not> (target \<le> v0 + effective_sum other \<and> v0 + effective_sum other \<le> target + cost)"
      if "mset other \<subseteq># mset optional" for other
      using node_of [OF that] none by metis
    then show ?thesis by (simp add: bnb l)
  qed
qed

lemma optimal_finds:
  assumes "\<forall>xs. mset (usort xs) = mset xs" and "avail = effective_sum optional"
    and "bnb_bounds optional v0 target cost" and "v0 < target" and "length optional \<le> 15"
    and "fe_from_vb fe (ds_serialized_len ds + 8) = Some w" and "fe_mul fe w = Some change"
    and "sum_list (map og_fee (required @ optional)) < 2 ^ 64"
    and "mset other \<subseteq># mset optional" and "target \<le> v0 + effective_sum other" and "v0 + effective_sum other \<le> target + cost"
  shows "\<exists>r. bnb usort required optional v0 avail target cost ds fe = Ok r"
  using bnb_least [OF assms(1-8)] assms(9-11)
  by (cases "bnb usort required optional v0 avail target cost ds fe") auto



text \<open>
  When the required outputs alone are worth exactly the target the search finds the match at
  once, but the selection it records is empty, which the code takes for no selection: it
  reports \<^verbatim>\<open>TotalTriesExceeded\<close> after one try and the caller falls back to the random draw.
\<close>

lemma required_match_is_reported_as_exhausted:
  assumes "\<And>xs. mset (usort xs) = mset xs" and "avail = effective_sum optional"
    and "bnb_bounds optional target target cost"
  shows "bnb usort required optional target avail target cost ds fe = Err TotalTriesExceeded"
proof -
  let ?pool = "rev (usort optional)"
  note pool = pool_bounds [OF assms(1,3)]
  have "0 \<le> effective_sum ?pool" using effective_sum_nonneg bounds_nonneg [OF pool(1)] by blast
  moreover have "0 \<le> cost" using assms(3) by (simp add: bnb_bounds_def)
  ultimately have "bnb_step ?pool target cost (node ?pool target [] ([], None))
      = Ok (Break, node ?pool target [] ([], Some target))"
    by (simp add: step_node [OF pool(1)] chosen_groups_Cons improve_def)
  then have "bnb_loop BNB_TOTAL_TRIES ?pool target cost (node ?pool target [] ([], None))
      = Ok (node ?pool target [] ([], Some target))"
    by (subst bnb_loop.simps) (simp add: BNB_TOTAL_TRIES_def)
  then show ?thesis by (simp add: bnb_from_loop [OF assms(1,2)])
qed

end
