(* ===== verification/Unit_Test.thy ===== *)
theory Unit_Test
  imports Prelude
begin

text \<open>
  The vocabulary of the theories that translate the repository's unit tests: a test is a
  computation in which a failed assertion and an \<^verbatim>\<open>unwrap\<close> of an error panic, and it passes
  when it returns. The hexadecimal codec (crate \<^verbatim>\<open>hex\<close>) is an argument of the tests that use
  it; \<open>documented_hex\<close> is what the crate says of it.
\<close>

type_synonym test = "(unit, unit) res"

definition assert_that :: "bool \<Rightarrow> test" where
  "assert_that b = (if b then Ok () else Panic)"

definition is_ok :: "('e, 'a) res \<Rightarrow> bool" where
  "is_ok r = (case r of Ok _ \<Rightarrow> True | _ \<Rightarrow> False)"

definition is_err :: "('e, 'a) res \<Rightarrow> bool" where
  "is_err r = (case r of Err _ \<Rightarrow> True | _ \<Rightarrow> False)"

fun all_pass :: "test list \<Rightarrow> test" where
  "all_pass [] = Ok ()"
| "all_pass (t # ts) = rbind t (\<lambda>_. all_pass ts)"

lemma assert_that_simps [simp]: "assert_that True = Ok ()" "assert_that False = Panic" "assert_that b = Ok () \<longleftrightarrow> b"
  by (simp_all add: assert_that_def)

lemma is_ok_simps [simp]: "is_ok (Ok x)" "\<not> is_ok (Err e)" "\<not> is_ok Panic"
  by (simp_all add: is_ok_def)

lemma is_err_simps [simp]: "\<not> is_err (Ok x)" "is_err (Err e)" "\<not> is_err Panic"
  by (simp_all add: is_err_def)

lemma all_pass_iff: "all_pass ts = Ok () \<longleftrightarrow> list_all (\<lambda>t. t = Ok ()) ts"
  by (induction ts) simp_all

text \<open>Calls are evaluated in the order of the code: what follows a call is left alone until the call has a value.\<close>

lemma in_order: "r = r' \<Longrightarrow> rbind r f = rbind r' f"
  by simp

section \<open>Hexadecimal\<close>

definition hex_digit :: "char \<Rightarrow> nat option" where
  "hex_digit c = (let n = of_char c :: nat in
     if 48 \<le> n \<and> n \<le> 57 then Some (n - 48)
     else if 97 \<le> n \<and> n \<le> 102 then Some (n - 87)
     else if 65 \<le> n \<and> n \<le> 70 then Some (n - 55)
     else None)"

lemma hex_digit_simps:
  "hex_digit (CHR ''0'') = Some 0" "hex_digit (CHR ''1'') = Some 1" "hex_digit (CHR ''2'') = Some 2"
  "hex_digit (CHR ''3'') = Some 3" "hex_digit (CHR ''4'') = Some 4" "hex_digit (CHR ''5'') = Some 5"
  "hex_digit (CHR ''6'') = Some 6" "hex_digit (CHR ''7'') = Some 7" "hex_digit (CHR ''8'') = Some 8"
  "hex_digit (CHR ''9'') = Some 9" "hex_digit (CHR ''a'') = Some 10" "hex_digit (CHR ''b'') = Some 11"
  "hex_digit (CHR ''c'') = Some 12" "hex_digit (CHR ''d'') = Some 13" "hex_digit (CHR ''e'') = Some 14"
  "hex_digit (CHR ''f'') = Some 15" "hex_digit (CHR ''g'') = None"
  by (simp_all add: hex_digit_def)

fun hex_value :: "string \<Rightarrow> bytes option" where
  "hex_value [] = Some []"
| "hex_value [c] = None"
| "hex_value (c # d # cs) =
     (case (hex_digit c, hex_digit d, hex_value cs) of
        (Some x, Some y, Some bs) \<Rightarrow> Some (of_nat (16 * x + y) # bs)
      | _ \<Rightarrow> None)"

definition hex_char :: "nat \<Rightarrow> char" where
  "hex_char n = (if n < 10 then char_of (48 + n) else char_of (87 + n))"

lemma hex_char_simps:
  "hex_char 0 = CHR ''0''" "hex_char (Suc 0) = CHR ''1''" "hex_char 1 = CHR ''1''" "hex_char 2 = CHR ''2''"
  "hex_char 3 = CHR ''3''" "hex_char 4 = CHR ''4''" "hex_char 5 = CHR ''5''"
  "hex_char 6 = CHR ''6''" "hex_char 7 = CHR ''7''" "hex_char 8 = CHR ''8''"
  "hex_char 9 = CHR ''9''" "hex_char 10 = CHR ''a''" "hex_char 11 = CHR ''b''"
  "hex_char 12 = CHR ''c''" "hex_char 13 = CHR ''d''" "hex_char 14 = CHR ''e''"
  "hex_char 15 = CHR ''f''"
  by code_simp+

definition hex_string :: "bytes \<Rightarrow> string" where
  "hex_string bs = concat (map (\<lambda>b. [hex_char (unat b div 16), hex_char (unat b mod 16)]) bs)"

text \<open>Two digits per byte, of either case; anything else is an error. Encoding is in lower case.\<close>

definition documented_hex :: "(string \<Rightarrow> (string, bytes) res) \<Rightarrow> (bytes \<Rightarrow> string) \<Rightarrow> bool" where
  "documented_hex dec enc \<longleftrightarrow>
     (\<forall>s. case hex_value s of Some bs \<Rightarrow> dec s = Ok bs | None \<Rightarrow> is_err (dec s)) \<and> (\<forall>bs. enc bs = hex_string bs)"

lemma documented_hexD:
  assumes "documented_hex dec enc"
  shows "hex_value s = Some bs \<Longrightarrow> dec s = Ok bs" and "hex_value s = None \<Longrightarrow> \<exists>e. dec s = Err e"
    and "enc = hex_string"
proof -
  have law: "case hex_value s of Some bs \<Rightarrow> dec s = Ok bs | None \<Rightarrow> is_err (dec s)"
    using assms unfolding documented_hex_def by blast
  then show "hex_value s = Some bs \<Longrightarrow> dec s = Ok bs" by simp
  show "hex_value s = None \<Longrightarrow> \<exists>e. dec s = Err e" using law by (cases "dec s") simp_all
  show "enc = hex_string" using assms unfolding documented_hex_def by blast
qed

lemma documented_hex_exists:
  "documented_hex (\<lambda>s. case hex_value s of Some bs \<Rightarrow> Ok bs | None \<Rightarrow> Err ''invalid'') hex_string"
  by (simp add: documented_hex_def split: option.splits)

lemma hex_value_length:
  "list_all (\<lambda>c. hex_digit c \<noteq> None) s \<Longrightarrow> even (length s) \<Longrightarrow> \<exists>bs. hex_value s = Some bs \<and> 2 * length bs = length s"
proof (induction s rule: hex_value.induct)
  case (3 c d cs)
  then obtain bs x y where "hex_value cs = Some bs" "2 * length bs = length cs" "hex_digit c = Some x" "hex_digit d = Some y"
    by auto
  then show ?case by simp
qed simp_all

end
