(* ===== verification/Coin_Selection_Tests.thy ===== *)
theory Coin_Selection_Tests
  imports Bnb_Search Unit_Test
begin

text \<open>
  The unit tests of \<^verbatim>\<open>coin_selection.rs\<close>, translated call by call, and the proof that the
  model of the algorithms passes them: a test is a computation whose failed assertions and
  \<^verbatim>\<open>unwrap\<close>s panic, and passing is returning. The code runs its tests with one random
  generator and one unstable sort; here they pass for every stream of random numbers and
  every sort that sorts. The crate \<^verbatim>\<open>bitcoin\<close> is the argument \<open>cr\<close>, with the fees and sizes
  it documents as the hypothesis \<open>documented\<close>. Three tests draw their amounts from a seeded
  generator: the draw of \<open>test_single_random_draw_function_success\<close> passes whenever the amounts
  cover the target with the fees, and a round of the other two passes its assertion
  whenever the search finds a match.
\<close>

section \<open>What the tests use of other crates\<close>

text \<open>
  A fee rate is its satoshis per thousand weight units. \<open>bc_fees\<close> is \<^verbatim>\<open>FeeRate * Weight\<close> with the sizes of
  \<open>fee_env\<close>, \<open>bc_sat_per_vb\<close> is \<^verbatim>\<open>from_sat_per_vb_unchecked\<close>, \<open>bc_rate_of\<close> is \<^verbatim>\<open>Amount / Weight\<close> and
  \<open>bc_empty_script\<close> is \<^verbatim>\<open>ScriptBuf::default()\<close>.
\<close>

record 'op bitcoin_crate =
  bc_fees :: "nat \<Rightarrow> fee_env"
  bc_sat_per_vb :: "nat \<Rightarrow> nat"
  bc_broadcast_min :: nat
  bc_zero_rate :: nat
  bc_rate_of :: "nat \<Rightarrow> nat \<Rightarrow> nat"
  bc_empty_script :: drain_script
  bc_outpoint_from_str :: "string \<Rightarrow> 'op option"

text \<open>A seeded generator: \<^verbatim>\<open>gen_range\<close>, \<^verbatim>\<open>next_u32\<close> and \<^verbatim>\<open>shuffle\<close>, each with the next state.\<close>

record ('g, 'a) rng =
  rng_gen_range :: "nat \<Rightarrow> nat \<Rightarrow> 'g \<Rightarrow> nat \<times> 'g"
  rng_next_u32 :: "'g \<Rightarrow> u32 \<times> 'g"
  rng_shuffle :: "'a list \<Rightarrow> 'g \<Rightarrow> 'a list \<times> 'g"

type_synonym 'op group_sort = "'op OutputGroup list \<Rightarrow> 'op OutputGroup list"

section \<open>Helpers of the tests\<close>

definition P2WPKH_SATISFACTION_SIZE :: nat where
  "P2WPKH_SATISFACTION_SIZE = 1 + 72 + 1 + 33"

definition FEE_AMOUNT :: nat where
  "FEE_AMOUNT = 50"

text \<open>The literals of the two \<^verbatim>\<open>format!\<close> strings.\<close>

definition zero_txid :: string where
  "zero_txid = ''000000000000000000000000000000000000000000000000000000000000000''"

definition numbered_txid :: string where
  "numbered_txid = ''ebd9813ecebc57ff8f30797de7c205e3c7498ca950ea4341ee51a685ff2fa30a:''"

definition test_utxo :: "'op bitcoin_crate \<Rightarrow> nat \<Rightarrow> nat \<Rightarrow> u32 \<Rightarrow> (unit, 'op WeightedUtxo) res" where
  "test_utxo cr v index position =
     rbind (assert_that (index < 10)) (\<lambda>_.
     rbind (of_opt (bc_outpoint_from_str cr
       (zero_txid @ show_nat index @ '':0''))) (\<lambda>op.
       Ok \<lparr>wu_satisfaction_weight = P2WPKH_SATISFACTION_SIZE,
           wu_utxo = \<lparr>utxo_outpoint = op, utxo_value = v, utxo_script_pubkey = [], utxo_keychain = External,
             utxo_is_spent = False, utxo_derivation_index = 42, utxo_chain_position = Some position\<rparr>\<rparr>))"

definition confirmed_utxo :: "'op bitcoin_crate \<Rightarrow> nat \<Rightarrow> nat \<Rightarrow> u32 \<Rightarrow> (unit, 'op WeightedUtxo) res" where
  "confirmed_utxo cr v index confirmation_height = test_utxo cr v index confirmation_height"

definition get_test_utxos :: "'op bitcoin_crate \<Rightarrow> (unit, 'op WeightedUtxo list) res" where
  "get_test_utxos cr =
     rbind (confirmed_utxo cr 100000 1 1) (\<lambda>utxo1.
     rbind (amt_sub FEE_AMOUNT 40) (\<lambda>v2.
     rbind (confirmed_utxo cr v2 2 2) (\<lambda>utxo2.
     rbind (confirmed_utxo cr 200000 3 3) (\<lambda>utxo3.
       Ok [utxo1, utxo2, utxo3]))))"

definition numbered_outpoint :: "'op bitcoin_crate \<Rightarrow> nat \<Rightarrow> (unit, 'op) res" where
  "numbered_outpoint cr i = of_opt (bc_outpoint_from_str cr
     (numbered_txid @ show_nat i))"

fun random_utxos_from ::
    "'op bitcoin_crate \<Rightarrow> ('g, 'op WeightedUtxo) rng \<Rightarrow> nat \<Rightarrow> nat \<Rightarrow> 'g \<Rightarrow> (unit, 'op WeightedUtxo list \<times> 'g) res" where
  "random_utxos_from cr rg i 0 g = Ok ([], g)"
| "random_utxos_from cr rg i (Suc n) g =
     rbind (numbered_outpoint cr i) (\<lambda>op.
       let (v, g1) = rng_gen_range rg 0 200000000 g;
           (index, g2) = rng_next_u32 rg g1;
           (position, g3) = rng_next_u32 rg g2
       in rbind (random_utxos_from cr rg (Suc i) n g3) (\<lambda>(us, g').
            Ok (\<lparr>wu_satisfaction_weight = P2WPKH_SATISFACTION_SIZE,
                 wu_utxo = \<lparr>utxo_outpoint = op, utxo_value = v, utxo_script_pubkey = [], utxo_keychain = External,
                   utxo_is_spent = False, utxo_derivation_index = index,
                   utxo_chain_position = Some position\<rparr>\<rparr> # us, g')))"

definition generate_random_utxos ::
    "'op bitcoin_crate \<Rightarrow> ('g, 'op WeightedUtxo) rng \<Rightarrow> 'g \<Rightarrow> nat \<Rightarrow> (unit, 'op WeightedUtxo list \<times> 'g) res" where
  "generate_random_utxos cr rg g utxos_number = random_utxos_from cr rg 0 utxos_number g"

definition generate_same_value_utxos ::
    "'op bitcoin_crate \<Rightarrow> nat \<Rightarrow> nat \<Rightarrow> (unit, 'op WeightedUtxo list) res" where
  "generate_same_value_utxos cr utxos_value utxos_number =
     mapR (\<lambda>i. rbind (numbered_outpoint cr i) (\<lambda>op.
       Ok \<lparr>wu_satisfaction_weight = P2WPKH_SATISFACTION_SIZE,
           wu_utxo = \<lparr>utxo_outpoint = op, utxo_value = utxos_value, utxo_script_pubkey = [],
             utxo_keychain = External, utxo_is_spent = False, utxo_derivation_index = 42,
             utxo_chain_position = Some 0\<rparr>\<rparr>)) [0..<utxos_number]"

definition sum_values :: "'op WeightedUtxo list \<Rightarrow> (unit, nat) res" where
  "sum_values us = foldR (\<lambda>acc u. amt_add acc (utxo_value (wu_utxo u))) 0 us"

text \<open>The range \<^verbatim>\<open>2..utxos.len() / 2\<close> is empty below six outputs, where \<^verbatim>\<open>gen_range\<close> panics, and so does a slice too long.\<close>

definition sum_random_utxos ::
    "('g, 'op WeightedUtxo) rng \<Rightarrow> 'g \<Rightarrow> 'op WeightedUtxo list \<Rightarrow> (unit, nat \<times> 'op WeightedUtxo list \<times> 'g) res" where
  "sum_random_utxos rg g utxos =
     rbind (assert_that (2 < length utxos div 2)) (\<lambda>_.
       let (picked, g1) = rng_gen_range rg 2 (length utxos div 2) g;
           (utxos', g2) = rng_shuffle rg utxos g1
       in rbind (assert_that (picked \<le> length utxos')) (\<lambda>_.
            rbind (sum_values (take picked utxos')) (\<lambda>s. Ok (s, utxos', g2))))"

definition sum_effective :: "'op OutputGroup list \<Rightarrow> (unit, int) res" where
  "sum_effective gs = foldR (\<lambda>acc x. checked (acc + og_effective_value x)) 0 gs"

definition calc_target_amount :: "'op bitcoin_crate \<Rightarrow> 'op WeightedUtxo list \<Rightarrow> nat \<Rightarrow> (unit, nat) res" where
  "calc_target_amount cr utxos fee_rate =
     rbind (mapR (output_group_new (bc_fees cr fee_rate)) utxos) (\<lambda>gs.
     rbind (sum_effective gs) to_unsigned)"

section \<open>Tests of the whole selection\<close>

text \<open>\<^verbatim>\<open>BranchAndBoundCoinSelection::<SingleRandomDraw>::default().coin_select\<close> as the tests call it.\<close>

definition select_default ::
    "'op bitcoin_crate \<Rightarrow> 'op group_sort \<Rightarrow> (nat \<Rightarrow> u32) \<Rightarrow> 'op WeightedUtxo list \<Rightarrow> 'op WeightedUtxo list \<Rightarrow> nat \<Rightarrow> nat
     \<Rightarrow> (InsufficientFunds, 'op CoinSelectionResult) res" where
  "select_default cr usort rnd required optional fee_rate target =
     default_coin_select usort required optional (bc_fees cr fee_rate) target (bc_empty_script cr) rnd"

text \<open>The three assertions on a result: how many outputs, their value, the fee.\<close>

definition assert_selected :: "'op CoinSelectionResult \<Rightarrow> nat \<Rightarrow> nat \<Rightarrow> nat \<Rightarrow> test" where
  "assert_selected r n amount fee =
     rbind (assert_that (length (cs_selected r) = n)) (\<lambda>_.
     rbind (unwrap (selected_amount r)) (\<lambda>a.
     rbind (assert_that (a = amount)) (\<lambda>_.
       assert_that (cs_fee_amount r = fee))))"

definition assert_insufficient ::
    "(InsufficientFunds \<Rightarrow> bool) \<Rightarrow> (InsufficientFunds, 'op CoinSelectionResult) res \<Rightarrow> test" where
  "assert_insufficient P r = (case r of Ok _ \<Rightarrow> Panic | Err e \<Rightarrow> assert_that (P e) | Panic \<Rightarrow> Panic)"

definition test_bnb_coin_selection_success :: "'op bitcoin_crate \<Rightarrow> 'op group_sort \<Rightarrow> (nat \<Rightarrow> u32) \<Rightarrow> test" where
  "test_bnb_coin_selection_success cr usort rnd =
     rbind (generate_same_value_utxos cr 100000 20) (\<lambda>utxos.
     rbind (amt_add 250000 FEE_AMOUNT) (\<lambda>target.
     rbind (unwrap (select_default cr usort rnd [] utxos (bc_sat_per_vb cr 1) target)) (\<lambda>r.
       assert_selected r 3 300000 204)))"

definition test_bnb_coin_selection_required_are_enough ::
    "'op bitcoin_crate \<Rightarrow> 'op group_sort \<Rightarrow> (nat \<Rightarrow> u32) \<Rightarrow> test" where
  "test_bnb_coin_selection_required_are_enough cr usort rnd =
     rbind (get_test_utxos cr) (\<lambda>utxos.
     rbind (amt_add 20000 FEE_AMOUNT) (\<lambda>target.
     rbind (unwrap (select_default cr usort rnd utxos utxos (bc_sat_per_vb cr 1) target)) (\<lambda>r.
       assert_selected r 3 300010 204)))"

definition test_bnb_coin_selection_optional_are_enough ::
    "'op bitcoin_crate \<Rightarrow> 'op group_sort \<Rightarrow> (nat \<Rightarrow> u32) \<Rightarrow> test" where
  "test_bnb_coin_selection_optional_are_enough cr usort rnd =
     rbind (get_test_utxos cr) (\<lambda>utxos.
     rbind (calc_target_amount cr [utxos ! 0, utxos ! 2] (bc_broadcast_min cr)) (\<lambda>target.
     rbind (unwrap (select_default cr usort rnd [] utxos (bc_broadcast_min cr) target)) (\<lambda>r.
       assert_selected r 2 300000 136)))"

definition test_single_random_draw_function_success ::
    "'op bitcoin_crate \<Rightarrow> ('g, 'op WeightedUtxo) rng \<Rightarrow> 'g \<Rightarrow> (nat \<Rightarrow> u32) \<Rightarrow> test" where
  "test_single_random_draw_function_success cr rg seed rnd =
     rbind (generate_random_utxos cr rg seed 300) (\<lambda>(utxos, g).
     rbind (sum_random_utxos rg g utxos) (\<lambda>(picked, utxos', _).
     rbind (amt_add picked FEE_AMOUNT) (\<lambda>target.
       case single_random_draw [] utxos' (bc_fees cr (bc_sat_per_vb cr 1)) target (bc_empty_script cr) rnd of
         Ok r \<Rightarrow> rbind (unwrap (selected_amount r)) (\<lambda>a.
           assert_that (a > target \<and> cs_fee_amount r = length (cs_selected r) * 68))
       | _ \<Rightarrow> Panic)))"

definition test_single_random_draw_function_error :: "'op bitcoin_crate \<Rightarrow> (nat \<Rightarrow> u32) \<Rightarrow> test" where
  "test_single_random_draw_function_error cr rnd =
     rbind (get_test_utxos cr) (\<lambda>utxos.
     rbind (amt_add 300000 FEE_AMOUNT) (\<lambda>target.
       assert_insufficient (\<lambda>e. needed e = 300254 \<and> available e = 300010)
         (single_random_draw [] utxos (bc_fees cr (bc_sat_per_vb cr 1)) target (bc_empty_script cr) rnd)))"

definition test_bnb_coin_selection_required_not_enough ::
    "'op bitcoin_crate \<Rightarrow> 'op group_sort \<Rightarrow> (nat \<Rightarrow> u32) \<Rightarrow> test" where
  "test_bnb_coin_selection_required_not_enough cr usort rnd =
     rbind (get_test_utxos cr) (\<lambda>utxos.
     rbind (test_utxo cr 500000 3 0) (\<lambda>extra.
       let required = [utxos ! 0]; optional = tl utxos @ [extra] in
       rbind (sum_values required) (\<lambda>amount.
       rbind (assert_that (amount = 100000)) (\<lambda>_.
       rbind (sum_values optional) (\<lambda>amount2.
       rbind (assert_that (amount2 > 150000)) (\<lambda>_.
       rbind (calc_target_amount cr [utxos ! 0, utxos ! 2] (bc_broadcast_min cr)) (\<lambda>target.
       rbind (unwrap (select_default cr usort rnd required optional (bc_broadcast_min cr) target)) (\<lambda>r.
         assert_selected r 2 300000 136))))))))"

definition test_bnb_coin_selection_insufficient_funds ::
    "'op bitcoin_crate \<Rightarrow> 'op group_sort \<Rightarrow> (nat \<Rightarrow> u32) \<Rightarrow> test" where
  "test_bnb_coin_selection_insufficient_funds cr usort rnd =
     rbind (get_test_utxos cr) (\<lambda>utxos.
     rbind (amt_add 500000 FEE_AMOUNT) (\<lambda>target.
       assert_insufficient (\<lambda>_. True) (select_default cr usort rnd [] utxos (bc_sat_per_vb cr 1) target)))"

definition test_bnb_coin_selection_insufficient_funds_high_fees ::
    "'op bitcoin_crate \<Rightarrow> 'op group_sort \<Rightarrow> (nat \<Rightarrow> u32) \<Rightarrow> test" where
  "test_bnb_coin_selection_insufficient_funds_high_fees cr usort rnd =
     rbind (get_test_utxos cr) (\<lambda>utxos.
     rbind (amt_add 250000 FEE_AMOUNT) (\<lambda>target.
       assert_insufficient (\<lambda>_. True) (select_default cr usort rnd [] utxos (bc_sat_per_vb cr 1000) target)))"

definition test_bnb_coin_selection_check_fee_rate ::
    "'op bitcoin_crate \<Rightarrow> 'op group_sort \<Rightarrow> (nat \<Rightarrow> u32) \<Rightarrow> test" where
  "test_bnb_coin_selection_check_fee_rate cr usort rnd =
     rbind (get_test_utxos cr) (\<lambda>utxos.
       let fee_rate = bc_broadcast_min cr in
       rbind (calc_target_amount cr (take 1 utxos) fee_rate) (\<lambda>target.
       rbind (unwrap (select_default cr usort rnd [] utxos fee_rate target)) (\<lambda>r.
       rbind (assert_that (length (cs_selected r) = 1)) (\<lambda>_.
       rbind (unwrap (selected_amount r)) (\<lambda>a.
       rbind (assert_that (a = 100000)) (\<lambda>_.
       rbind (amt_add (fe_txin_weight (bc_fees cr fee_rate)) P2WPKH_SATISFACTION_SIZE) (\<lambda>input_weight.
         assert_that (bc_rate_of cr (cs_fee_amount r) input_weight = fee_rate))))))))"

fun exact_match_rounds ::
    "'op bitcoin_crate \<Rightarrow> 'op group_sort \<Rightarrow> (nat \<Rightarrow> u32) \<Rightarrow> ('g, 'op WeightedUtxo) rng \<Rightarrow> nat \<Rightarrow> 'g \<Rightarrow> test" where
  "exact_match_rounds cr usort rnd rg 0 g = Ok ()"
| "exact_match_rounds cr usort rnd rg (Suc n) g =
     rbind (generate_random_utxos cr rg g 16) (\<lambda>(utxos, g1).
     rbind (sum_random_utxos rg g1 utxos) (\<lambda>(target, utxos', g2).
     rbind (unwrap (select_default cr usort rnd [] utxos' (bc_zero_rate cr) target)) (\<lambda>r.
     rbind (unwrap (selected_amount r)) (\<lambda>a.
     rbind (assert_that (a = target)) (\<lambda>_.
       exact_match_rounds cr usort rnd rg n g2)))))"

definition test_bnb_coin_selection_exact_match ::
    "'op bitcoin_crate \<Rightarrow> 'op group_sort \<Rightarrow> (nat \<Rightarrow> u32) \<Rightarrow> ('g, 'op WeightedUtxo) rng \<Rightarrow> 'g \<Rightarrow> test" where
  "test_bnb_coin_selection_exact_match cr usort rnd rg seed = exact_match_rounds cr usort rnd rg 200 seed"

definition test_bnb_exclude_negative_effective_value ::
    "'op bitcoin_crate \<Rightarrow> 'op group_sort \<Rightarrow> (nat \<Rightarrow> u32) \<Rightarrow> test" where
  "test_bnb_exclude_negative_effective_value cr usort rnd =
     rbind (get_test_utxos cr) (\<lambda>utxos.
       assert_insufficient (\<lambda>e. available e = 300000)
         (select_default cr usort rnd [] utxos (bc_sat_per_vb cr 10) 500000))"

definition test_bnb_include_negative_effective_value_when_required ::
    "'op bitcoin_crate \<Rightarrow> 'op group_sort \<Rightarrow> (nat \<Rightarrow> u32) \<Rightarrow> test" where
  "test_bnb_include_negative_effective_value_when_required cr usort rnd =
     rbind (get_test_utxos cr) (\<lambda>utxos.
       let (required, optional) = partition (\<lambda>u. utxo_value (wu_utxo u) < 1000) utxos in
       assert_insufficient (\<lambda>e. available e = 300010)
         (select_default cr usort rnd required optional (bc_sat_per_vb cr 10) 500000))"

definition test_bnb_sum_of_effective_value_negative ::
    "'op bitcoin_crate \<Rightarrow> 'op group_sort \<Rightarrow> (nat \<Rightarrow> u32) \<Rightarrow> test" where
  "test_bnb_sum_of_effective_value_negative cr usort rnd =
     rbind (get_test_utxos cr) (\<lambda>utxos.
       assert_insufficient (\<lambda>e. available e = 300010)
         (select_default cr usort rnd utxos [] (bc_sat_per_vb cr 10000) 500000))"

section \<open>Tests of the search alone\<close>

text \<open>The preparation the tests of \<^verbatim>\<open>bnb\<close> share: the groups, what they are worth, and the cost of a change output of 31 bytes.\<close>

definition prepare_bnb ::
    "'op bitcoin_crate \<Rightarrow> nat \<Rightarrow> 'op WeightedUtxo list \<Rightarrow> (unit, 'op OutputGroup list \<times> int \<times> int) res" where
  "prepare_bnb cr fee_rate utxos =
     rbind (mapR (output_group_new (bc_fees cr fee_rate)) utxos) (\<lambda>groups.
     rbind (sum_effective groups) (\<lambda>curr_available_value.
     rbind (of_opt (fe_from_vb (bc_fees cr fee_rate) 31)) (\<lambda>w.
     rbind (of_opt (fe_mul (bc_fees cr fee_rate) w)) (\<lambda>c.
     rbind (to_signed c) (\<lambda>cost_of_change.
       Ok (groups, curr_available_value, cost_of_change))))))"

definition test_bnb_function_no_exact_match :: "'op bitcoin_crate \<Rightarrow> 'op group_sort \<Rightarrow> test" where
  "test_bnb_function_no_exact_match cr usort =
     (let fee_rate = bc_sat_per_vb cr 10 in
      rbind (get_test_utxos cr) (\<lambda>utxos.
      rbind (prepare_bnb cr fee_rate utxos) (\<lambda>(groups, avail, cost).
      rbind (to_signed FEE_AMOUNT) (\<lambda>fee.
      rbind (checked (20000 + fee)) (\<lambda>target.
        assert_that (bnb usort [] groups 0 avail target cost (bc_empty_script cr) (bc_fees cr fee_rate)
                     = Err NoExactMatch))))))"

definition test_bnb_function_tries_exceeded :: "'op bitcoin_crate \<Rightarrow> 'op group_sort \<Rightarrow> test" where
  "test_bnb_function_tries_exceeded cr usort =
     (let fee_rate = bc_sat_per_vb cr 10 in
      rbind (generate_same_value_utxos cr 100000 100000) (\<lambda>utxos.
      rbind (prepare_bnb cr fee_rate utxos) (\<lambda>(groups, avail, cost).
      rbind (to_signed FEE_AMOUNT) (\<lambda>fee.
      rbind (checked (20000 + fee)) (\<lambda>target.
        assert_that (bnb usort [] groups 0 avail target cost (bc_empty_script cr) (bc_fees cr fee_rate)
                     = Err TotalTriesExceeded))))))"

definition test_bnb_function_almost_exact_match_with_fees :: "'op bitcoin_crate \<Rightarrow> 'op group_sort \<Rightarrow> test" where
  "test_bnb_function_almost_exact_match_with_fees cr usort =
     (let fee_rate = bc_sat_per_vb cr 1 in
      rbind (generate_same_value_utxos cr 50000 10) (\<lambda>utxos.
      rbind (prepare_bnb cr fee_rate utxos) (\<lambda>(groups, avail, cost).
        let target = 2 * 50000 - 2 * 67 - cost + 5 in
        rbind (unwrap (bnb usort [] groups 0 avail target cost (bc_empty_script cr) (bc_fees cr fee_rate))) (\<lambda>r.
        rbind (unwrap (selected_amount r)) (\<lambda>a.
        rbind (assert_that (a = 100000)) (\<lambda>_.
          assert_that (cs_fee_amount r = 136)))))))"

fun more_utxos_rounds ::
    "'op bitcoin_crate \<Rightarrow> 'op group_sort \<Rightarrow> ('g, 'op WeightedUtxo) rng \<Rightarrow> nat \<Rightarrow> 'g \<Rightarrow> test" where
  "more_utxos_rounds cr usort rg 0 g = Ok ()"
| "more_utxos_rounds cr usort rg (Suc n) g =
     rbind (generate_random_utxos cr rg g 40) (\<lambda>(utxos, g').
     rbind (mapR (output_group_new (bc_fees cr (bc_zero_rate cr))) utxos) (\<lambda>groups.
     rbind (sum_effective groups) (\<lambda>avail.
     rbind (checked (og_effective_value (groups ! 3) + og_effective_value (groups ! 23))) (\<lambda>target.
     rbind (unwrap (bnb usort [] groups 0 avail target 0 (bc_empty_script cr) (bc_fees cr (bc_zero_rate cr)))) (\<lambda>r.
     rbind (unwrap (selected_amount r)) (\<lambda>a.
     rbind (to_unsigned target) (\<lambda>t.
     rbind (assert_that (a = t)) (\<lambda>_.
       more_utxos_rounds cr usort rg n g'))))))))"

definition test_bnb_function_exact_match_more_utxos ::
    "'op bitcoin_crate \<Rightarrow> 'op group_sort \<Rightarrow> ('g, 'op WeightedUtxo) rng \<Rightarrow> 'g \<Rightarrow> test" where
  "test_bnb_function_exact_match_more_utxos cr usort rg seed = more_utxos_rounds cr usort rg 200 seed"

section \<open>Test of the removal of duplicates\<close>

text \<open>\<open>outpoint_of\<close> is \<^verbatim>\<open>OutPoint::new(Hash::hash(txid.as_bytes()), 0)\<close>.\<close>

definition dup_utxo :: "(string \<Rightarrow> 'op) \<Rightarrow> string \<times> nat \<Rightarrow> 'op WeightedUtxo" where
  "dup_utxo outpoint_of t = \<lparr>wu_satisfaction_weight = 0,
     wu_utxo = \<lparr>utxo_outpoint = outpoint_of (fst t), utxo_value = snd t, utxo_script_pubkey = [],
       utxo_keychain = External, utxo_is_spent = False, utxo_derivation_index = 0, utxo_chain_position = Some 0\<rparr>\<rparr>"

definition to_utxo_vec :: "(string \<Rightarrow> 'op :: linorder) \<Rightarrow> (string \<times> nat) list \<Rightarrow> 'op WeightedUtxo list" where
  "to_utxo_vec outpoint_of ts = sort_key (\<lambda>u. utxo_outpoint (wu_utxo u)) (map (dup_utxo outpoint_of) ts)"

record duplicates_case =
  tc_name :: string
  tc_required :: "(string \<times> nat) list"
  tc_optional :: "(string \<times> nat) list"
  tc_exp_required :: "(string \<times> nat) list"
  tc_exp_optional :: "(string \<times> nat) list"

definition duplicates_cases :: "duplicates_case list" where
  "duplicates_cases =
     [\<lparr>tc_name = ''no_duplicates'',
       tc_required = [(''A'', 1000), (''B'', 2100)], tc_optional = [(''C'', 1000)],
       tc_exp_required = [(''A'', 1000), (''B'', 2100)], tc_exp_optional = [(''C'', 1000)]\<rparr>,
      \<lparr>tc_name = ''duplicate_required_utxos'',
       tc_required = [(''A'', 3000), (''B'', 1200), (''C'', 1234), (''A'', 3000)], tc_optional = [(''D'', 2100)],
       tc_exp_required = [(''A'', 3000), (''B'', 1200), (''C'', 1234)], tc_exp_optional = [(''D'', 2100)]\<rparr>,
      \<lparr>tc_name = ''duplicate_optional_utxos'',
       tc_required = [(''A'', 3000), (''B'', 1200)],
       tc_optional = [(''C'', 5000), (''D'', 1300), (''C'', 5000)],
       tc_exp_required = [(''A'', 3000), (''B'', 1200)], tc_exp_optional = [(''C'', 5000), (''D'', 1300)]\<rparr>,
      \<lparr>tc_name = ''duplicate_across_required_and_optional_utxos'',
       tc_required = [(''A'', 3000), (''B'', 1200), (''C'', 2100)],
       tc_optional = [(''A'', 3000), (''D'', 1200), (''E'', 5000)],
       tc_exp_required = [(''A'', 3000), (''B'', 1200), (''C'', 2100)],
       tc_exp_optional = [(''D'', 1200), (''E'', 5000)]\<rparr>]"

definition duplicates_case_passes :: "(string \<Rightarrow> 'op :: linorder) \<Rightarrow> duplicates_case \<Rightarrow> bool" where
  "duplicates_case_passes outpoint_of t =
     (filter_duplicates (to_utxo_vec outpoint_of (tc_required t)) (to_utxo_vec outpoint_of (tc_optional t))
      = (to_utxo_vec outpoint_of (tc_exp_required t), to_utxo_vec outpoint_of (tc_exp_optional t)))"

definition test_filter_duplicates :: "(string \<Rightarrow> 'op :: linorder) \<Rightarrow> test" where
  "test_filter_duplicates outpoint_of =
     assert_that (list_all (duplicates_case_passes outpoint_of) duplicates_cases)"

section \<open>What the crate documents\<close>

text \<open>
  Fees are rounded up to the satoshi, a virtual byte is four weight units, an empty input
  weighs 165 weight units in a transaction with witnesses, the lowest relayed rate is one
  satoshi per virtual byte, the empty script takes one byte, and the outpoints of the tests
  are well formed.
\<close>

definition documented :: "'op bitcoin_crate \<Rightarrow> bool" where
  "documented cr \<longleftrightarrow>
     (\<forall>r w. r * w + 999 < 2 ^ 64 \<longrightarrow> fe_mul (bc_fees cr r) w = Some ((r * w + 999) div 1000))
     \<and> (\<forall>r v. 4 * v < 2 ^ 64 \<longrightarrow> fe_from_vb (bc_fees cr r) v = Some (4 * v))
     \<and> (\<forall>r. fe_txin_weight (bc_fees cr r) = 165)
     \<and> (\<forall>n. 250 * n < 2 ^ 64 \<longrightarrow> bc_sat_per_vb cr n = 250 * n)
     \<and> bc_broadcast_min cr = 250 \<and> bc_zero_rate cr = 0
     \<and> (\<forall>a w. 1000 * a < 2 ^ 64 \<longrightarrow> 0 < w \<longrightarrow> bc_rate_of cr a w = 1000 * a div w)
     \<and> ds_serialized_len (bc_empty_script cr) = 1
     \<and> (\<forall>i < 10. bc_outpoint_from_str cr
           (zero_txid @ show_nat i @ '':0'') \<noteq> None)
     \<and> (\<forall>i < 2 ^ 32. bc_outpoint_from_str cr
           (numbered_txid @ show_nat i) \<noteq> None)"

definition unstable_sort :: "'op group_sort \<Rightarrow> bool" where
  "unstable_sort usort \<longleftrightarrow> (\<forall>xs. mset (usort xs) = mset xs \<and> sorted (map og_effective_value (usort xs)))"

text \<open>The documented numbers, as a value: every hypothesis of this theory holds of it.\<close>

definition crate_numbers :: "string bitcoin_crate" where
  "crate_numbers =
     \<lparr>bc_fees = (\<lambda>r. \<lparr>fe_mul = (\<lambda>w. if r * w + 999 < 2 ^ 64 then Some ((r * w + 999) div 1000) else None),
        fe_from_vb = (\<lambda>v. if 4 * v < 2 ^ 64 then Some (4 * v) else None), fe_txin_weight = 165\<rparr>),
      bc_sat_per_vb = (\<lambda>n. 250 * n), bc_broadcast_min = 250, bc_zero_rate = 0,
      bc_rate_of = (\<lambda>a w. 1000 * a div w),
      bc_empty_script = \<lparr>ds_serialized_len = 1, ds_minimal_non_dust = 294\<rparr>,
      bc_outpoint_from_str = Some\<rparr>"

lemma documented_crate_numbers: "documented crate_numbers"
  by (simp add: documented_def crate_numbers_def)

lemma unstable_sort_sort_key: "unstable_sort (sort_key og_effective_value)"
  by (simp add: unstable_sort_def)

lemma documented_simps:
  assumes "documented cr"
  shows "r * w + 999 < 2 ^ 64 \<Longrightarrow> fe_mul (bc_fees cr r) w = Some ((r * w + 999) div 1000)"
    and "4 * v < 2 ^ 64 \<Longrightarrow> fe_from_vb (bc_fees cr r) v = Some (4 * v)"
    and "fe_txin_weight (bc_fees cr r) = 165" and "250 * n < 2 ^ 64 \<Longrightarrow> bc_sat_per_vb cr n = 250 * n"
    and "bc_broadcast_min cr = 250" and "bc_zero_rate cr = 0"
    and "1000 * a < 2 ^ 64 \<Longrightarrow> 0 < u \<Longrightarrow> bc_rate_of cr a u = 1000 * a div u"
    and "ds_serialized_len (bc_empty_script cr) = 1"
  using assms by (simp_all add: documented_def)

lemma rate_simps:
  assumes "documented cr"
  shows "bc_sat_per_vb cr 1 = 250" and "bc_sat_per_vb cr (Suc 0) = 250" and "bc_sat_per_vb cr 10 = 2500" and "bc_sat_per_vb cr 1000 = 250000"
    and "bc_sat_per_vb cr 10000 = 2500000" and "bc_broadcast_min cr = 250" and "bc_zero_rate cr = 0"
  using assms by (simp_all add: documented_simps [OF assms])

section \<open>Outputs of the tests\<close>

definition test_output :: "'op \<Rightarrow> nat \<Rightarrow> u32 \<Rightarrow> 'op WeightedUtxo" where
  "test_output op v position = \<lparr>wu_satisfaction_weight = 107,
     wu_utxo = \<lparr>utxo_outpoint = op, utxo_value = v, utxo_script_pubkey = [], utxo_keychain = External,
       utxo_is_spent = False, utxo_derivation_index = 42, utxo_chain_position = Some position\<rparr>\<rparr>"

lemma test_output_sel [simp]:
  "wu_satisfaction_weight (test_output op v p) = 107" "utxo_value (wu_utxo (test_output op v p)) = v"
  by (simp_all add: test_output_def)

lemma get_test_utxos_eq:
  assumes "documented cr"
  obtains a b c where "get_test_utxos cr = Ok [test_output a 100000 1, test_output b 10 2, test_output c 200000 3]"
    and "\<forall>v p. test_utxo cr v 3 p = Ok (test_output c v p)"
proof -
  let ?op = "\<lambda>i. bc_outpoint_from_str cr
    (zero_txid @ show_nat i @ '':0'')"
  have "\<forall>i < 10. ?op i \<noteq> None" using assms unfolding documented_def by blast
  then obtain a b c where "?op 1 = Some a" "?op 2 = Some b" "?op 3 = Some c" by fastforce
  then show ?thesis
    by (intro that) (simp_all add: get_test_utxos_def confirmed_utxo_def test_utxo_def P2WPKH_SATISFACTION_SIZE_def
        FEE_AMOUNT_def amt_sub_def of_opt_def test_output_def del: append_Cons)
qed

lemma generate_same_value_utxos_eq:
  assumes "documented cr" and "n \<le> 2 ^ 32"
  obtains ops where "generate_same_value_utxos cr v n = Ok (map (\<lambda>op. test_output op v 0) ops)" and "length ops = n"
proof -
  let ?op = "\<lambda>i. bc_outpoint_from_str cr
    (numbered_txid @ show_nat i)"
  have "\<forall>i < 2 ^ 32. ?op i \<noteq> None" using assms(1) unfolding documented_def by blast
  then have "numbered_outpoint cr i = Ok (the (?op i))" if "i < n" for i
    using that assms(2) unfolding numbered_outpoint_def of_opt_Ok by (metis less_le_trans option.collapse)
  then have "list_all2 (\<lambda>i y. rbind (numbered_outpoint cr i) (\<lambda>op. Ok (test_output op v 0)) = Ok y) [0..<n]
      (map (\<lambda>op. test_output op v 0) (map (\<lambda>i. the (?op i)) [0..<n]))"
    by (simp add: list_all2_conv_all_nth)
  then show ?thesis
    by (intro that [of "map (\<lambda>i. the (?op i)) [0..<n]"])
      (simp_all only: generate_same_value_utxos_def mapR_Ok P2WPKH_SATISFACTION_SIZE_def test_output_def
        length_map length_upt minus_nat.diff_0, simp)
qed

lemma input_fee_test:
  assumes "documented cr" and "wu_satisfaction_weight w = 107" and "272 * r + 999 < 2 ^ 63"
  shows "input_fee (bc_fees cr r) w = Ok ((272 * r + 999) div 1000)"
  using assms by (simp add: input_fee_def documented_simps [OF assms(1)] amt_add_def of_opt_def mult.commute)

definition test_group :: "nat \<Rightarrow> 'op WeightedUtxo \<Rightarrow> 'op OutputGroup" where
  "test_group r w = \<lparr>og_weighted_utxo = w, og_fee = (272 * r + 999) div 1000,
     og_effective_value = int (utxo_value (wu_utxo w)) - int ((272 * r + 999) div 1000)\<rparr>"

lemma test_group_sel [simp]:
  "og_weighted_utxo (test_group r w) = w" "og_fee (test_group r w) = (272 * r + 999) div 1000"
  "og_effective_value (test_group r w) = int (utxo_value (wu_utxo w)) - int ((272 * r + 999) div 1000)"
  by (simp_all add: test_group_def)

lemma output_group_test:
  assumes "documented cr" and "wu_satisfaction_weight w = 107" and "272 * r + 999 < 2 ^ 63"
    and "utxo_value (wu_utxo w) < 2 ^ 63"
  shows "output_group_new (bc_fees cr r) w = Ok (test_group r w)"
proof -
  have "(272 * r + 999) div 1000 < 2 ^ 63" using assms(3) by (simp add: less_mult_imp_div_less)
  then show ?thesis
    using assms(4) by (simp add: output_group_new_def input_fee_test [OF assms(1-3)] to_signed_def checked_def
        signed_range_def test_group_def)
qed

lemma mapR_test_groups:
  assumes "documented cr" and "272 * r + 999 < 2 ^ 63"
    and "list_all (\<lambda>w. wu_satisfaction_weight w = 107 \<and> utxo_value (wu_utxo w) < 2 ^ 63) ws"
  shows "mapR (output_group_new (bc_fees cr r)) ws = Ok (map (test_group r) ws)"
  using assms(3) by (induction ws) (simp_all add: output_group_test [OF assms(1) _ assms(2)])


section \<open>The tests without a search\<close>

lemmas amount_defs = amt_add_def amt_sub_def to_signed_def checked_def signed_range_def to_unsigned_def of_opt_def
lemmas select_defs = select_default_def default_coin_select_def bnb_coin_select_def decide_change_def is_dust_def
  calculate_cs_result_def insufficient_def
lemmas assert_defs = assert_selected_def assert_insufficient_def selected_amount_def FEE_AMOUNT_def

lemma required_are_enough_passes:
  assumes "documented cr"
  shows "test_bnb_coin_selection_required_are_enough cr usort rnd = Ok ()"
proof -
  obtain a b c where "get_test_utxos cr = Ok [test_output a 100000 1, test_output b 10 2, test_output c 200000 3]"
    and "\<forall>v p. test_utxo cr v 3 p = Ok (test_output c v p)"
    by (rule get_test_utxos_eq [OF assms])
  then show ?thesis
    by (simp add: test_bnb_coin_selection_required_are_enough_def rate_simps [OF assms] documented_simps [OF assms]
        output_group_test [OF assms] amount_defs select_defs assert_defs Let_def cong: in_order)
qed

lemma insufficient_funds_passes:
  assumes "documented cr"
  shows "test_bnb_coin_selection_insufficient_funds cr usort rnd = Ok ()"
    and "test_bnb_coin_selection_insufficient_funds_high_fees cr usort rnd = Ok ()"
    and "test_bnb_exclude_negative_effective_value cr usort rnd = Ok ()"
    and "test_bnb_include_negative_effective_value_when_required cr usort rnd = Ok ()"
    and "test_bnb_sum_of_effective_value_negative cr usort rnd = Ok ()"
proof -
  obtain a b c where utxos: "get_test_utxos cr = Ok [test_output a 100000 1, test_output b 10 2, test_output c 200000 3]"
    and "\<forall>v p. test_utxo cr v 3 p = Ok (test_output c v p)"
    by (rule get_test_utxos_eq [OF assms])
  note eval = utxos rate_simps [OF assms] documented_simps [OF assms] output_group_test [OF assms]
    amount_defs select_defs assert_defs Let_def
  show "test_bnb_coin_selection_insufficient_funds cr usort rnd = Ok ()"
    by (simp add: test_bnb_coin_selection_insufficient_funds_def eval cong: in_order)
  show "test_bnb_coin_selection_insufficient_funds_high_fees cr usort rnd = Ok ()"
    by (simp add: test_bnb_coin_selection_insufficient_funds_high_fees_def eval cong: in_order)
  show "test_bnb_exclude_negative_effective_value cr usort rnd = Ok ()"
    by (simp add: test_bnb_exclude_negative_effective_value_def eval cong: in_order)
  show "test_bnb_include_negative_effective_value_when_required cr usort rnd = Ok ()"
    by (simp add: test_bnb_include_negative_effective_value_when_required_def eval cong: in_order)
  show "test_bnb_sum_of_effective_value_negative cr usort rnd = Ok ()"
    by (simp add: test_bnb_sum_of_effective_value_negative_def eval cong: in_order)
qed

section \<open>The tests with a search over the outputs of the tests\<close>

lemma unstable_sort_distinct:
  assumes "unstable_sort usort" and "distinct (map og_effective_value xs)"
  shows "usort xs = sort_key og_effective_value xs"
proof (rule sort_key_inj_key_eq [symmetric])
  show "mset xs = mset (usort xs)" "sorted (map og_effective_value (usort xs))"
    using assms(1) by (simp_all add: unstable_sort_def)
  show "inj_on og_effective_value (set xs)" using assms(2) by (simp add: distinct_map)
qed

lemma unstable_sort_mset: "unstable_sort usort \<Longrightarrow> mset (usort xs) = mset xs"
  by (simp add: unstable_sort_def)

lemmas search_eval = bnb_search.simps improve_def chosen_groups_Cons bnb_bounds_def

lemma optional_are_enough_passes:
  assumes "documented cr" and "unstable_sort usort"
  shows "test_bnb_coin_selection_optional_are_enough cr usort rnd = Ok ()"
proof -
  obtain a b c where utxos: "get_test_utxos cr = Ok [test_output a 100000 1, test_output b 10 2, test_output c 200000 3]"
    and "\<forall>v p. test_utxo cr v 3 p = Ok (test_output c v p)"
    by (rule get_test_utxos_eq [OF assms(1)])
  let ?gs = "[test_group 250 (test_output a 100000 1), test_group 250 (test_output c 200000 3)]"
  have pool: "usort ?gs = ?gs" using unstable_sort_distinct [OF assms(2), of ?gs] by simp
  have search: "bnb_search 299864 31 (rev (usort ?gs)) [] 0 ([], None) = (True, [True, True], Some 299864)"
    by (simp add: pool search_eval)
  have "bnb usort [] ?gs 0 299864 299864 31 (bc_empty_script cr) (bc_fees cr 250)
      = rbind (decide_change 0 (bc_fees cr 250) (bc_empty_script cr)) (calculate_cs_result (rev ?gs) [])"
    using bnb_by_search [OF unstable_sort_mset [OF assms(2)] _ _ _ search,
        where avail = 299864 and required = "[]" and ds = "bc_empty_script cr" and fe = "bc_fees cr 250"]
    by (simp add: pool search_eval amount_defs cong: in_order) (simp add: pool chosen_groups_Cons)
  then show ?thesis
    by (simp add: test_bnb_coin_selection_optional_are_enough_def utxos calc_target_amount_def sum_effective_def
        rate_simps [OF assms(1)] documented_simps [OF assms(1)] output_group_test [OF assms(1)]
        amount_defs select_defs assert_defs Let_def cong: in_order)
qed

lemma required_not_enough_passes:
  assumes "documented cr" and "unstable_sort usort"
  shows "test_bnb_coin_selection_required_not_enough cr usort rnd = Ok ()"
proof -
  obtain a b c where utxos: "get_test_utxos cr = Ok [test_output a 100000 1, test_output b 10 2, test_output c 200000 3]"
    and extra: "\<forall>v p. test_utxo cr v 3 p = Ok (test_output c v p)"
    by (rule get_test_utxos_eq [OF assms(1)])
  let ?gs = "[test_group 250 (test_output c 200000 3), test_group 250 (test_output c 500000 0)]"
  let ?req = "[test_group 250 (test_output a 100000 1)]"
  have pool: "usort ?gs = ?gs" using unstable_sort_distinct [OF assms(2), of ?gs] by simp
  have search: "bnb_search 299864 31 (rev (usort ?gs)) [] 99932 ([], None) = (True, [False, True], Some 299864)"
    by (simp add: pool search_eval)
  have "bnb usort ?req ?gs 99932 699864 299864 31 (bc_empty_script cr) (bc_fees cr 250)
      = rbind (decide_change 0 (bc_fees cr 250) (bc_empty_script cr))
          (calculate_cs_result [test_group 250 (test_output c 200000 3)] ?req)"
    using bnb_by_search [OF unstable_sort_mset [OF assms(2)] _ _ _ search,
        where avail = 699864 and required = "?req" and ds = "bc_empty_script cr" and fe = "bc_fees cr 250"]
    by (simp add: pool search_eval amount_defs cong: in_order) (simp add: pool chosen_groups_Cons)
  then show ?thesis
    by (simp add: test_bnb_coin_selection_required_not_enough_def utxos extra calc_target_amount_def sum_effective_def
        sum_values_def rate_simps [OF assms(1)] documented_simps [OF assms(1)] output_group_test [OF assms(1)]
        amount_defs select_defs assert_defs Let_def cong: in_order)
qed

lemma check_fee_rate_passes:
  assumes "documented cr" and "unstable_sort usort"
  shows "test_bnb_coin_selection_check_fee_rate cr usort rnd = Ok ()"
proof -
  obtain a b c where utxos: "get_test_utxos cr = Ok [test_output a 100000 1, test_output b 10 2, test_output c 200000 3]"
    and "\<forall>v p. test_utxo cr v 3 p = Ok (test_output c v p)"
    by (rule get_test_utxos_eq [OF assms(1)])
  let ?gs = "[test_group 250 (test_output a 100000 1), test_group 250 (test_output c 200000 3)]"
  have pool: "usort ?gs = ?gs" using unstable_sort_distinct [OF assms(2), of ?gs] by simp
  have search: "bnb_search 99932 31 (rev (usort ?gs)) [] 0 ([], None) = (True, [False, True], Some 99932)"
    by (simp add: pool search_eval)
  have "bnb usort [] ?gs 0 299864 99932 31 (bc_empty_script cr) (bc_fees cr 250)
      = rbind (decide_change 0 (bc_fees cr 250) (bc_empty_script cr))
          (calculate_cs_result [test_group 250 (test_output a 100000 1)] [])"
    using bnb_by_search [OF unstable_sort_mset [OF assms(2)] _ _ _ search,
        where avail = 299864 and required = "[]" and ds = "bc_empty_script cr" and fe = "bc_fees cr 250"]
    by (simp add: pool search_eval amount_defs cong: in_order) (simp add: pool chosen_groups_Cons)
  then show ?thesis
    by (simp add: test_bnb_coin_selection_check_fee_rate_def utxos calc_target_amount_def sum_effective_def
        P2WPKH_SATISFACTION_SIZE_def rate_simps [OF assms(1)] documented_simps [OF assms(1)] output_group_test [OF assms(1)]
        amount_defs select_defs assert_defs Let_def cong: in_order)
qed

lemmas step_defs = bnb_step_def bnb_forward_def bnb_backtrack_def walk_back.simps og_at_def bnb_record_best_def

text \<open>Here the output worth less than its fee stays in the pool: the search itself leaves the check to its caller.\<close>

lemma no_exact_match_search:
  fixes a b c :: 'op
  defines "pool \<equiv> [test_group 2500 (test_output c 200000 3), test_group 2500 (test_output a 100000 1),
    test_group 2500 (test_output b 10 2)]"
  shows "bnb_loop 100000 pool 20050 310
     \<lparr>bnb_current = [], bnb_best = [], bnb_best_value = None, bnb_value = 0, bnb_available = 297970\<rparr> = Err NoExactMatch"
proof -
  let ?st = "\<lambda>sel v av. \<lparr>bnb_current = sel, bnb_best = [], bnb_best_value = None, bnb_value = v, bnb_available = av\<rparr>"
  note eval = pool_def step_defs amount_defs Let_def
  have steps: "bnb_step pool 20050 310 (?st [] 0 297970) = Ok (Continue, ?st [True] 199320 98650)"
    "bnb_step pool 20050 310 (?st [True] 199320 98650) = Ok (Continue, ?st [False] 0 98650)"
    "bnb_step pool 20050 310 (?st [False] 0 98650) = Ok (Continue, ?st [False, True] 99320 (- 670))"
    "bnb_step pool 20050 310 (?st [False, True] 99320 (- 670)) = Ok (Continue, ?st [False, False] 0 (- 670))"
    "bnb_step pool 20050 310 (?st [False, False] 0 (- 670)) = Err NoExactMatch"
    by (simp_all add: eval cong: in_order)
  show ?thesis
    by (subst bnb_loop.simps, simp add: steps)+
qed

lemma no_exact_match_passes:
  assumes "documented cr" and "unstable_sort usort"
  shows "test_bnb_function_no_exact_match cr usort = Ok ()"
proof -
  obtain a b c where utxos: "get_test_utxos cr = Ok [test_output a 100000 1, test_output b 10 2, test_output c 200000 3]"
    and "\<forall>v p. test_utxo cr v 3 p = Ok (test_output c v p)"
    by (rule get_test_utxos_eq [OF assms(1)])
  let ?gs = "[test_group 2500 (test_output a 100000 1), test_group 2500 (test_output b 10 2), test_group 2500 (test_output c 200000 3)]"
  have "usort ?gs = [test_group 2500 (test_output b 10 2), test_group 2500 (test_output a 100000 1), test_group 2500 (test_output c 200000 3)]"
    using unstable_sort_distinct [OF assms(2), of ?gs] by simp
  then have "bnb usort [] ?gs 0 297970 20050 310 (bc_empty_script cr) (bc_fees cr 2500) = Err NoExactMatch"
    by (simp add: bnb_def BNB_TOTAL_TRIES_def no_exact_match_search cong: in_order)
  then show ?thesis
    by (simp add: test_bnb_function_no_exact_match_def prepare_bnb_def utxos sum_effective_def FEE_AMOUNT_def
        rate_simps [OF assms(1)] documented_simps [OF assms(1)] output_group_test [OF assms(1)]
        amount_defs Let_def cong: in_order)
qed

section \<open>The tests of single random draw\<close>

lemma scan_utxos_all:
  assumes "documented cr" and "272 * r + 999 < 2 ^ 63"
    and "list_all (\<lambda>x. wu_satisfaction_weight (snd x) = 107) us"
    and "sel + total_value (map snd us) < target" and "target + fee + length us * ((272 * r + 999) div 1000) < 2 ^ 64"
  shows "scan_utxos (bc_fees cr r) target us sel fee =
     Ok (map (\<lambda>x. wu_utxo (snd x)) us, sel + total_value (map snd us), fee + length us * ((272 * r + 999) div 1000))"
  using assms(3-5)
proof (induction us arbitrary: sel fee)
  case (Cons x us)
  obtain b w where x: "x = (b, w)" by (cases x)
  let ?f = "(272 * r + 999) div 1000"
  have w: "wu_satisfaction_weight w = 107" using Cons.prems(1) x by simp
  have "scan_utxos (bc_fees cr r) target us (sel + utxo_value (wu_utxo w)) (fee + ?f)
      = Ok (map (\<lambda>x. wu_utxo (snd x)) us, sel + utxo_value (wu_utxo w) + total_value (map snd us), fee + ?f + length us * ?f)"
    using Cons.prems x by (intro Cons.IH) (simp_all add: algebra_simps)
  then show ?case
    using Cons.prems x by (auto simp: input_fee_test [OF assms(1) w assms(2)] amt_add_def algebra_simps)
qed simp

lemma single_random_draw_error_passes:
  assumes "documented cr"
  shows "test_single_random_draw_function_error cr rnd = Ok ()"
proof -
  obtain a b c where utxos: "get_test_utxos cr = Ok [test_output a 100000 1, test_output b 10 2, test_output c 200000 3]"
    and "\<forall>v p. test_utxo cr v 3 p = Ok (test_output c v p)"
    by (rule get_test_utxos_eq [OF assms])
  let ?ws = "[test_output a 100000 1, test_output b 10 2, test_output c 200000 3]"
  let ?us = "map (\<lambda>u. (False, u)) (shuffle_slice rnd ?ws)"
  have m: "mset (shuffle_slice rnd ?ws) = mset ?ws" by simp
  have "set (shuffle_slice rnd ?ws) = set ?ws" "length (shuffle_slice rnd ?ws) = 3"
    "total_value (shuffle_slice rnd ?ws) = 300010"
    using mset_eq_setD [OF m] mset_eq_length [OF m] total_mset(1) [OF m] by simp_all
  then have "scan_utxos (bc_fees cr 250) 300050 ?us 0 0
      = Ok (map (\<lambda>x. wu_utxo (snd x)) ?us, 0 + total_value (map snd ?us), 0 + length ?us * ((272 * 250 + 999) div 1000))"
    by (intro scan_utxos_all [OF assms]) (simp_all add: list_all_iff comp_def)
  then show ?thesis
    using \<open>length _ = 3\<close> \<open>total_value _ = 300010\<close>
    by (simp add: test_single_random_draw_function_error_def utxos FEE_AMOUNT_def rate_simps [OF assms]
        single_random_draw_def select_sorted_utxos_def assert_insufficient_def amount_defs comp_def cong: in_order)
qed

section \<open>The tests with outputs of one value\<close>

definition same_groups :: "nat \<Rightarrow> nat \<Rightarrow> 'op list \<Rightarrow> 'op OutputGroup list" where
  "same_groups r v ops = map (\<lambda>op. test_group r (test_output op v 0)) ops"

lemma effective_same:
  assumes "\<And>u. u \<in> set us \<Longrightarrow> og_effective_value u = e"
  shows "effective_sum us = int (length us) * e"
  using assms by (induction us) (simp_all add: algebra_simps)

lemma same_groups_effective: "u \<in> set (same_groups r v ops) \<Longrightarrow> og_effective_value u = int v - int ((272 * r + 999) div 1000)"
  by (auto simp: same_groups_def)

lemma same_groups_chosen:
  assumes "mset chosen \<subseteq># mset (same_groups r v ops)"
  shows "effective_sum chosen = int (length chosen) * (int v - int ((272 * r + 999) div 1000))"
    and "\<And>u. u \<in> set chosen \<Longrightarrow> og_fee u = (272 * r + 999) div 1000 \<and> utxo_value (wu_utxo (og_weighted_utxo u)) = v"
proof -
  have sub: "u \<in> set (same_groups r v ops)" if "u \<in> set chosen" for u
    using set_mset_mono [OF assms] that by auto
  show "effective_sum chosen = int (length chosen) * (int v - int ((272 * r + 999) div 1000))"
    using sub same_groups_effective by (intro effective_same) blast
  show "og_fee u = (272 * r + 999) div 1000 \<and> utxo_value (wu_utxo (og_weighted_utxo u)) = v" if "u \<in> set chosen" for u
    using sub [OF that] by (auto simp: same_groups_def)
qed

lemma foldR_checked_nonneg:
  assumes "list_all (\<lambda>u. 0 \<le> f u) us" and "- (2 ^ 63) \<le> a" and "a + sum_list (map f us) < 2 ^ 63"
  shows "foldR (\<lambda>acc x. checked (acc + f x)) a us = Ok (a + sum_list (map f us))"
  using assms
proof (induction us arbitrary: a)
  case (Cons u us)
  have "0 \<le> sum_list (map f us)" using Cons.prems(1) by (intro sum_list_nonneg) (auto simp: list_all_iff)
  with Cons show ?case by (simp add: checked_def signed_range_def add.assoc)
qed simp

lemma prepare_same:
  assumes "documented cr" and "272 * r + 999 < 2 ^ 31" and "(272 * r + 999) div 1000 \<le> v"
    and "int (length ops) * (int v - int ((272 * r + 999) div 1000)) < 2 ^ 62" and "v < 2 ^ 63"
  shows "mapR (output_group_new (bc_fees cr r)) (map (\<lambda>op. test_output op v 0) ops) = Ok (same_groups r v ops)"
    and "foldR (\<lambda>acc x. checked (acc + og_effective_value x)) 0 (same_groups r v ops)
         = Ok (int (length ops) * (int v - int ((272 * r + 999) div 1000)))"
    and "effective_sum (same_groups r v ops) = int (length ops) * (int v - int ((272 * r + 999) div 1000))"
proof -
  show "mapR (output_group_new (bc_fees cr r)) (map (\<lambda>op. test_output op v 0) ops) = Ok (same_groups r v ops)"
    using assms by (subst mapR_test_groups) (simp_all add: list_all_iff same_groups_def)
  have len: "length (same_groups r v ops) = length ops" by (simp add: same_groups_def)
  show eff: "effective_sum (same_groups r v ops) = int (length ops) * (int v - int ((272 * r + 999) div 1000))"
    using effective_same [OF same_groups_effective [of _ r v ops]] len by simp
  have "list_all (\<lambda>u. 0 \<le> og_effective_value u) (same_groups r v ops)"
    using assms(3) by (auto simp: list_all_iff same_groups_def)
  then show "foldR (\<lambda>acc x. checked (acc + og_effective_value x)) 0 (same_groups r v ops)
         = Ok (int (length ops) * (int v - int ((272 * r + 999) div 1000)))"
    using foldR_checked_nonneg [of og_effective_value "same_groups r v ops" 0] assms(4) eff
    by (simp add: effective_sum_def)
qed

lemma same_bounds:
  assumes "(272 * r + 999) div 1000 \<le> v" and "effective_sum (same_groups r v ops) < 2 ^ 62"
    and "0 \<le> target" and "0 \<le> cost" and "target + cost < 2 ^ 63"
  shows "bnb_bounds (same_groups r v ops) 0 target cost"
  using assms by (auto simp: bnb_bounds_def list_all_iff same_groups_def)

text \<open>
  Twenty outputs worth 99932 each after fees: no number of them lies between 250050 and
  250081, so the search fails however far it gets, and the draw takes the first three.
\<close>

lemma success_search_fails:
  assumes "documented cr" and "unstable_sort usort" and "length ops = 20"
  shows "\<exists>e. bnb usort [] (same_groups 250 100000 ops) 0 1998640 250050 31 (bc_empty_script cr) (bc_fees cr 250) = Err e"
proof -
  let ?gs = "same_groups 250 100000 ops"
  let ?r = "bnb usort [] ?gs 0 1998640 250050 31 (bc_empty_script cr) (bc_fees cr 250)"
  have total: "1998640 = effective_sum ?gs" using prepare_same(3) [OF assms(1), of 250 100000 ops] assms(3) by simp
  note perm = unstable_sort_mset [OF assms(2)]
  have "?r \<noteq> Panic"
  proof (rule bnb_total [OF perm total])
    show "bnb_bounds ?gs 0 250050 31" using total by (intro same_bounds) simp_all
    show "fe_from_vb (bc_fees cr 250) (ds_serialized_len (bc_empty_script cr) + 8) = Some 36"
      "fe_mul (bc_fees cr 250) 36 = Some 9" by (simp_all add: documented_simps [OF assms(1)])
    have "map og_fee ([] @ ?gs) = replicate 20 68" using assms(3) by (simp add: same_groups_def comp_def map_replicate_const)
    then show "sum_list (map og_fee ([] @ ?gs)) < 2 ^ 64" by (simp only: sum_list_replicate) simp
  qed
  moreover have "?r \<noteq> Ok r" for r
  proof
    assume "?r = Ok r"
    from bnb_Ok [OF this perm total] obtain chosen where
      c: "mset chosen \<subseteq># mset ?gs" "250050 \<le> effective_sum chosen" "effective_sum chosen \<le> 250081" by auto
    then have "250050 \<le> int (length chosen) * 99932" "int (length chosen) * 99932 \<le> 250081"
      using same_groups_chosen(1) [OF c(1)] by simp_all
    moreover have "int (length chosen) \<le> 2 \<or> 3 \<le> int (length chosen)" by linarith
    ultimately show False by linarith
  qed
  ultimately show ?thesis by (cases ?r) auto
qed

lemma success_draw:
  assumes "documented cr" and "length ws = 20"
    and "\<forall>w \<in> set ws. wu_satisfaction_weight w = 107 \<and> utxo_value (wu_utxo w) = 100000"
  shows "\<exists>r. single_random_draw [] ws (bc_fees cr 250) 250050 (bc_empty_script cr) rnd = Ok r
     \<and> length (cs_selected r) = 3 \<and> selected_amount r = Ok 300000 \<and> cs_fee_amount r = 204"
proof -
  have m: "mset (shuffle_slice rnd ws) = mset ws" by simp
  obtain a b c xs where ws: "shuffle_slice rnd ws = a # b # c # xs"
    using mset_eq_length [OF m] assms(2) by (auto simp: numeral_eq_Suc length_Suc_conv)
  have "\<forall>w \<in> set (a # b # c # xs). wu_satisfaction_weight w = 107 \<and> utxo_value (wu_utxo w) = 100000"
    using mset_eq_setD [OF m] assms(3) ws by simp
  then have val: "wu_satisfaction_weight a = 107" "wu_satisfaction_weight b = 107" "wu_satisfaction_weight c = 107"
    "utxo_value (wu_utxo a) = 100000" "utxo_value (wu_utxo b) = 100000" "utxo_value (wu_utxo c) = 100000" by simp_all
  have rest: "scan_utxos (bc_fees cr 250) 250050 (map (Pair False) xs) 300000 204 = Ok ([], 300000, 204)"
    by (cases xs) (simp_all add: amt_add_def)
  have scan: "scan_utxos (bc_fees cr 250) 250050 (map (Pair False) (a # b # c # xs)) 0 0
      = Ok ([wu_utxo a, wu_utxo b, wu_utxo c], 300000, 204)"
    by (simp add: input_fee_test [OF assms(1)] val rest amt_add_def cong: in_order)
  obtain ex where ex: "decide_change 49746 (bc_fees cr 250) (bc_empty_script cr) = (Ok ex :: (InsufficientFunds, _) res)"
    using decide_change_total_on [of "bc_fees cr 250" "bc_empty_script cr" 36 9]
    by (auto simp: documented_simps [OF assms(1)])
  have "select_sorted_utxos (map (Pair False) (a # b # c # xs)) (bc_fees cr 250) 250050 (bc_empty_script cr)
      = Ok \<lparr>cs_selected = [wu_utxo a, wu_utxo b, wu_utxo c], cs_fee_amount = 204, cs_excess = ex\<rparr>"
    unfolding select_sorted_utxos_def scan by (simp add: amt_add_def amt_sub_def ex cong: in_order)
  then show ?thesis
    unfolding single_random_draw_def ws list.map(1) append_Nil
    by (auto simp only:) (simp_all add: selected_amount_def val amt_add_def)
qed

lemma success_passes:
  assumes "documented cr" and "unstable_sort usort"
  shows "test_bnb_coin_selection_success cr usort rnd = Ok ()"
proof -
  have "(20 :: nat) \<le> 2 ^ 32" by simp
  from generate_same_value_utxos_eq [OF assms(1) this, of 100000] obtain ops where
    ops: "generate_same_value_utxos cr 100000 20 = Ok (map (\<lambda>op. test_output op 100000 0) ops)" "length ops = 20" .
  let ?ws = "map (\<lambda>op. test_output op 100000 0) ops"
  have prep: "mapR (output_group_new (bc_fees cr 250)) ?ws = Ok (same_groups 250 100000 ops)"
    "foldR (\<lambda>acc x. checked (acc + og_effective_value x)) 0 (same_groups 250 100000 ops) = Ok 1998640"
    using prepare_same(1,2) [OF assms(1), of 250 100000 ops] ops(2) by simp_all
  have keep: "filter (\<lambda>u. 0 < og_effective_value u) (same_groups 250 100000 ops) = same_groups 250 100000 ops"
    by (simp add: filter_id_conv same_groups_def)
  obtain e where "bnb usort [] (same_groups 250 100000 ops) 0 1998640 250050 31 (bc_empty_script cr) (bc_fees cr 250) = Err e"
    using success_search_fails [OF assms ops(2)] by blast
  then have "default_coin_select usort [] ?ws (bc_fees cr 250) 250050 (bc_empty_script cr) rnd
      = single_random_draw [] ?ws (bc_fees cr 250) 250050 (bc_empty_script cr) rnd"
    by (simp add: default_coin_select_def bnb_coin_select_def prep keep documented_simps [OF assms(1)]
        of_opt_def to_signed_def checked_def [of 1998640] signed_range_def cong: in_order)
  moreover obtain r where "single_random_draw [] ?ws (bc_fees cr 250) 250050 (bc_empty_script cr) rnd = Ok r"
    "length (cs_selected r) = 3" "selected_amount r = Ok 300000" "cs_fee_amount r = 204"
    using success_draw [OF assms(1), of ?ws rnd] ops(2) by auto
  ultimately show ?thesis
    by (simp add: test_bnb_coin_selection_success_def ops(1) rate_simps [OF assms(1)] select_default_def
        FEE_AMOUNT_def amt_add_def assert_selected_def cong: in_order)
qed

text \<open>Ten outputs worth 49932 each after fees: two of them lie in the window from 99840 to 99871.\<close>

lemma almost_exact_passes:
  assumes "documented cr" and "unstable_sort usort"
  shows "test_bnb_function_almost_exact_match_with_fees cr usort = Ok ()"
proof -
  have "(10 :: nat) \<le> 2 ^ 32" by simp
  from generate_same_value_utxos_eq [OF assms(1) this, of 50000] obtain ops where
    ops: "generate_same_value_utxos cr 50000 10 = Ok (map (\<lambda>op. test_output op 50000 0) ops)" "length ops = 10" .
  let ?gs = "same_groups 250 50000 ops"
  let ?r = "bnb usort [] ?gs 0 499320 99840 31 (bc_empty_script cr) (bc_fees cr 250)"
  have prep: "mapR (output_group_new (bc_fees cr 250)) (map (\<lambda>op. test_output op 50000 0) ops) = Ok ?gs"
    "foldR (\<lambda>acc x. checked (acc + og_effective_value x)) 0 ?gs = Ok 499320"
    and total: "499320 = effective_sum ?gs"
    using prepare_same [OF assms(1), of 250 50000 ops] ops(2) by simp_all
  have bounds: "bnb_bounds ?gs 0 99840 31" using total by (intro same_bounds) simp_all
  have crate: "fe_from_vb (bc_fees cr 250) (ds_serialized_len (bc_empty_script cr) + 8) = Some 36"
    "fe_mul (bc_fees cr 250) 36 = Some 9" by (simp_all add: documented_simps [OF assms(1)])
  have "map og_fee ([] @ ?gs) = replicate 10 68" using ops(2) by (simp add: same_groups_def comp_def map_replicate_const)
  then have fees: "sum_list (map og_fee ([] @ ?gs)) < 2 ^ 64" by (simp only: sum_list_replicate) simp
  have perm: "\<forall>xs. mset (usort xs) = mset xs" using unstable_sort_mset [OF assms(2)] by blast
  have two: "mset (take 2 ?gs) \<subseteq># mset ?gs" by (metis append_take_drop_id mset_append mset_subset_eq_add_left)
  have "length (take 2 ?gs) = 2" using ops(2) by (simp add: same_groups_def)
  then have "effective_sum (take 2 ?gs) = 99864" using same_groups_chosen(1) [OF two] by simp
  with two optimal_finds [OF perm total bounds _ _ crate fees, of "take 2 ?gs"]
  obtain r where r: "?r = Ok r" using ops(2) by (auto simp: same_groups_def)
  then obtain chosen excess where c: "mset chosen \<subseteq># mset ?gs" "99840 \<le> effective_sum chosen"
      "effective_sum chosen \<le> 99871" "calculate_cs_result chosen [] excess = (Ok r :: (BnbError, _) res)"
    using bnb_Ok [OF r unstable_sort_mset [OF assms(2)] total] by auto
  note one = same_groups_chosen [OF c(1)]
  have "length chosen = 2" using c(2,3) one(1) by simp
  then obtain a b where ab: "chosen = [a, b]" by (auto simp: numeral_eq_Suc length_Suc_conv)
  have "selected_amount r = Ok 100000" "cs_fee_amount r = 136"
    using c(4) one(2) [of a] one(2) [of b] ab
    by (auto simp: calculate_cs_result_def selected_amount_def amt_add_def)
  with r show ?thesis
    by (simp add: test_bnb_function_almost_exact_match_with_fees_def ops(1) prepare_bnb_def sum_effective_def prep
        rate_simps [OF assms(1)] documented_simps [OF assms(1)] of_opt_def to_signed_def Let_def cong: in_order)
qed

text \<open>
  A hundred thousand outputs, each alone beyond the window: every output costs the search two
  tries, one to include it and one to omit it, so the tries end half way down the pool.
\<close>

lemma overshooting_loop:
  assumes "bnb_bounds pool 0 target cost" and "\<forall>u \<in> set pool. target + cost < og_effective_value u" and "0 < target"
    and "j + k < length pool"
  shows "bnb_loop (2 * k) pool target cost (node pool 0 (replicate j False) ([], None))
       = Ok (node pool 0 (replicate (j + k) False) ([], None))"
  using assms(4)
proof (induction k arbitrary: j)
  case 0
  then show ?case by (simp add: bnb_loop.simps)
next
  case (Suc k)
  let ?sel = "replicate j False"
  have len: "length ?sel < length pool" using Suc.prems by simp
  have "chosen_groups pool ?sel = []" by (auto simp: chosen_groups_def filter_empty_conv set_zip)
  then have none: "effective_sum (chosen_groups pool ?sel) = 0" by simp
  have big: "target + cost < og_effective_value (pool ! j)" using assms(2) len by simp
  have cost: "0 \<le> cost" using assms(1) by (simp add: bnb_bounds_def)
  have rest: "0 \<le> effective_sum (drop (Suc j) pool)" by (rule effective_parts(2) [OF assms(1)])
  have "effective_sum (drop j pool) = og_effective_value (pool ! j) + effective_sum (drop (Suc j) pool)"
    using effective_drop len by simp
  then have reach: "target \<le> effective_sum (drop j pool)" using big cost rest by linarith
  have down: "bnb_step pool target cost (node pool 0 ?sel ([], None)) = Ok (Continue, node pool 0 (?sel @ [True]) ([], None))"
    using reach none cost assms(3) by (simp add: step_node [OF assms(1)] forward_node [OF assms(1) len] Let_def)
  have "bnb_step pool target cost (node pool 0 (?sel @ [True]) ([], None)) = Ok (Continue, node pool 0 (?sel @ [False]) ([], None))"
    using big none len
    by (simp add: step_node [OF assms(1)] backtrack_inclusion [OF assms(1) len] chosen_groups_snoc [OF len] Let_def)
  then have "bnb_loop (2 * Suc k) pool target cost (node pool 0 ?sel ([], None))
      = bnb_loop (2 * k) pool target cost (node pool 0 (replicate (Suc j) False) ([], None))"
    using down by (simp add: loop_step replicate_append_same)
  then show ?case using Suc.IH [of "Suc j"] Suc.prems by simp
qed

lemma tries_exceeded_passes:
  assumes "documented cr" and "unstable_sort usort"
  shows "test_bnb_function_tries_exceeded cr usort = Ok ()"
proof -
  have "(100000 :: nat) \<le> 2 ^ 32" by simp
  from generate_same_value_utxos_eq [OF assms(1) this, of 100000] obtain ops where
    ops: "generate_same_value_utxos cr 100000 100000 = Ok (map (\<lambda>op. test_output op 100000 0) ops)" "length ops = 100000" .
  let ?gs = "same_groups 2500 100000 ops"
  have prep: "mapR (output_group_new (bc_fees cr 2500)) (map (\<lambda>op. test_output op 100000 0) ops) = Ok ?gs"
    "foldR (\<lambda>acc x. checked (acc + og_effective_value x)) 0 ?gs = Ok 9932000000"
    and total: "9932000000 = effective_sum ?gs"
    using prepare_same [OF assms(1), of 2500 100000 ops] ops(2) by simp_all
  have bounds: "bnb_bounds ?gs 0 20050 310" using total by (intro same_bounds) simp_all
  note perm = unstable_sort_mset [OF assms(2)]
  note pool = pool_bounds [OF perm bounds]
  have "set (rev (usort ?gs)) = set ?gs" using mset_eq_setD [OF perm, of ?gs] by simp
  then have "\<forall>u \<in> set (rev (usort ?gs)). 20050 + 310 < og_effective_value u"
    using same_groups_effective [of _ 2500 100000 ops] by (simp only:) simp
  from overshooting_loop [OF pool(1) this, of 0 50000] ops(2) pool(2)
  have "bnb_loop (2 * 50000) (rev (usort ?gs)) 20050 310 (node (rev (usort ?gs)) 0 [] ([], None))
      = Ok (node (rev (usort ?gs)) 0 (replicate 50000 False) ([], None))" by (simp add: same_groups_def)
  then have "bnb usort [] ?gs 0 9932000000 20050 310 (bc_empty_script cr) (bc_fees cr 2500) = Err TotalTriesExceeded"
    by (simp add: bnb_from_loop [OF perm total] BNB_TOTAL_TRIES_def cong: in_order)
  then show ?thesis
    by (simp add: test_bnb_function_tries_exceeded_def ops(1) prepare_bnb_def sum_effective_def prep FEE_AMOUNT_def
        rate_simps [OF assms(1)] documented_simps [OF assms(1)] of_opt_def to_signed_def checked_def [of 20050]
        signed_range_def Let_def cong: in_order)
qed

section \<open>The test of the removal of duplicates\<close>

lemma filter_visited_sorted:
  "filter_visited visited us = (kept, visited') \<Longrightarrow> sorted (map (\<lambda>u. utxo_outpoint (wu_utxo u)) us) \<Longrightarrow>
     sorted (map (\<lambda>u. utxo_outpoint (wu_utxo u)) kept)"
proof (induction us arbitrary: visited kept visited')
  case (Cons u us)
  let ?op = "utxo_outpoint (wu_utxo u)"
  show ?case
  proof (cases "?op \<in> set visited")
    case True
    with Cons.IH [of visited kept visited'] Cons.prems show ?thesis by (simp add: Let_def)
  next
    case False
    then obtain ks where ks: "filter_visited (?op # visited) us = (ks, visited')" "kept = u # ks"
      using Cons.prems by (auto simp: Let_def split: prod.splits)
    then have "set ks \<subseteq> set us" using filter_visited_spec by blast
    with Cons.IH [OF ks(1)] ks(2) Cons.prems(2) show ?thesis by auto
  qed
qed simp

lemma filter_visited_vec:
  assumes "inj_on fst (set ts)" and "inj_on outpoint_of (fst ` set ts)" and "distinct es"
    and "set es = {t \<in> set ts. outpoint_of (fst t) \<notin> set visited}"
  shows "\<exists>visited'. filter_visited visited (to_utxo_vec outpoint_of ts) = (to_utxo_vec outpoint_of es, visited')
      \<and> set visited' = set visited \<union> outpoint_of ` fst ` set ts"
proof -
  let ?op = "\<lambda>u :: 'a WeightedUtxo. utxo_outpoint (wu_utxo u)"
  let ?us = "to_utxo_vec outpoint_of ts"
  obtain kept visited' where f: "filter_visited visited ?us = (kept, visited')" by (rule prod.exhaust)
  note spec = filter_visited_spec [OF f]
  have image: "?op ` set kept = ?op ` set ?us - set visited" and sub: "set kept \<subseteq> set ?us"
    and dist: "distinct (map ?op kept)" and seen: "set visited' = set visited \<union> ?op ` set ?us"
    using spec by blast+
  have us: "set ?us = dup_utxo outpoint_of ` set ts" by (simp add: to_utxo_vec_def)
  have op: "?op (dup_utxo outpoint_of t) = outpoint_of (fst t)" for t by (simp add: dup_utxo_def)
  have inj: "inj_on (\<lambda>t. outpoint_of (fst t)) (set ts)"
    using assms(1,2) comp_inj_on by (fastforce simp: comp_def)
  then have inj_us: "inj_on ?op (set ?us)"
    unfolding us by (auto simp: inj_on_def op)
  have "set kept = {u \<in> set ?us. ?op u \<notin> set visited}"
  proof (intro equalityI subsetI)
    fix u assume "u \<in> set kept"
    then show "u \<in> {u \<in> set ?us. ?op u \<notin> set visited}"
      using image sub by blast
  next
    fix u assume u: "u \<in> {u \<in> set ?us. ?op u \<notin> set visited}"
    then have "?op u \<in> ?op ` set ?us - set visited" by blast
    then have "?op u \<in> ?op ` set kept" using image by (simp only:)
    then obtain k where k: "?op u = ?op k" "k \<in> set kept" by (rule imageE)
    then have "k = u" using inj_onD [OF inj_us k(1)] u sub by blast
    then show "u \<in> set kept" using k(2) by simp
  qed
  also have "\<dots> = dup_utxo outpoint_of ` set es" unfolding us assms(4) by (auto simp: op)
  finally have set: "set kept = set (map (dup_utxo outpoint_of) es)" by simp
  have "inj_on (dup_utxo outpoint_of) (set es)"
  proof (rule inj_onI)
    fix x y assume "x \<in> set es" "y \<in> set es" and eq: "dup_utxo outpoint_of x = dup_utxo outpoint_of y"
    then have "x \<in> set ts" "y \<in> set ts" using assms(4) by simp_all
    moreover have "outpoint_of (fst x) = outpoint_of (fst y)" using arg_cong [OF eq, of ?op] by (simp only: op)
    ultimately show "x = y" using inj_onD [OF inj] by blast
  qed
  then have "distinct (map (dup_utxo outpoint_of) es)" using assms(3) by (simp add: distinct_map)
  moreover have "distinct kept" using dist unfolding distinct_map by (rule conjunct1)
  ultimately have m: "mset (map (dup_utxo outpoint_of) es) = mset kept"
    using set by (simp only: set_eq_iff_mset_eq_distinct)
  have i: "inj_on ?op (set (map (dup_utxo outpoint_of) es))"
    unfolding set [symmetric] by (rule inj_on_subset [OF inj_us sub])
  have "sorted (map ?op kept)"
    using f by (rule filter_visited_sorted) (simp add: to_utxo_vec_def)
  from sort_key_inj_key_eq [OF m i this] have "to_utxo_vec outpoint_of es = kept"
    by (simp add: to_utxo_vec_def)
  moreover have "?op ` set ?us = outpoint_of ` fst ` set ts" by (simp add: us image_image op)
  ultimately show ?thesis using f seen by simp
qed

lemma duplicates_case_passes_if:
  assumes "inj_on fst (set (tc_required t) \<union> set (tc_optional t))"
    and "inj_on outpoint_of (fst ` (set (tc_required t) \<union> set (tc_optional t)))"
    and "distinct (tc_exp_required t)" and "set (tc_exp_required t) = set (tc_required t)"
    and "distinct (tc_exp_optional t)"
    and "set (tc_exp_optional t) = {x \<in> set (tc_optional t). fst x \<notin> fst ` set (tc_required t)}"
  shows "duplicates_case_passes outpoint_of t"
proof -
  have sub: "inj_on fst (set (tc_required t))" "inj_on fst (set (tc_optional t))"
    "inj_on outpoint_of (fst ` set (tc_required t))" "inj_on outpoint_of (fst ` set (tc_optional t))"
    using assms(1,2) by (simp_all add: inj_on_Un image_Un)
  obtain v1 where v1: "filter_visited [] (to_utxo_vec outpoint_of (tc_required t)) = (to_utxo_vec outpoint_of (tc_exp_required t), v1)"
      "set v1 = outpoint_of ` fst ` set (tc_required t)"
    using filter_visited_vec [OF sub(1,3) assms(3), of "[]"] assms(4) by auto
  have "set (tc_exp_optional t) = {x \<in> set (tc_optional t). outpoint_of (fst x) \<notin> set v1}"
    using assms(2,6) v1(2) by (auto simp: inj_on_def)
  with filter_visited_vec [OF sub(2,4) assms(5)] v1(1) show ?thesis
    by (fastforce simp: duplicates_case_passes_def filter_duplicates_def)
qed

lemma filter_duplicates_passes:
  assumes "inj_on outpoint_of {''A'', ''B'', ''C'', ''D'', ''E''}"
  shows "test_filter_duplicates outpoint_of = Ok ()"
proof -
  have "duplicates_case_passes outpoint_of t" if "t \<in> set duplicates_cases" for t
  proof (rule duplicates_case_passes_if)
    have "fst ` (set (tc_required t) \<union> set (tc_optional t)) \<subseteq> {''A'', ''B'', ''C'', ''D'', ''E''}"
      using that by (auto simp: duplicates_cases_def)
    with assms show "inj_on outpoint_of (fst ` (set (tc_required t) \<union> set (tc_optional t)))"
      by (rule inj_on_subset)
  qed (use that in \<open>auto simp: duplicates_cases_def\<close>)
  then show ?thesis by (simp add: test_filter_duplicates_def list_all_iff)
qed

section \<open>The tests with a seeded generator\<close>

definition documented_rng :: "('g, 'a) rng \<Rightarrow> bool" where
  "documented_rng rg \<longleftrightarrow>
     (\<forall>lo hi g. lo < hi \<longrightarrow> lo \<le> fst (rng_gen_range rg lo hi g) \<and> fst (rng_gen_range rg lo hi g) < hi)
     \<and> (\<forall>xs g. mset (fst (rng_shuffle rg xs g)) = mset xs)"

definition random_output :: "'op WeightedUtxo \<Rightarrow> bool" where
  "random_output w \<longleftrightarrow> wu_satisfaction_weight w = 107 \<and> utxo_value (wu_utxo w) < 200000000"

lemma numbered_outpoint_ok:
  assumes "documented cr" and "i < 2 ^ 32"
  shows "\<exists>op. numbered_outpoint cr i = Ok op"
proof -
  have "\<forall>i < 2 ^ 32. bc_outpoint_from_str cr (numbered_txid @ show_nat i) \<noteq> None"
    using assms(1) unfolding documented_def by blast
  with assms(2) show ?thesis by (auto simp: numbered_outpoint_def)
qed

lemma random_utxos_from_ok:
  assumes "documented cr" and "documented_rng rg" and "i + n \<le> 2 ^ 32"
  shows "\<exists>us g'. random_utxos_from cr rg i n g = Ok (us, g') \<and> length us = n \<and> list_all random_output us"
  using assms(3)
proof (induction n arbitrary: i g)
  case (Suc n)
  obtain v g1 where v: "rng_gen_range rg 0 200000000 g = (v, g1)" by (rule prod.exhaust)
  obtain x g2 where x: "rng_next_u32 rg g1 = (x, g2)" by (rule prod.exhaust)
  obtain y g3 where y: "rng_next_u32 rg g2 = (y, g3)" by (rule prod.exhaust)
  have "(0 :: nat) < 200000000" by simp
  then have "v < 200000000" using assms(2) v unfolding documented_rng_def by (metis fst_conv)
  moreover obtain op where "numbered_outpoint cr i = Ok op"
    using numbered_outpoint_ok [OF assms(1), of i] Suc.prems by auto
  moreover obtain us g' where "random_utxos_from cr rg (Suc i) n g3 = Ok (us, g')" "length us = n" "list_all random_output us"
    using Suc.IH [of "Suc i" g3] Suc.prems by auto
  ultimately show ?case by (simp add: v x y random_output_def [of "\<lparr>wu_satisfaction_weight = _, wu_utxo = _\<rparr>"] P2WPKH_SATISFACTION_SIZE_def)
qed simp

lemma scan_utxos_some:
  assumes "documented cr" and "list_all (\<lambda>x. random_output (snd x)) us"
    and "target + fee + 68 * length us < 2 ^ 63" and "sel + total_value (map snd us) < 2 ^ 63"
    and "target + fee + 68 * length us \<le> sel + total_value (map snd us)"
  shows "\<exists>l s f. scan_utxos (bc_fees cr 250) target us sel fee = Ok (l, s, f) \<and> target + f \<le> s \<and> s < 2 ^ 63
     \<and> f = fee + 68 * length l \<and> s = sel + sum_list (map utxo_value l)"
  using assms(2-)
proof (induction us arbitrary: sel fee)
  case (Cons x us)
  obtain b w where x: "x = (b, w)" by (cases x)
  have "input_fee (bc_fees cr 250) w = (Ok ((272 * 250 + 999) div 1000) :: (InsufficientFunds, _) res)"
    using Cons.prems(1) x by (intro input_fee_test [OF assms(1)]) (simp_all add: random_output_def)
  then have fee: "input_fee (bc_fees cr 250) w = (Ok 68 :: (InsufficientFunds, _) res)" by simp
  show ?case
  proof (cases "b \<or> sel < target + fee")
    case True
    have "\<exists>l s f. scan_utxos (bc_fees cr 250) target us (sel + utxo_value (wu_utxo w)) (fee + 68) = Ok (l, s, f) \<and> target + f \<le> s
        \<and> s < 2 ^ 63 \<and> f = fee + 68 + 68 * length l \<and> s = sel + utxo_value (wu_utxo w) + sum_list (map utxo_value l)"
      using Cons.prems x by (intro Cons.IH) simp_all
    then obtain l s f where "scan_utxos (bc_fees cr 250) target us (sel + utxo_value (wu_utxo w)) (fee + 68) = Ok (l, s, f)"
      "target + f \<le> s" "s < 2 ^ 63" "f = fee + 68 + 68 * length l" "s = sel + utxo_value (wu_utxo w) + sum_list (map utxo_value l)"
      by blast
    then have "scan_utxos (bc_fees cr 250) target (x # us) sel fee = Ok (wu_utxo w # l, s, f)"
      using Cons.prems True by (auto simp: x fee amt_add_def)
    moreover have "f = fee + 68 * length (wu_utxo w # l)" "s = sel + sum_list (map utxo_value (wu_utxo w # l))"
      using \<open>f = _\<close> \<open>s = _\<close> by simp_all
    ultimately show ?thesis using \<open>target + f \<le> s\<close> \<open>s < 2 ^ 63\<close> by blast
  next
    case False
    then have "scan_utxos (bc_fees cr 250) target (x # us) sel fee = Ok ([], sel, fee)"
      using Cons.prems by (simp add: x amt_add_def)
    with False Cons.prems show ?thesis by (intro exI [of _ "[]"]) auto
  qed
qed auto

lemma total_value_random: "list_all random_output us \<Longrightarrow> total_value us \<le> length us * 200000000"
  by (induction us) (auto simp: random_output_def)

lemma draw_covers_target:
  assumes "documented cr" and "list_all random_output ws" and "length ws = 300" and "0 < target"
    and "target + 68 * 300 \<le> total_value ws"
  shows "\<exists>r. single_random_draw [] ws (bc_fees cr 250) target (bc_empty_script cr) rnd = Ok r
     \<and> (\<exists>a. selected_amount r = Ok a \<and> target < a) \<and> cs_fee_amount r = length (cs_selected r) * 68"
proof -
  have m: "mset (shuffle_slice rnd ws) = mset ws" by simp
  let ?us = "map (Pair False) (shuffle_slice rnd ws)"
  have us: "list_all (\<lambda>x. random_output (snd x)) ?us" "length ?us = 300" "total_value (map snd ?us) = total_value ws"
    using mset_eq_setD [OF m] mset_eq_length [OF m] total_mset(1) [OF m] assms(2,3)
    by (simp_all add: list_all_iff comp_def)
  have small: "total_value ws < 2 ^ 62" using total_value_random [OF assms(2)] assms(3) by simp
  obtain l s f where scan: "scan_utxos (bc_fees cr 250) target ?us 0 0 = Ok (l, s, f)" "target + f \<le> s" "s < 2 ^ 63"
      "f = 0 + 68 * length l" "s = 0 + sum_list (map utxo_value l)"
    using scan_utxos_some [OF assms(1) us(1), of target 0 0] us(2,3) assms(5) small by auto
  obtain ex where ex: "decide_change (s - (target + f)) (bc_fees cr 250) (bc_empty_script cr) = (Ok ex :: (InsufficientFunds, _) res)"
    using decide_change_total_on [of "bc_fees cr 250" "bc_empty_script cr" 36 9] by (auto simp: documented_simps [OF assms(1)])
  have "single_random_draw [] ws (bc_fees cr 250) target (bc_empty_script cr) rnd
      = Ok \<lparr>cs_selected = l, cs_fee_amount = f, cs_excess = ex\<rparr>"
    unfolding single_random_draw_def list.map(1) append_Nil select_sorted_utxos_def scan(1)
    using scan(2,3) by (simp add: amt_add_def amt_sub_def ex cong: in_order)
  moreover have "selected_amount \<lparr>cs_selected = l, cs_fee_amount = f, cs_excess = ex\<rparr> = Ok s"
    using foldR_amt_add_total [of 0 utxo_value l] scan(3,5) by (simp add: selected_amount_def)
  moreover have "target < s"
    using scan assms(4) by (cases l) auto
  ultimately show ?thesis using scan(4) by simp
qed

lemma single_random_draw_success_passes:
  assumes "documented cr" and "documented_rng rg"
  shows "\<exists>utxos g picked utxos' g'. generate_random_utxos cr rg seed 300 = Ok (utxos, g)
     \<and> sum_random_utxos rg g utxos = Ok (picked, utxos', g')
     \<and> (picked + FEE_AMOUNT + 68 * 300 \<le> total_value utxos
          \<longrightarrow> test_single_random_draw_function_success cr rg seed rnd = Ok ())"
proof -
  have "0 + 300 \<le> (2 :: nat) ^ 32" by simp
  from random_utxos_from_ok [OF assms this, of seed] obtain utxos g where
    u: "generate_random_utxos cr rg seed 300 = Ok (utxos, g)" "length utxos = 300" "list_all random_output utxos"
    unfolding generate_random_utxos_def by blast
  obtain p g1 where p: "rng_gen_range rg 2 150 g = (p, g1)" by (rule prod.exhaust)
  obtain utxos' g2 where s: "rng_shuffle rg utxos g1 = (utxos', g2)" by (rule prod.exhaust)
  have "2 < (150 :: nat)" by simp
  then have "p < 150" using assms(2) p unfolding documented_rng_def by (metis fst_conv)
  have m: "mset utxos' = mset utxos" using assms(2) s unfolding documented_rng_def by (metis fst_conv)
  have u': "length utxos' = 300" "list_all random_output utxos'" "total_value utxos' = total_value utxos"
    using mset_eq_setD [OF m] mset_eq_length [OF m] total_mset(1) [OF m] u(2,3) by (simp_all add: list_all_iff)
  have "total_value utxos' = total_value (take p utxos') + total_value (drop p utxos')"
    by (metis append_take_drop_id total_append(1))
  then have le: "total_value (take p utxos') \<le> total_value utxos'" by simp
  have small: "total_value utxos' < 2 ^ 62" using total_value_random [OF u'(2)] u'(1) by simp
  have "sum_values (take p utxos') = Ok (total_value (take p utxos'))"
    using foldR_amt_add_total [of 0 "\<lambda>u. utxo_value (wu_utxo u)" "take p utxos'"] le small
    by (simp add: sum_values_def total_value_def)
  then have sum: "sum_random_utxos rg g utxos = Ok (total_value (take p utxos'), utxos', g2)"
    using \<open>p < 150\<close> u(2) u'(1) by (simp add: sum_random_utxos_def p s Let_def)
  have "test_single_random_draw_function_success cr rg seed rnd = Ok ()"
    if big: "total_value (take p utxos') + FEE_AMOUNT + 68 * 300 \<le> total_value utxos"
  proof -
    let ?t = "total_value (take p utxos') + FEE_AMOUNT"
    have "0 < ?t" by (simp add: FEE_AMOUNT_def)
    with draw_covers_target [OF assms(1) u'(2,1), of ?t rnd] big u'(3) obtain r a where
      r: "single_random_draw [] utxos' (bc_fees cr 250) ?t (bc_empty_script cr) rnd = Ok r"
        "selected_amount r = Ok a" "?t < a" "cs_fee_amount r = length (cs_selected r) * 68" by auto
    have "amt_add (total_value (take p utxos')) FEE_AMOUNT = (Ok ?t :: (unit, _) res)"
      using le small by (simp add: amt_add_def FEE_AMOUNT_def)
    with r show ?thesis
      by (simp add: test_single_random_draw_function_success_def u(1) sum rate_simps [OF assms(1)] cong: in_order)
  qed
  with u(1) sum show ?thesis by blast
qed

text \<open>
  The assertion of \<open>test_bnb_function_exact_match_more_utxos\<close>, and of a round of
  \<open>test_bnb_coin_selection_exact_match\<close> that the search decides: without fees and with no
  room for a change output a match is worth exactly the target.
\<close>

lemma free_match_is_exact:
  assumes "documented cr" and "unstable_sort usort" and "list_all random_output ws" and "length ws \<le> 40"
    and "mapR (output_group_new (bc_fees cr 0)) ws = (Ok groups :: (unit, _) res)" and "sum_effective groups = Ok avail"
    and "bnb usort [] groups 0 avail target 0 (bc_empty_script cr) (bc_fees cr 0) = Ok r"
  shows "selected_amount r = Ok (nat target)"
proof -
  have "list_all (\<lambda>w. wu_satisfaction_weight w = 107 \<and> utxo_value (wu_utxo w) < 2 ^ 63) ws"
    using assms(3) by (auto simp: list_all_iff random_output_def)
  then have "mapR (output_group_new (bc_fees cr 0)) ws = (Ok (map (test_group 0) ws) :: (unit, _) res)"
    by (intro mapR_test_groups [OF assms(1)]) simp_all
  then have gs: "groups = map (test_group 0) ws" using assms(5) by simp
  have "avail = effective_sum groups"
    using assms(6) foldR_checked by (fastforce simp: sum_effective_def effective_sum_def)
  from bnb_Ok [OF assms(7) unstable_sort_mset [OF assms(2)] this] obtain chosen excess where
    c: "mset chosen \<subseteq># mset groups" "target = effective_sum chosen"
      "calculate_cs_result chosen [] excess = (Ok r :: (BnbError, _) res)" by auto
  have free: "og_effective_value u = int (utxo_value (wu_utxo (og_weighted_utxo u)))" if "u \<in> set groups" for u
    using that gs by auto
  let ?v = "\<lambda>u. utxo_value (wu_utxo (og_weighted_utxo u))"
  have "set chosen \<subseteq> set groups" using set_mset_mono [OF c(1)] by simp
  then have "target = int (sum_list (map ?v chosen))"
    unfolding c(2) effective_sum_def using free by (induction chosen) auto
  moreover have "cs_selected r = map (\<lambda>u. wu_utxo (og_weighted_utxo u)) chosen"
    using c(3) by (auto simp: calculate_cs_result_def Let_def)
  moreover have "sum_list (map ?v chosen) \<le> sum_list (map ?v groups)" using sum_list_submset [OF c(1)] .
  moreover have "sum_list (map ?v groups) = total_value ws" by (simp add: gs total_value_def comp_def)
  ultimately show ?thesis
    using total_value_random [OF assms(3)] assms(4)
      foldR_amt_add_total [of 0 utxo_value "cs_selected r"] by (simp add: selected_amount_def comp_def)
qed

end
