(* ===== verification/Wire_Tests.thy ===== *)
theory Wire_Tests
  imports Message Unit_Test
begin

text \<open>
  The unit tests of the wire format, file by file: \<^verbatim>\<open>var_int.rs\<close> and \<^verbatim>\<open>hash256.rs\<close> of
  \<^verbatim>\<open>node/src/util\<close> and the payloads of \<^verbatim>\<open>node/src/messages\<close>. Their round trips are instances of
  the contract \<open>payload\<close>, proved once in the locale; the tests that decode fixed bytes are
  evaluated. SHA-256 and the hexadecimal codec are arguments, the latter with its
  documented behaviour. Tests that compare with a digest pass under the hypothesis that
  SHA-256 has the value the test states.
\<close>

section \<open>Shared shapes of the tests\<close>

definition write_read_test :: "'a reader \<Rightarrow> ('a \<Rightarrow> bytes) \<Rightarrow> ('a \<Rightarrow> nat) \<Rightarrow> 'a \<Rightarrow> test" where
  "write_read_test rd wr sz x =
     (let v = wr x in
      rbind (assert_that (length v = sz x)) (\<lambda>_.
      rbind (unwrap (parse_all rd v)) (\<lambda>y. assert_that (y = x))))"

context payload
begin

lemma write_read_passes: "ok x \<Longrightarrow> write_read_test rd wr sz x = Ok ()"
  using wr_size [of x] rd_wr_whole [of x] by (simp add: write_read_test_def parse_all_def Let_def)

end

text \<open>\<^verbatim>\<open>Hash256::decode(s).unwrap()\<close>.\<close>

definition decoded :: "(string \<Rightarrow> (string, bytes) res) \<Rightarrow> string \<Rightarrow> (unit, Hash256) res" where
  "decoded dec s = unwrap (hash_decode dec s)"

definition hex_hash :: "string \<Rightarrow> bool" where
  "hex_hash s \<longleftrightarrow> length s = 64 \<and> list_all (\<lambda>c. hex_digit c \<noteq> None) s"

lemma decoded_hash:
  assumes "documented_hex dec enc" and "hex_hash s"
  obtains h where "decoded dec s = Ok h" and "wf_hash h" and "hash_decode dec s = Ok h"
proof -
  obtain bs where bs: "hex_value s = Some bs" "length bs = 32"
    using hex_value_length [of s] assms(2) by (auto simp: hex_hash_def)
  then show ?thesis
    using documented_hexD(1) [OF assms(1) bs(1)] that [of "Hash256 (rev bs)"]
    by (simp add: decoded_def hash_decode_def wf_hash_def)
qed

section \<open>Variable-length integers\<close>

definition test_var_int_size :: test where
  "test_var_int_size = all_pass
     [assert_that (var_int_size 0 = 1), assert_that (var_int_size 253 = 3),
      assert_that (var_int_size (ucast (- 1 :: u16)) = 3), assert_that (var_int_size (ucast (- 1 :: u32)) = 5),
      assert_that (var_int_size (- 1) = 9)]"

definition write_read_value :: "u64 \<Rightarrow> test" where
  "write_read_value n =
     rbind (unwrap (parse_all var_int_read (var_int_write n))) (\<lambda>m. assert_that (m = n))"

definition test_var_int_write_read :: test where
  "test_var_int_write_read = all_pass
     [write_read_value 0, write_read_value 253, write_read_value (ucast (- 1 :: u16)),
      write_read_value (ucast (- 1 :: u32)), write_read_value (- 1)]"

lemma var_int_tests_pass: "test_var_int_size = Ok ()" "test_var_int_write_read = Ok ()"
proof -
  show "test_var_int_size = Ok ()" by (simp add: test_var_int_size_def all_pass_iff) code_simp
  have "write_read_value n = Ok ()" for n
    using var_int_codec.rd_wr_whole [of n] by (simp add: write_read_value_def parse_all_def)
  then show "test_var_int_write_read = Ok ()" by (simp add: test_var_int_write_read_def)
qed

section \<open>Hashes\<close>

definition test_sha256d ::
    "(bytes \<Rightarrow> bytes) \<Rightarrow> (string \<Rightarrow> (string, bytes) res) \<Rightarrow> (bytes \<Rightarrow> string) \<Rightarrow> test" where
  "test_sha256d sha256 dec enc =
     rbind (unwrap (dec ''0123456789abcdef'')) (\<lambda>x.
       assert_that (enc (hash_bytes (sha256d sha256 x))
         = ''137ad663f79da06e282ed0abbec4d70523ced5ff8e39d5c2e5641d978c5925aa''))"

definition test_hash_decode :: "(string \<Rightarrow> (string, bytes) res) \<Rightarrow> test" where
  "test_hash_decode dec = all_pass
     [assert_that (is_ok (hash_decode dec ''0000000000000000000000000000000000000000000000000000000000000000'')),
      assert_that (is_ok (hash_decode dec ''ffffffffffffffffffffffffffffffffffffffffffffffffffffffffffffffff'')),
      assert_that (is_ok (hash_decode dec ''abcdef0000112233445566778899abcdef000011223344556677889912345678'')),
      assert_that (is_err (hash_decode dec ''000000000000000000000000000000000000000000000000000000000000000'')),
      assert_that (is_err (hash_decode dec ''00000000000000000000000000000000000000000000000000000000000000000'')),
      assert_that (is_err (hash_decode dec ''000000000000000000000000000000000000000000000000000000000000000g''))]"

definition test_hash_decode_write_read_encode ::
    "(string \<Rightarrow> (string, bytes) res) \<Rightarrow> (bytes \<Rightarrow> string) \<Rightarrow> test" where
  "test_hash_decode_write_read_encode dec enc =
     (let s1 = ''abcdef0000112233445566778899abcdef000011223344556677889912345678'' in
      rbind (decoded dec s1) (\<lambda>h1.
      rbind (unwrap (parse_all hash_read (hash_write h1))) (\<lambda>h2.
        assert_that (s1 = hash_encode enc h2))))"

definition compared :: "(string \<Rightarrow> (string, bytes) res) \<Rightarrow> string \<Rightarrow> string \<Rightarrow> ordering \<Rightarrow> test" where
  "compared dec s1 s2 order =
     rbind (decoded dec s1) (\<lambda>h1. rbind (decoded dec s2) (\<lambda>h2. assert_that (hash_cmp h1 h2 = order)))"

definition test_hash_compare :: "(string \<Rightarrow> (string, bytes) res) \<Rightarrow> test" where
  "test_hash_compare dec =
     rbind (decoded dec ''5555555555555555555555555555555555555555555555555555555555555555'') (\<lambda>h1.
     rbind (decoded dec ''5555555555555555555555555555555555555555555555555555555555555555'') (\<lambda>h2.
     rbind (assert_that (h1 = h2)) (\<lambda>_. all_pass
       [compared dec ''0555555555555555555555555555555555555555555555555555555555555555''
          ''5555555555555555555555555555555555555555555555555555555555555555'' Less,
        compared dec ''5555555555555555555555555555555555555555555555555555555555555550''
          ''5555555555555555555555555555555555555555555555555555555555555555'' Less,
        compared dec ''6555555555555555555555555555555555555555555555555555555555555555''
          ''5555555555555555555555555555555555555555555555555555555555555555'' Greater,
        compared dec ''5555555555555555555555555555555555555555555555555555555555555556''
          ''5555555555555555555555555555555555555555555555555555555555555555'' Greater])))"

text \<open>What the codec gives for each literal is computed from its definition.\<close>

definition hash_of_hex :: "string \<Rightarrow> Hash256" where
  "hash_of_hex s = Hash256 (rev (the (hex_value s)))"

lemma decoded_of_hex:
  assumes "documented_hex dec enc" and "hex_hash s"
  shows "decoded dec s = Ok (hash_of_hex s)" and "hash_decode dec s = Ok (hash_of_hex s)" and "wf_hash (hash_of_hex s)"
proof -
  obtain bs where bs: "hex_value s = Some bs" "length bs = 32"
    using hex_value_length [of s] assms(2) by (auto simp: hex_hash_def)
  then show "decoded dec s = Ok (hash_of_hex s)" "hash_decode dec s = Ok (hash_of_hex s)" "wf_hash (hash_of_hex s)"
    using documented_hexD(1) [OF assms(1) bs(1)]
    by (simp_all add: decoded_def hash_decode_def hash_of_hex_def wf_hash_def)
qed

lemma test_hash_decode_passes:
  assumes "documented_hex dec enc"
  shows "test_hash_decode dec = Ok ()"
proof -
  have ok: "is_ok (hash_decode dec s)" if "hex_hash s" for s
    using decoded_of_hex(2) [OF assms that] by simp
  have bad: "is_err (hash_decode dec s)" if "hex_value s = None" for s
    using documented_hexD(2) [OF assms that] by (auto simp: hash_decode_def)
  show ?thesis
    unfolding test_hash_decode_def all_pass_iff list.pred_inject assert_that_simps simp_thms
    by (intro conjI ok bad) (simp_all add: hex_hash_def hex_digit_simps)
qed

lemma cmp_below_numeral:
  "cmp_below (numeral k) xs ys =
     (let i = pred_numeral k in if xs ! i < ys ! i then Less else if xs ! i > ys ! i then Greater else cmp_below i xs ys)"
  by (simp add: numeral_eq_Suc Let_def)

lemma hash_tests_pass:
  assumes "documented_hex dec enc"
  shows "test_hash_decode_write_read_encode dec enc = Ok ()" and "test_hash_compare dec = Ok ()"
proof -
  let ?s = "''abcdef0000112233445566778899abcdef000011223344556677889912345678''"
  note hash = decoded_of_hex [OF assms]
  have "hex_hash ?s" by (simp add: hex_hash_def hex_digit_simps)
  moreover have "hash_encode hex_string (hash_of_hex ?s) = ?s"
    by (simp add: hash_encode_def hash_of_hex_def hex_digit_simps hex_string_def hex_char_simps)
  ultimately show "test_hash_decode_write_read_encode dec enc = Ok ()"
    using hash_codec.rd_wr_whole [of "hash_of_hex ?s"]
    by (simp add: test_hash_decode_write_read_encode_def hash parse_all_def documented_hexD(3) [OF assms] Let_def
        del: append_Cons)
  have cmp: "compared dec s t order = Ok ()"
    if "hex_hash s" "hex_hash t" "hash_cmp (hash_of_hex s) (hash_of_hex t) = order" for s t order
    using that by (simp add: compared_def hash)
  have "hex_hash ''5555555555555555555555555555555555555555555555555555555555555555''"
    by (simp add: hex_hash_def hex_digit_simps)
  note five = hash(1) [OF this]
  show "test_hash_compare dec = Ok ()"
    unfolding test_hash_compare_def five rbind_simps assert_that_simps(1) all_pass_iff list.pred_inject simp_thms
    by (intro conjI cmp)
      (simp_all add: hex_hash_def hex_digit_simps hash_of_hex_def hash_cmp_def cmp_below_numeral)
qed

lemma test_sha256d_passes:
  assumes "documented_hex dec enc"
    and "sha256 (sha256 [0x01, 0x23, 0x45, 0x67, 0x89, 0xab, 0xcd, 0xef])
         = the (hex_value ''137ad663f79da06e282ed0abbec4d70523ced5ff8e39d5c2e5641d978c5925aa'')"
  shows "test_sha256d sha256 dec enc = Ok ()"
proof -
  have x: "hex_value ''0123456789abcdef'' = Some [0x01, 0x23, 0x45, 0x67, 0x89, 0xab, 0xcd, 0xef]" by (simp add: hex_digit_simps)
  have "hex_string (the (hex_value ''137ad663f79da06e282ed0abbec4d70523ced5ff8e39d5c2e5641d978c5925aa''))
      = ''137ad663f79da06e282ed0abbec4d70523ced5ff8e39d5c2e5641d978c5925aa''"
    by (simp add: hex_digit_simps hex_string_def hex_char_simps)
  then show ?thesis
    unfolding test_sha256d_def documented_hexD(1) [OF assms(1) x] documented_hexD(3) [OF assms(1)]
      unwrap_simps rbind_simps sha256d_def Hash256.sel assms(2) by simp
qed

section \<open>Transactions\<close>

definition test_out_point_write_read :: "(string \<Rightarrow> (string, bytes) res) \<Rightarrow> test" where
  "test_out_point_write_read dec =
     rbind (decoded dec ''123412345678567890ab90abcdefcdef123412345678567890ab90abcdefcdef'') (\<lambda>h.
       write_read_test out_point_read out_point_write out_point_size \<lparr>op_hash = h, op_index = 0\<rparr>)"

definition test_tx_in_write_read :: test where
  "test_tx_in_write_read =
     write_read_test tx_in_read tx_in_write tx_in_size
       \<lparr>txin_prev_output = \<lparr>op_hash = Hash256 (replicate 32 6), op_index = 8\<rparr>,
        txin_unlock_script = replicate 254 255, txin_sequence = 100\<rparr>"

definition test_tx_out_write_read :: test where
  "test_tx_out_write_read =
     write_read_test tx_out_read tx_out_write tx_out_size
       \<lparr>txout_satoshis = 4400044000, txout_lock_script = [1, 2, 3, 4, 5, 6, 7, 8, 9, 100, 99, 98, 97, 96]\<rparr>"

text \<open>The coinbase transaction of block 2.\<close>

definition coinbase_2 :: Tx where
  "coinbase_2 = \<lparr>tx_version = 1, tx_flag = None,
     tx_inputs = [\<lparr>txin_prev_output = \<lparr>op_hash = Hash256 (replicate 32 0), op_index = 4294967295\<rparr>,
       txin_unlock_script = [4, 255, 255, 0, 29, 1, 11], txin_sequence = 4294967295\<rparr>],
     tx_outputs = [\<lparr>txout_satoshis = 5000000000, txout_lock_script =
       [65, 4, 114, 17, 168, 36, 245, 91, 80, 82, 40, 228, 195, 213, 25, 76, 31, 207,
        170, 21, 164, 86, 171, 223, 55, 249, 185, 217, 122, 64, 64, 175, 192, 115, 222,
        230, 200, 144, 100, 152, 79, 3, 56, 82, 55, 217, 33, 103, 193, 62, 35, 100, 70,
        180, 23, 171, 121, 160, 252, 174, 65, 42, 227, 49, 107, 119, 172]\<rparr>],
     tx_witnesses = None, tx_lock_time = 0\<rparr>"

definition test_tx_hash :: "(bytes \<Rightarrow> bytes) \<Rightarrow> (string \<Rightarrow> (string, bytes) res) \<Rightarrow> test" where
  "test_tx_hash sha256 dec =
     rbind (decoded dec ''9b0fc92260312ce44e74ef369f5c66bbb85848f2eddd5a7a1cde251e54ccfdd5'') (\<lambda>h.
     rbind (assert_that (tx_hash sha256 coinbase_2 = h)) (\<lambda>_.
       assert_that (coinbase coinbase_2)))"

lemma tx_tests_pass:
  assumes "documented_hex dec enc"
  shows "test_out_point_write_read dec = Ok ()" and "test_tx_in_write_read = Ok ()" and "test_tx_out_write_read = Ok ()"
    and "tx_hash sha256 coinbase_2 = hash_of_hex ''9b0fc92260312ce44e74ef369f5c66bbb85848f2eddd5a7a1cde251e54ccfdd5''
         \<Longrightarrow> test_tx_hash sha256 dec = Ok ()"
proof -
  have "hex_hash ''123412345678567890ab90abcdefcdef123412345678567890ab90abcdefcdef''"
    by (simp add: hex_hash_def hex_digit_simps)
  note h = decoded_of_hex [OF assms this]
  show "test_out_point_write_read dec = Ok ()"
    unfolding test_out_point_write_read_def h(1) rbind_simps
    by (rule out_point_codec.write_read_passes) (simp add: wf_out_point_def h(3))
  show "test_tx_in_write_read = Ok ()"
    unfolding test_tx_in_write_read_def by (rule tx_in_codec.write_read_passes) (simp add: wf_defs fits_def)
  show "test_tx_out_write_read = Ok ()"
    unfolding test_tx_out_write_read_def by (rule tx_out_codec.write_read_passes) (simp add: wf_defs fits_def)
  have "hex_hash ''9b0fc92260312ce44e74ef369f5c66bbb85848f2eddd5a7a1cde251e54ccfdd5''"
    by (simp add: hex_hash_def hex_digit_simps)
  note k = decoded_of_hex [OF assms this]
  have "coinbase coinbase_2"
    by (simp add: coinbase_def coinbase_2_def COINBASE_OUTPOINT_HASH_def COINBASE_OUTPOINT_INDEX_def)
  then show "test_tx_hash sha256 dec = Ok ()"
    if "tx_hash sha256 coinbase_2 = hash_of_hex ''9b0fc92260312ce44e74ef369f5c66bbb85848f2eddd5a7a1cde251e54ccfdd5''"
    unfolding test_tx_hash_def k(1) rbind_simps that by simp
qed

section \<open>Block headers\<close>

definition header_77 :: "Hash256 \<Rightarrow> Hash256 \<Rightarrow> BlockHeader" where
  "header_77 prev root = \<lparr>bh_version = 12345, bh_prev_hash = prev, bh_merkle_root = root,
     bh_timestamp = 66, bh_bits = 4488, bh_nonce = 9999\<rparr>"

definition header_11 :: "Hash256 \<Rightarrow> Hash256 \<Rightarrow> BlockHeader" where
  "header_11 prev root = \<lparr>bh_version = 67890, bh_prev_hash = prev, bh_merkle_root = root,
     bh_timestamp = 77, bh_bits = 5599, bh_nonce = 1111\<rparr>"

definition test_block_header_write_read :: "(string \<Rightarrow> (string, bytes) res) \<Rightarrow> test" where
  "test_block_header_write_read dec =
     rbind (decoded dec ''7766009988776600998877660099887766009988776600998877660099887766'') (\<lambda>prev.
     rbind (decoded dec ''2211554433221155443322115544332211554433221155443322115544332211'') (\<lambda>root.
       write_read_test block_header_read block_header_write block_header_size (header_77 prev root)))"

text \<open>The header of block 125552.\<close>

definition block_125552 :: "Hash256 \<Rightarrow> Hash256 \<Rightarrow> BlockHeader" where
  "block_125552 prev root = \<lparr>bh_version = 0x00000001, bh_prev_hash = prev, bh_merkle_root = root,
     bh_timestamp = 0x4dd7f5c7, bh_bits = 0x1a44b9f2, bh_nonce = 0x9546a142\<rparr>"

definition test_block_header_hash ::
    "(bytes \<Rightarrow> bytes) \<Rightarrow> (string \<Rightarrow> (string, bytes) res) \<Rightarrow> (bytes \<Rightarrow> string) \<Rightarrow> test" where
  "test_block_header_hash sha256 dec enc =
     rbind (decoded dec ''00000000000008a3a41b85b8b29ad444def299fee21793cd8b9e567eab02cd81'') (\<lambda>prev.
     rbind (decoded dec ''2b12fcf1b09288fcaff797d71e950e71ae42b91e8bdb2304758dfcffc2b620e3'') (\<lambda>root.
       assert_that (hash_encode enc (block_header_hash sha256 (block_125552 prev root))
         = ''00000000000000001e8d6829a8a21adc5d38d0a473b144b6765798e61f98bd1d'')))"

definition empty_header :: BlockHeader where
  "empty_header = \<lparr>bh_version = 0, bh_prev_hash = Hash256 (replicate 32 0), bh_merkle_root = Hash256 (replicate 32 0),
     bh_timestamp = 0, bh_bits = 0, bh_nonce = 0\<rparr>"

definition test_block_header_validate ::
    "(bytes \<Rightarrow> bytes) \<Rightarrow> (string \<Rightarrow> (string, bytes) res) \<Rightarrow> test" where
  "test_block_header_validate sha256 dec =
     rbind (decoded dec ''00000000000008a3a41b85b8b29ad444def299fee21793cd8b9e567eab02cd81'') (\<lambda>prev.
     rbind (decoded dec ''2b12fcf1b09288fcaff797d71e950e71ae42b91e8bdb2304758dfcffc2b620e3'') (\<lambda>root.
       let headers = map (\<lambda>i. empty_header\<lparr>bh_timestamp := of_nat i * 10\<rparr>) [0..<11];
           valid = block_125552 prev root;
           late = map (\<lambda>h. h\<lparr>bh_timestamp := bh_timestamp valid + 1\<rparr>) headers;
           no_work = valid\<lparr>bh_nonce := 0\<rparr>
       in all_pass
         [assert_that (is_ok (validate valid (block_header_hash sha256 valid) headers)),
          assert_that (is_err (validate valid (block_header_hash sha256 valid) late)),
          assert_that (is_err (validate no_work (block_header_hash sha256 no_work) late))]))"

definition prev_hex :: string where
  "prev_hex = ''00000000000008a3a41b85b8b29ad444def299fee21793cd8b9e567eab02cd81''"

definition root_hex :: string where
  "root_hex = ''2b12fcf1b09288fcaff797d71e950e71ae42b91e8bdb2304758dfcffc2b620e3''"

definition block_125552_hash :: Hash256 where
  "block_125552_hash = hash_of_hex ''00000000000000001e8d6829a8a21adc5d38d0a473b144b6765798e61f98bd1d''"

text \<open>What the digest of the header of block 125552 is known to be.\<close>

definition hashes_block_125552 :: "(bytes \<Rightarrow> bytes) \<Rightarrow> bool" where
  "hashes_block_125552 sha256 \<longleftrightarrow>
     block_header_hash sha256 (block_125552 (hash_of_hex prev_hex) (hash_of_hex root_hex)) = block_125552_hash"

lemma sort_replicate: "sort (replicate n x) = replicate n x"
  by (simp add: sorted_sort_id)

lemma median_late: "length hs = 11 \<Longrightarrow> last_eleven_median (map (\<lambda>h. h\<lparr>bh_timestamp := t\<rparr>) hs) = t"
  by (simp add: last_eleven_median_def Let_def comp_def map_replicate_const sort_replicate)

lemma median_headers: "last_eleven_median (map (\<lambda>i. empty_header\<lparr>bh_timestamp := of_nat i * 10\<rparr>) [0..<11]) = 50"
proof -
  have "[0..<11] = [0, Suc 0, 2, 3, 4, 5, 6, 7, 8, 9, 10]" by (simp add: upt_rec)
  then show ?thesis by (simp add: last_eleven_median_def Let_def)
qed

lemma late_headers_rejected:
  assumes "length headers = 11" and "bh_timestamp h = 0x4dd7f5c7" and "t = 0x4dd7f5c8"
  shows "validate h hash (map (\<lambda>h. h\<lparr>bh_timestamp := t\<rparr>) headers)
     = Err (BadData (''Timestamp is too old: '' @ show_nat 1305998791))"
  using assms by (auto simp: validate_def median_late)

text \<open>
  The third assertion of the test of validation is meant for a header without proof of work,
  but it runs on the changed list of headers: whatever the hash, the error is that of
  the time, and the comparison with the target is not reached.
\<close>

lemma bad_pow_assertion_fails_on_time:
  assumes "length headers = 11"
  shows "validate ((block_125552 prev root)\<lparr>bh_nonce := 0\<rparr>) hash
      (map (\<lambda>h. h\<lparr>bh_timestamp := bh_timestamp (block_125552 prev root) + 1\<rparr>) headers)
     = Err (BadData (''Timestamp is too old: '' @ show_nat 1305998791))"
  using assms by (intro late_headers_rejected) (simp_all add: block_125552_def)

lemma block_header_tests_pass:
  assumes "documented_hex dec enc"
  shows "test_block_header_write_read dec = Ok ()"
    and "hashes_block_125552 sha256 \<Longrightarrow> test_block_header_hash sha256 dec enc = Ok ()"
    and "hashes_block_125552 sha256 \<Longrightarrow> test_block_header_validate sha256 dec = Ok ()"
proof -
  have "hex_hash ''7766009988776600998877660099887766009988776600998877660099887766''"
    "hex_hash ''2211554433221155443322115544332211554433221155443322115544332211''"
    "hex_hash ''00000000000008a3a41b85b8b29ad444def299fee21793cd8b9e567eab02cd81''"
    "hex_hash ''2b12fcf1b09288fcaff797d71e950e71ae42b91e8bdb2304758dfcffc2b620e3''"
    by (simp_all add: hex_hash_def hex_digit_simps)
  note h = this [THEN decoded_of_hex(1) [OF assms]] this [THEN decoded_of_hex(3) [OF assms]]
  show "test_block_header_write_read dec = Ok ()"
    unfolding test_block_header_write_read_def h rbind_simps
    by (rule block_header_codec.write_read_passes) (simp add: wf_block_header_def header_77_def h)
  let ?valid = "block_125552 (hash_of_hex prev_hex) (hash_of_hex root_hex)"
  have enc: "hash_encode enc block_125552_hash = ''00000000000000001e8d6829a8a21adc5d38d0a473b144b6765798e61f98bd1d''"
    unfolding documented_hexD(3) [OF assms]
    by (simp add: hash_encode_def block_125552_hash_def hash_of_hex_def hex_digit_simps hex_string_def hex_char_simps)
  show "test_block_header_hash sha256 dec enc = Ok ()" if "hashes_block_125552 sha256"
    unfolding test_block_header_hash_def h rbind_simps that [unfolded hashes_block_125552_def prev_hex_def root_hex_def] enc
    by simp
  have "le_val (hash_bytes block_125552_hash) \<le> 0x44b9f2 * 256 ^ 23" "wf_hash block_125552_hash"
    by (simp_all add: block_125552_hash_def hash_of_hex_def hex_digit_simps wf_hash_def)
  then have ok: "validate ?valid block_125552_hash (map (\<lambda>i. empty_header\<lparr>bh_timestamp := of_nat i * 10\<rparr>) [0..<11]) = Ok ()"
    unfolding validate_Ok_iff [OF \<open>wf_hash block_125552_hash\<close>] median_headers
    by (simp add: block_125552_def bits_exponent_def bits_mantissa_def)
  show "test_block_header_validate sha256 dec = Ok ()" if s: "hashes_block_125552 sha256"
    unfolding test_block_header_validate_def h rbind_simps Let_def all_pass_iff list.pred_inject simp_thms assert_that_simps
    unfolding prev_hex_def [symmetric] root_hex_def [symmetric] s [unfolded hashes_block_125552_def]
    by (intro conjI, simp add: ok)
      (subst late_headers_rejected, simp_all add: block_125552_def del: map_map)+
qed

section \<open>Lists of headers\<close>

definition test_headers_write_read :: "(string \<Rightarrow> (string, bytes) res) \<Rightarrow> test" where
  "test_headers_write_read dec =
     rbind (decoded dec ''7766009988776600998877660099887766009988776600998877660099887766'') (\<lambda>prev1.
     rbind (decoded dec ''2211554433221155443322115544332211554433221155443322115544332211'') (\<lambda>root1.
     rbind (decoded dec ''1122334455112233445511223344551122334455112233445511223344551122'') (\<lambda>prev2.
     rbind (decoded dec ''6677889900667788990066778899006677889900667788990066778899006677'') (\<lambda>root2.
       write_read_test headers_read headers_write headers_size
         \<lparr>headers_inner = [header_77 prev1 root1, header_11 prev2 root2]\<rparr>))))"

definition test_header_hash :: "(bytes \<Rightarrow> bytes) \<Rightarrow> (string \<Rightarrow> (string, bytes) res) \<Rightarrow> test" where
  "test_header_hash sha256 dec =
     rbind (decoded dec ''7766009988776600998877660099887766009988776600998877660099887766'') (\<lambda>prev1.
     rbind (decoded dec ''2211554433221155443322115544332211554433221155443322115544332211'') (\<lambda>root1.
     rbind (decoded dec ''6677889900667788990066778899006677889900667788990066778899006677'') (\<lambda>root2.
       let header1 = header_77 prev1 root1;
           header2 = header_11 (block_header_hash sha256 header1) root2
       in all_pass
         [assert_that (is_err (header_hash sha256 0 [])),
          rbind (unwrap (header_hash sha256 0 [header1])) (\<lambda>h. assert_that (h = block_header_hash sha256 header1)),
          assert_that (is_err (header_hash sha256 1 [header1])),
          rbind (unwrap (header_hash sha256 0 [header1, header2])) (\<lambda>h. assert_that (h = block_header_hash sha256 header1)),
          rbind (unwrap (header_hash sha256 1 [header1, header2])) (\<lambda>h. assert_that (h = block_header_hash sha256 header2)),
          assert_that (is_err (header_hash sha256 2 [header1, header2]))])))"

lemma headers_tests_pass:
  assumes "documented_hex dec enc"
  shows "test_headers_write_read dec = Ok ()" and "test_header_hash sha256 dec = Ok ()"
proof -
  have "hex_hash ''7766009988776600998877660099887766009988776600998877660099887766''"
    "hex_hash ''2211554433221155443322115544332211554433221155443322115544332211''"
    "hex_hash ''1122334455112233445511223344551122334455112233445511223344551122''"
    "hex_hash ''6677889900667788990066778899006677889900667788990066778899006677''"
    by (simp_all add: hex_hash_def hex_digit_simps)
  note h = this [THEN decoded_of_hex(1) [OF assms]] this [THEN decoded_of_hex(3) [OF assms]]
  show "test_headers_write_read dec = Ok ()"
    unfolding test_headers_write_read_def h rbind_simps
    by (rule headers_codec.write_read_passes)
      (simp add: wf_headers_def wf_block_header_def header_77_def header_11_def h fits_def)
  show "test_header_hash sha256 dec = Ok ()"
    unfolding test_header_hash_def h rbind_simps Let_def all_pass_iff list.pred_inject simp_thms
    by (intro conjI) (simp_all add: header_hash_def header_11_def)
qed

section \<open>Addresses\<close>

text \<open>\<^verbatim>\<open>hex::decode(..).unwrap()\<close> and then a reader on the bytes.\<close>

definition read_hex :: "(string \<Rightarrow> (string, bytes) res) \<Rightarrow> string \<Rightarrow> 'a reader \<Rightarrow> (unit, 'a) res" where
  "read_hex dec s rd = rbind (unwrap (dec s)) (\<lambda>b. unwrap (parse_all rd b))"

definition test_node_addr_read_bytes :: "(string \<Rightarrow> (string, bytes) res) \<Rightarrow> test" where
  "test_node_addr_read_bytes dec =
     rbind (read_hex dec ''250000000000000000000000000000000000ffff2d32bffbddd3'' node_addr_read) (\<lambda>a. all_pass
       [assert_that (na_services a = 37),
        assert_that (na_ip a = [0, 0, 0, 0, 0, 0, 0, 0, 0, 0, 255, 255, 45, 50, 191, 251]),
        assert_that (na_port a = 56787)])"

definition counting_addr :: NodeAddr where
  "counting_addr = \<lparr>na_services = 1, na_ip = [0, 1, 2, 3, 4, 5, 6, 7, 8, 9, 10, 11, 12, 13, 14, 15], na_port = 123\<rparr>"

definition test_node_addr_write_read :: test where
  "test_node_addr_write_read = write_read_test node_addr_read node_addr_write node_addr_size counting_addr"

definition test_node_addr_ex_write_read :: test where
  "test_node_addr_ex_write_read =
     write_read_test node_addr_ex_read node_addr_ex_write node_addr_ex_size
       \<lparr>nax_last_connected_time = 12345, nax_addr = counting_addr\<rparr>"

definition test_addr_read_bytes :: "(string \<Rightarrow> (string, bytes) res) \<Rightarrow> test" where
  "test_addr_read_bytes dec =
     rbind (read_hex dec ''013c93dd5a250000000000000000000000000000000000ffff43cdb3a1479d'' addr_read) (\<lambda>a.
     rbind (assert_that (length (addr_addrs a) = 1)) (\<lambda>_.
       let e = addr_addrs a ! 0 in all_pass
         [assert_that (nax_last_connected_time e = 1524470588),
          assert_that (na_services (nax_addr e) = 37),
          assert_that (na_ip (nax_addr e) = [0, 0, 0, 0, 0, 0, 0, 0, 0, 0, 255, 255, 67, 205, 179, 161]),
          assert_that (na_port (nax_addr e) = 18333)]))"

definition test_addr_write_read :: test where
  "test_addr_write_read =
     write_read_test addr_read addr_write addr_size
       \<lparr>addr_addrs =
         [\<lparr>nax_last_connected_time = 100, nax_addr = \<lparr>na_services = 900, na_ip = replicate 16 1, na_port = 2000\<rparr>\<rparr>,
          \<lparr>nax_last_connected_time = 200, nax_addr = \<lparr>na_services = 800, na_ip = replicate 16 2, na_port = 3000\<rparr>\<rparr>,
          \<lparr>nax_last_connected_time = 700, nax_addr = \<lparr>na_services = 900, na_ip = replicate 16 3, na_port = 4000\<rparr>\<rparr>]\<rparr>"

lemma read_hex_value:
  assumes "documented_hex dec enc" and "hex_value s = Some bs"
  shows "read_hex dec s rd = unwrap (parse_all rd bs)"
  using documented_hexD(1) [OF assms] by (simp add: read_hex_def)

lemmas read_eval = parse_all_def read_u64_def read_u32_def read_u16_def read_u16_be_def read_into_zeros_def read_exact_def
  pbind_apply pmap_apply be_val_def

lemma addr_tests_pass:
  assumes "documented_hex dec enc"
  shows "test_node_addr_read_bytes dec = Ok ()" and "test_node_addr_write_read = Ok ()"
    and "test_node_addr_ex_write_read = Ok ()" and "test_addr_read_bytes dec = Ok ()" and "test_addr_write_read = Ok ()"
proof -
  have "hex_value ''250000000000000000000000000000000000ffff2d32bffbddd3'' = Some [0x25, 0, 0, 0, 0, 0, 0, 0,
      0, 0, 0, 0, 0, 0, 0, 0, 0, 0, 0xff, 0xff, 0x2d, 0x32, 0xbf, 0xfb, 0xdd, 0xd3]"
    by (simp add: hex_digit_simps)
  note h1 = read_hex_value [OF assms this]
  show "test_node_addr_read_bytes dec = Ok ()"
    unfolding test_node_addr_read_bytes_def h1 by (simp add: node_addr_read_def read_eval)
  show "test_node_addr_write_read = Ok ()"
    unfolding test_node_addr_write_read_def
    by (rule node_addr_codec.write_read_passes) (simp add: wf_node_addr_def counting_addr_def)
  show "test_node_addr_ex_write_read = Ok ()"
    unfolding test_node_addr_ex_write_read_def
    by (rule node_addr_ex_codec.write_read_passes) (simp add: wf_node_addr_ex_def wf_node_addr_def counting_addr_def)
  have "hex_value ''013c93dd5a250000000000000000000000000000000000ffff43cdb3a1479d'' = Some [1, 0x3c, 0x93, 0xdd, 0x5a,
      0x25, 0, 0, 0, 0, 0, 0, 0, 0, 0, 0, 0, 0, 0, 0, 0, 0, 0, 0xff, 0xff, 0x43, 0xcd, 0xb3, 0xa1, 0x47, 0x9d]"
    by (simp add: hex_digit_simps)
  note h2 = read_hex_value [OF assms this]
  show "test_addr_read_bytes dec = Ok ()"
    unfolding test_addr_read_bytes_def h2
    by (simp add: addr_read_def var_int_read_def node_addr_ex_read_def node_addr_read_def MAX_ADDR_COUNT_def read_eval Let_def)
  show "test_addr_write_read = Ok ()"
    unfolding test_addr_write_read_def
    by (rule addr_codec.write_read_passes) (simp add: wf_addr_def wf_node_addr_ex_def wf_node_addr_def)
qed

section \<open>The handshake\<close>

text \<open>\<^verbatim>\<open>NodeAddr::default()\<close>: the unspecified address.\<close>

definition default_node_addr :: NodeAddr where
  "default_node_addr = \<lparr>na_services = 0, na_ip = replicate 16 0, na_port = 0\<rparr>"

definition dummy_version :: "u64 \<Rightarrow> Version" where
  "dummy_version ts = \<lparr>ver_version = MIN_SUPPORTED_PROTOCOL_VERSION, ver_services = 77, ver_timestamp = ts,
     ver_recv_addr = default_node_addr, ver_tx_addr = default_node_addr, ver_nonce = 99,
     ver_user_agent = str_bytes ''dummy'', ver_start_height = 22, ver_relay = True\<rparr>"

definition test_version_read_bytes :: "(string \<Rightarrow> (string, bytes) res) \<Rightarrow> test" where
  "test_version_read_bytes dec =
     rbind (read_hex dec (''7f1101002500000000000000f2d2d25a00000000000000000000000000000000000000000000ffff2d32bffbdd17''
         @ ''25000000000000000000000000000000000000000000000000008d501d3bb5369deb242f426974636f696e20414243''
         @ ''3a302e31362e30284542382e303b20626974636f7265292f6606080001'') version_read) (\<lambda>v. all_pass
       [assert_that (ver_version v = 70015), assert_that (ver_services v = 37),
        assert_that (ver_timestamp v = 1523766002), assert_that (na_services (ver_recv_addr v) = 0),
        assert_that (na_ip (ver_recv_addr v) = [0, 0, 0, 0, 0, 0, 0, 0, 0, 0, 255, 255, 45, 50, 191, 251]),
        assert_that (na_port (ver_recv_addr v) = 56599), assert_that (na_services (ver_tx_addr v) = 37),
        assert_that (na_ip (ver_tx_addr v) = [0, 0, 0, 0, 0, 0, 0, 0, 0, 0, 0, 0, 0, 0, 0, 0]), assert_that (na_port (ver_tx_addr v) = 0),
        assert_that (ver_nonce v = 16977786322265395341),
        assert_that (ver_user_agent v = str_bytes ''/Bitcoin ABC:0.16.0(EB8.0; bitcore)/''),
        assert_that (ver_start_height v = 525926), assert_that (ver_relay v)])"

definition test_version_write_read :: test where
  "test_version_write_read = write_read_test version_read version_write version_size (dummy_version 1234)"

text \<open>The clock is read once for the time stamp and once by each call of \<^verbatim>\<open>validate\<close>.\<close>

definition test_version_validate :: "u32 \<Rightarrow> u32 \<Rightarrow> u32 \<Rightarrow> u32 \<Rightarrow> test" where
  "test_version_validate t0 t1 t2 t3 =
     (let m = dummy_version (ucast t0) in all_pass
       [assert_that (is_ok (version_validate t1 m)),
        assert_that (is_err (version_validate t2 (m\<lparr>ver_version := 0\<rparr>))),
        assert_that (is_err (version_validate t3 (m\<lparr>ver_timestamp := 0\<rparr>)))])"

lemma version_read_bytes_passes:
  assumes "documented_hex dec enc"
  shows "test_version_read_bytes dec = Ok ()"
proof -
  have "hex_value (''7f1101002500000000000000f2d2d25a00000000000000000000000000000000000000000000ffff2d32bffbdd17''
         @ ''25000000000000000000000000000000000000000000000000008d501d3bb5369deb242f426974636f696e20414243''
         @ ''3a302e31362e30284542382e303b20626974636f7265292f6606080001'')
     = Some ([0x7f, 0x11, 1, 0, 0x25, 0, 0, 0, 0, 0, 0, 0, 0xf2, 0xd2, 0xd2, 0x5a, 0, 0, 0, 0,
         0, 0, 0, 0, 0, 0, 0, 0, 0, 0, 0, 0, 0, 0, 0, 0, 0, 0, 0xff, 0xff, 0x2d, 0x32, 0xbf, 0xfb, 0xdd, 0x17,
         0x25, 0, 0, 0, 0, 0, 0, 0, 0, 0, 0, 0, 0, 0, 0, 0, 0, 0, 0, 0, 0, 0, 0, 0, 0, 0,
         0x8d, 0x50, 0x1d, 0x3b, 0xb5, 0x36, 0x9d, 0xeb, 0x24]
       @ str_bytes ''/Bitcoin ABC:0.16.0(EB8.0; bitcore)/'' @ [0x66, 0x06, 0x08, 0x00, 0x01])"
    by (simp add: hex_digit_simps str_bytes_def)
  note h = read_hex_value [OF assms this]
  show ?thesis
    unfolding test_version_read_bytes_def h
    by (simp add: version_read_def node_addr_read_def read_utf8_def var_int_read_def str_bytes_def from_utf8_def
        as_usize_def utf8_valid.simps read_eval)
qed

lemma version_tests_pass:
  shows "test_version_write_read = Ok ()"
    and "\<bar>uint t0 - uint t1\<bar> \<le> 7200 \<Longrightarrow> 7200 < uint t3 \<Longrightarrow> test_version_validate t0 t1 t2 t3 = Ok ()"
proof -
  show "test_version_write_read = Ok ()"
    unfolding test_version_write_read_def
    by (rule version_codec.write_read_passes)
      (simp add: wf_version_def dummy_version_def default_node_addr_def wf_node_addr_def fits_def str_bytes_def utf8_valid.simps)
  assume close: "\<bar>uint t0 - uint t1\<bar> \<le> 7200" and late: "7200 < uint t3"
  have bound: "uint t0 < 2 ^ 32" using unsigned_less [of t0, where 'a = int] by simp
  have "uint (ucast t0 :: u64) = uint t0"
    using bound by (simp add: unsigned_ucast_eq take_bit_int_eq_self)
  moreover have "signed_take_bit 63 (uint t0) = uint t0"
    using bound by (intro signed_take_bit_int_eq_self order_trans [of "- (2 ^ 63)" 0 "uint t0"]) simp_all
  ultimately have time: "sint (ucast t0 :: u64) = uint t0" by (simp add: sint_uint)
  show "test_version_validate t0 t1 t2 t3 = Ok ()"
    using close late unsigned_less [of t3, where 'a = int]
    by (simp add: test_version_validate_def version_validate_def dummy_version_def MIN_SUPPORTED_PROTOCOL_VERSION_def
        time Let_def)
qed

section \<open>Keep-alive and inventories\<close>

definition test_ping_read_bytes :: "(string \<Rightarrow> (string, bytes) res) \<Rightarrow> test" where
  "test_ping_read_bytes dec =
     rbind (read_hex dec ''86b19332b96c657d'' ping_read) (\<lambda>f. assert_that (ping_nonce f = 9035747770062057862))"

definition test_ping_write_read :: test where
  "test_ping_write_read = write_read_test ping_read ping_write ping_size \<lparr>ping_nonce = 13579\<rparr>"

definition test_inv_vect_write_read :: test where
  "test_inv_vect_write_read =
     write_read_test inv_vect_read inv_vect_write inv_vect_size
       \<lparr>iv_obj_type = INV_VECT_TX, iv_hash = Hash256 (replicate 32 8)\<rparr>"

definition test_inv_write_read :: test where
  "test_inv_write_read =
     (let iv1 = \<lparr>iv_obj_type = INV_VECT_TX, iv_hash = Hash256 (replicate 32 8)\<rparr>;
          iv2 = \<lparr>iv_obj_type = INV_VECT_BLOCK, iv_hash = Hash256 (replicate 32 9)\<rparr>
      in write_read_test inv_read inv_write inv_size \<lparr>inv_objects = [] @ [iv1] @ [iv2]\<rparr>)"

definition test_inv_too_many_objects :: test where
  "test_inv_too_many_objects =
     (let inv_vect = \<lparr>iv_obj_type = INV_VECT_TX, iv_hash = Hash256 (replicate 32 8)\<rparr>;
          v = inv_write \<lparr>inv_objects = map (\<lambda>_. inv_vect) [0..<MAX_INV_ENTRIES + 1]\<rparr>
      in assert_that (is_err (parse_all inv_read v)))"

lemma ping_inv_tests_pass:
  assumes "documented_hex dec enc"
  shows "test_ping_read_bytes dec = Ok ()" and "test_ping_write_read = Ok ()" and "test_inv_vect_write_read = Ok ()"
    and "test_inv_write_read = Ok ()" and "test_inv_too_many_objects = Ok ()"
proof -
  have "hex_value ''86b19332b96c657d'' = Some [0x86, 0xb1, 0x93, 0x32, 0xb9, 0x6c, 0x65, 0x7d]"
    by (simp add: hex_digit_simps)
  note h = read_hex_value [OF assms this]
  show "test_ping_read_bytes dec = Ok ()"
    unfolding test_ping_read_bytes_def h by (simp add: ping_read_def read_eval)
  show "test_ping_write_read = Ok ()"
    unfolding test_ping_write_read_def by (rule ping_codec.write_read_passes) simp
  show "test_inv_vect_write_read = Ok ()"
    unfolding test_inv_vect_write_read_def by (rule inv_vect_codec.write_read_passes) (simp add: wf_inv_vect_def wf_hash_def)
  show "test_inv_write_read = Ok ()"
    unfolding test_inv_write_read_def Let_def
    by (rule inv_codec.write_read_passes) (simp add: wf_inv_def wf_inv_vect_def wf_hash_def)
  let ?objs = "map (\<lambda>_. \<lparr>iv_obj_type = INV_VECT_TX, iv_hash = Hash256 (replicate 32 8)\<rparr>) [0..<MAX_INV_ENTRIES + 1]"
  have len: "length ?objs = 50001" by (simp add: MAX_INV_ENTRIES_def)
  then have "as_usize (len_u64 ?objs) = 50001" by (subst as_usize_len_u64) (simp_all add: fits_def)
  then have "is_err (parse_all inv_read (inv_write \<lparr>inv_objects = ?objs\<rparr>))"
    by (simp only: inv_write_def inv_read_def Inv.select_convs parse_all_def pbind_apply var_int_read_write rbind_simps
        prod.case Let_def) (simp add: MAX_INV_ENTRIES_def)
  then show "test_inv_too_many_objects = Ok ()"
    unfolding test_inv_too_many_objects_def Let_def by (simp only: assert_that_simps)
qed

section \<open>Requests, rejections and compact blocks\<close>

text \<open>The tests of \<^verbatim>\<open>block_locator.rs\<close> and \<^verbatim>\<open>filter_locator.rs\<close> are the same code on the same value.\<close>

definition test_block_locator_write_read :: "(string \<Rightarrow> (string, bytes) res) \<Rightarrow> test" where
  "test_block_locator_write_read dec =
     rbind (decoded dec ''6677889900667788990066778899006677889900667788990066778899006677'') (\<lambda>h.
     rbind (decoded dec ''1122334455112233445511223344551122334455112233445511223344551122'') (\<lambda>stop.
       write_read_test block_locator_read block_locator_write block_locator_size
         \<lparr>bl_version = 12345, bl_block_locator_hashes = [NO_HASH_STOP, h], bl_hash_stop = stop\<rparr>))"

definition test_filter_locator_write_read :: "(string \<Rightarrow> (string, bytes) res) \<Rightarrow> test" where
  "test_filter_locator_write_read dec =
     rbind (decoded dec ''6677889900667788990066778899006677889900667788990066778899006677'') (\<lambda>h.
     rbind (decoded dec ''1122334455112233445511223344551122334455112233445511223344551122'') (\<lambda>stop.
       write_read_test block_locator_read block_locator_write block_locator_size
         \<lparr>bl_version = 12345, bl_block_locator_hashes = [NO_HASH_STOP, h], bl_hash_stop = stop\<rparr>))"

definition REJECT_INVALID :: u8 where
  "REJECT_INVALID = 0x10"

definition test_reject_txid :: test where
  "test_reject_txid =
     (let reject = \<lparr>rej_message = [], rej_code = 0, rej_reason = [], rej_data = replicate 32 5\<rparr> in
      rbind (assert_that (is_ok (reject_txid reject))) (\<lambda>_.
        assert_that (is_err (reject_txid (reject\<lparr>rej_data := replicate 33 3\<rparr>)))))"

definition reject_hex :: string where
  "reject_hex = ''027478104f6d616e6461746f72792d7363726970742d7665726966792d666c61672d6661696c6564202853637269707420''
     @ ''6661696c656420616e204f505f455155414c564552494659206f7065726174696f6e29''
     @ ''2f174bfe9e5b6e32ef2fabd164df5469f44977d93e0625238465ded771083993''"

definition test_reject_read_bytes :: "(string \<Rightarrow> (string, bytes) res) \<Rightarrow> test" where
  "test_reject_read_bytes dec =
     rbind (read_hex dec reject_hex reject_read) (\<lambda>m.
     rbind (unwrap (dec ''2f174bfe9e5b6e32ef2fabd164df5469f44977d93e0625238465ded771083993'')) (\<lambda>data. all_pass
       [assert_that (rej_message m = str_bytes ''tx''), assert_that (rej_code m = REJECT_INVALID),
        assert_that (rej_reason m =
          str_bytes ''mandatory-script-verify-flag-failed (Script failed an OP_EQUALVERIFY operation)''),
        assert_that (rej_data m = data)]))"

definition test_reject_write_read :: test where
  "test_reject_write_read =
     write_read_test reject_read reject_write reject_size
       \<lparr>rej_message = str_bytes ''block'', rej_code = REJECT_INVALID, rej_reason = str_bytes ''Block too small'',
        rej_data = replicate 32 5\<rparr>"

definition test_send_cmpct_read_bytes :: "(string \<Rightarrow> (string, bytes) res) \<Rightarrow> test" where
  "test_send_cmpct_read_bytes dec =
     rbind (read_hex dec ''000100000000000000'' send_cmpct_read) (\<lambda>f.
     rbind (assert_that (sc_enable f = 0)) (\<lambda>_. assert_that (sc_version f = 1)))"

definition test_send_cmpct_write_read :: test where
  "test_send_cmpct_write_read =
     write_read_test send_cmpct_read send_cmpct_write send_cmpct_size \<lparr>sc_enable = 1, sc_version = 1\<rparr>"

lemma locator_tests_pass:
  assumes "documented_hex dec enc"
  shows "test_block_locator_write_read dec = Ok ()" and "test_filter_locator_write_read dec = Ok ()"
proof -
  have "hex_hash ''6677889900667788990066778899006677889900667788990066778899006677''"
    "hex_hash ''1122334455112233445511223344551122334455112233445511223344551122''"
    by (simp_all add: hex_hash_def hex_digit_simps)
  note h = this [THEN decoded_of_hex(1) [OF assms]] this [THEN decoded_of_hex(3) [OF assms]]
  show "test_block_locator_write_read dec = Ok ()" "test_filter_locator_write_read dec = Ok ()"
    unfolding test_block_locator_write_read_def test_filter_locator_write_read_def h rbind_simps
    by (rule block_locator_codec.write_read_passes,
        simp add: wf_block_locator_def NO_HASH_STOP_def fits_def wf_hash_def [of "Hash256 (replicate 32 0)"] h)+
qed

lemma reject_tests_pass:
  assumes "documented_hex dec enc"
  shows "test_reject_txid = Ok ()" and "test_reject_read_bytes dec = Ok ()" and "test_reject_write_read = Ok ()"
    and "test_send_cmpct_read_bytes dec = Ok ()" and "test_send_cmpct_write_read = Ok ()"
proof -
  show "test_reject_txid = Ok ()" by (simp add: test_reject_txid_def reject_txid_def Let_def)
  let ?data = "[0x2f, 0x17, 0x4b, 0xfe, 0x9e, 0x5b, 0x6e, 0x32, 0xef, 0x2f, 0xab, 0xd1, 0x64, 0xdf, 0x54, 0x69,
    0xf4, 0x49, 0x77, 0xd9, 0x3e, 0x06, 0x25, 0x23, 0x84, 0x65, 0xde, 0xd7, 0x71, 0x08, 0x39, 0x93] :: bytes"
  let ?reason = "str_bytes ''mandatory-script-verify-flag-failed (Script failed an OP_EQUALVERIFY operation)''"
  have data: "hex_value ''2f174bfe9e5b6e32ef2fabd164df5469f44977d93e0625238465ded771083993'' = Some ?data"
    by (simp add: hex_digit_simps)
  have all: "hex_value reject_hex = Some (reject_write
      \<lparr>rej_message = str_bytes ''tx'', rej_code = REJECT_INVALID, rej_reason = ?reason, rej_data = ?data\<rparr>)"
    by (simp add: reject_hex_def hex_digit_simps reject_write_def write_var_bytes_def var_int_write_def len_u64_def
        str_bytes_def REJECT_INVALID_def)
  have "parse_all reject_read (reject_write
      \<lparr>rej_message = str_bytes ''tx'', rej_code = REJECT_INVALID, rej_reason = ?reason, rej_data = ?data\<rparr>)
     = Ok \<lparr>rej_message = str_bytes ''tx'', rej_code = REJECT_INVALID, rej_reason = ?reason, rej_data = ?data\<rparr>"
    unfolding parse_all_def
    by (subst reject_codec.rd_wr_whole) (simp_all add: wf_reject_def carries_hash_def fits_def str_bytes_def utf8_valid.simps)
  then show "test_reject_read_bytes dec = Ok ()"
    unfolding test_reject_read_bytes_def read_hex_value [OF assms all] documented_hexD(1) [OF assms data] by simp
  show "test_reject_write_read = Ok ()"
    unfolding test_reject_write_read_def
    by (rule reject_codec.write_read_passes)
      (simp add: wf_reject_def carries_hash_def fits_def str_bytes_def utf8_valid.simps)
  have "hex_value ''000100000000000000'' = Some [0, 1, 0, 0, 0, 0, 0, 0, 0]" by (simp add: hex_digit_simps)
  note h = read_hex_value [OF assms this]
  show "test_send_cmpct_read_bytes dec = Ok ()"
    unfolding test_send_cmpct_read_bytes_def h by (simp add: send_cmpct_read_def read_eval)
  show "test_send_cmpct_write_read = Ok ()"
    unfolding test_send_cmpct_write_read_def by (rule send_cmpct_codec.write_read_passes) simp
qed

section \<open>Message headers\<close>

definition test_message_header_read_bytes :: "(string \<Rightarrow> (string, bytes) res) \<Rightarrow> test" where
  "test_message_header_read_bytes dec =
     rbind (unwrap (dec ''f9beb4d976657273696f6e00000000007a0000002a1957bb'')) (\<lambda>b.
     rbind (unwrap (fst (message_header_read UnexpectedEof b))) (\<lambda>h. all_pass
       [assert_that (mh_magic h = [0xf9, 0xbe, 0xb4, 0xd9]),
        assert_that (mh_command h = str_bytes ''version'' @ [0, 0, 0, 0, 0]),
        assert_that (mh_payload_size h = 122),
        assert_that (mh_checksum h = [0x2a, 0x19, 0x57, 0xbb])]))"

text \<open>\<^verbatim>\<open>MessageHeader::size\<close> is the constant 24.\<close>

definition test_message_header_write_read :: test where
  "test_message_header_write_read =
     (let h = \<lparr>mh_magic = [0x00, 0x01, 0x02, 0x03], mh_command = str_bytes ''command'' @ [0, 0, 0, 0, 0],
               mh_payload_size = 42, mh_checksum = [0xa0, 0xa1, 0xa2, 0xa3]\<rparr>;
          v = message_header_write h
      in rbind (assert_that (length v = 24)) (\<lambda>_.
         rbind (unwrap (fst (message_header_read UnexpectedEof v))) (\<lambda>h'. assert_that (h' = h))))"

definition test_message_header_validate :: test where
  "test_message_header_validate =
     (let magic = [0xa0, 0xa1, 0xa2, 0xa3];
          h = \<lparr>mh_magic = magic, mh_command = str_bytes ''verack'' @ [0, 0, 0, 0, 0, 0],
               mh_payload_size = 88, mh_checksum = [0x12, 0x34, 0x56, 0x78]\<rparr>
      in all_pass
        [assert_that (is_ok (header_validate h magic 100)),
         assert_that (is_err (header_validate h [0xb0, 0xb1, 0xb2, 0xb3] 100)),
         assert_that (is_err (header_validate h magic 50))])"

definition test_message_header_payload :: "(bytes \<Rightarrow> bytes) \<Rightarrow> test" where
  "test_message_header_payload sha256 =
     (let p = [0x22, 0x33, 0x44, 0x00, 0x11, 0x22, 0x45, 0x67, 0x89];
          hash = sha256 (sha256 p);
          header = \<lparr>mh_magic = [0, 0, 0, 0], mh_command = str_bytes ''version'' @ [0, 0, 0, 0, 0],
                    mh_payload_size = of_nat (length p), mh_checksum = [hash ! 0, hash ! 1, hash ! 2, hash ! 3]\<rparr>;
          p2 = [0xf2, 0xf3, 0xf4, 0xf0, 0xf1, 0xf2, 0xf5, 0xf7, 0xf9]
      in rbind (unwrap (fst (header_payload sha256 UnexpectedEof header p))) (\<lambda>v.
         rbind (assert_that (v = p)) (\<lambda>_.
           assert_that (is_err (fst (header_payload sha256 UnexpectedEof header p2))))))"

lemmas header_eval = message_header_read_def stream_read_exact_def sbind_def header_fields_read_def read_eval

lemma message_header_tests_pass:
  assumes "documented_hex dec enc"
  shows "test_message_header_read_bytes dec = Ok ()" and "test_message_header_write_read = Ok ()"
    and "test_message_header_validate = Ok ()"
proof -
  have "hex_value ''f9beb4d976657273696f6e00000000007a0000002a1957bb''
      = Some [0xf9, 0xbe, 0xb4, 0xd9, 0x76, 0x65, 0x72, 0x73, 0x69, 0x6f, 0x6e, 0, 0, 0, 0, 0, 0x7a, 0, 0, 0, 0x2a, 0x19, 0x57, 0xbb]"
    by (simp add: hex_digit_simps)
  note h = documented_hexD(1) [OF assms this]
  show "test_message_header_read_bytes dec = Ok ()"
    unfolding test_message_header_read_bytes_def h by (simp add: header_eval str_bytes_def)
  show "test_message_header_write_read = Ok ()"
    by (simp add: test_message_header_write_read_def message_header_write_def header_eval str_bytes_def write_u32_def Let_def)
  show "test_message_header_validate = Ok ()"
    by (simp add: test_message_header_validate_def header_validate_def Let_def)
qed

lemma message_header_payload_passes:
  assumes "take 4 (sha256 (sha256 [0xf2, 0xf3, 0xf4, 0xf0, 0xf1, 0xf2, 0xf5, 0xf7, 0xf9]))
         \<noteq> take 4 (sha256 (sha256 [0x22, 0x33, 0x44, 0x00, 0x11, 0x22, 0x45, 0x67, 0x89]))"
    and "digest32 sha256"
  shows "test_message_header_payload sha256 = Ok ()"
proof -
  let ?h = "sha256 (sha256 [0x22, 0x33, 0x44, 0x00, 0x11, 0x22, 0x45, 0x67, 0x89])"
  let ?k = "sha256 (sha256 [0xf2, 0xf3, 0xf4, 0xf0, 0xf1, 0xf2, 0xf5, 0xf7, 0xf9])"
  have four: "take 4 xs = [xs ! 0, xs ! 1, xs ! 2, xs ! 3]" if "length xs = 32" for xs :: bytes
    using that by (auto simp: numeral_eq_Suc take_Suc_conv_app_nth)
  have "length ?h = 32" "length ?k = 32" using assms(2) by (simp_all add: digest32_def)
  then have "?k ! 0 \<noteq> ?h ! 0 \<or> ?k ! 1 \<noteq> ?h ! 1 \<or> ?k ! 2 \<noteq> ?h ! 2 \<or> ?k ! 3 \<noteq> ?h ! 3"
    using assms(1) four by auto
  then show ?thesis
    by (simp add: test_message_header_payload_def header_payload_def stream_read_exact_def sbind_def Let_def)
qed

end
