(* ===== verification/Util_Tests.thy ===== *)
theory Util_Tests
  imports Bits Latch Unit_Test
begin

text \<open>
  The unit tests of \<^verbatim>\<open>bits.rs\<close> and \<^verbatim>\<open>latch.rs\<close> of \<^verbatim>\<open>node/src/util\<close>. A test with one thread is
  the sequence of its calls; the test with two threads is run under each order of the
  opening and the waiting.
\<close>

section \<open>Bit arrays\<close>

definition test_bits_append :: test where
  "test_bits_append =
     rbind (unwrap (from_slice [255] 8)) (\<lambda>b.
     rbind (unwrap (from_slice [0] 4)) (\<lambda>x. rbind (unwrap (bits_append x b)) (\<lambda>b.
     rbind (unwrap (from_slice [255] 2)) (\<lambda>x. rbind (unwrap (bits_append x b)) (\<lambda>b.
     rbind (unwrap (from_slice [63] 4)) (\<lambda>x. rbind (unwrap (bits_append x b)) (\<lambda>b.
       all_pass
         [assert_that (bi_len b = 18),
          rbind (byte_at (bi_data b) 0) (\<lambda>d. assert_that (d = 255)),
          rbind (byte_at (bi_data b) 1) (\<lambda>d. assert_that (d = 12)),
          rbind (byte_at (bi_data b) 2) (\<lambda>d. assert_that (d = 192))])))))))"

definition test_bits_extract :: test where
  "test_bits_extract =
     rbind (unwrap (from_slice [15, 23, 192] 24)) (\<lambda>b.
     rbind (unwrap (bits_extract 4 13 b)) (\<lambda>e. assert_that (e = 7727)))"

definition shifts_to :: "(Error, bytes) res \<Rightarrow> bytes \<Rightarrow> test" where
  "shifts_to r expected = rbind (unwrap r) (\<lambda>v. assert_that (v = expected))"

definition test_lshift :: test where
  "test_lshift = all_pass
     [shifts_to (lshift [] 0) [], shifts_to (lshift [] 1) [], shifts_to (lshift [] 999999) [],
      shifts_to (lshift [0x80, 0x10, 0x30, 0x55] 0) [0x80, 0x10, 0x30, 0x55], shifts_to (lshift [0xff] 0) [0xff],
      shifts_to (lshift [0x80, 0x00, 0x00, 0x01] 1) [0x00, 0x00, 0x00, 0x02],
      shifts_to (lshift [0x80, 0x00, 0x00, 0x00] 999999) [0x00, 0x00, 0x00, 0x00],
      shifts_to (lshift [0x01, 0x23, 0x45, 0x67] 4) [0x12, 0x34, 0x56, 0x70],
      shifts_to (lshift [0x01, 0x23, 0x45, 0x67] 8) [0x23, 0x45, 0x67, 0x00]]"

definition test_rshift :: test where
  "test_rshift = all_pass
     [shifts_to (rshift [] 0) [], shifts_to (rshift [] 1) [], shifts_to (rshift [] 999999) [],
      shifts_to (rshift [0x80, 0x10, 0x30, 0x55] 0) [0x80, 0x10, 0x30, 0x55], shifts_to (rshift [0xff] 0) [0xff],
      shifts_to (rshift [0x80, 0x00, 0x00, 0x02] 1) [0x40, 0x00, 0x00, 0x01],
      shifts_to (rshift [0x00, 0x00, 0x00, 0x01] 999999) [0x00, 0x00, 0x00, 0x00],
      shifts_to (rshift [0x01, 0x23, 0x45, 0x67] 4) [0x00, 0x12, 0x34, 0x56],
      shifts_to (rshift [0x01, 0x23, 0x45, 0x67] 8) [0x00, 0x01, 0x23, 0x45]]"

lemma bits_append_passes: "test_bits_append = Ok ()"
  by (simp add: test_bits_append_def from_slice_def bits_append_def append_loop.simps append_byte_def
      usize_ok_def sub_usize_def byte_at_def or_at_def and_at_def Let_def)

lemma bits_extract_passes: "test_bits_extract = Ok ()"
  by (simp add: test_bits_extract_def from_slice_def bits_extract_def extract_byte_def upt_rec
      usize_ok_def sub_usize_def byte_at_def Let_def)

lemma lshift_passes: "test_lshift = Ok ()"
  unfolding test_lshift_def all_pass_iff list.pred_inject simp_thms
  by (intro conjI) (simp_all add: shifts_to_def lshift_def LSHIFT_MASK_def upt_rec byte_at_def or_at_def Let_def)

lemma rshift_passes: "test_rshift = Ok ()"
  unfolding test_rshift_def all_pass_iff list.pred_inject simp_thms
  by (intro conjI) (simp_all add: shifts_to_def rshift_def RSHIFT_MASK_def upt_rec byte_at_def or_at_def usize_ok_def Let_def)

section \<open>The latch\<close>

text \<open>Calls that return at once: the thread is back outside, or sleeps, which no single-threaded test can survive.\<close>

definition call_open :: "Latch \<Rightarrow> Latch" where
  "call_open s = set_thread 0 Outside (latch_open 0 None s)"

definition call_wait :: "Latch \<Rightarrow> (unit, Latch) res" where
  "call_wait s =
     (let s' = latch_wait 0 False s in
      case la_threads s' 0 of Finished (Ok _) \<Rightarrow> Ok (set_thread 0 Outside s') | _ \<Rightarrow> Panic)"

text \<open>A timed wait alone: it finds the latch open, or sleeps until its time is over.\<close>

definition call_wait_timeout :: "Latch \<Rightarrow> (Error, unit) res \<times> Latch" where
  "call_wait_timeout s =
     (let s' = latch_wait 0 True s;
          s'' = (case la_threads s' 0 of Asleep True \<Rightarrow> latch_resume 0 True True (set_thread 0 (Awake True True) s') | _ \<Rightarrow> s')
      in case la_threads s'' 0 of Finished r \<Rightarrow> (r, set_thread 0 Outside s'') | _ \<Rightarrow> (Panic, s''))"

definition test_latch_one_thread :: test where
  "test_latch_one_thread =
     rbind (assert_that (\<not> latch_opened latch_new)) (\<lambda>_.
       let s = call_open latch_new in
       rbind (assert_that (latch_opened s)) (\<lambda>_.
       rbind (call_wait s) (\<lambda>_. Ok ())))"

definition test_latch_opens_and_waits :: test where
  "test_latch_opens_and_waits =
     rbind (call_wait (call_open latch_new)) (\<lambda>s.
     rbind (call_wait s) (\<lambda>s.
     rbind (call_wait (call_open s)) (\<lambda>s.
       assert_that (latch_opened s))))"

definition test_latch_timeout :: test where
  "test_latch_timeout =
     (case call_wait_timeout latch_new of (r1, s1) \<Rightarrow>
      rbind (assert_that (is_err r1)) (\<lambda>_.
        case call_wait_timeout (call_open s1) of (r2, _) \<Rightarrow> assert_that (is_ok r2)))"

text \<open>
  Two threads, by the order in which the spawned thread opens and the main thread starts to
  wait: the main thread finds the latch open, or sleeps and is the one that is picked.
\<close>

definition test_latch_two_threads :: "bool \<Rightarrow> test" where
  "test_latch_two_threads opens_first =
     (let s = (if opens_first then latch_wait 0 False (latch_open 1 None latch_new)
               else latch_resume 0 False False (latch_open 1 (Some 0) (latch_wait 0 False latch_new)))
      in rbind (assert_that (\<not> latch_opened latch_new)) (\<lambda>_.
         case la_threads s 0 of Finished (Ok _) \<Rightarrow> assert_that (latch_opened s) | _ \<Rightarrow> Panic))"

lemmas latch_eval = latch_opened_def latch_new_def latch_defs Let_def

lemma latch_tests_pass:
  "test_latch_one_thread = Ok ()" "test_latch_opens_and_waits = Ok ()" "test_latch_timeout = Ok ()"
  "test_latch_two_threads opens_first = Ok ()"
  by (simp_all add: test_latch_one_thread_def test_latch_opens_and_waits_def test_latch_timeout_def
      test_latch_two_threads_def call_open_def call_wait_def call_wait_timeout_def latch_eval)

text \<open>Both orders are runs of the transition system.\<close>

lemma two_threads_are_runs:
  "\<exists>s. latch_run [Opens 1 None, Waits 0] latch_new s \<and> la_threads s 0 = Finished (Ok ())"
  "\<exists>s. latch_run [Waits 0, Opens 1 (Some 0), Resumes 0] latch_new s \<and> la_threads s 0 = Finished (Ok ())"
proof -
  have "latch_step (Opens 1 None) latch_new (latch_open 1 None latch_new)"
    by (rule Open) (simp_all add: latch_new_def picks_def asleep_def)
  moreover have "latch_step (Waits 0) (latch_open 1 None latch_new) (latch_wait 0 False (latch_open 1 None latch_new))"
    by (rule Wait) (simp add: latch_eval)
  moreover have "la_threads (latch_wait 0 False (latch_open 1 None latch_new)) 0 = Finished (Ok ())"
    by (simp add: latch_eval)
  ultimately show "\<exists>s. latch_run [Opens 1 None, Waits 0] latch_new s \<and> la_threads s 0 = Finished (Ok ())" by auto
  show "\<exists>s. latch_run [Waits 0, Opens 1 (Some 0), Resumes 0] latch_new s \<and> la_threads s 0 = Finished (Ok ())"
    using single_waiter_released_witness by (fastforce intro: Run_Cons Run_Nil)
qed

end
