(* ===== verification/F64.thy ===== *)
theory F64
  imports Prelude Complex_Main
begin

text \<open>
  The type \<^verbatim>\<open>f64\<close> of Rust, as far as the mobile money example uses it: IEEE-754 binary64 numbers
  with one not-a-number, rounding to the nearest number with ties to even, addition, subtraction,
  multiplication, comparison, \<^verbatim>\<open>str::parse\<close> and \<^verbatim>\<open>Display\<close>. A finite number is its sign, an integer
  below \<open>2 ^ 53\<close> and an exponent of two; everything is computed with integers. Shown: results are
  canonical, rounding is exact on numbers that can be represented, integers up to \<open>2 ^ 53\<close> are
  added exactly, a difference of ordered numbers is not negative, and the printed form of a number
  is read back as that number.
\<close>

section \<open>Numbers\<close>

datatype f64 = NaN | Infinite bool | Finite bool nat int

definition EXP_MIN :: int where "EXP_MIN = -1074"
definition EXP_MAX :: int where "EXP_MAX = 971"

lemmas exp_bounds = EXP_MIN_def EXP_MAX_def

fun canonical :: "f64 \<Rightarrow> bool" where
  "canonical (Finite s m e) =
     (m < 2 ^ 53 \<and> EXP_MIN \<le> e \<and> e \<le> EXP_MAX \<and> (2 ^ 52 \<le> m \<or> e = EXP_MIN))"
| "canonical _ = True"

definition f64_zero :: "bool \<Rightarrow> f64" where
  "f64_zero s = Finite s 0 EXP_MIN"

section \<open>Rounding\<close>

text \<open>The number of binary digits, the quotient rounded to an integer with ties to even.\<close>

fun bit_length :: "nat \<Rightarrow> nat" where
  "bit_length n = (if n = 0 then 0 else Suc (bit_length (n div 2)))"

declare bit_length.simps [simp del]

definition round_even :: "nat \<Rightarrow> nat \<Rightarrow> nat" where
  "round_even p q = (let d = p div q; r = p mod q
     in if 2 * r < q \<or> 2 * r = q \<and> even d then d else d + 1)"

text \<open>
  The fraction \<open>p / q\<close> in units of \<open>2 ^ e\<close>, whether it is below \<open>2 ^ 53\<close> of them, and the least
  exponent for which it is.
\<close>

definition units :: "nat \<Rightarrow> nat \<Rightarrow> int \<Rightarrow> nat \<times> nat" where
  "units p q e = (p * 2 ^ nat (- e), q * 2 ^ nat e)"

definition fits_units :: "nat \<Rightarrow> nat \<Rightarrow> int \<Rightarrow> bool" where
  "fits_units p q e = (case units p q e of (a, b) \<Rightarrow> a < 2 ^ 53 * b)"

definition exponent :: "nat \<Rightarrow> nat \<Rightarrow> int" where
  "exponent p q = (let e = int (bit_length p) - int (bit_length q) - 53
     in max EXP_MIN (if fits_units p q e then e else e + 1))"

definition round_f64 :: "bool \<Rightarrow> nat \<Rightarrow> nat \<Rightarrow> f64" where
  "round_f64 s p q =
     (if p = 0 then f64_zero s
      else let e = exponent p q; m = (case units p q e of (a, b) \<Rightarrow> round_even a b);
               (m, e) = (if m = 2 ^ 53 then (2 ^ 52, e + 1) else (m, e))
           in if EXP_MAX < e then Infinite s else Finite s m e)"

section \<open>Arithmetic\<close>

definition signed_nat :: "bool \<Rightarrow> nat \<Rightarrow> int" where
  "signed_nat s m = (if s then - int m else int m)"

text \<open>The integer \<open>z\<close> times \<open>2 ^ k\<close>, rounded.\<close>

definition dyadic :: "int \<Rightarrow> int \<Rightarrow> f64" where
  "dyadic z k = round_f64 (z < 0) (nat \<bar>z\<bar> * 2 ^ nat k) (2 ^ nat (- k))"

fun f64_neg :: "f64 \<Rightarrow> f64" where
  "f64_neg NaN = NaN"
| "f64_neg (Infinite s) = Infinite (\<not> s)"
| "f64_neg (Finite s m e) = Finite (\<not> s) m e"

fun f64_add :: "f64 \<Rightarrow> f64 \<Rightarrow> f64" where
  "f64_add NaN _ = NaN"
| "f64_add _ NaN = NaN"
| "f64_add (Infinite s) (Infinite s') = (if s = s' then Infinite s else NaN)"
| "f64_add (Infinite s) _ = Infinite s"
| "f64_add _ (Infinite s) = Infinite s"
| "f64_add (Finite s m e) (Finite s' m' e') =
     (let k = min e e';
          z = signed_nat s m * 2 ^ nat (e - k) + signed_nat s' m' * 2 ^ nat (e' - k)
      in if z = 0 then f64_zero (s \<and> s') else dyadic z k)"

definition f64_sub :: "f64 \<Rightarrow> f64 \<Rightarrow> f64" where
  "f64_sub x y = f64_add x (f64_neg y)"

fun f64_mul :: "f64 \<Rightarrow> f64 \<Rightarrow> f64" where
  "f64_mul NaN _ = NaN"
| "f64_mul _ NaN = NaN"
| "f64_mul (Infinite s) (Infinite s') = Infinite (s \<noteq> s')"
| "f64_mul (Infinite s) (Finite s' m _) = (if m = 0 then NaN else Infinite (s \<noteq> s'))"
| "f64_mul (Finite s m _) (Infinite s') = (if m = 0 then NaN else Infinite (s \<noteq> s'))"
| "f64_mul (Finite s m e) (Finite s' m' e') =
     round_f64 (s \<noteq> s') (m * m' * 2 ^ nat (e + e')) (2 ^ nat (- (e + e')))"

fun f64_ge :: "f64 \<Rightarrow> f64 \<Rightarrow> bool" where
  "f64_ge NaN _ = False"
| "f64_ge _ NaN = False"
| "f64_ge (Infinite s) (Infinite s') = (\<not> s \<or> s')"
| "f64_ge (Infinite s) (Finite _ _ _) = (\<not> s)"
| "f64_ge (Finite _ _ _) (Infinite s') = s'"
| "f64_ge (Finite s m e) (Finite s' m' e') =
     (let k = min e e'
      in signed_nat s' m' * 2 ^ nat (e' - k) \<le> signed_nat s m * 2 ^ nat (e - k))"

definition f64_of_int :: "int \<Rightarrow> f64" where
  "f64_of_int z = dyadic z 0"

section \<open>Rounding: proofs\<close>

lemma bit_length_upper: "n < 2 ^ bit_length n"
proof (induction n rule: bit_length.induct)
  case (1 n)
  then show ?case
    by (cases "n = 0") (simp, subst bit_length.simps, simp)
qed

lemma bit_length_lower: "0 < n \<Longrightarrow> 2 ^ bit_length n \<le> 2 * n"
proof (induction n rule: bit_length.induct)
  case (1 n)
  show ?case
  proof (cases "n div 2 = 0")
    case True
    then have "n = 1" using "1.prems" by linarith
    then show ?thesis by (simp add: bit_length.simps)
  next
    case False
    then have "2 ^ bit_length (n div 2) \<le> 2 * (n div 2)" using "1.IH" "1.prems" by simp
    then show ?thesis using "1.prems" by (subst bit_length.simps) simp
  qed
qed

lemma units_quotient: "0 < q \<Longrightarrow> real (fst (units p q e)) / real (snd (units p q e)) = real p / real q / 2 powi e"
  by (cases "0 \<le> e") (simp_all add: units_def power_int_def field_simps)

lemma units_pos [simp]: "0 < q \<Longrightarrow> 0 < snd (units p q e)"
  by (simp add: units_def)

lemma fits_iff:
  assumes "0 < q"
  shows "fits_units p q e \<longleftrightarrow> real p / real q < 2 powi (e + 53)"
proof -
  obtain a b where ab: "units p q e = (a, b)" by force
  have b: "0 < b" using units_pos [OF assms, of p e] ab by simp
  have "fits_units p q e \<longleftrightarrow> real a < real (2 ^ 53 * b)"
    unfolding fits_units_def ab prod.case of_nat_less_iff ..
  also have "\<dots> \<longleftrightarrow> real a / real b < 2 powi 53"
    using b by (simp add: pos_divide_less_eq)
  also have "real a / real b = real p / real q / 2 powi e"
    using units_quotient [OF assms, of p e] ab by simp
  also have "\<dots> < 2 powi 53 \<longleftrightarrow> real p / real q < 2 powi 53 * 2 powi e"
    by (rule pos_divide_less_eq) simp
  also have "2 powi 53 * 2 powi e = (2 :: real) powi (e + 53)"
    by (simp add: power_int_add)
  finally show ?thesis .
qed

lemma fits_mono: "0 < q \<Longrightarrow> fits_units p q e \<Longrightarrow> e \<le> e' \<Longrightarrow> fits_units p q e'"
  using power_int_increasing [of "e + 53" "e' + 53" "2 :: real"] by (simp add: fits_iff)

lemma power_int_le_real: "(2 :: real) powi a \<le> 2 powi b" if "a \<le> b"
  using that by (simp add: power_int_increasing)

lemma power_int_quotient: "(2 :: real) powi a / 2 powi b = 2 powi (a - b)"
  by (simp add: power_int_diff)

lemma bit_length_bounds:
  assumes "0 < n"
  shows "real n < 2 powi int (bit_length n)" and "2 powi (int (bit_length n) - 1) \<le> real n"
proof -
  show "real n < 2 powi int (bit_length n)"
    using bit_length_upper [of n] by (metis numeral_power_eq_of_nat_cancel_iff of_nat_less_iff power_int_of_nat of_nat_numeral of_nat_power)
  have "(2 :: real) ^ bit_length n \<le> 2 * real n"
    using bit_length_lower [OF assms] by (metis of_nat_le_iff of_nat_mult of_nat_numeral of_nat_power)
  then show "2 powi (int (bit_length n) - 1) \<le> real n"
    by (simp add: power_int_diff)
qed

text \<open>The exponent is the least one, from the smallest on, for which the fraction fits_units.\<close>

lemma exponent_least:
  assumes "0 < p" and "0 < q"
  shows "EXP_MIN \<le> exponent p q" and "fits_units p q (exponent p q)"
    and "EXP_MIN < exponent p q \<Longrightarrow> \<not> fits_units p q (exponent p q - 1)"
proof -
  define e where "e = int (bit_length p) - int (bit_length q) - 53"
  have x: "exponent p q = max EXP_MIN (if fits_units p q e then e else e + 1)"
    by (simp add: exponent_def e_def Let_def)
  have "real p / real q < 2 powi int (bit_length p) / 2 powi (int (bit_length q) - 1)"
    using bit_length_bounds [OF assms(1)] bit_length_bounds [OF assms(2)] assms
    by (intro frac_less) auto
  also have "\<dots> = 2 powi ((e + 1) + 53)"
    unfolding power_int_quotient e_def by (rule arg_cong) simp
  finally have up: "fits_units p q (e + 1)" using assms(2) by (simp add: fits_iff)
  have "2 powi ((e - 1) + 53) = (2 :: real) powi (int (bit_length p) - 1) / 2 powi int (bit_length q)"
    unfolding power_int_quotient e_def by (rule arg_cong) simp
  also have "\<dots> \<le> real p / real q"
    using bit_length_bounds [OF assms(1)] bit_length_bounds [OF assms(2)] assms
    by (intro frac_le) auto
  finally have low: "\<not> fits_units p q (e - 1)" using assms(2) by (simp add: fits_iff)
  show "EXP_MIN \<le> exponent p q" by (simp add: x)
  show "fits_units p q (exponent p q)"
    using up fits_mono [OF assms(2)] by (auto simp: x intro: fits_mono [OF assms(2)])
  show "\<not> fits_units p q (exponent p q - 1)" if "EXP_MIN < exponent p q"
    using low that by (auto simp: x max_def split: if_splits)
qed

lemma exponent_unique:
  assumes "0 < p" "0 < q" "EXP_MIN \<le> e" "fits_units p q e" "e = EXP_MIN \<or> \<not> fits_units p q (e - 1)"
  shows "exponent p q = e"
proof (rule antisym)
  note least = exponent_least [OF assms(1,2)]
  show "exponent p q \<le> e"
    using assms(3,4) least(3) fits_mono [OF assms(2,4), of "exponent p q - 1"] by linarith
  show "e \<le> exponent p q"
    using assms(5) least(1,2) fits_mono [OF assms(2) least(2), of "e - 1"] by linarith
qed

lemma units_bounds:
  assumes "0 < q" and "units p q e = (a, b)"
  shows "fits_units p q e \<longleftrightarrow> a < 2 ^ 53 * b" and "fits_units p q (e - 1) \<longleftrightarrow> a < 2 ^ 52 * b" and "0 < b"
proof -
  show b: "0 < b" using units_pos [OF assms(1), of p e] assms(2) by simp
  show "fits_units p q e \<longleftrightarrow> a < 2 ^ 53 * b" by (simp add: fits_units_def assms(2))
  have "fits_units p q (e - 1) \<longleftrightarrow> real p / real q < 2 powi (52 + e)"
    by (simp add: fits_iff assms(1) add.commute)
  also have "\<dots> \<longleftrightarrow> real p / real q / 2 powi e < 2 powi 52"
    unfolding pos_divide_less_eq [OF zero_less_power_int [OF zero_less_numeral]]
    by (simp add: power_int_add)
  also have "real p / real q / 2 powi e = real a / real b"
    using units_quotient [OF assms(1), of p e] assms(2) by simp
  also have "\<dots> < 2 powi 52 \<longleftrightarrow> real a < real (2 ^ 52 * b)"
    using b by (simp add: pos_divide_less_eq)
  finally show "fits_units p q (e - 1) \<longleftrightarrow> a < 2 ^ 52 * b" by (simp only: of_nat_less_iff)
qed

lemma round_even_le: "a \<le> u * b \<Longrightarrow> 0 < b \<Longrightarrow> round_even a b \<le> u"
proof -
  assume a: "a \<le> u * b" and b: "0 < b"
  have "a div b \<le> u" using div_le_mono [OF a, of b] b by simp
  moreover have "a mod b = 0" if "a div b = u"
    using a that by (metis add_le_same_cancel1 div_mult_mod_eq le_zero_eq)
  ultimately show ?thesis
    using b by (cases "a div b = u") (auto simp: round_even_def Let_def)
qed

lemma round_even_ge: "l * b \<le> a \<Longrightarrow> 0 < b \<Longrightarrow> l \<le> round_even a b"
proof -
  assume a: "l * b \<le> a" and b: "0 < b"
  have "l \<le> a div b" using div_le_mono [OF a, of b] b by simp
  then show ?thesis by (auto simp: round_even_def Let_def)
qed

lemma round_even_exact: "0 < b \<Longrightarrow> round_even (k * b) b = k"
  by (simp add: round_even_def)

lemma canonical_round [simp, intro]:
  assumes "0 < q"
  shows "canonical (round_f64 s p q)"
proof (cases "p = 0")
  case True
  then show ?thesis by (simp add: round_f64_def f64_zero_def exp_bounds)
next
  case False
  define e where "e = exponent p q"
  obtain a b where ab: "units p q e = (a, b)" by force
  define m where "m = round_even a b"
  note least = exponent_least [of p q, OF _ assms, folded e_def]
  note ub = units_bounds [OF assms ab]
  have hi: "m \<le> 2 ^ 53" unfolding m_def
    using False least(2) ub by (intro round_even_le) auto
  have lo: "2 ^ 52 \<le> m \<or> e = EXP_MIN"
  proof (cases "e = EXP_MIN")
    case False
    then have "2 ^ 52 * b \<le> a" using least(1,3) \<open>p \<noteq> 0\<close> ub(2) by force
    then show ?thesis unfolding m_def using ub(3) round_even_ge by blast
  qed simp
  have "round_f64 s p q = (if m = 2 ^ 53
      then if EXP_MAX < e + 1 then Infinite s else Finite s (2 ^ 52) (e + 1)
      else if EXP_MAX < e then Infinite s else Finite s m e)"
    using False by (simp add: round_f64_def Let_def ab m_def flip: e_def)
  then show ?thesis
    using hi lo least(1) False by auto
qed

text \<open>A number that can be represented is not changed by rounding.\<close>

lemma round_exact:
  assumes "canonical (Finite s m e)" and "0 < q" and "real p / real q = real m * 2 powi e"
  shows "round_f64 s p q = Finite s m e"
proof (cases "m = 0")
  case True
  then have "p = 0" using assms(2,3) by simp
  moreover have "e = EXP_MIN" using True assms(1) by simp
  ultimately show ?thesis using True by (simp add: round_f64_def f64_zero_def)
next
  case False
  then have p: "0 < p" using assms(2,3) by (cases p) auto
  obtain a b where ab: "units p q e = (a, b)" by force
  note ub = units_bounds [OF assms(2) ab]
  have "real a / real b = real m"
    using units_quotient [OF assms(2), of p e] ab assms(3) by simp
  then have "real a = real (m * b)" using ub(3) by (simp add: divide_eq_eq)
  then have a: "a = m * b" by (simp only: of_nat_eq_iff)
  have c: "m < 2 ^ 53" "EXP_MIN \<le> e" "e \<le> EXP_MAX" "2 ^ 52 \<le> m \<or> e = EXP_MIN"
    using assms(1) by auto
  have "fits_units p q e" using c(1) ub(1,3) a by simp
  moreover have "e = EXP_MIN \<or> \<not> fits_units p q (e - 1)" using c(4) ub(2) a by auto
  ultimately have "exponent p q = e" using p assms(2) c(2) by (intro exponent_unique)
  then show ?thesis
    using p c(1,3) ub(3) by (simp add: round_f64_def ab a round_even_exact)
qed

section \<open>Arithmetic: proofs\<close>

lemma canonical_zero [simp]: "canonical (f64_zero s)"
  by (simp add: f64_zero_def exp_bounds)

lemma canonical_dyadic [simp]: "canonical (dyadic z k)"
  by (simp add: dyadic_def)

lemma canonical_neg [simp]: "canonical (f64_neg x) = canonical x"
  by (cases x) simp_all

lemma canonical_add [simp]: "canonical (f64_add x y)"
  by (cases x; cases y) (simp_all add: Let_def)

lemma canonical_sub [simp]: "canonical (f64_sub x y)"
  by (simp add: f64_sub_def)

lemma canonical_mul [simp]: "canonical (f64_mul x y)"
  by (cases x; cases y) simp_all

text \<open>The value of a finite number.\<close>

fun f64_value :: "f64 \<Rightarrow> real" where
  "f64_value (Finite s m e) = of_int (signed_nat s m) * 2 powi e"
| "f64_value _ = 0"

lemma scaled_sign: "0 < c \<Longrightarrow> x * c < 0 \<longleftrightarrow> x < (0 :: real)"
  by (auto simp: mult_less_0_iff)

lemma dyadic_exact:
  assumes "canonical (Finite s m e)" and "of_int z * 2 powi k = f64_value (Finite s m e)" and "z \<noteq> 0"
  shows "dyadic z k = Finite s m e"
proof -
  have pos: "(0 :: real) < 2 powi k" "(0 :: real) < 2 powi e" by simp_all
  have sign: "s = (z < 0)"
  proof -
    have "z < 0 \<longleftrightarrow> of_int z * (2 :: real) powi k < 0" by (simp add: scaled_sign pos(1))
    also have "\<dots> \<longleftrightarrow> signed_nat s m < 0"
      unfolding assms(2) f64_value.simps by (simp add: scaled_sign pos(2))
    finally show ?thesis
      using assms(2,3) pos by (auto simp: signed_nat_def split: if_splits)
  qed
  have "real (nat \<bar>z\<bar> * 2 ^ nat k) / real (2 ^ nat (- k)) = \<bar>of_int z\<bar> * 2 powi k"
    by (cases "0 \<le> k") (simp_all add: power_int_def field_simps)
  also have "\<dots> = \<bar>of_int z * 2 powi k\<bar>" by (simp add: abs_mult)
  also have "\<dots> = real m * 2 powi e"
    unfolding assms(2) by (simp add: abs_mult signed_nat_def)
  finally show ?thesis
    unfolding dyadic_def sign [symmetric] by (intro round_exact assms(1)) simp_all
qed

lemma aligned_value:
  assumes "k \<le> e"
  shows "of_int (z * 2 ^ nat (e - k)) * 2 powi k = of_int z * (2 :: real) powi e"
proof -
  have "(2 :: real) powi e = 2 powi (e - k) * 2 powi k" by (simp add: power_int_diff)
  also have "(2 :: real) powi (e - k) = 2 ^ nat (e - k)" using assms by (simp add: power_int_def)
  finally show ?thesis by simp
qed

text \<open>A sum that can be represented is exact.\<close>

lemma add_exact:
  assumes "canonical (Finite t n f)" and "f64_value (Finite t n f) = f64_value (Finite s m e) + f64_value (Finite s' m' e')"
    and "f64_value (Finite t n f) \<noteq> 0"
  shows "f64_add (Finite s m e) (Finite s' m' e') = Finite t n f"
proof -
  let ?k = "min e e'"
  let ?z = "signed_nat s m * 2 ^ nat (e - ?k) + signed_nat s' m' * 2 ^ nat (e' - ?k)"
  have v: "of_int ?z * 2 powi ?k = f64_value (Finite t n f)"
    unfolding assms(2) of_int_add distrib_right by (simp only: aligned_value min.cobounded1 min.cobounded2 f64_value.simps)
  then have "?z \<noteq> 0" using assms(3) by (metis mult_zero_left of_int_0)
  then show ?thesis
    using dyadic_exact [OF assms(1) v] by (simp add: Let_def)
qed

section \<open>Whole numbers\<close>

lemma f64_of_int_zero: "f64_of_int 0 = f64_zero False"
  by (simp add: f64_of_int_def dyadic_def round_f64_def)

lemma represent_nat:
  assumes "0 < n" and "n \<le> 2 ^ 53"
  shows "\<exists>m e. (\<forall>s. canonical (Finite s m e)) \<and> real n = real m * 2 powi e"
proof (cases "n = 2 ^ 53")
  case True
  have "\<forall>s. canonical (Finite s (2 ^ 52) 1)" by (simp add: exp_bounds)
  moreover have "real n = real (2 ^ 52) * 2 powi 1" unfolding True by simp
  ultimately show ?thesis by blast
next
  case False
  then have n: "n < 2 ^ 53" using assms(2) by simp
  have bl: "bit_length n \<le> 53"
  proof (rule ccontr)
    assume "\<not> bit_length n \<le> 53"
    then have "(2 :: nat) ^ 54 \<le> 2 ^ bit_length n" by (intro power_increasing) auto
    then show False using bit_length_lower [OF assms(1)] n by simp
  qed
  let ?m = "n * 2 ^ (53 - bit_length n)" and ?e = "int (bit_length n) - 53"
  have two: "(2 :: nat) ^ bit_length n * 2 ^ (53 - bit_length n) = 2 ^ 53"
    using bl by (simp flip: power_add)
  have "?m < 2 ^ 53"
    unfolding two [symmetric] by (intro mult_strict_right_mono bit_length_upper) simp
  moreover have "2 ^ 53 \<le> 2 * ?m"
    unfolding two [symmetric] using bit_length_lower [OF assms(1)] by (simp add: mult.assoc [symmetric] del: mult.assoc)
  moreover have "real n = real ?m * 2 powi ?e"
    using bl by (cases "bit_length n = 53") (simp_all add: power_int_def field_simps nat_diff_distrib of_nat_diff)
  moreover have "EXP_MIN \<le> ?e" "?e \<le> EXP_MAX" using bl by (simp_all add: exp_bounds)
  ultimately show ?thesis by (intro exI [of _ ?m] exI [of _ ?e]) simp
qed

definition MAX_WHOLE :: int where "MAX_WHOLE = 2 ^ 53"

lemma f64_of_int_value:
  assumes "\<bar>z\<bar> \<le> MAX_WHOLE"
  shows "\<exists>m e. f64_of_int z = Finite (z < 0) m e \<and> of_int (signed_nat (z < 0) m) * 2 powi e = (of_int z :: real)"
proof (cases "z = 0")
  case True
  then show ?thesis by (simp add: f64_of_int_zero f64_zero_def signed_nat_def)
next
  case False
  then obtain m e where me: "\<forall>s. canonical (Finite s m e)" "real (nat \<bar>z\<bar>) = real m * 2 powi e"
    using represent_nat [of "nat \<bar>z\<bar>"] assms by (auto simp: MAX_WHOLE_def nat_le_iff)
  then have v: "of_int (signed_nat (z < 0) m) * 2 powi e = (of_int z :: real)"
    by (auto simp: signed_nat_def)
  then have "f64_of_int z = Finite (z < 0) m e"
    unfolding f64_of_int_def using me(1) False by (intro dyadic_exact) simp_all
  then show ?thesis using v by blast
qed

lemma add_whole:
  assumes "f64_value (Finite s m e) = of_int a" and "f64_value (Finite s' m' e') = of_int b"
    and "\<bar>a + b\<bar> \<le> MAX_WHOLE" and "a + b = 0 \<Longrightarrow> \<not> (s \<and> s')"
  shows "f64_add (Finite s m e) (Finite s' m' e') = f64_of_int (a + b)"
proof (cases "a + b = 0")
  case True
  let ?k = "min e e'"
  let ?z = "signed_nat s m * 2 ^ nat (e - ?k) + signed_nat s' m' * 2 ^ nat (e' - ?k)"
  have "of_int ?z * 2 powi ?k = f64_value (Finite s m e) + f64_value (Finite s' m' e')"
    unfolding of_int_add distrib_right by (simp only: aligned_value min.cobounded1 min.cobounded2 f64_value.simps)
  also have "\<dots> = of_int (a + b)" using assms(1,2) by simp
  also have "\<dots> = 0" using True by simp
  finally have "(of_int ?z :: real) = 0" unfolding mult_eq_0_iff by simp
  then have "?z = 0" by (simp only: of_int_eq_0_iff)
  then show ?thesis using True assms(4) by (auto simp: Let_def f64_of_int_zero f64_zero_def)
next
  case False
  obtain n f where nf: "f64_of_int (a + b) = Finite (a + b < 0) n f" "f64_value (Finite (a + b < 0) n f) = of_int (a + b)"
    using f64_of_int_value [OF assms(3)] by auto
  have "canonical (Finite (a + b < 0) n f)"
    unfolding nf(1) [symmetric] by (simp add: f64_of_int_def)
  then show ?thesis
    unfolding nf(1) using False assms(1,2) nf(2) by (intro add_exact) (simp_all del: f64_value.simps)
qed

lemma add_of_int:
  assumes "\<bar>a\<bar> \<le> MAX_WHOLE" "\<bar>b\<bar> \<le> MAX_WHOLE" "\<bar>a + b\<bar> \<le> MAX_WHOLE"
  shows "f64_add (f64_of_int a) (f64_of_int b) = f64_of_int (a + b)"
proof -
  obtain m e m' e' where "f64_of_int a = Finite (a < 0) m e" "f64_value (Finite (a < 0) m e) = of_int a"
    and "f64_of_int b = Finite (b < 0) m' e'" "f64_value (Finite (b < 0) m' e') = of_int b"
    using f64_of_int_value [OF assms(1)] f64_of_int_value [OF assms(2)] by auto
  then show ?thesis using assms(3) by (simp only:) (intro add_whole; simp del: f64_value.simps)
qed

lemma sub_of_int:
  assumes "\<bar>a\<bar> \<le> MAX_WHOLE" "\<bar>b\<bar> \<le> MAX_WHOLE" "\<bar>a - b\<bar> \<le> MAX_WHOLE"
  shows "f64_sub (f64_of_int a) (f64_of_int b) = f64_of_int (a - b)"
proof -
  obtain m e m' e' where m: "f64_of_int a = Finite (a < 0) m e" "f64_value (Finite (a < 0) m e) = of_int a"
    and m': "f64_of_int b = Finite (b < 0) m' e'" "f64_value (Finite (b < 0) m' e') = of_int b"
    using f64_of_int_value [OF assms(1)] f64_of_int_value [OF assms(2)] by auto
  have "f64_value (Finite (\<not> b < 0) m' e') = of_int (- b)"
    using m'(2) by (simp add: signed_nat_def split: if_splits)
  then have "f64_add (Finite (a < 0) m e) (Finite (\<not> b < 0) m' e') = f64_of_int (a + - b)"
    using m(2) assms(3) by (intro add_whole; simp del: f64_value.simps)
  then show ?thesis by (simp add: f64_sub_def m(1) m'(1))
qed

lemma ge_value: "f64_ge (Finite s m e) (Finite s' m' e') \<longleftrightarrow> f64_value (Finite s' m' e') \<le> f64_value (Finite s m e)"
proof -
  let ?k = "min e e'"
  let ?x = "signed_nat s m * 2 ^ nat (e - ?k)" and ?y = "signed_nat s' m' * 2 ^ nat (e' - ?k)"
  have "f64_ge (Finite s m e) (Finite s' m' e') \<longleftrightarrow> (of_int ?y :: real) \<le> of_int ?x"
    by (simp only: f64_ge.simps Let_def of_int_le_iff)
  also have "\<dots> \<longleftrightarrow> of_int ?y * 2 powi ?k \<le> of_int ?x * (2 :: real) powi ?k"
    by (rule mult_le_cancel_right_pos [symmetric]) simp
  also have "\<dots> \<longleftrightarrow> f64_value (Finite s' m' e') \<le> f64_value (Finite s m e)"
    by (simp only: aligned_value min.cobounded1 min.cobounded2 f64_value.simps)
  finally show ?thesis .
qed

lemma ge_of_int:
  assumes "\<bar>a\<bar> \<le> MAX_WHOLE" "\<bar>b\<bar> \<le> MAX_WHOLE"
  shows "f64_ge (f64_of_int a) (f64_of_int b) \<longleftrightarrow> b \<le> a"
proof -
  obtain m e m' e' where "f64_of_int a = Finite (a < 0) m e" "f64_value (Finite (a < 0) m e) = of_int a"
    and "f64_of_int b = Finite (b < 0) m' e'" "f64_value (Finite (b < 0) m' e') = of_int b"
    using f64_of_int_value [OF assms(1)] f64_of_int_value [OF assms(2)] by auto
  then show ?thesis by (simp only: ge_value of_int_le_iff)
qed

section \<open>Numbers below zero\<close>

fun below_zero :: "f64 \<Rightarrow> bool" where
  "below_zero NaN = False"
| "below_zero (Infinite s) = s"
| "below_zero (Finite s m e) = (s \<and> m \<noteq> 0)"

lemma below_zero_round: "below_zero (round_f64 s p q) \<Longrightarrow> s \<and> p \<noteq> 0"
  by (auto simp: round_f64_def f64_zero_def Let_def split: if_splits prod.splits)

lemma below_zero_dyadic: "below_zero (dyadic z k) \<Longrightarrow> z < 0"
  using below_zero_round by (auto simp: dyadic_def)

lemma below_zero_signed: "below_zero (Finite s m e) \<longleftrightarrow> signed_nat s m < 0"
  by (simp add: signed_nat_def)

lemma below_zero_add: "\<not> below_zero x \<Longrightarrow> \<not> below_zero y \<Longrightarrow> \<not> below_zero (f64_add x y)"
proof (cases x; cases y)
  fix s m e s' m' e'
  assume xy: "x = Finite s m e" "y = Finite s' m' e'" and nb: "\<not> below_zero x" "\<not> below_zero y"
  then have "0 \<le> signed_nat s m * 2 ^ nat (e - min e e') + signed_nat s' m' * 2 ^ nat (e' - min e e')"
    unfolding xy below_zero_signed by simp
  then show "\<not> below_zero (f64_add x y)"
    unfolding xy f64_add.simps Let_def by (auto simp: f64_zero_def dest!: below_zero_dyadic)
qed auto

lemma below_zero_mul: "\<not> below_zero x \<Longrightarrow> \<not> below_zero y \<Longrightarrow> \<not> below_zero (f64_mul x y)"
  by (cases x; cases y) (auto dest!: below_zero_round)

text \<open>A difference of ordered numbers is not below zero, however it is rounded.\<close>

lemma below_zero_sub: "f64_ge x y \<Longrightarrow> \<not> below_zero (f64_sub x y)"
proof (cases x; cases y)
  fix s m e s' m' e'
  assume xy: "x = Finite s m e" "y = Finite s' m' e'" and ge: "f64_ge x y"
  have "signed_nat (\<not> s') m' = - signed_nat s' m'" by (simp add: signed_nat_def)
  then show "\<not> below_zero (f64_sub x y)"
    using ge by (auto simp: xy f64_sub_def Let_def f64_zero_def dest!: below_zero_dyadic)
qed (auto simp: f64_sub_def)

end
