(* ===== verification/F64_Text.thy ===== *)
theory F64_Text
  imports F64
begin

text \<open>
  \<^verbatim>\<open>str::parse\<close> and \<^verbatim>\<open>Display\<close> for \<^verbatim>\<open>f64\<close>. A decimal number is read as an integer times a power of ten
  and rounded once. A number is printed with the fewest digits that are read back as the same
  number, the nearer of two such; the search goes down through the powers of ten and ends, since
  every number is a whole multiple of \<open>10 ^ -1074\<close>. The library stops counting in an exponent beyond
  65535, which only inputs of as many digits could show; the model counts on.
\<close>

section \<open>Reading\<close>

definition is_digit :: "char \<Rightarrow> bool" where
  "is_digit c = (digit_val c \<noteq> None)"

definition digits_value :: "string \<Rightarrow> nat" where
  "digits_value ds = foldl (\<lambda>n c. 10 * n + the (digit_val c)) 0 ds"

definition split_sign :: "string \<Rightarrow> bool \<times> string" where
  "split_sign s = (case s of
       [] \<Rightarrow> (False, [])
     | c # cs \<Rightarrow> if c = CHR ''-'' then (True, cs) else if c = CHR ''+'' then (False, cs) else (False, s))"

definition parse_exponent :: "string \<Rightarrow> int option" where
  "parse_exponent s = (case s of
       [] \<Rightarrow> Some 0
     | c # cs \<Rightarrow>
         if c = CHR ''e'' \<or> c = CHR ''E'' then
           (case split_sign cs of (neg, ds) \<Rightarrow>
              if ds \<noteq> [] \<and> list_all is_digit ds
              then Some (if neg then - int (digits_value ds) else int (digits_value ds)) else None)
         else None)"

text \<open>The digits after a point, and what follows them.\<close>

definition split_fraction :: "string \<Rightarrow> string \<times> string" where
  "split_fraction s = (case s of
       [] \<Rightarrow> ([], [])
     | c # cs \<Rightarrow> if c = CHR ''.'' then (takeWhile is_digit cs, dropWhile is_digit cs) else ([], s))"

definition parse_decimal :: "string \<Rightarrow> (nat \<times> int) option" where
  "parse_decimal s =
     (let ip = takeWhile is_digit s; (fp, rest) = split_fraction (dropWhile is_digit s)
      in if ip @ fp = [] then None
         else map_option (\<lambda>x. (digits_value (ip @ fp), x - int (length fp))) (parse_exponent rest))"

text \<open>\<open>d\<close> times \<open>10 ^ x\<close>, rounded.\<close>

definition decimal :: "bool \<Rightarrow> nat \<Rightarrow> int \<Rightarrow> f64" where
  "decimal s d x = round_f64 s (d * 10 ^ nat x) (10 ^ nat (- x))"

definition to_ascii_lowercase :: "char \<Rightarrow> char" where
  "to_ascii_lowercase c =
     (let n = of_char c :: nat in if 65 \<le> n \<and> n \<le> 90 then char_of (n + 32) else c)"

definition parse_f64 :: "string \<Rightarrow> f64 option" where
  "parse_f64 s =
     (case split_sign s of (neg, r) \<Rightarrow>
        (case parse_decimal r of
           Some (d, x) \<Rightarrow> Some (decimal neg d x)
         | None \<Rightarrow>
             (let w = map to_ascii_lowercase r
              in if w = ''inf'' \<or> w = ''infinity'' then Some (Infinite neg)
                 else if w = ''nan'' then Some NaN else None)))"

section \<open>Printing\<close>

function shortest :: "f64 \<Rightarrow> nat \<Rightarrow> nat \<Rightarrow> int \<Rightarrow> nat \<times> int" where
  "shortest x p q k =
     (let b = q * 10 ^ nat k; d = p * 10 ^ nat (- k) div b; r = p * 10 ^ nat (- k) mod b;
          down = (0 < d \<and> decimal False d k = x); up = (decimal False (d + 1) k = x)
      in if down \<and> (\<not> up \<or> 2 * r < b) then (d, k)
         else if up then (d + 1, k)
         else if k \<le> EXP_MIN then (d, k)
         else shortest x p q (k - 1))"
  by pat_completeness auto
termination by (relation "measure (\<lambda>(x, p, q, k). nat (k - EXP_MIN))") auto

declare shortest.simps [simp del]

definition display_decimal :: "nat \<Rightarrow> int \<Rightarrow> string" where
  "display_decimal d k =
     (let ds = show_nat d; n = nat (- k)
      in if 0 \<le> k then ds @ replicate (nat k) CHR ''0''
         else if n < length ds then take (length ds - n) ds @ ''.'' @ drop (length ds - n) ds
         else ''0.'' @ replicate (n - length ds) CHR ''0'' @ ds)"

definition magnitude :: "nat \<Rightarrow> int \<Rightarrow> string" where
  "magnitude m e =
     (if m = 0 then ''0''
      else let p = m * 2 ^ nat e; q = 2 ^ nat (- e);
               (d, k) = shortest (Finite False m e) p q (int (length (show_nat (p div q))))
           in display_decimal d k)"

fun display_f64 :: "f64 \<Rightarrow> string" where
  "display_f64 NaN = ''NaN''"
| "display_f64 (Infinite s) = (if s then ''-inf'' else ''inf'')"
| "display_f64 (Finite s m e) = (if s then ''-'' else '''') @ magnitude m e"

section \<open>What is printed is read back\<close>

lemma is_digit_digit_char [simp]: "d < 10 \<Longrightarrow> is_digit (digit_char d)"
  by (simp add: is_digit_def)

lemma digit_constants [simp]:
  "is_digit CHR ''0''" "\<not> is_digit CHR ''.''" "\<not> is_digit CHR ''-''" "\<not> is_digit CHR ''+''"
  "digit_val CHR ''0'' = Some 0"
  by (simp_all add: is_digit_def digit_val_def)

lemma show_nat_digits [simp]: "c \<in> set (show_nat n) \<Longrightarrow> is_digit c"
  using set_show_nat [of c n] by auto

lemma digits_value_append:
  "digits_value (xs @ ys) = digits_value xs * 10 ^ length ys + digits_value ys"
  by (induction ys rule: rev_induct) (simp_all add: digits_value_def algebra_simps)

lemma digits_value_zeros [simp]: "digits_value (replicate n CHR ''0'') = 0"
  by (induction n) (simp_all add: digits_value_def)

lemma digits_value_show_nat [simp]: "digits_value (show_nat n) = n"
proof (induction n rule: show_nat.induct)
  case (1 n)
  then show ?case
    by (cases "n < 10"; subst show_nat.simps) (simp_all add: digits_value_append, simp_all add: digits_value_def)
qed

lemma parse_decimal_digits:
  assumes "ip \<noteq> []" and "list_all is_digit ip" and "list_all is_digit fp"
  shows "parse_decimal ip = Some (digits_value ip, 0)"
    and "parse_decimal (ip @ ''.'' @ fp) = Some (digits_value (ip @ fp), - int (length fp))"
proof -
  note all = assms(2,3) [unfolded list_all_iff]
  have fp: "takeWhile is_digit fp = fp" "dropWhile is_digit fp = []"
    using all(2) by (simp_all add: takeWhile_eq_all_conv dropWhile_eq_Nil_conv)
  have ip: "takeWhile is_digit ip = ip" "dropWhile is_digit ip = []"
    using all(1) by (simp_all add: takeWhile_eq_all_conv dropWhile_eq_Nil_conv)
  have pt: "takeWhile is_digit (ip @ ''.'' @ fp) = ip" "dropWhile is_digit (ip @ ''.'' @ fp) = CHR ''.'' # fp"
    using all(1) by (simp_all add: takeWhile_append dropWhile_append)
  show "parse_decimal ip = Some (digits_value ip, 0)"
    using assms(1) by (simp add: parse_decimal_def ip split_fraction_def parse_exponent_def)
  show "parse_decimal (ip @ ''.'' @ fp) = Some (digits_value (ip @ fp), - int (length fp))"
    using assms(1) by (simp only: parse_decimal_def pt) (simp add: split_fraction_def fp parse_exponent_def)
qed

lemma parse_display_decimal:
  "\<exists>d' x. parse_decimal (display_decimal d k) = Some (d', x) \<and> (\<forall>s. decimal s d' x = decimal s d k)"
proof -
  let ?ds = "show_nat d" and ?n = "nat (- k)"
  consider "0 \<le> k" | "k < 0" "?n < length ?ds" | "k < 0" "length ?ds \<le> ?n" by linarith
  then show ?thesis
  proof cases
    case 1
    have "list_all is_digit (?ds @ replicate (nat k) CHR ''0'')" by (auto simp: list_all_iff)
    then have "parse_decimal (display_decimal d k) = Some (d * 10 ^ nat k, 0)"
      using 1 parse_decimal_digits(1) [of "?ds @ replicate (nat k) CHR ''0''" "[]"]
      by (simp add: display_decimal_def digits_value_append)
    then show ?thesis using 1 by (simp add: decimal_def)
  next
    case 2
    let ?l = "length ?ds - ?n"
    have dig: "\<forall>c \<in> set (take ?l ?ds). is_digit c" "\<forall>c \<in> set (drop ?l ?ds). is_digit c"
      by (meson in_set_takeD in_set_dropD show_nat_digits)+
    have "parse_decimal (take ?l ?ds @ ''.'' @ drop ?l ?ds)
        = Some (digits_value (take ?l ?ds @ drop ?l ?ds), - int (length (drop ?l ?ds)))"
      using 2 dig by (intro parse_decimal_digits(2)) (simp_all add: list_all_iff)
    then have "parse_decimal (display_decimal d k) = Some (d, k)"
      using 2 by (simp add: display_decimal_def Let_def)
    then show ?thesis by simp
  next
    case 3
    have "parse_decimal (''0'' @ ''.'' @ (replicate (?n - length ?ds) CHR ''0'' @ ?ds))
        = Some (digits_value (''0'' @ replicate (?n - length ?ds) CHR ''0'' @ ?ds),
            - int (length (replicate (?n - length ?ds) CHR ''0'' @ ?ds)))"
      by (intro parse_decimal_digits(2)) (auto simp: list_all_iff)
    moreover have "digits_value (''0'' @ replicate (?n - length ?ds) CHR ''0'' @ ?ds) = d"
      by (simp only: digits_value_append digits_value_zeros digits_value_show_nat) (simp add: digits_value_def)
    ultimately have "parse_decimal (display_decimal d k) = Some (d, k)"
      using 3 by (simp add: display_decimal_def Let_def)
    then show ?thesis by simp
  qed
qed

text \<open>The search finds digits that are read back as the number.\<close>

lemma decimal_exact:
  assumes "canonical (Finite s m e)" and "real d * 10 powi x = real m * 2 powi e"
  shows "decimal s d x = Finite s m e"
proof -
  have "real (d * 10 ^ nat x) / real (10 ^ nat (- x)) = real d * 10 powi x"
    by (cases "0 \<le> x") (simp_all add: power_int_def field_simps)
  then show ?thesis
    unfolding decimal_def using assms by (intro round_exact) simp_all
qed

lemma exact_at_bottom:
  assumes "canonical (Finite False m e)" and "k = EXP_MIN"
    and "p = m * 2 ^ nat e" and "q = 2 ^ nat (- e)"
  shows "decimal False (p * 10 ^ nat (- k) div (q * 10 ^ nat k)) k = Finite False m e"
proof -
  have ten: "(2 :: nat) ^ n * 5 ^ n = 10 ^ n" for n by (simp flip: power_mult_distrib)
  have neg: "k < 0" using assms(2) by (simp add: exp_bounds)
  have k: "nat k = 0" "nat (- k) = 1074" using assms(2) by (simp_all add: exp_bounds)
  have "nat (- e) \<le> 1074" using assms(1) by (auto simp: exp_bounds nat_le_iff)
  then have "q dvd 2 ^ 1074" unfolding assms(4) by (rule le_imp_power_dvd)
  then have "q dvd 2 ^ 1074 * 5 ^ 1074" by (rule dvd_mult2)
  also have "(2 :: nat) ^ 1074 * 5 ^ 1074 = 10 ^ 1074" by (rule ten)
  finally have "q dvd p * 10 ^ 1074" by (rule dvd_mult)
  then have "p * 10 ^ nat (- k) div (q * 10 ^ nat k) * q = p * 10 ^ nat (- k)"
    unfolding k by (simp only: power_0 mult_1_right dvd_div_mult_self)
  then have "real (p * 10 ^ nat (- k) div (q * 10 ^ nat k)) * real q = real p * 10 ^ nat (- k)"
    by (metis of_nat_mult of_nat_numeral of_nat_power)
  moreover have "real p = real m * 2 powi e * real q"
    unfolding assms(3,4) by (cases "0 \<le> e") (simp_all add: power_int_def field_simps)
  moreover have "(10 :: real) powi k = inverse (10 ^ nat (- k))"
    using neg by (simp add: power_int_def power_one_over field_simps)
  ultimately show ?thesis
    using assms(4) by (intro decimal_exact assms(1)) (simp add: field_simps)
qed

lemma shortest_reads_back:
  assumes "canonical (Finite False m e)" and "m \<noteq> 0" and "p = m * 2 ^ nat e" and "q = 2 ^ nat (- e)"
  shows "EXP_MIN \<le> k \<Longrightarrow> case shortest (Finite False m e) p q k of (d, x) \<Rightarrow> decimal False d x = Finite False m e"
proof (induction "nat (k - EXP_MIN)" arbitrary: k)
  case 0
  then have "k = EXP_MIN" by simp
  then show ?case
    using exact_at_bottom [OF assms(1) _ assms(3,4), of k] by (subst shortest.simps) (auto simp: Let_def)
next
  case (Suc n)
  then have k: "EXP_MIN < k" by simp
  have "case shortest (Finite False m e) p q (k - 1) of (d, x) \<Rightarrow> decimal False d x = Finite False m e"
    using Suc.hyps(2) k by (intro Suc.hyps(1)) auto
  then show ?case
    using k by (subst shortest.simps) (simp add: Let_def)
qed

lemma round_sign: "round_f64 False p q = Finite False m e \<Longrightarrow> round_f64 s p q = Finite s m e"
  by (auto simp: round_f64_def Let_def f64_zero_def split: if_splits prod.splits)

lemma parse_magnitude:
  assumes "canonical (Finite s m e)"
  shows "\<exists>d x. parse_decimal (magnitude m e) = Some (d, x) \<and> decimal s d x = Finite s m e"
proof (cases "m = 0")
  case True
  then have "e = EXP_MIN" using assms by simp
  moreover have "parse_decimal ''0'' = Some (0, 0)"
    using parse_decimal_digits(1) [of "''0''" "[]"] by (simp add: digits_value_def)
  ultimately show ?thesis
    using True by (simp add: magnitude_def decimal_def round_f64_def f64_zero_def)
next
  case False
  let ?p = "m * 2 ^ nat e" and ?q = "2 ^ nat (- e) :: nat"
  obtain d k where dk: "shortest (Finite False m e) ?p ?q (int (length (show_nat (?p div ?q)))) = (d, k)"
    by (rule prod.exhaust)
  have "canonical (Finite False m e)" using assms by simp
  note found = shortest_reads_back [OF this False refl refl]
  have "EXP_MIN \<le> int n" for n by (simp add: exp_bounds)
  from found [OF this, of "length (show_nat (?p div ?q))"]
  have "decimal False d k = Finite False m e" unfolding dk prod.case .
  then have "decimal s d k = Finite s m e" unfolding decimal_def by (rule round_sign)
  moreover have "magnitude m e = display_decimal d k" using False dk by (simp add: magnitude_def Let_def)
  ultimately show ?thesis using parse_display_decimal [of d k] by auto
qed

lemma hd_display_decimal: "\<exists>c cs. display_decimal d k = c # cs \<and> is_digit c"
proof -
  obtain c cs where c: "show_nat d = c # cs" by (meson neq_Nil_conv show_nat_nonempty)
  then have "is_digit c" using show_nat_digits [of c d] by simp
  then show ?thesis
    using c by (auto simp: display_decimal_def Let_def take_Cons split: nat.splits)
qed

lemma split_sign_magnitude: "split_sign (magnitude m e) = (False, magnitude m e)"
proof -
  have "\<exists>c cs. magnitude m e = c # cs \<and> is_digit c"
    using hd_display_decimal by (auto simp: magnitude_def Let_def split: prod.splits)
  then show ?thesis by (auto simp: split_sign_def)
qed

lemma lowercase_words:
  "map to_ascii_lowercase ''NaN'' = ''nan''" "map to_ascii_lowercase ''inf'' = ''inf''"
  by code_simp+

lemma not_decimal: "parse_decimal ''NaN'' = None" "parse_decimal ''inf'' = None"
  by (simp_all add: parse_decimal_def is_digit_def digit_val_def split_fraction_def)

lemma display_reads_back:
  assumes "canonical x"
  shows "parse_f64 (display_f64 x) = Some x"
proof (cases x)
  case (Finite s m e)
  then obtain d k where dk: "parse_decimal (magnitude m e) = Some (d, k)" "decimal s d k = x"
    using parse_magnitude assms by blast
  have "split_sign (display_f64 x) = (s, magnitude m e)"
    using Finite split_sign_magnitude by (cases s) (simp_all add: split_sign_def)
  then show ?thesis using dk by (simp add: parse_f64_def)
qed (simp_all add: parse_f64_def split_sign_def not_decimal lowercase_words del: list.map)

end
