(* ===== verification/Mobile_Money.thy ===== *)
theory Mobile_Money
  imports F64_Text
begin

text \<open>
  The mobile money example (\<^verbatim>\<open>examples/mobile-money/src/main.rs\<close>): an account in dollars, an optional
  one in bitcoin that stands on a node loaded as a WebAssembly component, and a loop that reads
  commands from the terminal. Amounts are \<^verbatim>\<open>f64\<close> (\<open>F64\<close>, \<open>F64_Text\<close>).

  The engine \<^verbatim>\<open>wasmtime\<close>, the component it loads, \<^verbatim>\<open>Amount::to_btc\<close>, the splitting of a line into words
  (\<^verbatim>\<open>shlex\<close>) and the parsing of arguments (\<^verbatim>\<open>clap\<close>) are fields of an environment. Both ways in which a
  call of the component can fail, a trap and an error of the node, are one error here: the code
  unwraps both. The terminal is a record with the lines to come, what was printed, and the answers
  of the host to writing and flushing, by the number of the call.

  Shown: amounts in whole dollars are kept exactly, from the typed line to the balance; no balance
  falls below zero as long as the amounts and rates given are not negative; negative amounts and
  not-a-number are accepted, with the effect one would fear; at the end of the input the loop does
  not stop.
\<close>

section \<open>Accounts\<close>

record UsdAccount =
  account_number :: string
  usd_balance :: f64

record 'n BtcAccount =
  btc_address :: string
  btc_node :: 'n
  btc_balance :: f64
  current_rate :: f64

record 'n MobileMoneyApp =
  username :: string
  usd_account :: UsdAccount
  btc_account :: "'n BtcAccount option"

section \<open>Configuration of the node\<close>

datatype BitcoinNetwork = Mainnet | Testnet | Regtest

record SocketAddress =
  sa_ip :: string
  sa_port :: u16

record ClientNodeConfig =
  nc_wallet_address :: string
  nc_wallet_filter :: string
  nc_genesis_blockhash :: string
  nc_network :: BitcoinNetwork
  nc_socket_address :: SocketAddress

record TbdexConfig =
  tc_pfi_uri :: string
  tc_vc_url :: string
  tc_acct_number :: string

record OfferingBargain =
  ob_fee :: "string option"
  ob_estimated_settlement_time :: u64
  ob_id :: string
  ob_rate :: string

section \<open>The command line\<close>

record ArgSpec =
  arg_name :: string
  arg_help :: string
  arg_required :: bool

record Subcommand =
  sc_name :: string
  sc_alias :: "string option"
  sc_about :: string
  sc_args :: "ArgSpec list"

record Command =
  cmd_name :: string
  cmd_multicall :: bool
  cmd_arg_required_else_help :: bool
  cmd_subcommand_required :: bool
  cmd_version :: string
  cmd_author :: string
  cmd_about :: string
  cmd_subcommands :: "Subcommand list"

record ArgMatches =
  am_subcommand :: string
  am_values :: "string \<Rightarrow> string option"

definition required_arg :: "string \<Rightarrow> string \<Rightarrow> ArgSpec" where
  "required_arg name help = \<lparr>arg_name = name, arg_help = help, arg_required = True\<rparr>"

definition subcommand :: "string \<Rightarrow> string option \<Rightarrow> string \<Rightarrow> ArgSpec list \<Rightarrow> Subcommand" where
  "subcommand name alias about args = \<lparr>sc_name = name, sc_alias = alias, sc_about = about, sc_args = args\<rparr>"

definition repl_command :: Command where
  "repl_command =
     \<lparr>cmd_name = ''Repl Mobile Money'', cmd_multicall = True, cmd_arg_required_else_help = True,
      cmd_subcommand_required = True, cmd_version = ''1.0'', cmd_author = ''Bitspend'',
      cmd_about = ''A CLI application for mobile money'',
      cmd_subcommands =
       [subcommand ''deposit'' None ''Deposit money into user account''
          [required_arg ''amount'' ''Amount to deposit''],
        subcommand ''withdraw'' None ''Withdraw money from user account''
          [required_arg ''amount'' ''Amount to withdraw''],
        subcommand ''convert'' None ''Convert Usd to BTC''
          [required_arg ''amount'' ''Usd amount to convert'', required_arg ''offer_id'' ''The offer ID''],
        subcommand ''send_btc'' None ''Send Btc To An Address''
          [required_arg ''amount'' ''Btc Amount To Send'', required_arg ''address'' ''Address To Send''],
        subcommand ''balance'' None ''Check the balance of a user'' [],
        subcommand ''create_btc_account'' None ''Create a BTC account'' [],
        subcommand ''convert_offer'' None ''Get conversion offer'' [],
        subcommand ''quit'' (Some ''exit'') ''Quit the REPL'' []]\<rparr>"

section \<open>The environment and the terminal\<close>

record 'n mm_env =
  env_OUT_DIR :: "string option"
  engine_new :: "(string, unit) res"
  add_wasi_to_linker :: "(string, unit) res"
  add_http_to_linker :: "(string, unit) res"
  preopened_dir :: "string \<Rightarrow> string \<Rightarrow> (string, unit) res"
  instantiate_component :: "string \<Rightarrow> (string, 'n) res"
  call_constructor :: "ClientNodeConfig \<Rightarrow> TbdexConfig option \<Rightarrow> ('n, string, unit) call"
  call_get_balance :: "('n, string, u64) call"
  call_get_conversion_offer :: "('n, string, OfferingBargain) call"
  call_convert_amount :: "string \<Rightarrow> string \<Rightarrow> ('n, string, string) call"
  amount_to_btc :: "u64 \<Rightarrow> f64"
  shlex_split :: "string \<Rightarrow> string list option"
  try_get_matches_from :: "Command \<Rightarrow> string list \<Rightarrow> (string, ArgMatches) res"

record console =
  stdin_lines :: "(string, string) res list"
  printed :: string
  host_write :: "nat \<Rightarrow> string \<Rightarrow> (string, nat) res"
  host_flush :: "nat \<Rightarrow> (string, unit) res"
  host_calls :: nat

record 'n world =
  app :: "'n MobileMoneyApp"
  terminal :: console

text \<open>
  \<^verbatim>\<open>write\<close> prints as much as the host takes; \<^verbatim>\<open>write!\<close> goes on until everything is written, and fails
  when nothing more is taken. At the end of the input \<^verbatim>\<open>read_line\<close> returns an empty line.
\<close>

definition console_write :: "string \<Rightarrow> (console, string, nat) call" where
  "console_write text c =
     (let r = host_write c (host_calls c) text; c' = c\<lparr>host_calls := host_calls c + 1\<rparr>
      in case r of Ok n \<Rightarrow> (Ok n, c'\<lparr>printed := printed c @ take n text\<rparr>) | _ \<Rightarrow> (r, c'))"

function console_write_all :: "string \<Rightarrow> (console, string, unit) call" where
  "console_write_all text c =
     (if text = [] then (Ok (), c)
      else case console_write text c of
        (Ok n, c') \<Rightarrow>
          if n = 0 then (Err ''failed to write whole buffer'', c')
          else console_write_all (drop n text) c'
      | (Err e, c') \<Rightarrow> (Err e, c')
      | (Panic, c') \<Rightarrow> (Panic, c'))"
  by pat_completeness auto
termination by (relation "measure (\<lambda>(text, c). length text)") auto

declare console_write_all.simps [simp del]

definition console_flush :: "(console, string, unit) call" where
  "console_flush c = (host_flush c (host_calls c), c\<lparr>host_calls := host_calls c + 1\<rparr>)"

definition console_read_line :: "(console, string, string) call" where
  "console_read_line c = (case stdin_lines c of
       [] \<Rightarrow> (Ok [], c)
     | r # rs \<Rightarrow> (r, c\<lparr>stdin_lines := rs\<rparr>))"

definition on_terminal :: "(console, string, 'a) call \<Rightarrow> ('n world, string, 'a) call" where
  "on_terminal p w = (case p (terminal w) of (r, c) \<Rightarrow> (r, w\<lparr>terminal := c\<rparr>))"

definition NL :: string where "NL = [CHR 0x0A]"

text \<open>\<^verbatim>\<open>std::io::stdout().write(output.as_bytes()).map_err(|e| e.to_string())?\<close>, then the result \<^verbatim>\<open>Ok(false)\<close>.\<close>

definition say :: "string \<Rightarrow> ('n world, string, unit) call" where
  "say output = sbind (on_terminal (console_write output)) (\<lambda>_. slift (Ok ()))"

definition say_done :: "string \<Rightarrow> ('n world, string, bool) call" where
  "say_done output = sbind (say output) (\<lambda>_. slift (Ok False))"

section \<open>Loading the node\<close>

definition path_join :: "string \<Rightarrow> string \<Rightarrow> string" where
  "path_join dir name =
     (if dir = [] then name else if last dir = CHR ''/'' then dir @ name else dir @ ''/'' @ name)"

definition server_wasi_view_new :: "'n mm_env \<Rightarrow> (string, unit) res" where
  "server_wasi_view_new env = unwrap (preopened_dir env ''/tmp'' ''.'')"

definition create_node :: "'n mm_env \<Rightarrow> string \<Rightarrow> (string, 'n) res" where
  "create_node env acct =
     rbind (engine_new env) (\<lambda>_.
     rbind (of_opt (env_OUT_DIR env)) (\<lambda>out_dir.
     (let pathtowasm = path_join out_dir ''nodenode.wasm'' in
     rbind (unwrap (add_wasi_to_linker env)) (\<lambda>_.
     rbind (unwrap (add_http_to_linker env)) (\<lambda>_.
     rbind (server_wasi_view_new env) (\<lambda>_.
     rbind (unwrap (instantiate_component env pathtowasm)) (\<lambda>instance.
     (let ip_config = \<lparr>sa_ip = ''127.0.0.1'', sa_port = 18744\<rparr>;
          tbdex_config =
            \<lparr>tc_pfi_uri = ''did:dht:zkp5gbsqgzn69b3y5dtt5nnpjtdq6sxyukpzo68npsf79bmtb9zy'',
             tc_vc_url = ''mock-idv.tbddev.org'', tc_acct_number = acct\<rparr>;
          node_config =
            \<lparr>nc_wallet_address = ''bcrt1qlhwg8036lga3c2t4pmmc6wf49f8t0m5gshjzpj'',
             nc_wallet_filter = ''0014fddc83be3afa3b1c29750ef78d39352a4eb7ee88'',
             nc_genesis_blockhash = ''0f9188f13cb7b2c71f2a335e3a4fc328bf5beb436012afca590b1a11466e2206'',
             nc_network = Regtest, nc_socket_address = ip_config\<rparr>
      in case call_constructor env node_config (Some tbdex_config) instance of (r, node) \<Rightarrow>
           rbind (unwrap r) (\<lambda>_. Ok node)))))))))"

section \<open>Operations of the account\<close>

abbreviation usd_of :: "'n world \<Rightarrow> f64" where
  "usd_of w \<equiv> usd_balance (usd_account (app w))"

definition set_usd :: "f64 \<Rightarrow> 'n world \<Rightarrow> 'n world" where
  "set_usd b w = w\<lparr>app := app w\<lparr>usd_account := usd_account (app w)\<lparr>usd_balance := b\<rparr>\<rparr>\<rparr>"

definition set_btc :: "'n BtcAccount \<Rightarrow> 'n world \<Rightarrow> 'n world" where
  "set_btc a w = w\<lparr>app := app w\<lparr>btc_account := Some a\<rparr>\<rparr>"

text \<open>\<^verbatim>\<open>self.btc_account.as_mut().unwrap()\<close>.\<close>

definition get_btc :: "('n world, string, 'n BtcAccount) call" where
  "get_btc = sget (\<lambda>w. of_opt (btc_account (app w)))"

definition create_account :: "string \<Rightarrow> 'n MobileMoneyApp" where
  "create_account name =
     \<lparr>username = name,
      usd_account = \<lparr>account_number = ''29495683467'', usd_balance = f64_of_int 1000\<rparr>,
      btc_account = None\<rparr>"

definition create_btc_account :: "'n mm_env \<Rightarrow> ('n world, string, bool) call" where
  "create_btc_account env =
     (let address = ''bcrt1qlhwg8036lga3c2t4pmmc6wf49f8t0m5gshjzpj'' in
      sbind (sget (\<lambda>w. unwrap (create_node env (account_number (usd_account (app w)))))) (\<lambda>node.
      (case call_get_balance env node of (r, node') \<Rightarrow>
        sbind (slift (unwrap r)) (\<lambda>balance.
        sbind (smod (set_btc \<lparr>btc_address = address, btc_node = node',
            btc_balance = amount_to_btc env balance, current_rate = f64_of_int 0\<rparr>)) (\<lambda>_.
        say_done (''Address: '' @ address @ NL @ ''Account created'' @ NL))))))"

definition deposit :: "f64 \<Rightarrow> ('n world, string, bool) call" where
  "deposit amount =
     sbind (smod (\<lambda>w. set_usd (f64_add (usd_of w) amount) w)) (\<lambda>_.
     sbind (sget (\<lambda>w. Ok (usd_of w))) (\<lambda>b.
     say_done (''Amount deposited. New balance: '' @ display_f64 b @ NL)))"

definition insufficient_funds :: "('n world, string, bool) call" where
  "insufficient_funds = say_done (''Insufficient funds!'' @ NL)"

definition withdraw :: "f64 \<Rightarrow> ('n world, string, bool) call" where
  "withdraw amount =
     sbind (sget (\<lambda>w. Ok (usd_of w))) (\<lambda>balance.
     if f64_ge balance amount then
       sbind (smod (set_usd (f64_sub balance amount))) (\<lambda>_.
       sbind (sget (\<lambda>w. Ok (usd_of w))) (\<lambda>b.
       say_done (''Withdrew Ammount '' @ display_f64 amount @ ''. New balance: '' @ display_f64 b @ NL)))
     else insufficient_funds)"

definition send_btc :: "f64 \<Rightarrow> string \<Rightarrow> ('n world, string, bool) call" where
  "send_btc amount address =
     sbind get_btc (\<lambda>a.
     if f64_ge (btc_balance a) amount then
       sbind (smod (set_btc (a\<lparr>btc_balance := f64_sub (btc_balance a) amount\<rparr>))) (\<lambda>_.
       say_done (''Sent Amount: '' @ display_f64 amount @ ''btc to Address: '' @ address @ NL))
     else insufficient_funds)"

text \<open>A call of the loaded node, which keeps its state in the account.\<close>

definition on_node :: "('n, string, 'a) call \<Rightarrow> ('n world, string, 'a) call" where
  "on_node p =
     sbind get_btc (\<lambda>a. case p (btc_node a) of (r, node) \<Rightarrow>
     sbind (smod (set_btc (a\<lparr>btc_node := node\<rparr>))) (\<lambda>_. slift (unwrap r)))"

definition convert_offer :: "'n mm_env \<Rightarrow> ('n world, string, bool) call" where
  "convert_offer env =
     sbind (on_node (call_get_conversion_offer env)) (\<lambda>offer.
     (let output = ''Fee: '' @ show_nat 2 @ NL @ ''Rate: '' @ ob_rate offer @ NL @
            ''Settlement Time: '' @ show_nat (unat (ob_estimated_settlement_time offer)) @ NL @
            ''Id: '' @ ob_id offer @ NL in
      sbind (slift (of_opt (parse_f64 (ob_rate offer)))) (\<lambda>rate.
      sbind get_btc (\<lambda>a.
      sbind (smod (set_btc (a\<lparr>current_rate := rate\<rparr>))) (\<lambda>_.
      say_done output)))))"

definition convert :: "'n mm_env \<Rightarrow> string \<Rightarrow> f64 \<Rightarrow> ('n world, string, bool) call" where
  "convert env offer_id amount =
     sbind (sget (\<lambda>w. Ok (usd_of w))) (\<lambda>balance.
     if f64_ge balance amount then
       sbind (on_node (call_convert_amount env (display_f64 amount) offer_id)) (\<lambda>_.
       sbind (smod (set_usd (f64_sub balance amount))) (\<lambda>_.
       sbind get_btc (\<lambda>a.
       sbind (smod (set_btc (a\<lparr>btc_balance :=
           f64_add (btc_balance a) (f64_mul amount (current_rate a))\<rparr>))) (\<lambda>_.
       sbind get_btc (\<lambda>a'.
       sbind (sget (\<lambda>w. Ok (usd_of w))) (\<lambda>b.
       say_done (''Converted Amount '' @ display_f64 amount @ NL @
         ''New Btc balance: '' @ display_f64 (btc_balance a') @ NL @
         ''New Usd Balance: '' @ display_f64 b @ NL)))))))
     else insufficient_funds)"

definition check_balance :: "('n world, string, bool) call" where
  "check_balance =
     sbind (sget (\<lambda>w. Ok (app w))) (\<lambda>a.
     sbind (say (''Usd Balance: '' @ display_f64 (usd_balance (usd_account a)) @ NL)) (\<lambda>_.
     case btc_account a of
       Some btc \<Rightarrow> say_done (''Btc Balance: '' @ display_f64 (btc_balance btc) @ NL)
     | None \<Rightarrow> slift (Ok False)))"

section \<open>The loop\<close>

definition with_amount :: "ArgMatches \<Rightarrow> (f64 \<Rightarrow> ('n world, string, bool) call) \<Rightarrow> ('n world, string, bool) call" where
  "with_amount matches f =
     (case am_values matches ''amount'' of
        None \<Rightarrow> slift (Ok False)
      | Some amount \<Rightarrow>
          (case parse_f64 amount of None \<Rightarrow> slift (Ok False) | Some amount \<Rightarrow> f amount))"

definition with_word :: "ArgMatches \<Rightarrow> string \<Rightarrow> (string \<Rightarrow> ('n world, string, bool) call) \<Rightarrow> ('n world, string, bool) call" where
  "with_word matches name f =
     (case am_values matches name of None \<Rightarrow> slift (Ok False) | Some v \<Rightarrow> f v)"

definition respond :: "'n mm_env \<Rightarrow> string \<Rightarrow> ('n world, string, bool) call" where
  "respond env line =
     sbind (slift (case shlex_split env line of
         None \<Rightarrow> Err ''error: Invalid quoting'' | Some args \<Rightarrow> Ok args)) (\<lambda>args.
     sbind (slift (try_get_matches_from env repl_command args)) (\<lambda>matches.
     let sub = am_subcommand matches in
     if sub = ''deposit'' then with_amount matches deposit
     else if sub = ''withdraw'' then with_amount matches withdraw
     else if sub = ''convert'' then
       with_amount matches (\<lambda>amount. with_word matches ''offer_id'' (\<lambda>i. convert env i amount))
     else if sub = ''send_btc'' then
       with_amount matches (\<lambda>amount. with_word matches ''address'' (\<lambda>a. send_btc amount a))
     else if sub = ''balance'' then check_balance
     else if sub = ''convert_offer'' then convert_offer env
     else if sub = ''create_btc_account'' then create_btc_account env
     else if sub = ''quit'' then slift (Ok True)
     else slift (Ok False)))"

definition readline :: "('n world, string, string) call" where
  "readline =
     sbind (on_terminal (console_write_all ''$ '')) (\<lambda>_.
     sbind (on_terminal console_flush) (\<lambda>_.
     on_terminal console_read_line))"

text \<open>\<^verbatim>\<open>str::trim\<close>, on the white space of ASCII.\<close>

definition is_space :: "char \<Rightarrow> bool" where
  "is_space c = (let n = of_char c :: nat in 9 \<le> n \<and> n \<le> 13 \<or> n = 32)"

definition trim :: "string \<Rightarrow> string" where
  "trim s = rev (dropWhile is_space (rev (dropWhile is_space s)))"

definition report :: "string \<Rightarrow> ('n world, string, unit) call" where
  "report err =
     sbind (on_terminal (console_write_all err)) (\<lambda>_. on_terminal console_flush)"

text \<open>One round of the loop: \<open>None\<close> when it goes on, the result of the program otherwise.\<close>

definition repl_round :: "'n mm_env \<Rightarrow> 'n world \<Rightarrow> (string, unit) res option \<times> 'n world" where
  "repl_round env w = (case readline w of
       (Ok line, w1) \<Rightarrow>
         if trim line = [] then (None, w1)
         else (case respond env (trim line) w1 of
             (Ok quit, w2) \<Rightarrow> (if quit then Some (Ok ()) else None, w2)
           | (Err err, w2) \<Rightarrow> (case report err w2 of
                 (Ok _, w3) \<Rightarrow> (None, w3)
               | (Err e, w3) \<Rightarrow> (Some (Err e), w3)
               | (Panic, w3) \<Rightarrow> (Some Panic, w3))
           | (Panic, w2) \<Rightarrow> (Some Panic, w2))
     | (Err e, w1) \<Rightarrow> (Some (Err e), w1)
     | (Panic, w1) \<Rightarrow> (Some Panic, w1))"

text \<open>The loop, with the number of rounds that may be taken: \<open>None\<close> when they do not suffice.\<close>

fun repl :: "nat \<Rightarrow> 'n mm_env \<Rightarrow> 'n world \<Rightarrow> ((string, unit) res \<times> 'n world) option" where
  "repl 0 env w = None"
| "repl (Suc n) env w = (case repl_round env w of
       (None, w') \<Rightarrow> repl n env w'
     | (Some r, w') \<Rightarrow> Some (r, w'))"

definition main_program :: "nat \<Rightarrow> 'n mm_env \<Rightarrow> console \<Rightarrow> ((string, unit) res \<times> 'n world) option" where
  "main_program n env c = repl n env \<lparr>app = create_account ''demo_user'', terminal = c\<rparr>"

end
