(* ===== verification/Mobile_Money_Correct.thy ===== *)
theory Mobile_Money_Correct
  imports Mobile_Money
begin

text \<open>
  Properties of the mobile money example. An abstract account in whole dollars is what the program
  keeps when it is typed deposits and withdrawals; the balances are never below zero; and the
  behaviours the amounts are not checked for.
\<close>

section \<open>A terminal that takes everything\<close>

definition takes_all :: "console \<Rightarrow> bool" where
  "takes_all c = (\<forall>i t. host_write c i t = Ok (length t) \<and> host_flush c i = Ok ())"

lemma console_write_ok:
  "takes_all c \<Longrightarrow> console_write t c
     = (Ok (length t), c\<lparr>host_calls := host_calls c + 1, printed := printed c @ t\<rparr>)"
  by (simp add: console_write_def takes_all_def Let_def)

lemma console_write_all_ok:
  assumes "takes_all c"
  shows "\<exists>c'. console_write_all t c = (Ok (), c') \<and> takes_all c' \<and> stdin_lines c' = stdin_lines c"
proof (cases "t = []")
  case True
  then show ?thesis using assms by (simp add: console_write_all.simps)
next
  case False
  then show ?thesis
    using assms by (subst console_write_all.simps)
      (simp add: console_write_ok console_write_all.simps takes_all_def)
qed

lemma say_done_ok:
  assumes "takes_all (terminal w)"
  shows "\<exists>c. say_done t w = (Ok False, w\<lparr>terminal := c\<rparr>) \<and> takes_all c \<and> stdin_lines c = stdin_lines (terminal w)"
  using assms
  by (intro exI [of _ "(terminal w)\<lparr>host_calls := host_calls (terminal w) + 1, printed := printed (terminal w) @ t\<rparr>"])
    (simp add: say_done_def say_def on_terminal_def console_write_ok sbind_def, simp add: takes_all_def)

lemma readline_ok:
  assumes "takes_all (terminal w)"
  shows "\<exists>c. readline w = (case stdin_lines (terminal w) of [] \<Rightarrow> Ok [] | r # _ \<Rightarrow> r, w\<lparr>terminal := c\<rparr>)
      \<and> takes_all c \<and> stdin_lines c = tl (stdin_lines (terminal w))"
proof -
  obtain c where c: "console_write_all ''$ '' (terminal w) = (Ok (), c)" "takes_all c"
      "stdin_lines c = stdin_lines (terminal w)"
    using console_write_all_ok [OF assms] by blast
  then show ?thesis
    by (cases "stdin_lines (terminal w)")
      (auto simp: readline_def on_terminal_def sbind_def console_flush_def console_read_line_def takes_all_def)
qed

section \<open>Whole dollars\<close>

lemma usd_of_set_usd [simp]: "usd_of (set_usd b w) = b"
  by (simp add: set_usd_def)

lemma set_usd_terminal [simp]: "terminal (set_usd b w) = terminal w"
  by (simp add: set_usd_def)

lemma btc_set_usd [simp]: "btc_account (app (set_usd b w)) = btc_account (app w)"
  by (simp add: set_usd_def)

text \<open>What a command leaves: the result \<^verbatim>\<open>Ok(false)\<close>, the new balance, the rest as it was.\<close>

definition leaves :: "(string, bool) res \<times> 'n world \<Rightarrow> 'n world \<Rightarrow> f64 \<Rightarrow> bool" where
  "leaves r w b = (fst r = Ok False \<and> usd_of (snd r) = b
     \<and> btc_account (app (snd r)) = btc_account (app w) \<and> takes_all (terminal (snd r))
     \<and> stdin_lines (terminal (snd r)) = stdin_lines (terminal w))"

lemma say_done_leaves: "takes_all (terminal w) \<Longrightarrow> leaves (say_done t w) w (usd_of w)"
  using say_done_ok [of w t] by (auto simp: leaves_def)

lemma deposit_leaves:
  assumes "takes_all (terminal w)"
  shows "leaves (deposit x w) w (f64_add (usd_of w) x)"
  using say_done_leaves [of "set_usd (f64_add (usd_of w) x) w"] assms
  by (simp add: deposit_def sbind_def leaves_def)

lemma withdraw_leaves:
  assumes "takes_all (terminal w)"
  shows "leaves (withdraw x w) w (if f64_ge (usd_of w) x then f64_sub (usd_of w) x else usd_of w)"
  using say_done_leaves [of "set_usd (f64_sub (usd_of w) x) w"] say_done_leaves [of w] assms
  by (simp add: withdraw_def insufficient_funds_def sbind_def leaves_def)

section \<open>Orders and lines\<close>

datatype order = Deposit nat | Withdraw nat

fun order_amount :: "order \<Rightarrow> nat" where
  "order_amount (Deposit n) = n"
| "order_amount (Withdraw n) = n"

fun order_name :: "order \<Rightarrow> string" where
  "order_name (Deposit n) = ''deposit''"
| "order_name (Withdraw n) = ''withdraw''"

definition order_line :: "order \<Rightarrow> string" where
  "order_line x = order_name x @ '' '' @ show_nat (order_amount x)"

text \<open>The abstract account: a withdrawal that is not covered is refused.\<close>

fun keep_account :: "nat \<Rightarrow> order \<Rightarrow> nat" where
  "keep_account b (Deposit n) = b + n"
| "keep_account b (Withdraw n) = (if n \<le> b then b - n else b)"

fun deposited :: "order \<Rightarrow> nat" where
  "deposited (Deposit n) = n"
| "deposited (Withdraw n) = 0"

text \<open>
  What \<^verbatim>\<open>shlex\<close> and \<^verbatim>\<open>clap\<close> document: a line of plain words is split at the space, and a subcommand
  followed by its required argument is matched, the argument under its name.
\<close>

definition matches_order :: "order \<Rightarrow> ArgMatches \<Rightarrow> bool" where
  "matches_order x m = (am_subcommand m = order_name x \<and> am_values m ''amount'' = Some (show_nat (order_amount x)))"

definition documented_cli :: "'n mm_env \<Rightarrow> bool" where
  "documented_cli env = (
     (\<forall>x. shlex_split env (order_line x) = Some [order_name x, show_nat (order_amount x)] \<and>
       (\<exists>m. try_get_matches_from env repl_command [order_name x, show_nat (order_amount x)] = Ok m \<and> matches_order x m)) \<and>
     shlex_split env ''quit'' = Some [''quit''] \<and>
     (\<exists>m. try_get_matches_from env repl_command [''quit''] = Ok m \<and> am_subcommand m = ''quit''))"

lemma parse_f64_whole: "parse_f64 (show_nat n) = Some (f64_of_int (int n))"
proof -
  obtain c cs where c: "show_nat n = c # cs" by (meson neq_Nil_conv show_nat_nonempty)
  then have "is_digit c" using show_nat_digits [of c n] by simp
  then have "split_sign (show_nat n) = (False, show_nat n)" by (auto simp: split_sign_def c)
  moreover have "parse_decimal (show_nat n) = Some (n, 0)"
    using parse_decimal_digits(1) [of "show_nat n" "[]"] by (simp add: list_all_iff)
  ultimately show ?thesis
    by (simp add: parse_f64_def decimal_def f64_of_int_def dyadic_def)
qed

lemma respond_order:
  assumes "documented_cli env" and "takes_all (terminal w)" and "usd_of w = f64_of_int (int b)"
    and "int b \<le> MAX_WHOLE" and "int (keep_account b x) \<le> MAX_WHOLE" and "int (order_amount x) \<le> MAX_WHOLE"
  shows "leaves (respond env (order_line x) w) w (f64_of_int (int (keep_account b x)))"
proof -
  obtain m where m: "shlex_split env (order_line x) = Some [order_name x, show_nat (order_amount x)]"
      "try_get_matches_from env repl_command [order_name x, show_nat (order_amount x)] = Ok m" "matches_order x m"
    using assms(1) by (auto simp: documented_cli_def)
  show ?thesis
  proof (cases x)
    case (Deposit n)
    then have "respond env (order_line x) w = deposit (f64_of_int (int n)) w"
      using m by (simp add: respond_def sbind_def Let_def matches_order_def with_amount_def parse_f64_whole)
    then show ?thesis
      using deposit_leaves [OF assms(2), of "f64_of_int (int n)"] assms(3-6) Deposit add_of_int [of "int b" "int n"]
      by simp
  next
    case (Withdraw n)
    then have "respond env (order_line x) w = withdraw (f64_of_int (int n)) w"
      using m by (simp add: respond_def sbind_def Let_def matches_order_def with_amount_def parse_f64_whole)
    then show ?thesis
      using withdraw_leaves [OF assms(2), of "f64_of_int (int n)"] assms(3-6) Withdraw
        sub_of_int [of "int b" "int n"] ge_of_int [of "int b" "int n"]
      by (simp add: of_nat_diff split: if_splits)
  qed
qed

lemma trim_line:
  assumes "s \<noteq> []" and "\<not> is_space (hd s)" and "\<not> is_space (last s)"
  shows "trim (s @ NL) = s"
proof -
  have "dropWhile is_space (s @ NL) = s @ NL" using assms(1,2) by (cases s) simp_all
  moreover have "is_space (CHR 0x0A)" by (simp add: is_space_def)
  moreover have "dropWhile is_space (rev s) = rev s" using assms(1,3) by (cases s rule: rev_cases) simp_all
  ultimately show ?thesis by (simp add: trim_def NL_def)
qed

lemma digit_not_space: "is_digit c \<Longrightarrow> \<not> is_space c"
  by (auto simp: is_digit_def digit_val_def is_space_def Let_def split: if_splits)

lemma trim_order_line: "trim (order_line x @ NL) = order_line x"
proof (rule trim_line)
  show "order_line x \<noteq> []" by (simp add: order_line_def)
  show "\<not> is_space (hd (order_line x))" by (cases x) (simp_all add: order_line_def is_space_def)
  show "\<not> is_space (last (order_line x))"
    using show_nat_digits [OF last_in_set [OF show_nat_nonempty [of "order_amount x"]]]
    by (simp add: order_line_def digit_not_space)
qed

lemma trim_quit: "trim (''quit'' @ NL) = ''quit''"
  by (rule trim_line) (simp_all add: is_space_def)

lemma repl_quits:
  assumes "documented_cli env" and "takes_all (terminal w)" and "stdin_lines (terminal w) = [Ok (''quit'' @ NL)]"
  shows "\<exists>w'. repl (Suc n) env w = Some (Ok (), w') \<and> app w' = app w \<and> stdin_lines (terminal w') = []"
proof -
  obtain c where c: "readline w = (Ok (''quit'' @ NL), w\<lparr>terminal := c\<rparr>)" "stdin_lines c = []"
    using readline_ok [OF assms(2)] assms(3) by auto
  obtain m where "shlex_split env ''quit'' = Some [''quit'']"
      "try_get_matches_from env repl_command [''quit''] = Ok m" "am_subcommand m = ''quit''"
    using assms(1) by (auto simp: documented_cli_def)
  then have "respond env ''quit'' v = (Ok True, v)" for v
    by (simp add: respond_def sbind_def)
  then have "repl_round env w = (Some (Ok ()), w\<lparr>terminal := c\<rparr>)"
    unfolding repl_round_def c(1) prod.case res.case trim_quit by simp
  then show ?thesis using c(2) by simp
qed

lemma repl_orders:
  assumes "documented_cli env"
  shows "takes_all (terminal w) \<Longrightarrow> usd_of w = f64_of_int (int b)
    \<Longrightarrow> stdin_lines (terminal w) = map (\<lambda>x. Ok (order_line x @ NL)) xs @ [Ok (''quit'' @ NL)]
    \<Longrightarrow> int (b + sum_list (map deposited xs)) \<le> MAX_WHOLE \<Longrightarrow> \<forall>x \<in> set xs. int (order_amount x) \<le> MAX_WHOLE
    \<Longrightarrow> \<exists>w'. repl (Suc (length xs)) env w = Some (Ok (), w') \<and> usd_of w' = f64_of_int (int (foldl keep_account b xs))
          \<and> btc_account (app w') = btc_account (app w) \<and> stdin_lines (terminal w') = []"
proof (induction xs arbitrary: w b)
  case Nil
  then show ?case using repl_quits [OF assms, of w 0] by auto
next
  case (Cons x xs)
  obtain c where c: "readline w = (Ok (order_line x @ NL), w\<lparr>terminal := c\<rparr>)" "takes_all c"
      "stdin_lines c = map (\<lambda>x. Ok (order_line x @ NL)) xs @ [Ok (''quit'' @ NL)]"
    using readline_ok [OF Cons.prems(1)] Cons.prems(3) by auto
  have kept: "keep_account b x \<le> b + deposited x" by (cases x) auto
  have bounds: "int b \<le> MAX_WHOLE" "int (keep_account b x) \<le> MAX_WHOLE" "int (order_amount x) \<le> MAX_WHOLE"
      "int (keep_account b x + sum_list (map deposited xs)) \<le> MAX_WHOLE"
    using Cons.prems(4,5) kept by auto
  obtain w2 where w2: "respond env (order_line x) (w\<lparr>terminal := c\<rparr>) = (Ok False, w2)"
      "usd_of w2 = f64_of_int (int (keep_account b x))" "btc_account (app w2) = btc_account (app w)"
      "takes_all (terminal w2)" "stdin_lines (terminal w2) = stdin_lines c"
    using respond_order [OF assms, of "w\<lparr>terminal := c\<rparr>" b x] c(2) Cons.prems(2) bounds(1-3)
    by (auto simp: leaves_def prod_eq_iff)
  have "order_line x \<noteq> []" by (simp add: order_line_def)
  then have "repl_round env w = (None, w2)"
    unfolding repl_round_def c(1) prod.case res.case trim_order_line w2(1) by simp
  then have "repl (Suc (length (x # xs))) env w = repl (Suc (length xs)) env w2" by simp
  then show ?case
    using Cons.IH [OF w2(4,2)] w2(3,5) c(3) bounds(4) Cons.prems(5) by auto
qed

section \<open>The account the terminal keeps\<close>

text \<open>
  C40: Typing deposits and withdrawals of whole dollars and then \<^verbatim>\<open>quit\<close>, on a terminal that works, ends
  the program with the balance that the abstract account has after the same orders, exactly, as
  long as the deposits do not exceed the integers a floating-point number can hold; a withdrawal
  that is not covered is refused, every line is read, and no bitcoin account is made.\<close>

theorem repl_keeps_account:
  assumes "documented_cli env" and "takes_all c"
    and "stdin_lines c = map (\<lambda>x. Ok (order_line x @ NL)) xs @ [Ok (''quit'' @ NL)]"
    and "int (1000 + sum_list (map deposited xs)) \<le> MAX_WHOLE"
    and "\<forall>x \<in> set xs. int (order_amount x) \<le> MAX_WHOLE"
  shows "\<exists>w. main_program (Suc (length xs)) env c = Some (Ok (), w)
    \<and> usd_of w = f64_of_int (int (foldl keep_account 1000 xs))
    \<and> btc_account (app w) = None \<and> stdin_lines (terminal w) = []"
  unfolding main_program_def
  using repl_orders [OF assms(1), of "\<lparr>app = create_account ''demo_user'', terminal = c\<rparr>" 1000 xs] assms(2-5)
  by (simp add: create_account_def del: repl.simps)

text \<open>A command line that splits a line at its first space.\<close>

definition plain_env :: "unit mm_env" where
  "plain_env = \<lparr>env_OUT_DIR = None, engine_new = Ok (), add_wasi_to_linker = Ok (), add_http_to_linker = Ok (),
     preopened_dir = (\<lambda>_ _. Ok ()), instantiate_component = (\<lambda>_. Ok ()),
     call_constructor = (\<lambda>_ _. slift (Ok ())), call_get_balance = slift (Ok 0),
     call_get_conversion_offer = slift (Err []), call_convert_amount = (\<lambda>_ _. slift (Err [])),
     amount_to_btc = (\<lambda>_. f64_of_int 0),
     shlex_split = (\<lambda>s. let a = takeWhile (\<lambda>c. c \<noteq> CHR '' '') s; b = dropWhile (\<lambda>c. c \<noteq> CHR '' '') s
        in Some (if b = [] then [a] else [a, tl b])),
     try_get_matches_from = (\<lambda>_ args. case args of
        [] \<Rightarrow> Err ''no command''
      | a # bs \<Rightarrow> Ok \<lparr>am_subcommand = a, am_values = (\<lambda>n. if n = ''amount'' \<and> bs \<noteq> [] then Some (hd bs) else None)\<rparr>)\<rparr>"

definition plain_console :: "(string, string) res list \<Rightarrow> console" where
  "plain_console ls = \<lparr>stdin_lines = ls, printed = [], host_write = (\<lambda>_ t. Ok (length t)), host_flush = (\<lambda>_. Ok ()), host_calls = 0\<rparr>"

lemma plain_env_documented: "documented_cli plain_env"
proof -
  have "shlex_split plain_env (order_line x) = Some [order_name x, show_nat (order_amount x)]" for x
    by (cases x) (simp_all add: plain_env_def order_line_def)
  moreover have "\<exists>m. try_get_matches_from plain_env repl_command [order_name x, show_nat (order_amount x)] = Ok m \<and> matches_order x m" for x
    by (simp add: plain_env_def matches_order_def)
  ultimately show ?thesis
    by (simp add: documented_cli_def plain_env_def)
qed

theorem repl_keeps_account_witness:
  "\<exists>w. main_program 4 plain_env (plain_console
      [Ok (''deposit 500'' @ NL), Ok (''withdraw 2000'' @ NL), Ok (''withdraw 700'' @ NL), Ok (''quit'' @ NL)])
      = Some (Ok (), w)
    \<and> usd_of w = f64_of_int 800"
proof -
  let ?xs = "[Deposit 500, Withdraw 2000, Withdraw 700]"
  have ls: "map (\<lambda>x. Ok (order_line x @ NL)) ?xs @ [Ok (''quit'' @ NL)]
      = [Ok (''deposit 500'' @ NL), Ok (''withdraw 2000'' @ NL), Ok (''withdraw 700'' @ NL), Ok (''quit'' @ NL)]"
    by (simp add: order_line_def show_nat.simps digit_char_def, code_simp)
  have all: "takes_all (plain_console ls)" for ls by (simp add: takes_all_def plain_console_def)
  have lines: "stdin_lines (plain_console ls) = ls" for ls by (simp add: plain_console_def)
  have bal: "foldl keep_account 1000 ?xs = 800" by simp
  have "int (1000 + sum_list (map deposited ?xs)) \<le> MAX_WHOLE" "\<forall>x \<in> set ?xs. int (order_amount x) \<le> MAX_WHOLE"
    by (simp_all add: MAX_WHOLE_def)
  from repl_keeps_account [OF plain_env_documented all lines this]
  show ?thesis unfolding ls bal by (auto simp: numeral_eq_Suc simp del: repl.simps)
qed

section \<open>Balances are not below zero\<close>

definition solvent :: "'n MobileMoneyApp \<Rightarrow> bool" where
  "solvent a = (\<not> below_zero (usd_balance (usd_account a)) \<and>
     (case btc_account a of None \<Rightarrow> True
      | Some b \<Rightarrow> \<not> below_zero (btc_balance b) \<and> \<not> below_zero (current_rate b)))"

text \<open>The amounts typed, the rates offered and the balances of the node are not below zero.\<close>

definition no_negative_input :: "'n mm_env \<Rightarrow> bool" where
  "no_negative_input env = (
     (\<forall>b. \<not> below_zero (amount_to_btc env b)) \<and>
     (\<forall>n n' offer r. call_get_conversion_offer env n = (Ok offer, n') \<longrightarrow> parse_f64 (ob_rate offer) = Some r
        \<longrightarrow> \<not> below_zero r) \<and>
     (\<forall>args m a x. try_get_matches_from env repl_command args = Ok m \<longrightarrow> am_values m ''amount'' = Some a
        \<longrightarrow> parse_f64 a = Some x \<longrightarrow> \<not> below_zero x))"

lemma app_on_terminal [simp]: "app (snd (on_terminal p w)) = app w"
  by (simp add: on_terminal_def split: prod.splits)

lemma app_sbind_on_terminal:
  "(\<And>x v. app (snd (f x v)) = app v) \<Longrightarrow> app (snd (sbind (on_terminal p) f w)) = app w"
  using app_on_terminal [of p w] by (cases "on_terminal p w") (auto simp: sbind_def split: res.splits)

lemma app_say [simp]: "app (snd (say t w)) = app w"
  by (simp add: say_def app_sbind_on_terminal)

lemma app_say_done [simp]: "app (snd (say_done t w)) = app w"
  using app_say [of t w] by (cases "say t w") (auto simp: say_done_def sbind_def split: res.splits)

lemma app_readline [simp]: "app (snd (readline w)) = app w"
  by (simp add: readline_def app_sbind_on_terminal)

lemma app_report [simp]: "app (snd (report e w)) = app w"
  by (simp add: report_def app_sbind_on_terminal)

lemma below_zero_of_int: "0 \<le> z \<Longrightarrow> \<not> below_zero (f64_of_int z)"
  by (auto simp: f64_of_int_def dest: below_zero_dyadic)

lemma solvent_create_account: "solvent (create_account name)"
  by (simp add: solvent_def create_account_def below_zero_of_int)

lemma solvent_deposit:
  "solvent (app w) \<Longrightarrow> \<not> below_zero x \<Longrightarrow> solvent (app (snd (deposit x w)))"
  by (auto simp: deposit_def sbind_def set_usd_def solvent_def below_zero_add)

lemma solvent_withdraw: "solvent (app w) \<Longrightarrow> solvent (app (snd (withdraw x w)))"
  by (auto simp: withdraw_def insufficient_funds_def sbind_def set_usd_def solvent_def below_zero_sub)

lemma solvent_send_btc: "solvent (app w) \<Longrightarrow> solvent (app (snd (send_btc x t w)))"
  by (cases "btc_account (app w)")
    (auto simp: send_btc_def get_btc_def of_opt_def insufficient_funds_def sbind_def set_btc_def solvent_def below_zero_sub)

lemma solvent_sbind:
  assumes "solvent (app (snd (p w)))" and "\<And>x v. p w = (Ok x, v) \<Longrightarrow> solvent (app v) \<Longrightarrow> solvent (app (snd (f x v)))"
  shows "solvent (app (snd (sbind p f w)))"
  using assms by (cases "p w") (auto simp: sbind_def split: res.splits)

lemma solvent_check_balance: "solvent (app w) \<Longrightarrow> solvent (app (snd (check_balance w)))"
  unfolding check_balance_def
  by (intro solvent_sbind) (simp_all split: option.splits)

lemma btc_set_btc [simp]: "btc_account (app (set_btc a w)) = Some a"
  by (simp add: set_btc_def)

lemma usd_set_btc [simp]: "usd_account (app (set_btc a w)) = usd_account (app w)"
  by (simp add: set_btc_def)

lemma solvent_set_btc:
  "solvent (app w) \<Longrightarrow> \<not> below_zero (btc_balance a) \<Longrightarrow> \<not> below_zero (current_rate a) \<Longrightarrow> solvent (app (set_btc a w))"
  by (simp add: solvent_def)

lemma solvent_create_btc_account:
  assumes "no_negative_input env" and "solvent (app w)"
  shows "solvent (app (snd (create_btc_account env w)))"
proof -
  have "\<not> below_zero (amount_to_btc env b)" for b using assms(1) by (simp add: no_negative_input_def)
  then show ?thesis
    unfolding create_btc_account_def Let_def
    by (intro solvent_sbind) (simp_all add: assms(2) solvent_set_btc below_zero_of_int solvent_sbind split: prod.splits)
qed

lemma solvent_get_btc: "solvent (app w) \<Longrightarrow> solvent (app (snd (get_btc w)))"
  by (simp add: get_btc_def)

lemma solvent_btc: "solvent (app w) \<Longrightarrow> get_btc w = (Ok a, v) \<Longrightarrow> v = w \<and> \<not> below_zero (btc_balance a) \<and> \<not> below_zero (current_rate a)"
  by (auto simp: get_btc_def solvent_def)

lemma solvent_on_node: "solvent (app w) \<Longrightarrow> solvent (app (snd (on_node p w)))"
  unfolding on_node_def
  by (rule solvent_sbind, rule solvent_get_btc, assumption)
    (drule (1) solvent_btc, auto intro!: solvent_sbind simp: solvent_set_btc split: prod.splits)

lemma on_node_result:
  assumes "on_node p w = (Ok x, v)"
  shows "\<exists>n n'. p n = (Ok x, n')"
proof (cases "btc_account (app w)")
  case None
  then show ?thesis using assms by (simp add: on_node_def get_btc_def of_opt_def sbind_def)
next
  case (Some a)
  then show ?thesis
    using assms by (cases "p (btc_node a)") (auto simp: on_node_def get_btc_def of_opt_def sbind_def)
qed

lemma offered_rate:
  assumes "no_negative_input env" and "on_node (call_get_conversion_offer env) w = (Ok offer, v)"
    and "parse_f64 (ob_rate offer) = Some r"
  shows "\<not> below_zero r"
  using on_node_result [OF assms(2)] assms(1,3) unfolding no_negative_input_def by blast

lemma solvent_set_rate:
  assumes "solvent (app w)" and "\<not> below_zero r"
  shows "solvent (app (snd (sbind get_btc (\<lambda>a. sbind (smod (set_btc (a\<lparr>current_rate := r\<rparr>))) (\<lambda>_. say_done t)) w)))"
proof (rule solvent_sbind)
  show "solvent (app (snd (get_btc w)))" using assms(1) by (rule solvent_get_btc)
  fix a v assume "get_btc w = (Ok a, v)"
  from solvent_btc [OF assms(1) this]
  show "solvent (app (snd (sbind (smod (set_btc (a\<lparr>current_rate := r\<rparr>))) (\<lambda>_. say_done t) v)))"
    using assms by (simp add: sbind_def solvent_set_btc)
qed

lemma solvent_convert_offer:
  assumes "no_negative_input env" and "solvent (app w)"
  shows "solvent (app (snd (convert_offer env w)))"
  unfolding convert_offer_def Let_def
  by (rule solvent_sbind, rule solvent_on_node, rule assms(2), rule solvent_sbind)
    (auto intro!: solvent_set_rate dest: offered_rate [OF assms(1)])

lemma solvent_convert:
  assumes "solvent (app w)" and "\<not> below_zero x"
  shows "solvent (app (snd (convert env i x w)))"
proof (cases "f64_ge (usd_of w) x")
  case False
  then show ?thesis using assms(1) by (simp add: convert_def insufficient_funds_def sbind_def)
next
  case True
  note sub = below_zero_sub [OF True]
  show ?thesis
  proof (cases "on_node (call_convert_amount env (display_f64 x) i) w")
    case (Pair r v)
    have v: "solvent (app v)" using solvent_on_node [OF assms(1)] Pair by (metis snd_conv)
    show ?thesis
    proof (cases "\<exists>y. r = Ok y")
      case False
      then show ?thesis using True Pair v by (cases r) (simp_all add: convert_def sbind_def)
    next
      case ok: True
      let ?v = "set_usd (f64_sub (usd_of w) x) v"
      have sv: "solvent (app ?v)" using v sub by (simp add: solvent_def)
      have "convert env i x w = sbind get_btc (\<lambda>a.
         sbind (smod (set_btc (a\<lparr>btc_balance := f64_add (btc_balance a) (f64_mul x (current_rate a))\<rparr>))) (\<lambda>_.
         sbind get_btc (\<lambda>a'. sbind (sget (\<lambda>w. Ok (usd_of w))) (\<lambda>b.
         say_done (''Converted Amount '' @ display_f64 x @ NL @
           ''New Btc balance: '' @ display_f64 (btc_balance a') @ NL @
           ''New Usd Balance: '' @ display_f64 b @ NL))))) ?v"
        using True Pair ok by (auto simp: convert_def sbind_def)
      then show ?thesis
        using sv solvent_btc [OF sv] assms(2)
        by (cases "btc_account (app ?v)")
          (auto simp: get_btc_def of_opt_def sbind_def solvent_set_btc below_zero_add below_zero_mul)
    qed
  qed
qed

lemma solvent_with_amount:
  assumes "\<And>a x. am_values m ''amount'' = Some a \<Longrightarrow> parse_f64 a = Some x \<Longrightarrow> solvent (app (snd (f x w)))"
    and "solvent (app w)"
  shows "solvent (app (snd (with_amount m f w)))"
  using assms by (auto simp: with_amount_def split: option.splits)

lemma solvent_with_word:
  "(\<And>v. solvent (app (snd (f v w)))) \<Longrightarrow> solvent (app w) \<Longrightarrow> solvent (app (snd (with_word m n f w)))"
  by (simp add: with_word_def split: option.splits)

lemma solvent_respond:
  assumes "no_negative_input env" and "solvent (app w)"
  shows "solvent (app (snd (respond env line w)))"
proof (cases "\<exists>args m. shlex_split env line = Some args \<and> try_get_matches_from env repl_command args = Ok m")
  case False
  then show ?thesis
    using assms(2) by (auto simp: respond_def sbind_def split: option.splits res.splits)
next
  case True
  then obtain args m where m: "shlex_split env line = Some args" "try_get_matches_from env repl_command args = Ok m"
    by blast
  have amount: "\<not> below_zero x" if "am_values m ''amount'' = Some a" "parse_f64 a = Some x" for a x
    using assms(1) m(2) that unfolding no_negative_input_def by blast
  note ops = solvent_deposit [OF _ amount] solvent_convert [OF _ amount] solvent_withdraw solvent_send_btc
    solvent_check_balance solvent_convert_offer solvent_create_btc_account
  show ?thesis
    using assms by (simp add: respond_def sbind_def m Let_def)
      (auto intro!: solvent_with_amount solvent_with_word intro: ops)
qed

lemma solvent_repl_round:
  assumes "no_negative_input env" and "solvent (app w)"
  shows "solvent (app (snd (repl_round env w)))"
proof -
  obtain r v where rv: "readline w = (r, v)" by (rule prod.exhaust)
  have v: "solvent (app v)" using app_readline [of w] rv assms(2) by simp
  show ?thesis
  proof (cases r)
    case (Ok line)
    obtain q v2 where q: "respond env (trim line) v = (q, v2)" by (rule prod.exhaust)
    have v2: "solvent (app v2)" using solvent_respond [OF assms(1) v] q by (metis snd_conv)
    have rep: "solvent (app v3)" if "report e v2 = (t, v3)" for e t v3
      using app_report [of e v2] that v2 by simp
    show ?thesis
      using rv Ok q v v2 rep
      by (cases q) (auto simp: repl_round_def split: prod.splits res.splits)
  qed (use rv v in \<open>simp_all add: repl_round_def\<close>)
qed

lemma solvent_repl:
  assumes "no_negative_input env"
  shows "solvent (app w) \<Longrightarrow> repl n env w = Some (r, w') \<Longrightarrow> solvent (app w')"
proof (induction n arbitrary: w)
  case (Suc n)
  have "solvent (app (snd (repl_round env w)))" using solvent_repl_round [OF assms Suc.prems(1)] .
  then show ?case
    using Suc by (auto split: prod.splits option.splits)
qed simp

lemma main_program_solvent:
  "no_negative_input env \<Longrightarrow> main_program n env c = Some (r, w) \<Longrightarrow> solvent (app w)"
  using solvent_repl [of env "\<lparr>app = create_account ''demo_user'', terminal = c\<rparr>" n r w]
  by (simp add: main_program_def solvent_create_account)

section \<open>Amounts that are not checked\<close>

text \<open>Withdrawing a negative amount is a deposit that is not called one.\<close>

lemma negative_withdrawal_deposits:
  assumes "takes_all (terminal w)" and "usd_of w = f64_of_int (int b)" and "int (b + n) \<le> MAX_WHOLE"
  shows "leaves (withdraw (f64_of_int (- int n)) w) w (f64_of_int (int (b + n)))"
proof -
  have "f64_ge (f64_of_int (int b)) (f64_of_int (- int n))"
    using assms(3) by (simp add: ge_of_int)
  moreover have "f64_sub (f64_of_int (int b)) (f64_of_int (- int n)) = f64_of_int (int b - - int n)"
    using assms(3) by (intro sub_of_int) simp_all
  ultimately show ?thesis
    using withdraw_leaves [OF assms(1), of "f64_of_int (- int n)"] assms(2) by simp
qed

text \<open>
  A deposit of not-a-number, which \<^verbatim>\<open>parse\<close> accepts, makes the balance not-a-number; from then on
  every withdrawal and every further deposit leaves it so.
\<close>

lemma nan_is_parsed: "parse_f64 ''nan'' = Some NaN"
proof -
  have "map to_ascii_lowercase ''nan'' = ''nan''" by code_simp
  then show ?thesis
    by (simp add: parse_f64_def split_sign_def parse_decimal_def is_digit_def digit_val_def split_fraction_def del: list.map)
qed

lemma nan_deposit_locks:
  assumes "takes_all (terminal w)"
  shows "leaves (deposit NaN w) w NaN"
    and "usd_of w = NaN \<Longrightarrow> leaves (withdraw x w) w NaN" and "usd_of w = NaN \<Longrightarrow> leaves (deposit x w) w NaN"
proof -
  have "f64_add b NaN = NaN" for b by (cases b) simp_all
  then show "leaves (deposit NaN w) w NaN" using deposit_leaves [OF assms, of NaN] by simp
  show "leaves (withdraw x w) w NaN" if "usd_of w = NaN" using withdraw_leaves [OF assms, of x] that by simp
  show "leaves (deposit x w) w NaN" if "usd_of w = NaN" using deposit_leaves [OF assms, of x] that by simp
qed

text \<open>Sending bitcoin reduces the balance shown and does nothing with the node.\<close>

lemma send_btc_leaves_node:
  assumes "btc_account (app w) = Some a"
  shows "\<exists>b. btc_account (app (snd (send_btc x t w))) = Some (a\<lparr>btc_balance := b\<rparr>)"
proof (cases "f64_ge (btc_balance a) x")
  case True
  then show ?thesis
    using assms by (intro exI [of _ "f64_sub (btc_balance a) x"]) (simp add: send_btc_def get_btc_def sbind_def of_opt_def)
next
  case False
  then show ?thesis
    using assms by (intro exI [of _ "btc_balance a"])
      (simp add: send_btc_def get_btc_def sbind_def of_opt_def insufficient_funds_def)
qed

text \<open>A conversion before an offer was asked for takes the dollars and credits nothing.\<close>

lemma conversion_without_offer:
  assumes "btc_account (app w) = Some a" and "current_rate a = f64_of_int 0" and "btc_balance a = f64_of_int 0"
    and "usd_of w = f64_of_int (int b)" and "n \<le> b" and "int b \<le> MAX_WHOLE" and "takes_all (terminal w)"
    and "call_convert_amount env (display_f64 (f64_of_int (int n))) i (btc_node a) = (Ok s, node)"
  shows "\<exists>w'. convert env i (f64_of_int (int n)) w = (Ok False, w') \<and> usd_of w' = f64_of_int (int (b - n))
    \<and> (\<exists>a'. btc_account (app w') = Some a' \<and> btc_balance a' = f64_of_int 0)"
proof -
  let ?x = "f64_of_int (int n)"
  obtain m e where x: "?x = Finite False m e" using f64_of_int_value [of "int n"] assms(5,6) by auto
  have "f64_mul ?x (f64_of_int 0) = f64_zero False"
    by (simp add: x f64_of_int_zero f64_zero_def round_f64_def)
  then have credit: "f64_add (f64_of_int 0) (f64_mul ?x (f64_of_int 0)) = f64_of_int 0"
    by (simp add: f64_of_int_zero f64_zero_def signed_nat_def)
  have ge: "f64_ge (f64_of_int (int b)) ?x" using assms(5,6) by (simp add: ge_of_int)
  have debit: "f64_sub (f64_of_int (int b)) ?x = f64_of_int (int (b - n))"
    using assms(5,6) sub_of_int [of "int b" "int n"] by (simp add: of_nat_diff)
  define v where "v = set_btc (a\<lparr>btc_node := node, btc_balance := f64_of_int 0\<rparr>)
    (set_usd (f64_of_int (int (b - n))) (set_btc (a\<lparr>btc_node := node\<rparr>) w))"
  have "\<exists>t. convert env i ?x w = say_done t v"
    using assms(1-4,8) ge
    by (simp add: convert_def on_node_def get_btc_def of_opt_def sbind_def debit credit v_def)
      (rule exI, rule refl)
  moreover have "takes_all (terminal v)" using assms(7) by (simp add: v_def set_btc_def)
  ultimately show ?thesis
    using say_done_ok [of v] by (force simp: v_def)
qed

section \<open>The end of the input\<close>

text \<open>When no line is left the loop prompts again and again: no number of rounds ends it.\<close>

lemma repl_never_ends:
  "takes_all (terminal w) \<Longrightarrow> stdin_lines (terminal w) = [] \<Longrightarrow> repl n env w = None"
proof (induction n arbitrary: w)
  case (Suc n)
  obtain c where c: "readline w = (Ok [], w\<lparr>terminal := c\<rparr>)" "takes_all c" "stdin_lines c = []"
    using readline_ok [OF Suc.prems(1)] Suc.prems(2) by auto
  have "repl_round env w = (None, w\<lparr>terminal := c\<rparr>)"
    by (simp add: repl_round_def c(1) trim_def)
  then show ?case using Suc.IH [of "w\<lparr>terminal := c\<rparr>"] c(2,3) by simp
qed simp

end
