(* ===== verification/Spec2Isabelle.thy ===== *)
theory Spec2Isabelle
  imports Node_Send Node_Restore Wire_Types Wallet_Util Bits Latch Node_Helpers
    Coin_Selection_Tests Wire_Tests Util_Tests Mobile_Money_Correct
begin

text \<open>
  Verification of the Bitspend client, a light client for Bitcoin that runs as a WebAssembly
  component. Paths below are relative to \<^verbatim>\<open>src/\<close>.

  \<^bold>\<open>The program.\<close> A \<^emph>\<open>node\<close> (\<^verbatim>\<open>node/src/node.rs\<close>) owns a connection to one peer, a position in the
  block chain, a watch-only wallet, a signer and a key-value store. To answer a request it first
  \<^emph>\<open>synchronises\<close> (\<^verbatim>\<open>node/src/chain.rs\<close>): it asks the peer for headers in batches of up to 2000, for
  the compact filters of their blocks in ranges of 500 and the hashes of these filters, matches the
  scripts of the wallet against the filters, fetches the blocks that match and tells the wallet
  which outputs it received and which were spent. Messages travel over a socket
  (\<^verbatim>\<open>p2p.rs\<close>, \<^verbatim>\<open>tcpsocket.rs\<close>) in the peer-to-peer wire format (\<^verbatim>\<open>node/src/messages\<close>). A payment is
  built by the wallet (\<^verbatim>\<open>crates/wallet\<close>), which selects coins, and signed by the signer
  (\<^verbatim>\<open>crates/signer\<close>). After a request the node saves the position, the wallet, the signer and its
  configuration in the store (\<^verbatim>\<open>crates/kv\<close>), a log of entries in segment files with an index in
  memory; a later run restores them.

  \<^bold>\<open>Conventions.\<close> Theory \<open>Prelude\<close> has the result of a call with its three outcomes, a value, an
  error returned, a panic (an \<^verbatim>\<open>unwrap\<close>, an index out of range, an overflow of checked
  arithmetic), and the state-passing calls built on it; \<open>Maps\<close> the ordered and the hash map,
  which both implement one interface. Integers keep their width; \<^verbatim>\<open>usize\<close> has 32 bits, that of the
  WebAssembly target. A Rust \<^verbatim>\<open>String\<close> is its UTF-8 bytes or a list of characters.

  \<^bold>\<open>Parameters.\<close> Code outside the repository is an argument of the definitions that use it: SHA-256
  and SipHash; hexadecimal and base 58; keys, addresses, PSBTs, fees and dust limits of the crate
  \<^verbatim>\<open>bitcoin\<close>; \<^verbatim>\<open>bincode\<close>; the unstable sort; the order in which a \<^verbatim>\<open>HashMap\<close> is traversed; the
  host, that is its clocks, its random numbers, its sockets and its files. The files of the store
  are an explicit map from names to inodes to bytes, with a predicate that says which operations
  fail. Hypotheses on parameters state what their documentation says: a digest has 32 bytes,
  \<^verbatim>\<open>bincode\<close> decodes what it encoded, a monotonic clock increases.

  \<^bold>\<open>The wire format.\<close> \<open>Wire\<close> models \<^verbatim>\<open>util/serdes.rs\<close> and \<^verbatim>\<open>util/var_int.rs\<close>: readers over the bytes
  that are left and writers, with locales for a pair of them; every structure of the format
  interprets \<open>payload\<close>: what is written is read back whatever follows it, and the size function is
  exact. \<open>Hashes\<close> has hashes and the constants of the networks, \<open>Msg_Tx\<close> transactions,
  \<open>Msg_Block\<close> headers and blocks with the difficulty target and header validation, \<open>Msg_Net\<close> the
  other payloads, \<open>Message\<close> framing, checksum and dispatch. Shown: round trips for every message
  kind the reader knows; only payloads with the announced checksum are parsed; comparison of
  hashes is comparison of numbers; validation accepts exactly the headers its conditions name.
  \<open>Wire_Types\<close> shows that whatever bytes a peer sends, a message that is returned is well formed,
  and that a short message can be read as a list of any number of filter hashes.

  \<^bold>\<open>Filters.\<close> \<open>Block_Filter\<close> models \<^verbatim>\<open>util/block_filter.rs\<close>: the bit reader, Golomb-Rice decoding
  and the two queries. On a filter that encodes a set, a query answers for exactly that set.

  \<^bold>\<open>The wallet.\<close> \<open>Coin_Selection\<close> models branch and bound with its fallback, single random draw and
  the decision about change; a locale states what a selection algorithm promises, which the random
  draw fulfils and branch and bound passes on. Shown: what is selected covers target and fees and
  accounts for every unit of value; the search neither panics nor overflows and takes at most
  100000 steps, the number of tries in the source; values that do not reach the target are refused.
  \<open>Bnb_Search\<close> gives the search a reference recursion over inclusion and omission, shows that the
  loop with its in-place selection is that recursion, and that on up to 15 optional outputs, where
  the whole tree fits into the tries, it returns a selection of least value or reports that none
  exists.
  \<open>Wallet\<close> models the state and all operations with their exports, an invariant over all reachable
  wallets, the accounting of the transactions it builds, and insertion of outputs as an update of
  a map. \<open>Wallet_Util\<close> has the remaining helpers of the crate, \<open>Signer\<close> the signer.

  \<^bold>\<open>The store.\<close> \<open>KV_Entry\<close> models entries and keys, \<open>KV_Segments\<close> files and segments, \<open>KV_Store\<close> the
  directory, merging and the store. \<open>KV_Correct\<close> shows that between merges the store is a map,
  through an interface of which the store is an instance, also when operations fail; \<open>KV_Merge\<close>
  and \<open>KV_Write_Back\<close> treat the two halves of a merge, \<open>KV_Durable\<close> a restart: everything inserted
  is read back by a store started on the files, provided the segments are visited in the order of
  their identifiers, which the source does not ensure.

  \<^bold>\<open>The network and the chain.\<close> \<open>P2P\<close> models the connection, \<open>P2P_Correct\<close> shows when a wait ends,
  what it returns and what the handshake exchanges. The input of a peer is a list of segments of
  bytes, each with the error the stream reports when it is used up. Every loop that waits reads the
  monotonic clock, so the list of its readings bounds the loops; when it runs out the flag
  \<open>ho_exhausted\<close> is raised, and the theorems that promise a result say that the flag is down at the
  end. \<open>Chain\<close> models synchronisation, \<open>Chain_Correct\<close> shows what holds whenever it succeeds, and
  which block the requests for filters leave out. \<open>Ledger\<close> states what the wallet should know
  after blocks have been read, as a step on a map from outpoints to coins, and that the collected
  outputs take this step; \<open>Chain_Follow\<close> that a synchronisation with a peer that answers in time
  succeeds, for any number of batches, ranges and matching filters, and brings the wallet to the
  ledger of the blocks.

  \<^bold>\<open>The node.\<close> \<open>Node\<close> models the node with its exports, \<open>Node_Correct\<close> saving and the balance,
  \<open>Node_Restore\<close> that a node restored from the files is the node that was saved, \<open>Node_Follow\<close> that
  a request for the balance, with a peer that answers in time, returns the total of the ledger,
  \<open>Node_Send\<close> that a payment that succeeds is the one asked for and leaves the marks of the
  outputs it spends as they were.

  \<^bold>\<open>Small parts.\<close> \<open>Node_Error\<close> and \<open>Error_Text\<close> have the node's errors with their codes and texts,
  \<open>Bits\<close> the bit arrays of \<^verbatim>\<open>util/bits.rs\<close> as lists of bits, \<open>Latch\<close> the latch of \<^verbatim>\<open>util/latch.rs\<close>
  as a step relation over threads, with spurious wake-ups, timeouts and any choice of the thread
  that is notified.

  \<^bold>\<open>Helpers and unit tests.\<close> \<open>Node_Helpers\<close> has the clock helper, the fork heights and the debug
  texts of hashes and latch. \<open>Unit_Test\<close> represents a unit test as the result of its body, where a
  failed assertion is a panic. \<open>Coin_Selection_Tests\<close>, \<open>Wire_Tests\<close> and \<open>Util_Tests\<close> translate the
  repository's tests of coin selection, of the wire format, of bit arrays and of the latch, and
  show that they pass, for every source of random numbers and every sort where the test does not
  fix a seed; the tests that depend on a seed, a digest or a hexadecimal literal pass under
  hypotheses that state what the crate in question documents.

  \<^bold>\<open>Mobile money.\<close> \<open>F64\<close> and \<open>F64_Text\<close> model \<^verbatim>\<open>f64\<close> with integers: rounding, arithmetic, comparison,
  reading and printing, and show that results are canonical, that representable results are exact
  and that a printed number is read back. \<open>Mobile_Money\<close> models the example
  \<^verbatim>\<open>examples/mobile-money\<close>: accounts, commands and the loop on a terminal, with a number of rounds
  that suffices when it is one more than the lines typed before \<^verbatim>\<open>quit\<close>. \<open>Mobile_Money_Correct\<close> shows
  that the program keeps an abstract account in whole dollars, that no balance falls below zero
  without negative input, and what amounts that are not checked lead to.

  \<^bold>\<open>Not modelled.\<close> The bindings generated from the interface files, which move arguments through
  raw memory; the \<^verbatim>\<open>Debug\<close> output of the messages; lists of modules and re-exports, such as
  \<^verbatim>\<open>messages/mod.rs\<close>; tests that are commented out, and those of \<^verbatim>\<open>watch_wallet.rs\<close>, which call the
  constructor with two of its four arguments and do not compile; the test client
  \<^verbatim>\<open>client-test\<close>, which starts other programs; build scripts. The node that the mobile money example
  loads has an earlier interface than the one modelled here and is a parameter of it. Concurrency
  occurs only in the latch: the components run in one thread, and the wallet that chain and node
  share by reference count is one field of the chain.
\<close>

end
